(* ===== verification/Prelude.thy ===== *)
theory Prelude
  imports Main "HOL-Library.Word"
begin

unbundle bit_operations_syntax

text \<open>
  The prelude of the development: the faults a C++ operation of the program can end in,
  positional numbers (\<open>dval\<close>, a list of digits with the least significant digit
  first, which is how the big-number code lays out its blocks), the trimming of leading
  zeros, and generic facts on lists and machine words that several components share.
\<close>

section \<open>Faults\<close>

text \<open>
  \<open>Thrown m\<close> is \<^verbatim>\<open>throw "m"\<close> of the source; \<open>OutOfBounds\<close> is a
  read or a write of an array outside its length, which the source never checks;
  \<open>ArithTrap\<close> is the hardware trap of an integer division by zero; \<open>ShortRead\<close> is a
  read past the end of a file, whose result the source does not check and after which it
  goes on with indeterminate values; \<open>Diverges\<close> is a call that does not return.
\<close>

datatype fault = Thrown string | OutOfBounds | ArithTrap | ShortRead | Diverges

type_synonym 'a result = "fault + 'a"

text \<open>A call of a partial function: no value is a call that does not return.\<close>

fun returned :: "'a option \<Rightarrow> 'a result" where
  "returned (Some x) = Inr x"
| "returned None = Inl Diverges"

text \<open>Sequencing of two fallible steps: the first fault ends the computation.\<close>

fun bindR :: "'a result \<Rightarrow> ('a \<Rightarrow> 'b result) \<Rightarrow> 'b result" where
  "bindR (Inl e) f = Inl e"
| "bindR (Inr x) f = f x"

lemma bindR_cong [fundef_cong]:
  "r = r' \<Longrightarrow> (\<And>x. r' = Inr x \<Longrightarrow> f x = g x) \<Longrightarrow> bindR r f = bindR r' g"
  by (cases r') auto

lemma bindR_eq_Inr_iff: "bindR r f = Inr y \<longleftrightarrow> (\<exists>x. r = Inr x \<and> f x = Inr y)"
  by (cases r) auto

text \<open>Reading and writing an array cell, with the bounds the source does not check.\<close>

definition read_at :: "'a list \<Rightarrow> nat \<Rightarrow> 'a result" where
  "read_at xs i = (if i < length xs then Inr (xs ! i) else Inl OutOfBounds)"

definition write_at :: "'a list \<Rightarrow> nat \<Rightarrow> 'a \<Rightarrow> 'a list result" where
  "write_at xs i v = (if i < length xs then Inr (xs[i := v]) else Inl OutOfBounds)"

lemma read_at_in [simp]: "i < length xs \<Longrightarrow> read_at xs i = Inr (xs ! i)"
  by (simp add: read_at_def)

lemma write_at_in [simp]: "i < length xs \<Longrightarrow> write_at xs i v = Inr (xs[i := v])"
  by (simp add: write_at_def)

section \<open>Positional numbers\<close>

text \<open>The value of a list of digits, least significant first, in the base \<open>b\<close>.\<close>

fun dval :: "nat \<Rightarrow> nat list \<Rightarrow> nat" where
  "dval b [] = 0"
| "dval b (d # ds) = d + b * dval b ds"

named_theorems dval_simps

lemma dval_append [dval_simps]: "dval b (xs @ ys) = dval b xs + b ^ length xs * dval b ys"
  by (induction xs) (simp_all add: algebra_simps)

lemma dval_replicate_0 [simp]: "dval b (replicate n 0) = 0"
  by (induction n) simp_all

lemma dval_less: "\<forall>d \<in> set ds. d < b \<Longrightarrow> dval b ds < b ^ length ds"
proof (induction ds)
  case Nil
  then show ?case by simp
next
  case (Cons d ds)
  then have "d < b" and "dval b ds + 1 \<le> b ^ length ds" by auto
  then have "d + b * dval b ds < b * (dval b ds + 1)" by simp
  also have "\<dots> \<le> b * b ^ length ds"
    using \<open>dval b ds + 1 \<le> b ^ length ds\<close> by (rule mult_le_mono2)
  finally show ?case by simp
qed

lemma dval_take_Suc:
  "k < length ds \<Longrightarrow> dval b (take (Suc k) ds) = dval b (take k ds) + b ^ k * ds ! k"
  by (simp add: take_Suc_conv_app_nth dval_append)

lemma dval_split: "dval b ds = dval b (take k ds) + b ^ min k (length ds) * dval b (drop k ds)"
  using dval_append [of b "take k ds" "drop k ds"] by (simp add: min.commute)

lemma dval_ge_last: "ds \<noteq> [] \<Longrightarrow> last ds \<noteq> 0 \<Longrightarrow> b ^ (length ds - 1) \<le> dval b ds"
proof -
  assume ne: "ds \<noteq> []" and l: "last ds \<noteq> 0"
  have "dval b ds = dval b (butlast ds) + b ^ (length ds - 1) * last ds"
    using dval_append [of b "butlast ds" "[last ds]"] ne by simp
  moreover have "b ^ (length ds - 1) \<le> b ^ (length ds - 1) * last ds"
    using l by (cases "last ds") simp_all
  ultimately show ?thesis by linarith
qed

lemma dval_inj_len:
  "length xs = length ys \<Longrightarrow> \<forall>d \<in> set xs. d < b \<Longrightarrow> \<forall>d \<in> set ys. d < b \<Longrightarrow>
   dval b xs = dval b ys \<Longrightarrow> xs = ys"
proof (induction xs ys rule: list_induct2)
  case Nil
  then show ?case by simp
next
  case (Cons x xs y ys)
  then have "x < b" "y < b" and eq: "x + b * dval b xs = y + b * dval b ys" by auto
  then have "x = y" by (metis mod_less mod_mult_self2)
  with eq \<open>x < b\<close> have "dval b xs = dval b ys" by simp
  with Cons \<open>x = y\<close> show ?case by simp
qed

section \<open>Machine words\<close>

lemma unat_ucast_mod: "unat (ucast (w::'a::len word) :: 'b::len word) = unat w mod 2 ^ LENGTH('b)"
  by (simp add: unsigned_ucast_eq take_bit_eq_mod)

lemma unat_ucast_up:
  assumes "LENGTH('a::len) \<le> LENGTH('b::len)"
  shows "unat (ucast (w::'a word) :: 'b word) = unat w"
proof -
  have "unat w < 2 ^ LENGTH('a)" by (rule unsigned_less)
  also have "\<dots> \<le> 2 ^ LENGTH('b)" using assms by (intro power_increasing) auto
  finally show ?thesis by (simp add: unat_ucast_mod)
qed

text \<open>Signed and unsigned readings of a word.\<close>

lemma uint_mod_sint: "uint (w::'a::len word) = sint w mod 2 ^ LENGTH('a)"
  by (simp add: uint_sint take_bit_eq_mod)

lemma half_power_len: "(2::int) ^ (LENGTH('a::len) - Suc 0) < 2 ^ LENGTH('a)"
  by (intro power_strict_increasing) auto

lemma unat_nonneg_sint:
  fixes w :: "'a::len word"
  assumes "0 \<le> sint w"
  shows "int (unat w) = sint w"
proof -
  have "sint w < 2 ^ LENGTH('a)" using sint_less [of w] half_power_len [where 'a = 'a] by linarith
  then show ?thesis using assms uint_mod_sint [of w] by simp
qed

lemma unat_uminus_neg_sint:
  fixes w :: "'a::len word"
  assumes "sint w < 0"
  shows "int (unat (- w)) = - sint w"
proof -
  have "uint (- w) = (- sint w) mod 2 ^ LENGTH('a)"
    by (simp add: uint_word_ariths uint_mod_sint [of w] mod_minus_eq)
  moreover have "- sint w < 2 ^ LENGTH('a)"
    using sint_greater_eq [of w] half_power_len [where 'a = 'a] by linarith
  ultimately show ?thesis using assms by simp
qed

lemma push_bit_1_eq_0_iff:
  fixes b :: "32 word"
  assumes "sint b < 0"
  shows "push_bit 1 b = 0 \<longleftrightarrow> sint b = - (2 ^ 31)"
proof -
  have u: "uint b = sint b + 2 ^ 32"
  proof -
    have "uint b = (sint b + 2 ^ 32) mod 2 ^ 32" using uint_mod_sint [of b] by simp
    moreover have "0 \<le> sint b + 2 ^ 32" "sint b + 2 ^ 32 < 2 ^ 32"
      using sint_greater_eq [of b] assms by auto
    ultimately show ?thesis by (metis mod_pos_pos_trivial)
  qed
  have r: "- (2 ^ 31) \<le> sint b" using sint_greater_eq [of b] by simp
  have "push_bit 1 b = 0 \<longleftrightarrow> uint (push_bit 1 b) = 0" by (simp add: unsigned_eq_0_iff)
  also have "uint (push_bit 1 b) = (2 * uint b) mod 2 ^ 32"
    by (simp add: push_bit_eq_mult uint_word_ariths mult.commute)
  also have "\<dots> = (2 * sint b + 2 ^ 32) mod 2 ^ 32"
  proof -
    have "2 * uint b = (2 * sint b + 2 ^ 32) + 2 ^ 32" using u by simp
    then show ?thesis by (metis mod_add_self2)
  qed
  also have "\<dots> = 2 * sint b + 2 ^ 32" using r assms by (intro mod_pos_pos_trivial) auto
  also have "\<dots> = 0 \<longleftrightarrow> sint b = - (2 ^ 31)" by auto
  finally show ?thesis .
qed

lemma sint_word_of_int:
  assumes "- (2 ^ (LENGTH('a::len) - 1)) \<le> i" "i < 2 ^ (LENGTH('a) - 1)"
  shows "sint (word_of_int i :: 'a word) = i"
proof -
  obtain n where n: "LENGTH('a) = Suc n" by (metis len_gt_0 gr0_implies_Suc)
  then have "signed_take_bit n i = i" using assms by (intro signed_take_bit_int_eq_self) simp_all
  then show ?thesis using n by (simp add: signed_of_int)
qed

end
