(* ===== verification/BigUint.thy ===== *)
theory BigUint
  imports Prelude
begin

text \<open>
  The arbitrary-precision unsigned integers of \<^verbatim>\<open>libs/utillib/biguint.h\<close> and
  \<^verbatim>\<open>biguint.cpp\<close>: the block store, the conversions from and to machine
  integers, comparison, addition, subtraction, multiplication, division, bit operations
  and shifts, each as the source's loop over 64-bit blocks.

  A store is its \<open>capacity\<close> and its first \<^verbatim>\<open>len\<close> blocks (\<open>blk\<close>, least
  significant first), so \<^verbatim>\<open>len\<close> is the length of the list. The blocks between
  \<^verbatim>\<open>len\<close> and \<^verbatim>\<open>capacity\<close> are never read by the source before it writes
  them. Block counts are natural numbers: the source counts blocks in 32 bits, which would
  wrap at numbers of 32 GB. A method that writes to \<^verbatim>\<open>*this\<close> takes the old
  object as its first argument, because the capacity of the result depends on it.
\<close>

section \<open>The block store\<close>

record 'a BigNumStore =
  capacity :: nat
  blk :: "'a list"

type_synonym block = "64 word"
type_synonym biguint = "block BigNumStore"

abbreviation len :: "('a, 'z) BigNumStore_scheme \<Rightarrow> nat" where
  "len s \<equiv> length (blk s)"

definition N :: nat where
  "N = 64"

definition store_empty :: "'a BigNumStore" where
  "store_empty = \<lparr>capacity = 0, blk = []\<rparr>"

definition store_of :: "'a list \<Rightarrow> 'a BigNumStore" where
  "store_of b = \<lparr>capacity = length b, blk = b\<rparr>"

definition store_copy :: "'a BigNumStore \<Rightarrow> 'a BigNumStore" where
  "store_copy x = \<lparr>capacity = len x, blk = blk x\<rparr>"

definition allocate :: "nat \<Rightarrow> 'a BigNumStore \<Rightarrow> 'a BigNumStore" where
  "allocate sz s = (if sz > capacity s then s\<lparr>capacity := sz\<rparr> else s)"

definition allocateAndCopy :: "nat \<Rightarrow> 'a BigNumStore \<Rightarrow> 'a BigNumStore" where
  "allocateAndCopy sz s = (if sz > capacity s then s\<lparr>capacity := sz, blk := blk s\<rparr> else s)"

definition store_assign :: "'a BigNumStore \<Rightarrow> 'a BigNumStore \<Rightarrow> 'a BigNumStore" where
  "store_assign this x = (allocate (len x) this)\<lparr>blk := blk x\<rparr>"

fun store_eq_loop :: "'a list \<Rightarrow> 'a list \<Rightarrow> bool" where
  "store_eq_loop (x # xs) (y # ys) = (if x \<noteq> y then False else store_eq_loop xs ys)"
| "store_eq_loop _ _ = True"

definition store_eq :: "'a BigNumStore \<Rightarrow> 'a BigNumStore \<Rightarrow> bool" where
  "store_eq s x = (if len s \<noteq> len x then False else store_eq_loop (blk s) (blk x))"

function trimLeadingZeros :: "'a::zero list \<Rightarrow> 'a list" where
  "trimLeadingZeros xs =
     (if xs \<noteq> [] \<and> last xs = 0 then trimLeadingZeros (butlast xs) else xs)"
  by pat_completeness auto
termination
  by (relation "measure length") auto

declare trimLeadingZeros.simps [simp del]

section \<open>Conversions from and to machine integers\<close>

definition biguint_of_blocks :: "block list \<Rightarrow> biguint" where
  "biguint_of_blocks b = (store_of b)\<lparr>blk := trimLeadingZeros b\<rparr>"

definition biguint_of_uint64 :: "64 word \<Rightarrow> biguint" where
  "biguint_of_uint64 x = (if x \<noteq> 0 then \<lparr>capacity = 1, blk = [x]\<rparr> else store_empty)"

definition biguint_of_uint32 :: "32 word \<Rightarrow> biguint" where
  "biguint_of_uint32 x = (if x \<noteq> 0 then \<lparr>capacity = 1, blk = [ucast x]\<rparr> else store_empty)"

definition biguint_of_uint16 :: "16 word \<Rightarrow> biguint" where
  "biguint_of_uint16 x = (if x \<noteq> 0 then \<lparr>capacity = 1, blk = [ucast x]\<rparr> else store_empty)"

definition msg_negative :: string where
  "msg_negative = ''Cannot convert from negative number.''"

definition biguint_of_int64 :: "64 word \<Rightarrow> biguint result" where
  "biguint_of_int64 x =
     (if sint x < 0 then Inl (Thrown msg_negative)
      else if x \<noteq> 0 then Inr \<lparr>capacity = 1, blk = [x]\<rparr> else Inr store_empty)"

definition biguint_of_int32 :: "32 word \<Rightarrow> biguint result" where
  "biguint_of_int32 x =
     (if sint x < 0 then Inl (Thrown msg_negative)
      else if x \<noteq> 0 then Inr \<lparr>capacity = 1, blk = [scast x]\<rparr> else Inr store_empty)"

definition biguint_of_int16 :: "16 word \<Rightarrow> biguint result" where
  "biguint_of_int16 x =
     (if sint x < 0 then Inl (Thrown msg_negative)
      else if x \<noteq> 0 then Inr \<lparr>capacity = 1, blk = [scast x]\<rparr> else Inr store_empty)"

text \<open>
  \<^verbatim>\<open>convertToPrimitive<X>\<close>: the cast \<^verbatim>\<open>X(blk[0])\<close> keeps the low bits;
  the cast back to 64 bits extends with zeros for an unsigned \<^verbatim>\<open>X\<close> and with the
  sign for a signed one.
\<close>

definition msg_too_big :: string where
  "msg_too_big = ''biguint_t::to<Primitive>: Value is too big to fit in the requested type''"

definition convertToPrimitive :: "('x::len word \<Rightarrow> 64 word) \<Rightarrow> biguint \<Rightarrow> 'x word result" where
  "convertToPrimitive back s =
     (if len s = 0 then Inr 0
      else if len s = 1 then
        (let x = ucast (blk s ! 0)
         in if back x = blk s ! 0 then Inr x else Inl (Thrown msg_too_big))
      else Inl (Thrown msg_too_big))"

definition biguint_convertToSignedPrimitive :: "biguint \<Rightarrow> 'x::len word result" where
  "biguint_convertToSignedPrimitive s =
     bindR (convertToPrimitive (scast :: 'x word \<Rightarrow> 64 word) s)
       (\<lambda>x. if 0 \<le> sint x then Inr x
            else Inl (Thrown ''biguint_t::to(Primitive): Value is too big to fit in the requested type''))"

definition biguint_to_ulong :: "biguint \<Rightarrow> 64 word result" where
  "biguint_to_ulong = convertToPrimitive ucast"

definition biguint_to_uint :: "biguint \<Rightarrow> 32 word result" where
  "biguint_to_uint = convertToPrimitive ucast"

definition biguint_to_long :: "biguint \<Rightarrow> 64 word result" where
  "biguint_to_long = biguint_convertToSignedPrimitive"

definition biguint_to_int :: "biguint \<Rightarrow> 32 word result" where
  "biguint_to_int = biguint_convertToSignedPrimitive"

section \<open>Blocks and bits\<close>

definition getBlock :: "biguint \<Rightarrow> nat \<Rightarrow> block" where
  "getBlock s i = (if i \<ge> len s then 0 else blk s ! i)"

definition setBlock :: "biguint \<Rightarrow> nat \<Rightarrow> block \<Rightarrow> biguint" where
  "setBlock s i newBlock =
     (if newBlock = 0 then
        (if i < len s then s\<lparr>blk := trimLeadingZeros ((blk s)[i := 0])\<rparr> else s)
      else if i \<ge> len s then
        (allocateAndCopy (i + 1) s)\<lparr>blk := blk s @ replicate (i - len s) 0 @ [newBlock]\<rparr>
      else s\<lparr>blk := (blk s)[i := newBlock]\<rparr>)"

definition getBit :: "biguint \<Rightarrow> nat \<Rightarrow> bool" where
  "getBit s bi = (getBlock s (bi div N) AND push_bit (bi mod N) 1 \<noteq> 0)"

definition setBit :: "biguint \<Rightarrow> nat \<Rightarrow> bool \<Rightarrow> biguint" where
  "setBit s bi newBit =
     (let blockI = bi div N; block = getBlock s blockI; mask = push_bit (bi mod N) 1;
          block' = (if newBit then block OR mask else block AND NOT mask)
      in setBlock s blockI block')"

function bitLength_loop :: "block \<Rightarrow> nat \<Rightarrow> nat" where
  "bitLength_loop x n = (if x \<noteq> 0 then bitLength_loop (drop_bit 1 x) (n + 1) else n)"
  by pat_completeness auto
termination
proof (relation "measure (\<lambda>(x, n). unat x)")
  fix x :: block and n :: nat
  assume "x \<noteq> 0"
  then have "0 < unat x" by (simp add: unat_gt_0)
  moreover have "unat (drop_bit 1 x) = unat x div 2"
    by (simp add: drop_bit_eq_div unat_div)
  ultimately show "((drop_bit 1 x, n + 1), x, n) \<in> measure (\<lambda>(x, n). unat x)" by simp
qed simp

declare bitLength_loop.simps [simp del]

definition bitLength :: "biguint \<Rightarrow> nat" where
  "bitLength s =
     (if len s = 0 then 0
      else bitLength_loop (getBlock s (len s - 1)) 0 + (len s - 1) * N)"

section \<open>Comparison\<close>

fun compare_loop :: "nat \<Rightarrow> block list \<Rightarrow> block list \<Rightarrow> int" where
  "compare_loop 0 xs ys = 0"
| "compare_loop (Suc i) xs ys =
     (if xs ! i = ys ! i then compare_loop i xs ys
      else if xs ! i > ys ! i then 1 else -1)"

definition biguint_compareTo :: "biguint \<Rightarrow> biguint \<Rightarrow> int" where
  "biguint_compareTo s x =
     (if len s < len x then -1 else if len s > len x then 1
      else compare_loop (len s) (blk s) (blk x))"

section \<open>Addition and subtraction\<close>

text \<open>The body of the block loops of \<^verbatim>\<open>add\<close> and \<^verbatim>\<open>multiply\<close>.\<close>

definition add_block :: "block \<Rightarrow> block \<Rightarrow> bool \<Rightarrow> block \<times> bool" where
  "add_block x y carryIn =
     (let temp = x + y; carryOut = (temp < x)
      in if carryIn then (temp + 1, carryOut \<or> temp + 1 = 0) else (temp, carryOut))"

fun add_carry_loop :: "block list \<Rightarrow> bool \<Rightarrow> block list" where
  "add_carry_loop xs False = xs"
| "add_carry_loop [] True = [1]"
| "add_carry_loop (x # xs) True = (x + 1) # add_carry_loop xs (x + 1 = 0)"

fun add_loop :: "block list \<Rightarrow> block list \<Rightarrow> bool \<Rightarrow> block list" where
  "add_loop (x # xs) (y # ys) carryIn =
     (case add_block x y carryIn of (temp, carryOut) \<Rightarrow> temp # add_loop xs ys carryOut)"
| "add_loop xs _ carryIn = add_carry_loop xs carryIn"

definition biguint_add :: "biguint \<Rightarrow> biguint \<Rightarrow> biguint \<Rightarrow> biguint" where
  "biguint_add this a b =
     (if len a = 0 then store_assign this b
      else if len b = 0 then store_assign this a
      else (let (a2, b2) = (if len a \<ge> len b then (a, b) else (b, a))
            in (allocate (len a2 + 1) this)\<lparr>blk := add_loop (blk a2) (blk b2) False\<rparr>))"

text \<open>The body of the block loops of \<^verbatim>\<open>subtract\<close> and \<^verbatim>\<open>divide\<close>.\<close>

definition sub_block :: "block \<Rightarrow> block \<Rightarrow> bool \<Rightarrow> block \<times> bool" where
  "sub_block x y borrowIn =
     (let temp = x - y; borrowOut = (temp > x)
      in if borrowIn then (temp - 1, borrowOut \<or> temp = 0) else (temp, borrowOut))"

fun sub_borrow_loop :: "block list \<Rightarrow> bool \<Rightarrow> block list \<times> bool" where
  "sub_borrow_loop xs False = (xs, False)"
| "sub_borrow_loop [] True = ([], True)"
| "sub_borrow_loop (x # xs) True =
     (case sub_borrow_loop xs (x = 0) of (zs, borrow) \<Rightarrow> ((x - 1) # zs, borrow))"

fun sub_loop :: "block list \<Rightarrow> block list \<Rightarrow> bool \<Rightarrow> block list \<times> bool" where
  "sub_loop (x # xs) (y # ys) borrowIn =
     (case sub_block x y borrowIn of (temp, borrowOut) \<Rightarrow>
        (case sub_loop xs ys borrowOut of (zs, borrow) \<Rightarrow> (temp # zs, borrow)))"
| "sub_loop xs _ borrowIn = sub_borrow_loop xs borrowIn"

definition msg_sub_negative :: string where
  "msg_sub_negative = ''biguint_t::subtract: Negative result in unsigned calculation''"

definition biguint_subtract :: "biguint \<Rightarrow> biguint \<Rightarrow> biguint \<Rightarrow> biguint result" where
  "biguint_subtract this a b =
     (if len b = 0 then Inr (store_assign this a)
      else if len a < len b then Inl (Thrown msg_sub_negative)
      else (case sub_loop (blk a) (blk b) False of (zs, borrowIn) \<Rightarrow>
              if borrowIn then Inl (Thrown msg_sub_negative)
              else Inr ((allocate (len a) this)\<lparr>blk := trimLeadingZeros zs\<rparr>)))"

section \<open>Multiplication\<close>

definition getShiftedBlock :: "block list \<Rightarrow> nat \<Rightarrow> nat \<Rightarrow> block" where
  "getShiftedBlock num x y =
     (let part1 = (if x = 0 \<or> y = 0 then 0 else drop_bit (N - y) (num ! (x - 1)));
          part2 = (if x = length num then 0 else push_bit y (num ! x))
      in part1 OR part2)"

text \<open>Adding \<open>b\<close>, shifted left by \<open>i2\<close> bits, onto the blocks from \<open>k\<close> on.\<close>

function mul_add_loop ::
    "block list \<Rightarrow> nat \<Rightarrow> nat \<Rightarrow> nat \<Rightarrow> bool \<Rightarrow> block list \<Rightarrow> (block list \<times> nat \<times> bool) result" where
  "mul_add_loop b i2 j k carryIn arr =
     (if j \<le> length b then
        bindR (read_at arr k) (\<lambda>x.
          case add_block x (getShiftedBlock b j i2) carryIn of (temp, carryOut) \<Rightarrow>
            bindR (write_at arr k temp) (\<lambda>arr'.
              mul_add_loop b i2 (Suc j) (Suc k) carryOut arr'))
      else Inr (arr, k, carryIn))"
  by pat_completeness auto
termination
  by (relation "measure (\<lambda>(b, i2, j, k, c, arr). Suc (length b) - j)") auto

function mul_carry_loop :: "nat \<Rightarrow> bool \<Rightarrow> block list \<Rightarrow> block list result" where
  "mul_carry_loop k carryIn arr =
     (if carryIn then
        bindR (read_at arr k) (\<lambda>x.
          bindR (write_at arr k (x + 1)) (\<lambda>arr'. mul_carry_loop (Suc k) (x + 1 = 0) arr'))
      else Inr arr)"
  by pat_completeness auto
termination
  by (relation "measure (\<lambda>(k, c, arr). length arr - k)")
    (auto simp: read_at_def write_at_def split: if_splits)

function mul_bits_loop :: "block \<Rightarrow> block list \<Rightarrow> nat \<Rightarrow> nat \<Rightarrow> block list \<Rightarrow> block list result" where
  "mul_bits_loop ai b i i2 arr =
     (if i2 < N then
        (if ai AND push_bit i2 1 = 0 then mul_bits_loop ai b i (Suc i2) arr
         else bindR (mul_add_loop b i2 0 i False arr) (\<lambda>(arr', k, carryIn).
                bindR (mul_carry_loop k carryIn arr') (\<lambda>arr''. mul_bits_loop ai b i (Suc i2) arr'')))
      else Inr arr)"
  by pat_completeness auto
termination
  by (relation "measure (\<lambda>(ai, b, i, i2, arr). N - i2)") auto

function mul_blocks_loop :: "block list \<Rightarrow> block list \<Rightarrow> nat \<Rightarrow> block list \<Rightarrow> block list result" where
  "mul_blocks_loop a b i arr =
     (if i < length a then
        bindR (mul_bits_loop (a ! i) b i 0 arr) (\<lambda>arr'. mul_blocks_loop a b (Suc i) arr')
      else Inr arr)"
  by pat_completeness auto
termination
  by (relation "measure (\<lambda>(a, b, i, arr). length a - i)") auto

declare mul_add_loop.simps [simp del] mul_carry_loop.simps [simp del]
  mul_bits_loop.simps [simp del] mul_blocks_loop.simps [simp del]

definition biguint_multiply :: "biguint \<Rightarrow> biguint \<Rightarrow> biguint \<Rightarrow> biguint result" where
  "biguint_multiply this a b =
     (if len a = 0 \<or> len b = 0 then Inr (this\<lparr>blk := []\<rparr>)
      else bindR (mul_blocks_loop (blk a) (blk b) 0 (replicate (len a + len b) 0)) (\<lambda>arr.
        Inr ((allocate (len a + len b) this)
          \<lparr>blk := (if last arr = 0 then butlast arr else arr)\<rparr>)))"

section \<open>Division with remainder\<close>

text \<open>Subtracting \<open>b\<close>, shifted left by \<open>i2\<close> bits, from the blocks from \<open>k\<close> on into
  \<^verbatim>\<open>subtractBuf\<close>.\<close>

function div_sub_loop ::
    "block list \<Rightarrow> block list \<Rightarrow> nat \<Rightarrow> nat \<Rightarrow> nat \<Rightarrow> bool \<Rightarrow> block list \<Rightarrow> (block list \<times> nat \<times> bool) result" where
  "div_sub_loop arr b i2 j k borrowIn buf =
     (if j \<le> length b then
        bindR (read_at arr k) (\<lambda>x.
          case sub_block x (getShiftedBlock b j i2) borrowIn of (temp, borrowOut) \<Rightarrow>
            bindR (write_at buf k temp) (\<lambda>buf'.
              div_sub_loop arr b i2 (Suc j) (Suc k) borrowOut buf'))
      else Inr (buf, k, borrowIn))"
  by pat_completeness auto
termination
  by (relation "measure (\<lambda>(arr, b, i2, j, k, c, buf). Suc (length b) - j)") auto

function div_borrow_loop ::
    "block list \<Rightarrow> nat \<Rightarrow> nat \<Rightarrow> bool \<Rightarrow> block list \<Rightarrow> (block list \<times> nat \<times> bool) result" where
  "div_borrow_loop arr origLen k borrowIn buf =
     (if k < origLen \<and> borrowIn then
        bindR (read_at arr k) (\<lambda>x.
          bindR (write_at buf k (x - 1)) (\<lambda>buf'.
            div_borrow_loop arr origLen (Suc k) (x = 0) buf'))
      else Inr (buf, k, borrowIn))"
  by pat_completeness auto
termination
  by (relation "measure (\<lambda>(arr, origLen, k, c, buf). origLen - k)") auto

fun div_copy_back :: "nat \<Rightarrow> nat \<Rightarrow> block list \<Rightarrow> block list \<Rightarrow> block list" where
  "div_copy_back i 0 buf arr = arr"
| "div_copy_back i (Suc k) buf arr =
     (if Suc k > i then div_copy_back i k buf (arr[k := buf ! k]) else arr)"

fun div_bits_loop ::
    "nat \<Rightarrow> block list \<Rightarrow> nat \<Rightarrow> nat \<Rightarrow> block \<Rightarrow> block list \<Rightarrow> block list \<Rightarrow>
     (block \<times> block list \<times> block list) result" where
  "div_bits_loop 0 b origLen i qi arr buf = Inr (qi, arr, buf)"
| "div_bits_loop (Suc i2) b origLen i qi arr buf =
     bindR (div_sub_loop arr b i2 0 i False buf) (\<lambda>(buf1, k1, borrow1).
       bindR (div_borrow_loop arr origLen k1 borrow1 buf1) (\<lambda>(buf2, k2, borrow2).
         if \<not> borrow2
         then div_bits_loop i2 b origLen i (qi OR push_bit i2 1) (div_copy_back i k2 buf2 arr) buf2
         else div_bits_loop i2 b origLen i qi arr buf2))"

fun div_blocks_loop ::
    "nat \<Rightarrow> block list \<Rightarrow> nat \<Rightarrow> block list \<Rightarrow> block list \<Rightarrow> block list \<Rightarrow>
     (block list \<times> block list) result" where
  "div_blocks_loop 0 b origLen q arr buf = Inr (q, arr)"
| "div_blocks_loop (Suc i) b origLen q arr buf =
     bindR (div_bits_loop N b origLen i 0 arr buf) (\<lambda>(qi, arr', buf').
       div_blocks_loop i b origLen (q[i := qi]) arr' buf')"

declare div_sub_loop.simps [simp del] div_borrow_loop.simps [simp del]

text \<open>
  \<open>biguint_divide this b q\<close> is \<^verbatim>\<open>this.divide(b, q)\<close> with three distinct objects:
  the pair of the new \<^verbatim>\<open>this\<close> (the remainder) and the new \<open>q\<close> (the quotient).
  The new array of \<^verbatim>\<open>subtractBuf\<close> has indeterminate contents in the source; the
  model starts it with zeros, and the lemmas on the loops hold for any contents.
\<close>

definition biguint_divide :: "biguint \<Rightarrow> biguint \<Rightarrow> biguint \<Rightarrow> (biguint \<times> biguint) result" where
  "biguint_divide this b q =
     (if len b = 0 then Inr (this, q\<lparr>blk := []\<rparr>)
      else if len this < len b then Inr (this, q\<lparr>blk := []\<rparr>)
      else
        (let origLen = len this;
             this' = allocateAndCopy (origLen + 1) this;
             qlen = origLen - len b + 1
         in bindR (div_blocks_loop qlen (blk b) origLen (replicate qlen 0)
                     (blk this @ [0]) (replicate (origLen + 1) 0)) (\<lambda>(qs, rs).
              Inr (this'\<lparr>blk := trimLeadingZeros rs\<rparr>,
                   (allocate qlen q)\<lparr>blk := (if last qs = 0 then butlast qs else qs)\<rparr>))))"

section \<open>Bitwise operations and shifts\<close>

definition bitwiseAnd :: "biguint \<Rightarrow> biguint \<Rightarrow> biguint \<Rightarrow> biguint" where
  "bitwiseAnd this a b =
     (let l = (if len a \<ge> len b then len b else len a)
      in (allocate l this)
           \<lparr>blk := trimLeadingZeros (map2 (AND) (take l (blk a)) (take l (blk b)))\<rparr>)"

fun combine_loop :: "(block \<Rightarrow> block \<Rightarrow> block) \<Rightarrow> block list \<Rightarrow> block list \<Rightarrow> block list" where
  "combine_loop f (x # xs) (y # ys) = f x y # combine_loop f xs ys"
| "combine_loop f xs _ = xs"

definition bitwiseOr :: "biguint \<Rightarrow> biguint \<Rightarrow> biguint \<Rightarrow> biguint" where
  "bitwiseOr this a b =
     (let (a2, b2) = (if len a \<ge> len b then (a, b) else (b, a))
      in (allocate (len a2) this)\<lparr>blk := combine_loop (OR) (blk a2) (blk b2)\<rparr>)"

definition bitwiseXor :: "biguint \<Rightarrow> biguint \<Rightarrow> biguint \<Rightarrow> biguint" where
  "bitwiseXor this a b =
     (let (a2, b2) = (if len a \<ge> len b then (a, b) else (b, a))
      in (allocate (len a2) this)\<lparr>blk := trimLeadingZeros (combine_loop (XOR) (blk a2) (blk b2))\<rparr>)"

text \<open>
  \<open>shiftLeft_by\<close> and \<open>shiftRight_by\<close> are the parts of the two shifts after their test for
  a negative amount; \<open>shiftLeft\<close> and \<open>shiftRight\<close> take the C \<^verbatim>\<open>int\<close> amount and
  call the other one for a negative amount.
\<close>

definition shiftLeft_by :: "biguint \<Rightarrow> biguint \<Rightarrow> nat \<Rightarrow> biguint" where
  "shiftLeft_by this a b =
     (let shiftBlocks = b div N; shiftBits = b mod N
      in (allocate (len a + shiftBlocks + 1) this)
           \<lparr>blk := trimLeadingZeros
              (replicate shiftBlocks 0 @
               map (\<lambda>j. getShiftedBlock (blk a) j shiftBits) [0..<Suc (len a)])\<rparr>)"

definition shiftRight_by :: "biguint \<Rightarrow> biguint \<Rightarrow> nat \<Rightarrow> biguint" where
  "shiftRight_by this a b =
     (let rightShiftBlocks = (b + N - 1) div N; leftShiftBits = N * rightShiftBlocks - b
      in if rightShiftBlocks \<ge> len a + 1 then this\<lparr>blk := []\<rparr>
         else (allocate (len a + 1 - rightShiftBlocks) this)
           \<lparr>blk := trimLeadingZeros
              (map (\<lambda>j. getShiftedBlock (blk a) j leftShiftBits) [rightShiftBlocks..<Suc (len a)])\<rparr>)"

definition shiftLeft :: "biguint \<Rightarrow> biguint \<Rightarrow> 32 word \<Rightarrow> biguint result" where
  "shiftLeft this a b =
     (if sint b < 0 then
        (if push_bit 1 b = 0
         then Inl (Thrown ''biguint_t::shiftLeft: Pathological shift amount not implemented'')
         else Inr (shiftRight_by this a (unat (- b))))
      else Inr (shiftLeft_by this a (unat b)))"

definition shiftRight :: "biguint \<Rightarrow> biguint \<Rightarrow> 32 word \<Rightarrow> biguint result" where
  "shiftRight this a b =
     (if sint b < 0 then
        (if push_bit 1 b = 0
         then Inl (Thrown ''biguint_t::shiftRight: Pathological shift amount not implemented'')
         else Inr (shiftLeft_by this a (unat (- b))))
      else Inr (shiftRight_by this a (unat b)))"

section \<open>Increment, decrement and the operators\<close>

fun inc_loop :: "block list \<Rightarrow> block list \<times> bool" where
  "inc_loop [] = ([], True)"
| "inc_loop (x # xs) =
     (if x + 1 = 0 then (case inc_loop xs of (ys, carry) \<Rightarrow> ((x + 1) # ys, carry))
      else ((x + 1) # xs, False))"

definition biguint_inc :: "biguint \<Rightarrow> biguint" where
  "biguint_inc s =
     (case inc_loop (blk s) of (ys, carry) \<Rightarrow>
        if carry then (allocateAndCopy (len s + 1) s)\<lparr>blk := ys @ [1]\<rparr> else s\<lparr>blk := ys\<rparr>)"

fun dec_loop :: "block list \<Rightarrow> block list result" where
  "dec_loop [] = Inl OutOfBounds"
| "dec_loop (x # xs) =
     (if x = 0 then bindR (dec_loop xs) (\<lambda>ys. Inr ((x - 1) # ys)) else Inr ((x - 1) # xs))"

definition biguint_dec :: "biguint \<Rightarrow> biguint result" where
  "biguint_dec s =
     (if len s = 0
      then Inl (Thrown ''biguint_t::operator--(): Cannot decrement an unsigned zero'')
      else bindR (dec_loop (blk s)) (\<lambda>ys. Inr (s\<lparr>blk := trimLeadingZeros ys\<rparr>)))"

text \<open>
  The binary operators compute into a fresh object. The assigning operators call the
  method with \<^verbatim>\<open>*this\<close> as an operand, so the method computes into a temporary and
  assigns it.
\<close>

definition op_plus :: "biguint \<Rightarrow> biguint \<Rightarrow> biguint" where
  "op_plus a x = biguint_add store_empty a x"

definition op_minus :: "biguint \<Rightarrow> biguint \<Rightarrow> biguint result" where
  "op_minus a x = biguint_subtract store_empty a x"

definition op_times :: "biguint \<Rightarrow> biguint \<Rightarrow> biguint result" where
  "op_times a x = biguint_multiply store_empty a x"

definition op_divide :: "biguint \<Rightarrow> biguint \<Rightarrow> biguint result" where
  "op_divide a x =
     (if len x = 0 then Inl (Thrown ''biguint_t::operator /: division by zero'')
      else bindR (biguint_divide (store_copy a) x store_empty) (\<lambda>(r, q). Inr q))"

definition op_mod :: "biguint \<Rightarrow> biguint \<Rightarrow> biguint result" where
  "op_mod a x =
     (if len x = 0 then Inl (Thrown ''biguint_t::operator %: division by zero'')
      else bindR (biguint_divide (store_assign store_empty a) x store_empty) (\<lambda>(r, q). Inr r))"

definition op_plus_assign :: "biguint \<Rightarrow> biguint \<Rightarrow> biguint" where
  "op_plus_assign this x = store_assign this (biguint_add store_empty this x)"

definition op_minus_assign :: "biguint \<Rightarrow> biguint \<Rightarrow> biguint result" where
  "op_minus_assign this x =
     bindR (biguint_subtract store_empty this x) (\<lambda>tmp. Inr (store_assign this tmp))"

definition op_times_assign :: "biguint \<Rightarrow> biguint \<Rightarrow> biguint result" where
  "op_times_assign this x =
     bindR (biguint_multiply store_empty this x) (\<lambda>tmp. Inr (store_assign this tmp))"

definition op_divide_assign :: "biguint \<Rightarrow> biguint \<Rightarrow> biguint result" where
  "op_divide_assign this x =
     (if len x = 0 then Inl (Thrown ''biguint_t::operator /=: division by zero'')
      else bindR (biguint_divide this x store_empty) (\<lambda>(r, q). Inr (store_assign r q)))"

definition op_mod_assign :: "biguint \<Rightarrow> biguint \<Rightarrow> biguint result" where
  "op_mod_assign this x =
     (if len x = 0 then Inl (Thrown ''biguint_t::operator %=: division by zero'')
      else bindR (biguint_divide this x store_empty) (\<lambda>(r, q). Inr r))"

definition op_and :: "biguint \<Rightarrow> biguint \<Rightarrow> biguint" where
  "op_and a x = bitwiseAnd store_empty a x"

definition op_or :: "biguint \<Rightarrow> biguint \<Rightarrow> biguint" where
  "op_or a x = bitwiseOr store_empty a x"

definition op_xor :: "biguint \<Rightarrow> biguint \<Rightarrow> biguint" where
  "op_xor a x = bitwiseXor store_empty a x"

definition op_shl :: "biguint \<Rightarrow> 32 word \<Rightarrow> biguint result" where
  "op_shl a b = shiftLeft store_empty a b"

definition op_shr :: "biguint \<Rightarrow> 32 word \<Rightarrow> biguint result" where
  "op_shr a b = shiftRight store_empty a b"

definition op_and_assign :: "biguint \<Rightarrow> biguint \<Rightarrow> biguint" where
  "op_and_assign this x = store_assign this (bitwiseAnd store_empty this x)"

definition op_or_assign :: "biguint \<Rightarrow> biguint \<Rightarrow> biguint" where
  "op_or_assign this x = store_assign this (bitwiseOr store_empty this x)"

definition op_xor_assign :: "biguint \<Rightarrow> biguint \<Rightarrow> biguint" where
  "op_xor_assign this x = store_assign this (bitwiseXor store_empty this x)"

definition op_shl_assign :: "biguint \<Rightarrow> 32 word \<Rightarrow> biguint result" where
  "op_shl_assign this b = bindR (shiftLeft store_empty this b) (\<lambda>tmp. Inr (store_assign this tmp))"

definition op_shr_assign :: "biguint \<Rightarrow> 32 word \<Rightarrow> biguint result" where
  "op_shr_assign this b = bindR (shiftRight store_empty this b) (\<lambda>tmp. Inr (store_assign this tmp))"

definition biguint_lt :: "biguint \<Rightarrow> biguint \<Rightarrow> bool" where
  "biguint_lt a x \<longleftrightarrow> biguint_compareTo a x < 0"

definition biguint_le :: "biguint \<Rightarrow> biguint \<Rightarrow> bool" where
  "biguint_le a x \<longleftrightarrow> biguint_compareTo a x \<le> 0"

definition biguint_ge :: "biguint \<Rightarrow> biguint \<Rightarrow> bool" where
  "biguint_ge a x \<longleftrightarrow> biguint_compareTo a x \<ge> 0"

definition biguint_gt :: "biguint \<Rightarrow> biguint \<Rightarrow> bool" where
  "biguint_gt a x \<longleftrightarrow> biguint_compareTo a x > 0"

end
