(* ===== verification/BigUint_Arith.thy ===== *)
theory BigUint_Arith
  imports BigUint
begin

text \<open>
  The meaning of the block store and the correctness of comparison, addition,
  subtraction, increment and decrement: \<open>toNat\<close> reads a store as a natural number,
  \<open>normal\<close> is the representation invariant (no leading zero block, room for every block),
  and each operation is shown to compute the arithmetic operation and to keep the
  invariant.
\<close>

section \<open>The value of a list of blocks\<close>

definition B :: nat where
  "B = 2 ^ 64"

definition bval :: "block list \<Rightarrow> nat" where
  "bval xs = dval B (map unat xs)"

definition toNat :: "biguint \<Rightarrow> nat" where
  "toNat s = bval (blk s)"

definition trimmed :: "'a::zero list \<Rightarrow> bool" where
  "trimmed xs \<longleftrightarrow> xs = [] \<or> last xs \<noteq> 0"

definition normal :: "biguint \<Rightarrow> bool" where
  "normal s \<longleftrightarrow> trimmed (blk s) \<and> len s \<le> capacity s"

lemma trimmed_Nil [simp]: "trimmed []"
  by (simp add: trimmed_def)

lemma B_gt_1 [simp]: "1 < B" "0 < B" "B \<noteq> 0"
  by (simp_all add: B_def)

lemma B_ge_1 [simp]: "Suc 0 \<le> B"
  by (simp add: B_def)

lemma unat_less_B: "unat (x::block) < B"
proof -
  have "unat x < 2 ^ LENGTH(64)" by (rule unsigned_less)
  then show ?thesis by (simp add: B_def)
qed

lemma bval_Nil [simp]: "bval [] = 0"
  by (simp add: bval_def)

lemma bval_Cons [simp]: "bval (x # xs) = unat x + B * bval xs"
  by (simp add: bval_def)

lemma bval_append: "bval (xs @ ys) = bval xs + B ^ length xs * bval ys"
  by (simp add: bval_def dval_append)

lemma bval_replicate_0 [simp]: "bval (replicate n 0) = 0"
  by (simp add: bval_def)

lemma bval_less: "bval xs < B ^ length xs"
  using dval_less [of "map unat xs" B] by (auto simp: bval_def unat_less_B)

lemma bval_ge: "xs \<noteq> [] \<Longrightarrow> trimmed xs \<Longrightarrow> B ^ (length xs - 1) \<le> bval xs"
  using dval_ge_last [of "map unat xs" B]
  by (simp add: bval_def trimmed_def last_map unat_eq_0)

lemma bval_update:
  "k < length xs \<Longrightarrow> bval (xs[k := v]) + B ^ k * unat (xs ! k) = bval xs + B ^ k * unat v"
proof (induction xs arbitrary: k)
  case Nil
  then show ?case by simp
next
  case (Cons x xs)
  show ?case
  proof (cases k)
    case 0
    then show ?thesis by simp
  next
    case (Suc m)
    with Cons.prems have "m < length xs" by simp
    from Cons.IH [OF this]
    have "B * (bval (xs[m := v]) + B ^ m * unat (xs ! m)) = B * (bval xs + B ^ m * unat v)"
      by simp
    with Suc show ?thesis by (simp add: algebra_simps)
  qed
qed

lemma bval_drop: "j < length ys \<Longrightarrow> bval (drop j ys) = unat (ys ! j) + B * bval (drop (Suc j) ys)"
  by (simp add: Cons_nth_drop_Suc [symmetric])

lemma bval_inj_len: "length xs = length ys \<Longrightarrow> bval xs = bval ys \<Longrightarrow> xs = ys"
proof -
  assume "length xs = length ys" and "bval xs = bval ys"
  then have "map unat xs = map unat ys"
    using dval_inj_len [of "map unat xs" "map unat ys" B] by (simp add: bval_def unat_less_B)
  then show ?thesis
    by (rule map_injective) (auto intro!: injI simp: word_unat_eq_iff)
qed

text \<open>Two trimmed lists of blocks compare first by their lengths.\<close>

lemma bval_less_by_length: "length xs < length ys \<Longrightarrow> trimmed ys \<Longrightarrow> bval xs < bval ys"
proof -
  assume l: "length xs < length ys" and t: "trimmed ys"
  have "bval xs < B ^ length xs" by (rule bval_less)
  also have "\<dots> \<le> B ^ (length ys - 1)" using l by (intro power_increasing) auto
  also have "\<dots> \<le> bval ys" using l t by (intro bval_ge) auto
  finally show ?thesis .
qed

lemma bval_trimmed_inj: "trimmed xs \<Longrightarrow> trimmed ys \<Longrightarrow> bval xs = bval ys \<Longrightarrow> xs = ys"
  using bval_less_by_length [of xs ys] bval_less_by_length [of ys xs] bval_inj_len [of xs ys]
  by (cases "length xs" "length ys" rule: linorder_cases) auto

section \<open>Trimming\<close>

lemma trimmed_trimLeadingZeros [simp]: "trimmed (trimLeadingZeros xs)"
  by (induction xs rule: trimLeadingZeros.induct)
    (subst trimLeadingZeros.simps, auto simp: trimmed_def)

lemma bval_butlast_0: "xs \<noteq> [] \<Longrightarrow> last xs = 0 \<Longrightarrow> bval (butlast xs) = bval xs"
proof -
  assume "xs \<noteq> []" and "last xs = 0"
  then have "xs = butlast xs @ [0]" by (metis append_butlast_last_id)
  then show ?thesis using bval_append [of "butlast xs" "[0]"] by simp
qed

lemma bval_trimLeadingZeros [simp]: "bval (trimLeadingZeros xs) = bval xs"
proof (induction xs rule: trimLeadingZeros.induct)
  case (1 xs)
  show ?case
  proof (cases "xs \<noteq> [] \<and> last xs = 0")
    case True
    then have "bval (butlast xs) = bval xs" by (intro bval_butlast_0) auto
    with True 1 show ?thesis by (subst trimLeadingZeros.simps) simp
  next
    case False
    then show ?thesis by (subst trimLeadingZeros.simps) auto
  qed
qed

lemma length_trimLeadingZeros: "length (trimLeadingZeros xs) \<le> length xs"
  by (induction xs rule: trimLeadingZeros.induct)
    (subst trimLeadingZeros.simps, auto)

lemma trimLeadingZeros_trimmed: "trimmed xs \<Longrightarrow> trimLeadingZeros xs = xs"
  by (subst trimLeadingZeros.simps) (auto simp: trimmed_def)

section \<open>One block\<close>

lemma add_block_correct:
  assumes "add_block x y c = (t, c')"
  shows "unat t + B * of_bool c' = unat x + unat y + of_bool c"
proof -
  define s where "s = unat x + unat y"
  have sB: "s < B + B" unfolding s_def using unat_less_B [of x] unat_less_B [of y] by linarith
  have xy: "unat (x + y) = s mod B" by (simp add: unat_word_ariths B_def s_def)
  have ov: "x + y < x \<longleftrightarrow> B \<le> s"
  proof (cases "B \<le> s")
    case True
    then have "s mod B = s - B" using sB by (simp add: le_mod_geq)
    then show ?thesis using True unat_less_B [of y] by (simp add: word_less_nat_alt xy s_def)
  next
    case False
    then show ?thesis by (simp add: word_less_nat_alt xy s_def)
  qed
  have xy1: "unat (x + y + 1) = (s + 1) mod B"
    by (simp add: unat_word_ariths B_def s_def mod_simps)
  have z: "x + y + 1 = 0 \<longleftrightarrow> (s + 1) mod B = 0"
    using xy1 by (metis unat_eq_0)
  show ?thesis
  proof (cases c)
    case False
    then show ?thesis using assms sB
      by (auto simp: add_block_def ov xy s_def [symmetric] le_mod_geq)
  next
    case True
    then have t: "t = x + y + 1" and c': "c' \<longleftrightarrow> B \<le> s \<or> (s + 1) mod B = 0"
      using assms by (auto simp: add_block_def ov z)
    consider "s + 1 < B" | "s + 1 = B" | "B \<le> s" by linarith
    then show ?thesis
    proof cases
      case 1
      then show ?thesis using True by (simp add: t c' xy1 s_def [symmetric])
    next
      case 2
      then show ?thesis using True by (simp add: t c' xy1 s_def [symmetric])
    next
      case 3
      have "s + 1 < 2 * B"
        unfolding s_def using unat_less_B [of x] unat_less_B [of y] by linarith
      then have "(s + 1) mod B = s + 1 - B" using 3 by (simp add: le_mod_geq)
      then show ?thesis using 3 True by (simp add: t c' xy1 s_def [symmetric])
    qed
  qed
qed

lemma sub_block_correct:
  assumes "sub_block x y c = (t, c')"
  shows "unat t + unat y + of_bool c = unat x + B * of_bool c'"
proof -
  have xy: "unat (x - y) = (if unat y \<le> unat x then unat x - unat y else unat x + B - unat y)"
    by (simp add: unat_sub_if' B_def)
  have ov: "x - y > x \<longleftrightarrow> unat x < unat y"
    using unat_less_B [of y] by (auto simp: word_less_nat_alt xy)
  have m1: "unat (x - y - 1) = (if unat x = unat y then B - 1 else unat (x - y) - 1)"
    by (cases "x = y") (simp_all add: B_def unat_minus_one unsigned_minus_1_eq_mask mask_eq_exp_minus_1
        word_unat_eq_iff [symmetric])
  show ?thesis
  proof (cases c)
    case False
    then show ?thesis using assms unat_less_B [of y]
      by (auto simp: sub_block_def ov xy)
  next
    case True
    then have t: "t = x - y - 1" and c': "c' \<longleftrightarrow> unat x < unat y \<or> unat x = unat y"
      using assms by (auto simp: sub_block_def ov dest: word_unat_eq_iff [THEN iffD2])
    show ?thesis using unat_less_B [of y] True
      by (auto simp: t c' m1 xy)
  qed
qed

section \<open>Addition\<close>

lemma inc_block: "unat (x + 1) + B * of_bool (x + 1 = 0) = unat (x::block) + 1"
  using add_block_correct [of x 0 True "x + 1" "x + 1 = 0"]
  by (simp add: add_block_def)

lemma bval_add_carry_loop: "bval (add_carry_loop xs c) = bval xs + of_bool c"
proof (induction xs c rule: add_carry_loop.induct)
  case (3 x xs)
  have "unat (x + 1) + B * (bval xs + of_bool (x + 1 = 0))
      = unat (x + 1) + B * of_bool (x + 1 = 0) + B * bval xs"
    by (simp add: algebra_simps)
  also have "\<dots> = unat x + 1 + B * bval xs" using inc_block [of x] by linarith
  finally show ?case using "3.IH" by simp
qed simp_all

lemma bval_add_loop:
  "length ys \<le> length xs \<Longrightarrow> bval (add_loop xs ys c) = bval xs + bval ys + of_bool c"
proof (induction xs ys c rule: add_loop.induct)
  case (1 x xs y ys c)
  obtain t c' where tc: "add_block x y c = (t, c')" by force
  from "1.IH" [OF tc [symmetric]] "1.prems"
  have ih: "bval (add_loop xs ys c') = bval xs + bval ys + of_bool c'" by simp
  have "unat t + B * (bval xs + bval ys + of_bool c')
      = unat t + B * of_bool c' + B * bval xs + B * bval ys" by (simp add: algebra_simps)
  also have "\<dots> = unat x + unat y + of_bool c + B * bval xs + B * bval ys"
    using add_block_correct [OF tc] by linarith
  finally show ?case by (simp add: tc ih)
qed (simp_all add: bval_add_carry_loop)

lemma trimmed_add_carry_loop: "trimmed xs \<Longrightarrow> trimmed (add_carry_loop xs c)"
proof (induction xs c rule: add_carry_loop.induct)
  case (3 x xs)
  show ?case
  proof (cases "xs = []")
    case True
    then show ?thesis using 3 by (cases "x + 1 = 0") (auto simp: trimmed_def)
  next
    case False
    with 3 have "trimmed (add_carry_loop xs (x + 1 = 0))" by (simp add: trimmed_def)
    moreover have "add_carry_loop xs (x + 1 = 0) \<noteq> []"
      using False by (cases xs; cases "x + 1 = 0") auto
    ultimately show ?thesis by (simp add: trimmed_def)
  qed
qed (simp_all add: trimmed_def)

lemma add_loop_not_Nil: "xs \<noteq> [] \<Longrightarrow> add_loop xs ys c \<noteq> []"
  by (cases xs; cases ys; cases c) (auto split: prod.splits)

lemma trimmedI: "xs \<noteq> [] \<Longrightarrow> B ^ (length xs - 1) \<le> bval xs \<Longrightarrow> trimmed xs"
proof (rule ccontr)
  assume ne: "xs \<noteq> []" and ge: "B ^ (length xs - 1) \<le> bval xs" and "\<not> trimmed xs"
  then have "bval (butlast xs) = bval xs" by (intro bval_butlast_0) (auto simp: trimmed_def)
  moreover have "bval (butlast xs) < B ^ (length xs - 1)"
    using bval_less [of "butlast xs"] by simp
  ultimately show False using ge by simp
qed

lemma length_add_carry_loop: "length (add_carry_loop xs c) \<le> length xs + 1"
  by (induction xs c rule: add_carry_loop.induct) simp_all

lemma trimmed_add_loop:
  "length ys \<le> length xs \<Longrightarrow> trimmed xs \<Longrightarrow> trimmed ys \<Longrightarrow> trimmed (add_loop xs ys c)"
proof (induction xs ys c rule: add_loop.induct)
  case (1 x xs y ys c)
  obtain t c' where tc: "add_block x y c = (t, c')" by force
  show ?case
  proof (cases "xs = []")
    case False
    with 1 have "trimmed xs" "trimmed ys" "length ys \<le> length xs"
      by (auto simp: trimmed_def split: if_splits)
    with "1.IH" [OF tc [symmetric]] have "trimmed (add_loop xs ys c')" by blast
    then show ?thesis using add_loop_not_Nil [OF False] by (simp add: tc trimmed_def)
  next
    case True
    with 1 have ys: "ys = []" and nz: "x \<noteq> 0" "y \<noteq> 0" by (auto simp: trimmed_def)
    have "t \<noteq> 0" if "\<not> c'"
      using add_block_correct [OF tc] that nz by (auto simp: unat_eq_0 [symmetric])
    then show ?thesis using True ys by (cases c') (auto simp: tc trimmed_def)
  qed
qed (simp_all add: trimmed_add_carry_loop)

lemma length_add_loop: "length ys \<le> length xs \<Longrightarrow> length (add_loop xs ys c) \<le> length xs + 1"
proof (induction xs ys c rule: add_loop.induct)
  case (1 x xs y ys c)
  obtain t c' where tc: "add_block x y c = (t, c')" by force
  then show ?case using "1.IH" [OF tc [symmetric]] "1.prems" by simp
qed (auto intro: order_trans [OF length_add_carry_loop])

lemma capacity_allocate [simp]: "capacity (allocate n s) = max n (capacity s)"
  by (simp add: allocate_def)

lemma capacity_allocateAndCopy [simp]: "capacity (allocateAndCopy n s) = max n (capacity s)"
  by (simp add: allocateAndCopy_def)

lemma blk_allocate [simp]: "blk (allocate n s) = blk s"
  by (simp add: allocate_def)

lemma blk_allocateAndCopy [simp]: "blk (allocateAndCopy n s) = blk s"
  by (simp add: allocateAndCopy_def)

lemma store_assign_simps [simp]:
  "blk (store_assign this x) = blk x"
  "capacity (store_assign this x) = max (len x) (capacity this)"
  by (simp_all add: store_assign_def)

lemma store_empty_simps [simp]: "blk store_empty = []" "capacity store_empty = 0"
  by (simp_all add: store_empty_def)

lemma store_copy_simps [simp]: "blk (store_copy x) = blk x" "capacity (store_copy x) = len x"
  by (simp_all add: store_copy_def)

lemma toNat_store [simp]: "toNat (store_assign this x) = toNat x"
    "toNat store_empty = 0" "toNat (store_copy x) = toNat x"
  by (simp_all add: toNat_def)

lemma normal_store [simp]: "normal x \<Longrightarrow> normal (store_assign this x)"
    "normal store_empty" "normal x \<Longrightarrow> normal (store_copy x)"
  by (simp_all add: normal_def trimmed_def)

lemma toNat_biguint_add [simp]: "toNat (biguint_add this a b) = toNat a + toNat b"
  by (auto simp: biguint_add_def toNat_def Let_def bval_add_loop)

lemma normal_biguint_add:
  assumes "normal a" "normal b"
  shows "normal (biguint_add this a b)"
proof -
  have "normal ((allocate (len x + 1) this)\<lparr>blk := add_loop (blk x) (blk y) False\<rparr>)"
    if "len y \<le> len x" "normal x" "normal y" for x y
    using that length_add_loop [OF that(1), of False]
    by (auto simp: normal_def le_max_iff_disj intro: trimmed_add_loop)
  then show ?thesis using assms by (auto simp: biguint_add_def Let_def)
qed

section \<open>Subtraction\<close>

lemma dec_block: "unat (x - 1) + 1 = unat (x::block) + B * of_bool (x = 0)"
  using sub_block_correct [of x 0 True "x - 1" "x = 0"]
  by (simp add: sub_block_def)

lemma sub_borrow_loop_correct:
  "sub_borrow_loop xs c = (zs, c') \<Longrightarrow>
   length zs = length xs \<and> bval zs + of_bool c = bval xs + B ^ length xs * of_bool c'"
proof (induction xs c arbitrary: zs c' rule: sub_borrow_loop.induct)
  case (3 x xs)
  obtain ws d where ws: "sub_borrow_loop xs (x = 0) = (ws, d)" by force
  with 3 have zs: "zs = (x - 1) # ws" "c' = d" by auto
  from "3.IH" [OF ws] have l: "length ws = length xs"
    and v: "bval ws + of_bool (x = 0) = bval xs + B ^ length xs * of_bool d" by auto
  have "unat (x - 1) + 1 + B * bval ws = unat x + B * (bval ws + of_bool (x = 0))"
    using dec_block [of x] by (simp add: algebra_simps)
  also have "\<dots> = unat x + B * bval xs + B * B ^ length xs * of_bool d"
    by (simp add: v algebra_simps)
  finally show ?case using l by (simp add: zs)
qed auto

lemma sub_loop_correct:
  "sub_loop xs ys c = (zs, c') \<Longrightarrow> length ys \<le> length xs \<Longrightarrow>
   length zs = length xs \<and> bval zs + bval ys + of_bool c = bval xs + B ^ length xs * of_bool c'"
proof (induction xs ys c arbitrary: zs c' rule: sub_loop.induct)
  case (1 x xs y ys c)
  obtain t d where td: "sub_block x y c = (t, d)" by force
  obtain ws e where ws: "sub_loop xs ys d = (ws, e)" by force
  have zs: "zs = t # ws" "c' = e" using "1.prems" by (auto simp: td ws)
  from "1.IH" [OF td [symmetric] ws] "1.prems" have l: "length ws = length xs"
    and v: "bval ws + bval ys + of_bool d = bval xs + B ^ length xs * of_bool e" by auto
  have "unat t + B * bval ws + (unat y + B * bval ys) + of_bool c
      = unat t + unat y + of_bool c + B * bval ws + B * bval ys" by simp
  also have "\<dots> = unat x + B * (bval ws + bval ys + of_bool d)"
    using sub_block_correct [OF td] by (simp add: algebra_simps)
  also have "\<dots> = unat x + B * bval xs + B * B ^ length xs * of_bool e"
    by (simp only: v) (simp add: algebra_simps)
  finally show ?case using l by (simp add: zs)
qed (use sub_borrow_loop_correct in auto)

text \<open>The subtraction fails exactly when the result would be negative.\<close>

lemma biguint_subtract_spec:
  assumes "normal a" "normal b"
  shows "if toNat b \<le> toNat a
         then \<exists>r. biguint_subtract this a b = Inr r \<and> toNat r = toNat a - toNat b \<and> normal r
         else biguint_subtract this a b = Inl (Thrown msg_sub_negative)"
proof -
  consider "len b = 0" | "len b \<noteq> 0" "len a < len b" | "len b \<noteq> 0" "len b \<le> len a" by linarith
  then show ?thesis
  proof cases
    case 1
    then show ?thesis using assms by (simp add: biguint_subtract_def toNat_def)
  next
    case 2
    then have "toNat a < toNat b"
      using bval_less_by_length [of "blk a" "blk b"] assms by (simp add: toNat_def normal_def)
    then show ?thesis using 2 by (simp add: biguint_subtract_def)
  next
    case 3
    obtain zs c where zs: "sub_loop (blk a) (blk b) False = (zs, c)" by force
    from sub_loop_correct [OF zs 3(2)] have l: "length zs = len a"
      and v: "bval zs + toNat b = toNat a + B ^ len a * of_bool c" by (auto simp: toNat_def)
    have "toNat b \<le> toNat a \<longleftrightarrow> \<not> c"
      using v bval_less [of zs] l by (cases c) auto
    moreover have "normal ((allocate (len a) this)\<lparr>blk := trimLeadingZeros zs\<rparr>)"
      using length_trimLeadingZeros [of zs] l by (simp add: normal_def le_max_iff_disj)
    moreover have "toNat ((allocate (len a) this)\<lparr>blk := trimLeadingZeros zs\<rparr>) = toNat a - toNat b"
      if "\<not> c" using v that by (simp add: toNat_def)
    moreover have "\<not> len a < len b" using 3 by simp
    ultimately show ?thesis using 3(1) by (simp add: biguint_subtract_def zs)
  qed
qed

section \<open>Comparison\<close>

lemma compare_loop_correct:
  "i \<le> length xs \<Longrightarrow> i \<le> length ys \<Longrightarrow>
   compare_loop i xs ys = sgn (int (bval (take i xs)) - int (bval (take i ys)))"
proof (induction i)
  case 0
  then show ?case by simp
next
  case (Suc i)
  have tx: "bval (take (Suc i) xs) = bval (take i xs) + B ^ i * unat (xs ! i)"
    and ty: "bval (take (Suc i) ys) = bval (take i ys) + B ^ i * unat (ys ! i)"
    using Suc.prems by (simp_all add: take_Suc_conv_app_nth bval_append)
  have bx: "bval (take i xs) < B ^ i" and by': "bval (take i ys) < B ^ i"
    using bval_less [of "take i xs"] bval_less [of "take i ys"] Suc.prems by simp_all
  have lt: "bval (take (Suc i) us) < bval (take (Suc i) vs)"
    if "unat (us ! i) < unat (vs ! i)" "bval (take i us) < B ^ i"
      "bval (take (Suc i) us) = bval (take i us) + B ^ i * unat (us ! i)"
      "bval (take (Suc i) vs) = bval (take i vs) + B ^ i * unat (vs ! i)" for us vs :: "block list"
  proof -
    have "bval (take (Suc i) us) < B ^ i * (unat (us ! i) + 1)" using that by simp
    also have "\<dots> \<le> B ^ i * unat (vs ! i)" using that(1) by (intro mult_le_mono2) simp
    finally show ?thesis using that(4) by linarith
  qed
  consider "xs ! i = ys ! i" | "xs ! i < ys ! i" | "ys ! i < xs ! i" by fastforce
  then show ?case
  proof cases
    case 1
    then show ?thesis using Suc by (simp add: tx ty)
  next
    case 2
    then have "bval (take (Suc i) xs) < bval (take (Suc i) ys)"
      by (intro lt bx tx ty) (simp add: word_less_nat_alt)
    then show ?thesis using 2 by auto
  next
    case 3
    then have "bval (take (Suc i) ys) < bval (take (Suc i) xs)"
      by (intro lt by' tx ty) (simp add: word_less_nat_alt)
    then show ?thesis using 3 by auto
  qed
qed

lemma biguint_compareTo_sgn:
  assumes "normal a" "normal b"
  shows "biguint_compareTo a b = sgn (int (toNat a) - int (toNat b))"
proof -
  have "len a < len b \<Longrightarrow> toNat a < toNat b" "len b < len a \<Longrightarrow> toNat b < toNat a"
    using assms bval_less_by_length by (simp_all add: toNat_def normal_def)
  then show ?thesis
    by (cases "len a" "len b" rule: linorder_cases)
      (simp_all add: biguint_compareTo_def compare_loop_correct toNat_def [symmetric]
        flip: toNat_def)
qed

lemma store_eq_iff: "store_eq s x \<longleftrightarrow> blk s = blk x"
proof -
  have "length xs = length ys \<Longrightarrow> store_eq_loop xs ys \<longleftrightarrow> xs = ys" for xs ys :: "'a list"
    by (induction xs ys rule: list_induct2) auto
  then show ?thesis by (auto simp: store_eq_def)
qed

lemma biguint_eq_iff: "normal a \<Longrightarrow> normal b \<Longrightarrow> store_eq a b \<longleftrightarrow> toNat a = toNat b"
  using bval_trimmed_inj by (auto simp: store_eq_iff toNat_def normal_def)

lemma toNat_eq_0_iff: "normal a \<Longrightarrow> toNat a = 0 \<longleftrightarrow> blk a = []"
  using bval_ge [of "blk a"] by (fastforce simp: toNat_def normal_def)

section \<open>Increment and decrement\<close>

lemma inc_loop_correct:
  "inc_loop xs = (ys, c) \<Longrightarrow> length ys = length xs \<and> bval ys + B ^ length xs * of_bool c = bval xs + 1"
proof (induction xs arbitrary: ys c)
  case (Cons x xs)
  show ?case
  proof (cases "x + 1 = 0")
    case True
    obtain ws d where ws: "inc_loop xs = (ws, d)" by force
    with True Cons.prems have y: "ys = 0 # ws" "c = d" by auto
    from Cons.IH [OF ws] have "B * (bval ws + B ^ length xs * of_bool d) = B * (bval xs + 1)" by simp
    moreover have "unat x + 1 = B" using True inc_block [of x] by simp
    ultimately show ?thesis using Cons.IH [OF ws] by (simp add: y algebra_simps)
  next
    case False
    then show ?thesis using Cons.prems inc_block [of x] by auto
  qed
qed auto

lemma biguint_inc_correct:
  assumes "normal s"
  shows "toNat (biguint_inc s) = toNat s + 1" and "normal (biguint_inc s)"
proof -
  obtain ys c where ys: "inc_loop (blk s) = (ys, c)" by force
  from inc_loop_correct [OF ys] have l: "length ys = len s"
    and v: "bval ys + B ^ len s * of_bool c = toNat s + 1" by (auto simp: toNat_def)
  then show "toNat (biguint_inc s) = toNat s + 1"
    by (cases c) (simp_all add: biguint_inc_def ys toNat_def bval_append)
  have "trimmed ys" if "\<not> c"
  proof (cases "ys = []")
    case False
    then have "blk s \<noteq> []" using l by auto
    then have "B ^ (len s - 1) \<le> toNat s"
      using assms bval_ge [of "blk s"] by (auto simp: toNat_def normal_def)
    then show ?thesis using False v l that by (intro trimmedI) auto
  qed (simp add: trimmed_def)
  then show "normal (biguint_inc s)"
    using l assms by (cases c) (auto simp: biguint_inc_def ys normal_def trimmed_def)
qed

lemma dec_loop_correct:
  "bval xs \<noteq> 0 \<Longrightarrow> \<exists>ys. dec_loop xs = Inr ys \<and> length ys = length xs \<and> bval ys + 1 = bval xs"
proof (induction xs)
  case (Cons x xs)
  show ?case
  proof (cases "x = 0")
    case True
    with Cons obtain ys where ys: "dec_loop xs = Inr ys" "length ys = length xs" "bval ys + 1 = bval xs"
      by auto
    then have "B * (bval ys + 1) = B * bval xs" by simp
    then show ?thesis using True ys dec_block [of x] by (auto simp: algebra_simps)
  next
    case False
    then show ?thesis using dec_block [of x] by auto
  qed
qed simp

lemma biguint_dec_correct:
  assumes "normal s" "toNat s \<noteq> 0"
  obtains r where "biguint_dec s = Inr r" "toNat r = toNat s - 1" "normal r"
proof -
  from assms obtain ys where ys: "dec_loop (blk s) = Inr ys" "length ys = len s" "bval ys + 1 = toNat s"
    using dec_loop_correct [of "blk s"] by (auto simp: toNat_def)
  let ?r = "s\<lparr>blk := trimLeadingZeros ys\<rparr>"
  have "biguint_dec s = Inr ?r"
    using assms ys by (auto simp: biguint_dec_def toNat_def)
  moreover have "toNat ?r = toNat s - 1" using ys by (simp add: toNat_def)
  moreover have "normal ?r"
    using ys(2) length_trimLeadingZeros [of ys] assms(1) by (simp add: normal_def)
  ultimately show ?thesis by (rule that)
qed

end
