(* ===== verification/BigUint_MulDiv.thy ===== *)
theory BigUint_MulDiv
  imports BigUint_Arith
begin

unbundle bit_operations_syntax

text \<open>
  Correctness of \<^verbatim>\<open>getShiftedBlock\<close>, of the shift-and-add multiplication and of the
  shift-and-subtract division of \<^verbatim>\<open>biguint.cpp\<close>. The loops write into arrays without
  a bounds check; the lemmas show that no access leaves the array.
\<close>

section \<open>Shifted blocks\<close>

definition shifted :: "block list \<Rightarrow> nat \<Rightarrow> block list" where
  "shifted b y = map (\<lambda>j. getShiftedBlock b j y) [0..<Suc (length b)]"

lemma length_shifted [simp]: "length (shifted b y) = Suc (length b)"
  by (simp add: shifted_def)

lemma shifted_nth: "j \<le> length b \<Longrightarrow> shifted b y ! j = getShiftedBlock b j y"
  by (simp add: shifted_def nth_append del: upt_Suc)

definition hi :: "nat \<Rightarrow> block \<Rightarrow> nat" where
  "hi y w = (2 ^ y * unat w) div B"

definition lo :: "nat \<Rightarrow> block \<Rightarrow> nat" where
  "lo y w = (2 ^ y * unat w) mod B"

lemma lo_hi: "lo y w + B * hi y w = 2 ^ y * unat w"
  by (simp add: lo_def hi_def)

lemma unat_push_bit: "unat (push_bit y w) = lo y (w::block)"
  by (simp only: lo_def B_def unsigned_push_bit_eq) (simp add: push_bit_eq_mult take_bit_eq_mod mult.commute)

lemma unat_drop_bit_hi: "y < 64 \<Longrightarrow> unat (drop_bit (64 - y) w) = hi y (w::block)"
proof -
  assume y: "y < 64"
  have "B = 2 ^ y * 2 ^ (64 - y)" using y by (simp add: B_def flip: power_add)
  then have "hi y w = (2 ^ y * unat w) div (2 ^ y * 2 ^ (64 - y))" by (simp only: hi_def)
  then have "hi y w = unat w div 2 ^ (64 - y)" by simp
  moreover have "unat (drop_bit (64 - y) w) = drop_bit (64 - y) (take_bit 64 (unat w))"
    by (simp only: unsigned_drop_bit_eq) simp
  moreover have "take_bit 64 (unat w) = unat w"
    using unat_less_B [of w] by (simp add: take_bit_eq_mod B_def)
  ultimately show ?thesis by (simp only: drop_bit_eq_div)
qed

lemma hi_0 [simp]: "hi 0 w = 0"
  by (simp add: hi_def unat_less_B)

lemma lo_0 [simp]: "lo 0 w = unat w"
  by (simp add: lo_def unat_less_B)

lemma unat_or_parts:
  assumes "y < 64"
  shows "unat (drop_bit (64 - y) v OR push_bit y (w::block)) = hi y v + lo y w"
proof -
  have "drop_bit (64 - y) v AND push_bit y w = 0"
    using assms by (intro bit_word_eqI) (auto simp: bit_simps dest: bit_imp_le_length)
  then have eq: "drop_bit (64 - y) v OR push_bit y w = drop_bit (64 - y) v + push_bit y w"
    by (simp add: disjunctive_add_eq_or)
  have "hi y v < 2 ^ y" using unat_less_B [of v] by (simp add: hi_def div_less_iff_less_mult mult.commute)
  moreover have "2 ^ y dvd B" unfolding B_def using assms by (intro le_imp_power_dvd) simp
  then have "2 ^ y dvd lo y w" by (simp add: lo_def dvd_mod)
  then obtain k where k: "lo y w = 2 ^ y * k" by blast
  obtain m where m: "B = 2 ^ y * m" using \<open>2 ^ y dvd B\<close> by blast
  have "lo y w < B" by (simp add: lo_def)
  then have "k < m" by (simp add: k m)
  then have "2 ^ y * (k + 1) \<le> 2 ^ y * m" by (intro mult_le_mono2) simp
  ultimately have "hi y v + lo y w < B" by (simp add: k m)
  then show ?thesis
    using assms by (simp add: eq unat_word_ariths unat_drop_bit_hi unat_push_bit B_def)
qed

lemma unat_getShiftedBlock:
  assumes "y < 64" "x \<le> length num"
  shows "unat (getShiftedBlock num x y) =
    (if x = 0 then 0 else hi y (num ! (x - 1))) + (if x = length num then 0 else lo y (num ! x))"
  using assms
  by (auto simp: getShiftedBlock_def Let_def N_def unat_or_parts unat_drop_bit_hi unat_push_bit)

lemma bval_shifted_prefix:
  assumes "y < 64" "k \<le> length b"
  shows "bval (map (\<lambda>j. getShiftedBlock b j y) [0..<k])
       + B ^ k * (if k = 0 then 0 else hi y (b ! (k - 1))) = 2 ^ y * bval (take k b)"
  using assms(2)
proof (induction k)
  case 0
  then show ?case by simp
next
  case (Suc k)
  let ?g = "\<lambda>j. getShiftedBlock b j y" and ?p = "if k = 0 then 0 else hi y (b ! (k - 1))"
  have g: "unat (?g k) = ?p + lo y (b ! k)"
    using Suc.prems assms(1) by (simp add: unat_getShiftedBlock)
  have "bval (map ?g [0..<Suc k]) + B ^ Suc k * hi y (b ! k)
      = bval (map ?g [0..<k]) + B ^ k * ?p + B ^ k * (lo y (b ! k) + B * hi y (b ! k))"
    by (simp add: bval_append g algebra_simps)
  also have "\<dots> = 2 ^ y * bval (take k b) + B ^ k * (2 ^ y * unat (b ! k))"
    using Suc by (simp add: lo_hi)
  also have "\<dots> = 2 ^ y * bval (take (Suc k) b)"
    using Suc.prems by (simp add: take_Suc_conv_app_nth bval_append algebra_simps)
  finally show ?case by simp
qed

lemma bval_shifted: "y < 64 \<Longrightarrow> bval (shifted b y) = 2 ^ y * bval b"
  using bval_shifted_prefix [of y "length b" b] unat_getShiftedBlock [of y "length b" b]
  by (simp add: shifted_def bval_append)

section \<open>Multiplication\<close>

lemma mul_add_loop_correct:
  assumes "k + (Suc (length b) - j) \<le> length arr" "j \<le> Suc (length b)"
  shows "\<exists>arr' c'. mul_add_loop b i2 j k c arr = Inr (arr', k + (Suc (length b) - j), c') \<and>
     length arr' = length arr \<and>
     bval arr' + B ^ (k + (Suc (length b) - j)) * of_bool c'
       = bval arr + B ^ k * (of_bool c + bval (drop j (shifted b i2)))"
  using assms
proof (induction b i2 j k c arr rule: mul_add_loop.induct)
  case (1 b i2 j k c arr)
  show ?case
  proof (cases "j \<le> length b")
    case False
    with "1.prems" have "j = Suc (length b)" by simp
    then show ?thesis by (subst mul_add_loop.simps) simp
  next
    case True
    with "1.prems" have k: "k < length arr" by simp
    let ?s = "getShiftedBlock b j i2"
    obtain t c' where tc: "add_block (arr ! k) ?s c = (t, c')" by force
    let ?arr = "arr[k := t]"
    have eq: "mul_add_loop b i2 j k c arr = mul_add_loop b i2 (Suc j) (Suc k) c' ?arr"
      using True k by (subst mul_add_loop.simps) (simp add: tc)
    have n: "Suc k + (Suc (length b) - Suc j) = k + (Suc (length b) - j)" using True by simp
    have "\<exists>arr' c''. mul_add_loop b i2 (Suc j) (Suc k) c' ?arr
          = Inr (arr', Suc k + (Suc (length b) - Suc j), c'') \<and> length arr' = length ?arr \<and>
       bval arr' + B ^ (Suc k + (Suc (length b) - Suc j)) * of_bool c''
         = bval ?arr + B ^ Suc k * (of_bool c' + bval (drop (Suc j) (shifted b i2)))"
      using "1.prems" True k n by (intro "1.IH" [OF True _ tc [symmetric]]) (simp_all del: diff_Suc_Suc)
    then obtain arr' c'' where r: "mul_add_loop b i2 j k c arr = Inr (arr', k + (Suc (length b) - j), c'')"
      "length arr' = length arr"
      and v: "bval arr' + B ^ (k + (Suc (length b) - j)) * of_bool c''
         = bval ?arr + B ^ Suc k * (of_bool c' + bval (drop (Suc j) (shifted b i2)))"
      unfolding n eq by auto
    have d: "bval (drop j (shifted b i2)) = unat ?s + B * bval (drop (Suc j) (shifted b i2))"
      using True by (simp add: bval_drop shifted_nth)
    have "B ^ k * (unat t + B * of_bool c') = B ^ k * (unat (arr ! k) + unat ?s + of_bool c)"
      using add_block_correct [OF tc] by simp
    then have "bval ?arr + B ^ Suc k * (of_bool c' + bval (drop (Suc j) (shifted b i2)))
      = bval arr + B ^ k * (of_bool c + bval (drop j (shifted b i2)))"
      using bval_update [OF k, of t] by (simp add: d algebra_simps)
    with v r show ?thesis by auto
  qed
qed

lemma mul_carry_loop_correct:
  "c \<longrightarrow> k \<le> length arr \<Longrightarrow> bval arr + B ^ k * of_bool c < B ^ length arr \<Longrightarrow>
   \<exists>arr'. mul_carry_loop k c arr = Inr arr' \<and> length arr' = length arr \<and>
      bval arr' = bval arr + B ^ k * of_bool c"
proof (induction k c arr rule: mul_carry_loop.induct)
  case (1 k c arr)
  show ?case
  proof (cases c)
    case False
    then show ?thesis by (subst mul_carry_loop.simps) simp
  next
    case True
    have "k \<noteq> length arr" using "1.prems"(2) True by auto
    then have k: "k < length arr" using "1.prems"(1) True by simp
    let ?x = "arr ! k" let ?arr = "arr[k := ?x + 1]"
    have eq: "mul_carry_loop k c arr = mul_carry_loop (Suc k) (?x + 1 = 0) ?arr"
      using True k by (subst mul_carry_loop.simps) simp
    have "B ^ k * (unat (?x + 1) + B * of_bool (?x + 1 = 0)) = B ^ k * (unat ?x + 1)"
      using inc_block [of ?x] by simp
    then have v: "bval ?arr + B ^ Suc k * of_bool (?x + 1 = 0) = bval arr + B ^ k"
      using bval_update [OF k, of "?x + 1"] by (simp add: algebra_simps)
    have "\<exists>arr'. mul_carry_loop (Suc k) (?x + 1 = 0) ?arr = Inr arr' \<and> length arr' = length ?arr \<and>
        bval arr' = bval ?arr + B ^ Suc k * of_bool (?x + 1 = 0)"
      using "1.prems" True k v by (intro "1.IH") auto
    then show ?thesis unfolding eq using True v by simp
  qed
qed

text \<open>One pass of the inner loops adds \<open>b\<close>, shifted by \<open>i\<close> blocks and \<open>i2\<close> bits.\<close>

lemma mul_pass_correct:
  assumes "i2 < 64" "i + length b < length arr"
    and fits: "bval arr + B ^ i * (2 ^ i2 * bval b) < B ^ length arr"
  shows "\<exists>arr' k c arr''. mul_add_loop b i2 0 i False arr = Inr (arr', k, c) \<and>
     mul_carry_loop k c arr' = Inr arr'' \<and> length arr'' = length arr \<and>
     bval arr'' = bval arr + B ^ i * (2 ^ i2 * bval b)"
proof -
  from mul_add_loop_correct [of i b 0 arr i2 False] assms(2) obtain arr' c where
    r: "mul_add_loop b i2 0 i False arr = Inr (arr', i + Suc (length b), c)"
      "length arr' = length arr"
    and v: "bval arr' + B ^ (i + Suc (length b)) * of_bool c = bval arr + B ^ i * (2 ^ i2 * bval b)"
    using bval_shifted [OF assms(1)] by auto
  have "\<exists>arr''. mul_carry_loop (i + Suc (length b)) c arr' = Inr arr'' \<and>
      length arr'' = length arr' \<and> bval arr'' = bval arr' + B ^ (i + Suc (length b)) * of_bool c"
    using assms(2) fits v r(2) by (intro mul_carry_loop_correct) auto
  with r v show ?thesis by auto
qed

lemma unat_div_pow2_step:
  "unat (a::block) div 2 ^ n = of_bool (bit a n) + 2 * (unat a div 2 ^ Suc n)"
proof -
  have "bit a n \<longleftrightarrow> bit (unat a) n" by (simp add: bit_unsigned_iff)
  then have "bit a n \<longleftrightarrow> odd (unat a div 2 ^ n)" by (simp only: bit_iff_odd)
  moreover have "unat a div 2 ^ Suc n = unat a div 2 ^ n div 2"
    by (simp only: power_Suc2 div_mult2_eq)
  ultimately show ?thesis by (cases "bit a n") (auto elim: oddE evenE)
qed

lemma mul_bits_loop_correct:
  "i2 \<le> 64 \<Longrightarrow> i + length b < length arr \<Longrightarrow>
   bval arr + B ^ i * (2 ^ i2 * (unat ai div 2 ^ i2) * bval b) < B ^ length arr \<Longrightarrow>
   \<exists>arr'. mul_bits_loop ai b i i2 arr = Inr arr' \<and> length arr' = length arr \<and>
     bval arr' = bval arr + B ^ i * (2 ^ i2 * (unat ai div 2 ^ i2) * bval b)"
proof (induction ai b i i2 arr rule: mul_bits_loop.induct)
  case (1 ai b i i2 arr)
  show ?case
  proof (cases "i2 < 64")
    case False
    then have "i2 = 64" using "1.prems" by simp
    moreover have "unat ai div 2 ^ 64 = 0" using unat_less_B [of ai] by (simp add: B_def)
    ultimately show ?thesis by (subst mul_bits_loop.simps) (simp add: N_def)
  next
    case True
    then have iN: "i2 < N" by (simp add: N_def)
    let ?rest = "B ^ i * (2 ^ Suc i2 * (unat ai div 2 ^ Suc i2) * bval b)"
    have split: "B ^ i * (2 ^ i2 * (unat ai div 2 ^ i2) * bval b)
        = of_bool (bit ai i2) * (B ^ i * (2 ^ i2 * bval b)) + ?rest"
      by (subst unat_div_pow2_step) (simp add: algebra_simps)
    have test: "ai AND push_bit i2 1 = 0 \<longleftrightarrow> \<not> bit ai i2"
      by (metis bit_iff_and_push_bit_not_eq_0)
    show ?thesis
    proof (cases "bit ai i2")
      case False
      then have eq: "mul_bits_loop ai b i i2 arr = mul_bits_loop ai b i (Suc i2) arr"
        using iN test by (subst mul_bits_loop.simps) simp
      have "\<exists>arr'. mul_bits_loop ai b i (Suc i2) arr = Inr arr' \<and> length arr' = length arr \<and>
          bval arr' = bval arr + ?rest"
        using "1.prems" True False split test by (intro "1.IH"(1) iN) auto
      then show ?thesis unfolding eq split using False by simp
    next
      case bit: True
      have fits: "bval arr + B ^ i * (2 ^ i2 * bval b) + ?rest < B ^ length arr"
        using "1.prems"(3) bit unfolding split by simp
      then obtain arr1 k c arr2 where p: "mul_add_loop b i2 0 i False arr = Inr (arr1, k, c)"
        "mul_carry_loop k c arr1 = Inr arr2" "length arr2 = length arr"
        "bval arr2 = bval arr + B ^ i * (2 ^ i2 * bval b)"
        using mul_pass_correct [OF True "1.prems"(2)] by (meson add_lessD1)
      have eq: "mul_bits_loop ai b i i2 arr = mul_bits_loop ai b i (Suc i2) arr2"
        using iN test bit by (subst mul_bits_loop.simps) (simp add: p)
      have "\<exists>arr'. mul_bits_loop ai b i (Suc i2) arr2 = Inr arr' \<and> length arr' = length arr2 \<and>
          bval arr' = bval arr2 + ?rest"
        using "1.prems" True bit test p fits by (intro "1.IH"(2) [OF iN _ p(1) refl refl p(2)]) auto
      then show ?thesis unfolding eq split using bit p by (simp add: add.assoc)
    qed
  qed
qed

lemma mul_blocks_loop_correct:
  "i \<le> length a \<Longrightarrow> length arr = length a + length b \<Longrightarrow>
   bval arr + B ^ i * (bval (drop i a) * bval b) < B ^ length arr \<Longrightarrow>
   \<exists>arr'. mul_blocks_loop a b i arr = Inr arr' \<and> length arr' = length arr \<and>
     bval arr' = bval arr + B ^ i * (bval (drop i a) * bval b)"
proof (induction a b i arr rule: mul_blocks_loop.induct)
  case (1 a b i arr)
  show ?case
  proof (cases "i < length a")
    case False
    then show ?thesis using "1.prems" by (subst mul_blocks_loop.simps) simp
  next
    case True
    let ?rest = "B ^ Suc i * (bval (drop (Suc i) a) * bval b)"
    have split: "B ^ i * (bval (drop i a) * bval b) = B ^ i * (unat (a ! i) * bval b) + ?rest"
      using True by (simp add: bval_drop algebra_simps)
    have fits: "bval arr + B ^ i * (unat (a ! i) * bval b) + ?rest < B ^ length arr"
      using "1.prems"(3) unfolding split by simp
    have "\<exists>arr1. mul_bits_loop (a ! i) b i 0 arr = Inr arr1 \<and> length arr1 = length arr \<and>
        bval arr1 = bval arr + B ^ i * (2 ^ 0 * (unat (a ! i) div 2 ^ 0) * bval b)"
      using True "1.prems"(2) fits by (intro mul_bits_loop_correct) auto
    then obtain arr1 where a1: "mul_bits_loop (a ! i) b i 0 arr = Inr arr1"
      "length arr1 = length arr" "bval arr1 = bval arr + B ^ i * (unat (a ! i) * bval b)" by auto
    have eq: "mul_blocks_loop a b i arr = mul_blocks_loop a b (Suc i) arr1"
      using True by (subst mul_blocks_loop.simps) (simp add: a1)
    have "\<exists>arr'. mul_blocks_loop a b (Suc i) arr1 = Inr arr' \<and> length arr' = length arr1 \<and>
        bval arr' = bval arr1 + ?rest"
      using True "1.prems" a1 fits by (intro "1.IH" [OF True a1(1)]) auto
    then show ?thesis unfolding eq split using a1 by (simp add: add.assoc)
  qed
qed

lemma biguint_multiply_correct:
  assumes "normal a" "normal b"
  obtains r where "biguint_multiply this a b = Inr r" "toNat r = toNat a * toNat b"
    "normal r"
proof (cases "len a = 0 \<or> len b = 0")
  case True
  then show ?thesis
    using that [of "this\<lparr>blk := []\<rparr>"]
    by (auto simp: biguint_multiply_def toNat_def trimmed_def normal_def)
next
  case False
  let ?n = "len a + len b"
  have "bval (blk a) * bval (blk b) < B ^ len a * B ^ len b"
    using bval_less by (intro mult_strict_mono') auto
  then have fits: "bval (blk a) * bval (blk b) < B ^ ?n" by (simp add: power_add)
  have "\<exists>arr. mul_blocks_loop (blk a) (blk b) 0 (replicate ?n 0) = Inr arr \<and>
      length arr = length (replicate ?n (0::block)) \<and>
      bval arr = bval (replicate ?n 0) + B ^ 0 * (bval (drop 0 (blk a)) * bval (blk b))"
    using fits by (intro mul_blocks_loop_correct) auto
  then obtain arr where arr: "mul_blocks_loop (blk a) (blk b) 0 (replicate ?n 0) = Inr arr"
    "length arr = ?n" "bval arr = bval (blk a) * bval (blk b)" by auto
  let ?zs = "if last arr = 0 then butlast arr else arr"
  let ?r = "(allocate ?n this)\<lparr>blk := ?zs\<rparr>"
  have ne: "arr \<noteq> []" using arr(2) False by auto
  have v: "bval ?zs = bval arr" using ne bval_butlast_0 by auto
  have "B ^ (len a - 1) * B ^ (len b - 1) \<le> bval (blk a) * bval (blk b)"
    using assms False bval_ge by (intro mult_le_mono) (auto simp: normal_def)
  moreover have "len a - 1 + (len b - 1) = ?n - 2" using False by (cases "blk a"; cases "blk b") auto
  ultimately have ge: "B ^ (?n - 2) \<le> bval arr" using arr(3) by (simp flip: power_add)
  have "trimmed ?zs"
  proof (cases "last arr = 0")
    case True
    have l: "length (butlast arr) - 1 = ?n - 2" using arr(2) by simp
    have "length (butlast arr) \<noteq> 0" using arr(2) False by (cases "blk a"; cases "blk b") auto
    then have "butlast arr \<noteq> []" by (metis list.size(3))
    moreover have "B ^ (length (butlast arr) - 1) \<le> bval (butlast arr)"
      using ge v True unfolding l by simp
    ultimately show ?thesis using True trimmedI [of "butlast arr"] by simp
  qed (simp add: trimmed_def)
  moreover have "length ?zs \<le> max ?n (capacity this)" using arr(2) by auto
  moreover have "biguint_multiply this a b = Inr ?r"
    using False by (simp add: biguint_multiply_def arr(1))
  ultimately show ?thesis using that [of ?r] v arr(3) by (simp add: toNat_def normal_def)
qed

section \<open>Division\<close>

text \<open>The dividend with the blocks \<open>i\<close> to \<open>k\<close> taken from \<^verbatim>\<open>subtractBuf\<close>.\<close>

definition merged :: "nat \<Rightarrow> nat \<Rightarrow> block list \<Rightarrow> block list \<Rightarrow> block list" where
  "merged i k buf arr = map (\<lambda>n. if i \<le> n \<and> n < k then buf ! n else arr ! n) [0..<length arr]"

lemma length_merged [simp]: "length (merged i k buf arr) = length arr"
  by (simp add: merged_def)

lemma merged_nth [simp]:
  "n < length arr \<Longrightarrow> merged i k buf arr ! n = (if i \<le> n \<and> n < k then buf ! n else arr ! n)"
  by (simp add: merged_def)

lemma merged_start [simp]: "merged i i buf arr = arr"
  by (rule nth_equalityI) auto

lemma merged_step:
  "i \<le> k \<Longrightarrow> k < length arr \<Longrightarrow> length buf = length arr \<Longrightarrow>
   merged i (Suc k) (buf[k := t]) arr = (merged i k buf arr)[k := t]"
  by (rule nth_equalityI) (auto simp: nth_list_update)

lemma div_copy_back_merged: "k \<le> length arr \<Longrightarrow> div_copy_back i k buf arr = merged i k buf arr"
proof (induction k arbitrary: arr)
  case 0
  then show ?case by (intro nth_equalityI) auto
next
  case (Suc k)
  have "merged i k buf (arr[k := buf ! k]) = merged i (Suc k) buf arr" if "i \<le> k"
    using that Suc.prems by (intro nth_equalityI) (auto simp: nth_list_update)
  moreover have "merged i (Suc k) buf arr = arr" if "\<not> i \<le> k"
    using that Suc.prems by (intro nth_equalityI) auto
  ultimately show ?case using Suc by auto
qed

lemma div_sub_loop_correct:
  assumes "i \<le> k" "k + (Suc (length b) - j) \<le> length arr" "j \<le> Suc (length b)"
    "length buf = length arr"
  shows "\<exists>buf' c'. div_sub_loop arr b i2 j k c buf = Inr (buf', k + (Suc (length b) - j), c') \<and>
     length buf' = length arr \<and>
     bval (merged i (k + (Suc (length b) - j)) buf' arr)
         + B ^ k * (of_bool c + bval (drop j (shifted b i2)))
       = bval (merged i k buf arr) + B ^ (k + (Suc (length b) - j)) * of_bool c'"
  using assms
proof (induction arr b i2 j k c buf rule: div_sub_loop.induct)
  case (1 arr b i2 j k c buf)
  show ?case
  proof (cases "j \<le> length b")
    case False
    with "1.prems" have "j = Suc (length b)" by simp
    then show ?thesis using "1.prems" by (subst div_sub_loop.simps) simp
  next
    case True
    with "1.prems" have k: "k < length arr" by simp
    let ?s = "getShiftedBlock b j i2" and ?k = "k + (Suc (length b) - j)"
    obtain t d where td: "sub_block (arr ! k) ?s c = (t, d)" by force
    let ?buf = "buf[k := t]" and ?D = "bval (drop (Suc j) (shifted b i2))"
    have eq: "div_sub_loop arr b i2 j k c buf = div_sub_loop arr b i2 (Suc j) (Suc k) d ?buf"
      using True k "1.prems" by (subst div_sub_loop.simps) (simp add: td)
    have n: "Suc k + (Suc (length b) - Suc j) = ?k" using True by simp
    have m: "merged i (Suc k) ?buf arr = (merged i k buf arr)[k := t]"
      using "1.prems" k by (intro merged_step) auto
    have "\<exists>buf' c'. div_sub_loop arr b i2 (Suc j) (Suc k) d ?buf
          = Inr (buf', Suc k + (Suc (length b) - Suc j), c') \<and> length buf' = length arr \<and>
        bval (merged i (Suc k + (Suc (length b) - Suc j)) buf' arr) + B ^ Suc k * (of_bool d + ?D)
          = bval (merged i (Suc k) ?buf arr) + B ^ (Suc k + (Suc (length b) - Suc j)) * of_bool c'"
      using "1.prems" True k n by (intro "1.IH" [OF True _ td [symmetric]]) (simp_all del: diff_Suc_Suc)
    then obtain buf' c' where r: "div_sub_loop arr b i2 j k c buf = Inr (buf', ?k, c')"
        "length buf' = length arr"
      and v: "bval (merged i ?k buf' arr) + B ^ Suc k * (of_bool d + ?D)
          = bval ((merged i k buf arr)[k := t]) + B ^ ?k * of_bool c'"
      unfolding n eq m by auto
    have x: "merged i k buf arr ! k = arr ! k" using k by simp
    have "B ^ k * (unat t + unat ?s + of_bool c) = B ^ k * (unat (arr ! k) + B * of_bool d)"
      using sub_block_correct [OF td] by simp
    moreover have "bval (drop j (shifted b i2)) = unat ?s + B * ?D"
      using True by (simp add: bval_drop shifted_nth)
    moreover have "bval ((merged i k buf arr)[k := t]) + B ^ k * unat (arr ! k)
        = bval (merged i k buf arr) + B ^ k * unat t"
      using bval_update [of k "merged i k buf arr" t] k x by simp
    ultimately have "bval (merged i ?k buf' arr) + B ^ k * (of_bool c + bval (drop j (shifted b i2)))
        = bval (merged i k buf arr) + B ^ ?k * of_bool c'"
      using v by (simp add: algebra_simps)
    with r show ?thesis by blast
  qed
qed

lemma div_borrow_loop_correct:
  assumes "i \<le> k" "n \<le> length arr" "length buf = length arr"
  shows "\<exists>buf' k' c'. div_borrow_loop arr n k c buf = Inr (buf', k', c') \<and> k \<le> k' \<and> k' \<le> max k n \<and>
     length buf' = length arr \<and> (c' \<longrightarrow> n \<le> k') \<and>
     bval (merged i k' buf' arr) + B ^ k * of_bool c
       = bval (merged i k buf arr) + B ^ k' * of_bool c'"
  using assms
proof (induction arr n k c buf rule: div_borrow_loop.induct)
  case (1 arr n k c buf)
  show ?case
  proof (cases "k < n \<and> c")
    case False
    then show ?thesis using "1.prems" by (subst div_borrow_loop.simps) auto
  next
    case True
    with "1.prems" have k: "k < length arr" by simp
    let ?x = "arr ! k" let ?buf = "buf[k := ?x - 1]"
    have eq: "div_borrow_loop arr n k c buf = div_borrow_loop arr n (Suc k) (?x = 0) ?buf"
      using True k "1.prems" by (subst div_borrow_loop.simps) simp
    have m: "merged i (Suc k) ?buf arr = (merged i k buf arr)[k := ?x - 1]"
      using "1.prems" k by (intro merged_step) auto
    have "\<exists>buf' k' c'. div_borrow_loop arr n (Suc k) (?x = 0) ?buf = Inr (buf', k', c') \<and> Suc k \<le> k' \<and>
        k' \<le> max (Suc k) n \<and> length buf' = length arr \<and> (c' \<longrightarrow> n \<le> k') \<and>
        bval (merged i k' buf' arr) + B ^ Suc k * of_bool (?x = 0)
          = bval (merged i (Suc k) ?buf arr) + B ^ k' * of_bool c'"
      using "1.prems" True k by (intro "1.IH") auto
    then obtain buf' k' c' where r: "div_borrow_loop arr n k c buf = Inr (buf', k', c')" "Suc k \<le> k'"
        "k' \<le> max (Suc k) n" "length buf' = length arr" "c' \<longrightarrow> n \<le> k'"
      and v: "bval (merged i k' buf' arr) + B ^ Suc k * of_bool (?x = 0)
          = bval ((merged i k buf arr)[k := ?x - 1]) + B ^ k' * of_bool c'"
      unfolding eq m by auto
    have "B ^ k * (unat (?x - 1) + 1) = B ^ k * (unat ?x + B * of_bool (?x = 0))"
      using dec_block [of ?x] by simp
    moreover have "bval ((merged i k buf arr)[k := ?x - 1]) + B ^ k * unat ?x
        = bval (merged i k buf arr) + B ^ k * unat (?x - 1)"
      using bval_update [of k "merged i k buf arr" "?x - 1"] k by simp
    ultimately have "bval (merged i k' buf' arr) + B ^ k * of_bool c
        = bval (merged i k buf arr) + B ^ k' * of_bool c'"
      using v True by (simp add: algebra_simps)
    with r True show ?thesis by (intro exI [of _ buf'] exI [of _ k'] exI [of _ c']) auto
  qed
qed

lemma bval_less_top:
  assumes "length xs = Suc n" "n \<le> k" "k = n \<Longrightarrow> xs ! n = 0"
  shows "bval xs < B ^ k"
proof (cases "k = n")
  case True
  have "xs = take n xs @ [xs ! n]" using assms(1) by (metis lessI take_Suc_conv_app_nth take_all order_refl)
  then have "bval xs = bval (take n xs @ [xs ! n])" by simp
  then show ?thesis using True assms bval_less [of "take n xs"] by (simp add: bval_append)
next
  case False
  have "B ^ Suc n \<le> B ^ k" using False assms(2) by (intro power_increasing) auto
  then show ?thesis using bval_less [of xs] unfolding assms(1) by linarith
qed

lemma top_block_0:
  assumes "length xs = Suc n" "bval xs < B ^ n"
  shows "xs ! n = 0"
proof (rule ccontr)
  assume "xs ! n \<noteq> 0"
  then have "trimmed xs" using assms(1) by (auto simp: trimmed_def last_conv_nth)
  then show False using bval_ge [of xs] assms by (cases xs) auto
qed

text \<open>
  One step of the division: the shifted divisor \<open>T\<close> is subtracted exactly when it is not
  larger than what is left of the dividend.
\<close>

lemma div_pass_correct:
  assumes l: "length arr = Suc n" "length buf = length arr" and i2: "i2 < 64"
    and ib: "i + length b \<le> n" and top: "bval arr < B ^ n"
  defines "T \<equiv> B ^ i * (2 ^ i2 * bval b)"
  shows "\<exists>buf1 k1 c1 buf2 k2 c2. div_sub_loop arr b i2 0 i False buf = Inr (buf1, k1, c1) \<and>
     div_borrow_loop arr n k1 c1 buf1 = Inr (buf2, k2, c2) \<and> length buf2 = length arr \<and>
     (c2 \<longleftrightarrow> bval arr < T) \<and>
     (\<not> c2 \<longrightarrow> length (div_copy_back i k2 buf2 arr) = length arr \<and>
        bval (div_copy_back i k2 buf2 arr) + T = bval arr)"
proof -
  let ?k1 = "i + Suc (length b)"
  from div_sub_loop_correct [of i i b 0 arr buf i2 False] l ib bval_shifted [OF i2, of b]
  obtain buf1 c1 where r1: "div_sub_loop arr b i2 0 i False buf = Inr (buf1, ?k1, c1)"
      "length buf1 = length arr"
    and v1: "bval (merged i ?k1 buf1 arr) + T = bval arr + B ^ ?k1 * of_bool c1"
    by (auto simp: T_def)
  from div_borrow_loop_correct [of i ?k1 n arr buf1 c1] l r1 ib
  obtain buf2 k2 c2 where r2: "div_borrow_loop arr n ?k1 c1 buf1 = Inr (buf2, k2, c2)"
      "k2 \<le> max ?k1 n" "length buf2 = length arr" "c2 \<longrightarrow> n \<le> k2"
    and v2: "bval (merged i k2 buf2 arr) + B ^ ?k1 * of_bool c1
        = bval (merged i ?k1 buf1 arr) + B ^ k2 * of_bool c2" by auto
  let ?m = "merged i k2 buf2 arr"
  have v: "bval ?m + T = bval arr + B ^ k2 * of_bool c2" using v1 v2 by simp
  have cb: "div_copy_back i k2 buf2 arr = ?m"
    using r2(2) ib l by (intro div_copy_back_merged) simp
  have "bval ?m < B ^ k2" if c2
    using that r2(4) l top_block_0 [OF l(1) top] by (intro bval_less_top [of _ n]) auto
  then have "c2 \<longleftrightarrow> bval arr < T" using v by (cases c2) auto
  then show ?thesis using r1 r2 v l by (auto simp: cb)
qed

lemma unat_or_bit:
  assumes "i2 < 64" "2 ^ Suc i2 dvd unat (q::block)"
  shows "unat (q OR push_bit i2 1) = unat q + 2 ^ i2" and "2 ^ i2 dvd unat (q OR push_bit i2 1)"
proof -
  from assms(2) obtain m where m: "unat q = 2 ^ Suc i2 * m" by blast
  have "\<not> bit q i2"
  proof -
    have "bit q i2 \<longleftrightarrow> bit (unat q) i2" by (simp add: bit_unsigned_iff)
    also have "\<dots> \<longleftrightarrow> odd (2 ^ Suc i2 * m div 2 ^ i2)" unfolding m by (rule bit_iff_odd)
    also have "2 ^ Suc i2 * m div 2 ^ i2 = 2 * m" by simp
    finally show ?thesis by simp
  qed
  then have "q AND push_bit i2 1 = 0" by (metis bit_iff_and_push_bit_not_eq_0)
  then have eq: "q OR push_bit i2 1 = q + push_bit i2 1" by (simp add: disjunctive_add_eq_or)
  have p: "unat (push_bit i2 (1::block)) = 2 ^ i2"
    unfolding unat_push_bit lo_def B_def
    using assms(1) power_strict_increasing [of i2 64 "2::nat"] by simp
  obtain r where r: "(2::nat) ^ 64 = 2 ^ Suc i2 * r"
    using assms(1) by (metis Suc_leI dvd_def le_imp_power_dvd)
  have "unat q < 2 ^ 64" using unat_less_B [of q] by (simp add: B_def)
  then have "m < r" unfolding m r by simp
  then have "2 ^ Suc i2 * (m + 1) \<le> (2::nat) ^ 64" unfolding r by (intro mult_le_mono2) simp
  moreover have "unat q + 2 ^ i2 < 2 ^ Suc i2 * (m + 1)" by (simp add: m)
  ultimately have "unat q + 2 ^ i2 < 2 ^ 64" by linarith
  then show s: "unat (q OR push_bit i2 1) = unat q + 2 ^ i2"
    unfolding eq unat_word_ariths(1) p by simp
  show "2 ^ i2 dvd unat (q OR push_bit i2 1)" unfolding s m by simp
qed

lemma div_bits_loop_correct:
  assumes "length arr = Suc n" "length buf = length arr" "i2 \<le> 64" "i + length b \<le> n"
    "bval arr < B ^ n" "2 ^ i2 dvd unat q" "bval arr < 2 ^ i2 * (B ^ i * bval b)"
  shows "\<exists>q' arr' buf'. div_bits_loop i2 b n i q arr buf = Inr (q', arr', buf') \<and>
     length arr' = length arr \<and> length buf' = length arr \<and>
     unat q' = unat q + bval arr div (B ^ i * bval b) \<and>
     bval arr' = bval arr mod (B ^ i * bval b)"
  using assms
proof (induction i2 arbitrary: q arr buf)
  case 0
  then show ?case by simp
next
  case (Suc i2)
  let ?E = "B ^ i * bval b"
  have i2: "i2 < 64" using Suc.prems by simp
  have T: "B ^ i * (2 ^ i2 * bval b) = 2 ^ i2 * ?E" by simp
  from div_pass_correct [OF Suc.prems(1,2) i2 Suc.prems(4,5), unfolded T]
  obtain buf1 k1 c1 buf2 k2 c2 where r: "div_sub_loop arr b i2 0 i False buf = Inr (buf1, k1, c1)"
      "div_borrow_loop arr n k1 c1 buf1 = Inr (buf2, k2, c2)" "length buf2 = length arr"
    and c: "c2 \<longleftrightarrow> bval arr < 2 ^ i2 * ?E"
    and ok: "\<not> c2 \<longrightarrow> length (div_copy_back i k2 buf2 arr) = length arr \<and>
        bval (div_copy_back i k2 buf2 arr) + 2 ^ i2 * ?E = bval arr"
    by blast
  have dvd: "2 ^ i2 dvd unat q" using Suc.prems(6) by (rule power_le_dvd) simp
  show ?case
  proof (cases c2)
    case True
    have "\<exists>q' arr' buf'. div_bits_loop i2 b n i q arr buf2 = Inr (q', arr', buf') \<and>
       length arr' = length arr \<and> length buf' = length arr \<and>
       unat q' = unat q + bval arr div ?E \<and> bval arr' = bval arr mod ?E"
      using Suc.prems r dvd c True by (intro Suc.IH) auto
    then show ?thesis using True by (simp add: r)
  next
    case False
    let ?arr = "div_copy_back i k2 buf2 arr" and ?q = "q OR push_bit i2 1"
    have E: "0 < ?E" using Suc.prems(7) by (cases "?E = 0") auto
    have v: "bval ?arr + 2 ^ i2 * ?E = bval arr" and l: "length ?arr = length arr"
      using ok False by auto
    have "\<exists>q' arr' buf'. div_bits_loop i2 b n i ?q ?arr buf2 = Inr (q', arr', buf') \<and>
       length arr' = length ?arr \<and> length buf' = length ?arr \<and>
       unat q' = unat ?q + bval ?arr div ?E \<and> bval arr' = bval ?arr mod ?E"
      using Suc.prems r v l unat_or_bit [OF i2 Suc.prems(6)] by (intro Suc.IH) auto
    moreover have "bval arr div ?E = 2 ^ i2 + bval ?arr div ?E" "bval arr mod ?E = bval ?arr mod ?E"
      using E by (simp_all flip: v)
    ultimately show ?thesis
      using False l unat_or_bit [OF i2 Suc.prems(6)] by (simp add: r add.assoc)
  qed
qed

lemma div_blocks_loop_correct:
  assumes "length arr = Suc n" "length buf = length arr" "i + length b \<le> Suc n" "i \<le> length q"
    "bval arr < B ^ n" "\<forall>j < i. q ! j = 0" "bval arr < B ^ i * bval b"
  shows "\<exists>q' arr'. div_blocks_loop i b n q arr buf = Inr (q', arr') \<and>
     length arr' = length arr \<and> length q' = length q \<and>
     bval q' = bval q + bval arr div bval b \<and> bval arr' = bval arr mod bval b"
  using assms
proof (induction i arbitrary: q arr buf)
  case 0
  then show ?case by simp
next
  case (Suc i)
  let ?E = "B ^ i * bval b"
  have "\<exists>q' arr' buf'. div_bits_loop N b n i 0 arr buf = Inr (q', arr', buf') \<and>
     length arr' = length arr \<and> length buf' = length arr \<and>
     unat q' = unat (0::block) + bval arr div ?E \<and> bval arr' = bval arr mod ?E"
    using Suc.prems by (intro div_bits_loop_correct) (auto simp: N_def B_def algebra_simps)
  then obtain qi arr1 buf1 where r: "div_bits_loop N b n i 0 arr buf = Inr (qi, arr1, buf1)"
    "length arr1 = length arr" "length buf1 = length arr"
    "unat qi = bval arr div ?E" "bval arr1 = bval arr mod ?E" by auto
  have E: "0 < ?E" using Suc.prems(7) by (cases "bval b") auto
  have "bval arr1 \<le> bval arr" by (simp add: r(5))
  then have le: "bval arr1 < B ^ n" using Suc.prems(5) by linarith
  let ?q = "q[i := qi]"
  have q: "bval ?q = bval q + B ^ i * unat qi"
    using bval_update [of i q qi] Suc.prems by simp
  have "\<exists>q' arr'. div_blocks_loop i b n ?q arr1 buf1 = Inr (q', arr') \<and>
     length arr' = length arr1 \<and> length q' = length ?q \<and>
     bval q' = bval ?q + bval arr1 div bval b \<and> bval arr' = bval arr1 mod bval b"
    using Suc.prems r E le by (intro Suc.IH) auto
  moreover have "bval arr mod ?E mod bval b = bval arr mod bval b"
    by (simp add: mod_mod_cancel)
  moreover have "bval arr div bval b = B ^ i * (bval arr div ?E) + bval arr mod ?E div bval b"
  proof -
    have "bval arr = bval arr mod ?E + B ^ i * (bval arr div ?E) * bval b"
      using mod_mult_div_eq [of "bval arr" ?E] by (simp add: ac_simps)
    then have "bval arr div bval b = (bval arr mod ?E + B ^ i * (bval arr div ?E) * bval b) div bval b"
      by simp
    also have "\<dots> = B ^ i * (bval arr div ?E) + bval arr mod ?E div bval b"
      using E by (intro div_mult_self1) auto
    finally show ?thesis .
  qed
  ultimately show ?case using r q by (simp add: add.assoc)
qed

lemma biguint_divide_correct:
  assumes "normal a" "normal b" "toNat b \<noteq> 0"
  obtains r q' where "biguint_divide a b q = Inr (r, q')" "toNat r = toNat a mod toNat b"
    "toNat q' = toNat a div toNat b" "normal r" "normal q'"
proof (cases "len a < len b")
  case True
  then have "toNat a < toNat b"
    using assms bval_less_by_length [of "blk a" "blk b"] by (simp add: toNat_def normal_def)
  moreover have "len b \<noteq> 0" using True by auto
  ultimately show ?thesis
    using that [of a "q\<lparr>blk := []\<rparr>"] True assms
    by (simp add: biguint_divide_def toNat_def trimmed_def normal_def)
next
  case False
  let ?n = "len a" and ?m = "len a - len b + 1" and ?D = "bval (blk b)"
  have b: "blk b \<noteq> []" and D: "0 < ?D" using assms(3) by (auto simp: toNat_def)
  then have lb: "0 < len b" by simp
  have bv: "bval (blk a @ [0]) = toNat a" by (simp add: bval_append toNat_def)
  have an: "toNat a < B ^ ?n" using bval_less [of "blk a"] by (simp add: toNat_def)
  have "?n = ?m + (len b - 1)" using False lb by arith
  then have "B ^ ?n = B ^ ?m * B ^ (len b - 1)" by (metis power_add)
  also have "\<dots> \<le> B ^ ?m * ?D"
    using assms(2) b by (intro mult_le_mono2 bval_ge) (auto simp: normal_def)
  finally have start: "toNat a < B ^ ?m * ?D" using an by linarith
  have "\<exists>qs rs. div_blocks_loop ?m (blk b) ?n (replicate ?m 0) (blk a @ [0]) (replicate (?n + 1) 0)
        = Inr (qs, rs) \<and> length rs = length (blk a @ [0]) \<and> length qs = length (replicate ?m (0::block)) \<and>
      bval qs = bval (replicate ?m 0) + bval (blk a @ [0]) div ?D \<and>
      bval rs = bval (blk a @ [0]) mod ?D"
    using False lb an start by (intro div_blocks_loop_correct) (simp_all add: bv del: replicate_Suc)
  then obtain qs rs where r: "div_blocks_loop ?m (blk b) ?n (replicate ?m 0) (blk a @ [0])
        (replicate (?n + 1) 0) = Inr (qs, rs)"
    "length rs = ?n + 1" "length qs = ?m" "bval qs = toNat a div ?D" "bval rs = toNat a mod ?D"
    by (auto simp: bv)
  let ?zs = "if last qs = 0 then butlast qs else qs"
  have ne: "qs \<noteq> []" using r(3) by auto
  have v: "bval ?zs = bval qs" using ne bval_butlast_0 by auto
  have "trimmed ?zs"
  proof (cases "last qs = 0 \<and> len b < len a")
    case True
    have "blk a \<noteq> []" using True by auto
    then have "B ^ (?n - 1) \<le> toNat a" using assms(1) bval_ge [of "blk a"] by (simp add: normal_def toNat_def)
    moreover have "B ^ (?n - 1) = B ^ (?n - len b - 1) * B ^ len b"
      using True by (simp flip: power_add)
    moreover have "B ^ (?n - len b - 1) * ?D \<le> B ^ (?n - len b - 1) * B ^ len b"
      using bval_less [of "blk b"] by (intro mult_le_mono2) simp
    ultimately have "B ^ (?n - len b - 1) * ?D \<le> toNat a" by linarith
    then have ge: "B ^ (?n - len b - 1) \<le> bval qs"
      using D by (simp add: r(4) less_eq_div_iff_mult_less_eq)
    have l: "length (butlast qs) - 1 = ?n - len b - 1" using r(3) by simp
    have "length (butlast qs) \<noteq> 0" using r(3) True by simp
    then have "butlast qs \<noteq> []" by (metis list.size(3))
    then show ?thesis using True ge v l trimmedI [of "butlast qs"] by simp
  next
    case f: False
    show ?thesis
    proof (cases "last qs = 0")
      case True
      then have "length qs = 1" using f False r(3) by simp
      then show ?thesis using True by (auto simp: trimmed_def length_Suc_conv)
    qed (simp add: trimmed_def)
  qed
  moreover have "normal ((allocateAndCopy (?n + 1) a)\<lparr>blk := trimLeadingZeros rs\<rparr>)"
    using r(2) length_trimLeadingZeros [of rs] by (simp add: normal_def le_max_iff_disj)
  moreover have "biguint_divide a b q
      = Inr ((allocateAndCopy (?n + 1) a)\<lparr>blk := trimLeadingZeros rs\<rparr>, (allocate ?m q)\<lparr>blk := ?zs\<rparr>)"
    using False b unfolding biguint_divide_def Let_def r(1) by simp
  moreover have "length ?zs \<le> max ?m (capacity q)" using r(3) by auto
  ultimately show ?thesis
    using that [of "(allocateAndCopy (?n + 1) a)\<lparr>blk := trimLeadingZeros rs\<rparr>" "(allocate ?m q)\<lparr>blk := ?zs\<rparr>"]
      r v by (simp add: toNat_def normal_def)
qed

end
