(* ===== verification/BigUint_Bits.thy ===== *)
theory BigUint_Bits
  imports BigUint_MulDiv
begin

unbundle bit_operations_syntax

text \<open>
  Bits of the big unsigned integers: the bit and block accessors, the bitwise operations,
  the shifts, the bit length and the conversions from and to machine integers.
\<close>

section \<open>Bits of a list of blocks\<close>

lemma bit_bval_Cons:
  "bit (unat (x::block) + B * v) n \<longleftrightarrow> (if n < 64 then bit x n else bit v (n - 64))"
proof -
  have d: "unat x AND push_bit 64 v = 0"
    by (intro bit_eqI) (auto simp: bit_simps dest: bit_imp_le_length)
  have "unat x + B * v = unat x + push_bit 64 v" by (simp add: push_bit_eq_mult B_def mult.commute)
  also have "\<dots> = unat x OR push_bit 64 v" using d by (rule disjunctive_add_eq_or)
  finally show ?thesis by (auto simp: bit_simps dest: bit_imp_le_length)
qed

lemma bit_bval:
  "bit (bval xs) n \<longleftrightarrow> n div 64 < length xs \<and> bit (xs ! (n div 64)) (n mod 64)"
proof (induction xs arbitrary: n)
  case Nil
  then show ?case by simp
next
  case (Cons x xs)
  show ?case
  proof (cases "n < 64")
    case False
    then have "n div 64 = Suc ((n - 64) div 64)" "n mod 64 = (n - 64) mod 64"
      by (simp_all add: le_div_geq le_mod_geq)
    then show ?thesis using False Cons.IH [of "n - 64"] by (simp add: bit_bval_Cons)
  qed (simp add: bit_bval_Cons)
qed

lemma getBit_correct: "getBit s n \<longleftrightarrow> bit (toNat s) n"
proof -
  have "getBit s n \<longleftrightarrow> bit (getBlock s (n div 64)) (n mod 64)"
    by (simp add: getBit_def N_def bit_iff_and_push_bit_not_eq_0)
  then show ?thesis by (auto simp: toNat_def bit_bval getBlock_def)
qed

lemma bval_snoc: "bval (xs @ replicate n 0 @ [v]) = bval xs + B ^ (length xs + n) * unat v"
  by (simp add: bval_append power_add)

lemma bit_toNat_setBlock:
  "bit (toNat (setBlock s i v)) n \<longleftrightarrow>
   (if n div 64 = i then bit v (n mod 64) else bit (toNat s) n)"
  by (simp add: setBlock_def toNat_def) (auto simp: bit_bval nth_append nth_list_update)

lemma bit_toNat_setBit: "bit (toNat (setBit s bi v)) n \<longleftrightarrow> (if n = bi then v else bit (toNat s) n)"
proof -
  have m: "bit ((2::block) ^ (bi mod 64)) (k mod 64) \<longleftrightarrow> k mod 64 = bi mod 64" for k
    by (auto simp: bit_exp_iff)
  have old: "bit (getBlock s (bi div 64)) (n mod 64) = bit (toNat s) n" if "n div 64 = bi div 64"
    using that by (auto simp: toNat_def bit_bval getBlock_def)
  have "n = bi \<longleftrightarrow> n div 64 = bi div 64 \<and> n mod 64 = bi mod 64"
    by (metis div_mult_mod_eq)
  then show ?thesis
    by (auto simp: setBit_def Let_def bit_toNat_setBlock N_def bit_or_iff bit_and_iff bit_not_iff m old)
qed

lemma normal_setBlock: "normal s \<Longrightarrow> normal (setBlock s i v)"
proof -
  assume n: "normal s"
  have "length (trimLeadingZeros ((blk s)[i := 0])) \<le> len s"
    using length_trimLeadingZeros [of "(blk s)[i := 0]"] by simp
  moreover have "trimmed ((blk s)[i := v])" if "v \<noteq> 0"
    using n that by (cases "blk s = []") (auto simp: normal_def trimmed_def last_list_update)
  moreover have "trimmed (blk s @ replicate k 0 @ [v])" if "v \<noteq> 0" for k
    using that by (simp add: trimmed_def)
  ultimately show ?thesis
    using n by (auto simp: setBlock_def normal_def)
qed

lemma normal_setBit: "normal s \<Longrightarrow> normal (setBit s bi v)"
  by (simp add: setBit_def Let_def normal_setBlock)

section \<open>Bitwise operations\<close>

lemma combine_loop_nth:
  "length ys \<le> length xs \<Longrightarrow> n < length xs \<Longrightarrow>
   combine_loop f xs ys ! n = (if n < length ys then f (xs ! n) (ys ! n) else xs ! n)"
  by (induction f xs ys arbitrary: n rule: combine_loop.induct) (auto simp: nth_Cons split: nat.splits)

lemma length_combine_loop [simp]: "length (combine_loop f xs ys) = length xs"
  by (induction f xs ys rule: combine_loop.induct) auto

lemma toNat_bitwiseAnd: "toNat (bitwiseAnd this a b) = toNat a AND toNat b"
  by (intro bit_eqI) (auto simp: bitwiseAnd_def toNat_def Let_def bit_bval bit_and_iff)

lemma bval_combine_OR: "length ys \<le> length xs \<Longrightarrow> bval (combine_loop (OR) xs ys) = bval xs OR bval ys"
  by (intro bit_eqI) (auto simp: bit_bval bit_or_iff combine_loop_nth split: if_splits)

lemma bval_combine_XOR: "length ys \<le> length xs \<Longrightarrow> bval (combine_loop (XOR) xs ys) = bval xs XOR bval ys"
  by (intro bit_eqI) (auto simp: bit_bval bit_xor_iff combine_loop_nth split: if_splits)

lemma toNat_bitwiseOr: "toNat (bitwiseOr this a b) = toNat a OR toNat b"
  by (simp add: bitwiseOr_def toNat_def Let_def bval_combine_OR or.commute)

lemma toNat_bitwiseXor: "toNat (bitwiseXor this a b) = toNat a XOR toNat b"
  by (simp add: bitwiseXor_def toNat_def Let_def bval_combine_XOR xor.commute)

lemma normal_bitwiseAnd: "normal (bitwiseAnd this a b)"
proof -
  have "length (trimLeadingZeros (map2 (AND) (take l xs) (take l ys))) \<le> l" for l and xs ys :: "block list"
    by (rule order_trans [OF length_trimLeadingZeros]) simp
  then show ?thesis by (simp add: bitwiseAnd_def normal_def Let_def le_max_iff_disj)
qed

lemma trimmed_combine_OR:
  assumes "length ys \<le> length xs" "trimmed xs"
  shows "trimmed (combine_loop (OR) xs ys)"
proof (cases "xs = []")
  case False
  have "combine_loop (OR) xs ys ! (length xs - 1) \<noteq> 0"
    using assms False by (auto simp: combine_loop_nth trimmed_def last_conv_nth or_eq_0_iff)
  then show ?thesis using False by (auto simp: trimmed_def last_conv_nth)
qed (simp add: trimmed_def)

lemma normal_bitwiseOr: "normal a \<Longrightarrow> normal b \<Longrightarrow> normal (bitwiseOr this a b)"
  by (auto simp: bitwiseOr_def normal_def Let_def intro: trimmed_combine_OR)

lemma normal_bitwiseXor: "normal (bitwiseXor this a b)"
  by (auto simp: bitwiseXor_def normal_def Let_def le_max_iff_disj
      intro: order_trans [OF length_trimLeadingZeros])

section \<open>Shifts\<close>

lemma bval_drop_div: "bval (drop k xs) = bval xs div B ^ k"
proof (cases "k \<le> length xs")
  case True
  have "bval xs = bval (take k xs) + B ^ k * bval (drop k xs)"
    using bval_append [of "take k xs" "drop k xs"] True by simp
  moreover have "bval (take k xs) < B ^ k" using bval_less [of "take k xs"] True by simp
  ultimately show ?thesis by simp
next
  case False
  have "bval xs < B ^ length xs" by (rule bval_less)
  also have "\<dots> \<le> B ^ k" using False by (intro power_increasing) auto
  finally show ?thesis using False by simp
qed

lemma B_pow: "B ^ k = 2 ^ (64 * k)"
  by (simp add: B_def power_mult)

lemma toNat_shiftLeft_by: "toNat (shiftLeft_by this a b) = toNat a * 2 ^ b"
proof -
  have "toNat (shiftLeft_by this a b) = B ^ (b div 64) * bval (shifted (blk a) (b mod 64))"
    by (simp add: shiftLeft_by_def Let_def toNat_def N_def bval_append shifted_def del: upt_Suc)
  also have "\<dots> = 2 ^ (64 * (b div 64)) * 2 ^ (b mod 64) * toNat a"
    by (simp add: bval_shifted B_pow toNat_def)
  also have "2 ^ (64 * (b div 64)) * 2 ^ (b mod 64) = (2::nat) ^ b"
    by (simp flip: power_add)
  finally show ?thesis by (simp add: mult.commute)
qed

lemma normal_shiftLeft_by: "normal (shiftLeft_by this a b)"
  by (auto simp: shiftLeft_by_def normal_def Let_def le_max_iff_disj simp del: upt_Suc
      intro!: order_trans [OF length_trimLeadingZeros])

lemma toNat_shiftRight_by: "toNat (shiftRight_by this a b) = toNat a div 2 ^ b"
proof -
  define r where "r = (b + N - 1) div N"
  define l where "l = N * r - b"
  have l: "l < 64" "64 * r = b + l" by (simp_all add: l_def r_def N_def)
  have v: "bval (drop r (shifted (blk a) l)) = toNat a div 2 ^ b"
  proof -
    have "bval (drop r (shifted (blk a) l)) = (2 ^ l * toNat a) div (2 ^ b * 2 ^ l)"
      by (simp add: bval_drop_div bval_shifted l B_pow toNat_def power_add)
    then show ?thesis by (simp add: mult.commute)
  qed
  have d: "map (\<lambda>j. getShiftedBlock (blk a) j l) [r..<Suc (len a)] = drop r (shifted (blk a) l)"
    by (simp add: shifted_def drop_map del: upt_Suc)
  have "r \<ge> len a + 1 \<Longrightarrow> bval (drop r (shifted (blk a) l)) = 0" by simp
  then show ?thesis
    unfolding shiftRight_by_def Let_def r_def [symmetric] l_def [symmetric] d
    using v by (auto simp: toNat_def)
qed

lemma normal_shiftRight_by: "normal (shiftRight_by this a b)"
  by (auto simp: shiftRight_by_def normal_def Let_def le_max_iff_disj
      simp del: upt_Suc intro!: order_trans [OF length_trimLeadingZeros])

section \<open>Bit length\<close>

lemma bitLength_loop_correct:
  "\<exists>k. bitLength_loop x n = n + k \<and> unat x < 2 ^ k \<and> (x \<noteq> 0 \<longrightarrow> 2 ^ k \<le> 2 * unat x)"
proof (induction x n rule: bitLength_loop.induct)
  case (1 x n)
  show ?case
  proof (cases "x = 0")
    case True
    then show ?thesis by (subst bitLength_loop.simps) simp
  next
    case False
    let ?y = "drop_bit 1 x"
    have y: "unat ?y = unat x div 2" by (simp add: drop_bit_eq_div unat_div)
    from 1 False obtain k where k: "bitLength_loop ?y (n + 1) = n + 1 + k" "unat ?y < 2 ^ k"
      "?y \<noteq> 0 \<longrightarrow> 2 ^ k \<le> 2 * unat ?y" by blast
    have "unat x < 2 ^ Suc k" using k(2) unfolding y by simp
    moreover have "2 ^ Suc k \<le> 2 * unat x"
    proof (cases "?y = 0")
      case True
      then have "k = 0" using k(1) by (subst (asm) bitLength_loop.simps) simp
      moreover have "unat x \<noteq> 0" using False by (simp add: unat_eq_0)
      ultimately show ?thesis by simp
    next
      case f: False
      then have "2 ^ k \<le> 2 * (unat x div 2)" using k(3) unfolding y by simp
      then show ?thesis by simp
    qed
    ultimately show ?thesis
      using False k(1) by (intro exI [of _ "Suc k"]) (subst bitLength_loop.simps, simp)
  qed
qed

lemma bitLength_bounds:
  assumes "normal s"
  shows "toNat s < 2 ^ bitLength s" and "toNat s \<noteq> 0 \<Longrightarrow> 2 ^ bitLength s \<le> 2 * toNat s"
proof -
  have "toNat s < 2 ^ bitLength s \<and> (toNat s \<noteq> 0 \<longrightarrow> 2 ^ bitLength s \<le> 2 * toNat s)"
  proof (cases "blk s = []")
    case True
    then show ?thesis by (simp add: bitLength_def toNat_def)
  next
    case False
    let ?x = "last (blk s)" and ?P = "B ^ (len s - 1)"
    have x: "?x \<noteq> 0" using assms False by (simp add: normal_def trimmed_def)
    from bitLength_loop_correct [of ?x 0] obtain k where k: "bitLength_loop ?x 0 = k"
      "unat ?x < 2 ^ k" "2 ^ k \<le> 2 * unat ?x" using x by auto
    have "getBlock s (len s - 1) = ?x" using False by (cases "len s") (simp_all add: getBlock_def last_conv_nth)
    then have bl: "2 ^ bitLength s = 2 ^ k * ?P"
      using False k(1) by (simp add: bitLength_def N_def power_add B_pow mult.commute)
    have v: "toNat s = bval (butlast (blk s)) + ?P * unat ?x"
      using False bval_append [of "butlast (blk s)" "[?x]"] by (simp add: toNat_def)
    have "bval (butlast (blk s)) < ?P" using bval_less [of "butlast (blk s)"] by simp
    then have "toNat s < ?P * (unat ?x + 1)" unfolding v by simp
    also have "\<dots> \<le> ?P * 2 ^ k" using k(2) by (intro mult_le_mono2) simp
    finally have lt: "toNat s < 2 ^ bitLength s" unfolding bl by (simp add: mult.commute)
    have "2 ^ k * ?P \<le> (2 * unat ?x) * ?P" using k(3) by (intro mult_le_mono1)
    moreover have "2 * toNat s = 2 * bval (butlast (blk s)) + (2 * unat ?x) * ?P"
      by (simp add: v algebra_simps)
    ultimately have "2 ^ bitLength s \<le> 2 * toNat s" unfolding bl by linarith
    with lt show ?thesis by blast
  qed
  then show "toNat s < 2 ^ bitLength s" "toNat s \<noteq> 0 \<Longrightarrow> 2 ^ bitLength s \<le> 2 * toNat s"
    by blast+
qed

section \<open>Machine integers\<close>

lemma toNat_biguint_of [simp]:
  "toNat (biguint_of_uint64 w) = unat w" "toNat (biguint_of_uint32 x) = unat x"
  "toNat (biguint_of_uint16 y) = unat y"
  by (simp_all add: toNat_def biguint_of_uint64_def biguint_of_uint32_def biguint_of_uint16_def
      unat_ucast_up)

lemma normal_biguint_of [simp]:
  "normal (biguint_of_uint64 w)" "normal (biguint_of_uint32 x)" "normal (biguint_of_uint16 y)"
  by (auto simp: normal_def trimmed_def biguint_of_uint64_def biguint_of_uint32_def
      biguint_of_uint16_def unat_eq_0 [symmetric] unat_ucast_up)

lemma normal_biguint_of_blocks: "normal (biguint_of_blocks b)"
  using length_trimLeadingZeros [of b] by (simp add: biguint_of_blocks_def store_of_def normal_def)

lemma toNat_biguint_of_blocks: "toNat (biguint_of_blocks b) = bval b"
  by (simp add: biguint_of_blocks_def store_of_def toNat_def)

lemma one_block:
  assumes "normal s" "len s = 1"
  shows "toNat s = unat (blk s ! 0)"
  using assms by (auto simp: toNat_def length_Suc_conv)

lemma many_blocks:
  assumes "normal s" "1 < len s"
  shows "2 ^ 64 \<le> toNat s"
proof -
  have "B ^ 1 \<le> B ^ (len s - 1)" using assms(2) by (intro power_increasing) auto
  also have "\<dots> \<le> toNat s"
    using assms bval_ge [of "blk s"] by (cases "blk s") (auto simp: toNat_def normal_def)
  finally show ?thesis by (simp add: B_def)
qed

lemma convertToPrimitive_unsigned:
  assumes "normal s" "LENGTH('x::len) \<le> 64"
  shows "convertToPrimitive (ucast :: 'x word \<Rightarrow> 64 word) s =
    (if toNat s < 2 ^ LENGTH('x) then Inr (word_of_nat (toNat s)) else Inl (Thrown msg_too_big))"
proof -
  consider "len s = 0" | "len s = 1" | "1 < len s" by linarith
  then show ?thesis
  proof cases
    case 1
    then show ?thesis by (simp add: convertToPrimitive_def toNat_def)
  next
    case 2
    let ?b = "blk s ! 0"
    have fits: "ucast (ucast ?b :: 'x word) = ?b \<longleftrightarrow> unat ?b < 2 ^ LENGTH('x)"
    proof -
      have "unat (ucast (ucast ?b :: 'x word) :: 64 word) = unat ?b mod 2 ^ LENGTH('x)"
        using assms(2) unat_ucast_up [of "ucast ?b :: 'x word", where 'b = 64]
        by (simp add: unat_ucast_mod [where 'b = 'x])
      then show ?thesis by (metis mod_less mod_less_divisor word_unat_eq_iff zero_less_numeral zero_less_power)
    qed
    have "(word_of_nat (unat ?b) :: 'x word) = ucast ?b" by simp
    then show ?thesis
      unfolding convertToPrimitive_def Let_def fits one_block [OF assms(1) 2] using 2 by simp
  next
    case 3
    have "(2::nat) ^ LENGTH('x) \<le> 2 ^ 64" using assms(2) by (intro power_increasing) auto
    then have "\<not> toNat s < 2 ^ LENGTH('x)" using many_blocks [OF assms(1) 3] by linarith
    then show ?thesis using 3 by (auto simp: convertToPrimitive_def)
  qed
qed

end
