(* ===== verification/UnsignedArith.thy ===== *)
theory UnsignedArith
  imports BigUint_Bits
begin

text \<open>
  What the signed integers rely on: an interface of unsigned arithmetic with a value, an
  invariant and the laws of the operations, and the facts a sign-and-magnitude
  representation needs from it, proved once for every provider. The block store of
  \<^verbatim>\<open>biguint.cpp\<close> is the provider.
\<close>

text \<open>
  The correction of \<^verbatim>\<open>bigint_t::divide\<close> for operands of opposite signs: with the
  magnitude of the dividend decreased by one, the quotient's magnitude is increased by one
  and the remainder is taken off the divisor's magnitude less one. The result is the
  quotient rounded towards minus infinity.
\<close>

lemma floor_div_opposite:
  fixes a b :: nat
  assumes "a \<noteq> 0" "b \<noteq> 0"
  shows "(- int a) div int b = - int ((a - 1) div b + 1)"
    and "(- int a) mod int b = int (b - (a - 1) mod b - 1)"
proof -
  define q where "q = (a - 1) div b"
  define r where "r = (a - 1) mod b"
  have r: "r < b" using assms by (simp add: r_def)
  have "a - 1 = b * q + r" unfolding q_def r_def by simp
  then have a: "a = b * q + r + 1" using assms(1) by simp
  have "- int a = int b * (- int q - 1) + (int b - int r - 1)"
    unfolding a by (simp add: algebra_simps)
  moreover have "0 \<le> int b - int r - 1" "int b - int r - 1 < int b" using r by auto
  ultimately have "(- int a) div int b = - int q - 1" "(- int a) mod int b = int b - int r - 1"
    by (metis div_pos_pos_trivial div_mult_self2 add.commute add.right_neutral assms(2)
        of_nat_eq_0_iff mult.commute,
        metis mod_pos_pos_trivial mod_mult_self2 add.commute mult.commute)
  then show "(- int a) div int b = - int ((a - 1) div b + 1)"
    "(- int a) mod int b = int (b - (a - 1) mod b - 1)"
    unfolding q_def [symmetric] r_def [symmetric] using r by (simp_all add: of_nat_diff)
qed

locale unsigned_arith =
  fixes val :: "'m \<Rightarrow> nat"
    and inv :: "'m \<Rightarrow> bool"
    and add :: "'m \<Rightarrow> 'm \<Rightarrow> 'm \<Rightarrow> 'm"
    and sub :: "'m \<Rightarrow> 'm \<Rightarrow> 'm \<Rightarrow> 'm result"
    and mul :: "'m \<Rightarrow> 'm \<Rightarrow> 'm \<Rightarrow> 'm result"
    and divm :: "'m \<Rightarrow> 'm \<Rightarrow> 'm \<Rightarrow> ('m \<times> 'm) result"
    and cmp :: "'m \<Rightarrow> 'm \<Rightarrow> int"
    and inc :: "'m \<Rightarrow> 'm"
    and dec :: "'m \<Rightarrow> 'm result"
  assumes val_add: "inv a \<Longrightarrow> inv b \<Longrightarrow> val (add t a b) = val a + val b"
    and inv_add: "inv a \<Longrightarrow> inv b \<Longrightarrow> inv (add t a b)"
    and sub_ok: "inv a \<Longrightarrow> inv b \<Longrightarrow> val b \<le> val a \<Longrightarrow>
      \<exists>r. sub t a b = Inr r \<and> val r = val a - val b \<and> inv r"
    and mul_ok: "inv a \<Longrightarrow> inv b \<Longrightarrow> \<exists>r. mul t a b = Inr r \<and> val r = val a * val b \<and> inv r"
    and divm_ok: "inv a \<Longrightarrow> inv b \<Longrightarrow> val b \<noteq> 0 \<Longrightarrow>
      \<exists>r q'. divm a b q = Inr (r, q') \<and> val r = val a mod val b \<and> val q' = val a div val b \<and>
        inv r \<and> inv q'"
    and cmp_sgn: "inv a \<Longrightarrow> inv b \<Longrightarrow> cmp a b = sgn (int (val a) - int (val b))"
    and val_inc: "inv a \<Longrightarrow> val (inc a) = val a + 1"
    and inv_inc: "inv a \<Longrightarrow> inv (inc a)"
    and dec_ok: "inv a \<Longrightarrow> val a \<noteq> 0 \<Longrightarrow> \<exists>r. dec a = Inr r \<and> val r = val a - 1 \<and> inv r"
begin

lemma cmp_cases:
  assumes "inv a" "inv b"
  obtains (eq) "cmp a b = 0" "val a = val b"
    | (gt) "cmp a b = 1" "val b < val a"
    | (lt) "cmp a b = -1" "val a < val b"
  using cmp_sgn [OF assms] by (cases "val a" "val b" rule: linorder_cases) auto

lemma sub_int:
  "inv a \<Longrightarrow> inv b \<Longrightarrow> val b < val a \<Longrightarrow>
   \<exists>r. sub t a b = Inr r \<and> int (val r) = int (val a) - int (val b) \<and> val r \<noteq> 0 \<and> inv r"
  using sub_ok [of a b t] by auto

lemma opposite_signs_divm:
  assumes "inv a" "inv b" "val a \<noteq> 0" "val b \<noteq> 0"
  obtains a' r q' t' where "dec a = Inr a'" "divm a' b q = Inr (r, q')"
    "sub t b r = Inr t'" "inv t'" "val t' \<noteq> 0"
    "int (val (inc q')) = - ((- int (val a)) div int (val b))" "inv (inc q')"
    "int (val t') - 1 = (- int (val a)) mod int (val b)"
proof -
  from dec_ok [OF assms(1,3)] obtain a' where a': "dec a = Inr a'" "val a' = val a - 1" "inv a'" by blast
  from divm_ok [OF a'(3) assms(2,4), of q] obtain r q' where d: "divm a' b q = Inr (r, q')"
    "val r = (val a - 1) mod val b" "val q' = (val a - 1) div val b" "inv r" "inv q'"
    using a'(2) by auto
  have lt: "val r < val b" using d(2) assms(4) by simp
  from sub_int [OF assms(2) d(4) lt, of t] obtain t' where t': "sub t b r = Inr t'"
    "int (val t') = int (val b) - int (val r)" "val t' \<noteq> 0" "inv t'" by blast
  have "int (val (inc q')) = - ((- int (val a)) div int (val b))"
    by (simp add: floor_div_opposite [OF assms(3,4)] val_inc d)
  moreover have "int (val t') - 1 = (- int (val a)) mod int (val b)"
    using lt by (simp add: floor_div_opposite [OF assms(3,4)] t' d)
  ultimately show ?thesis using that a' d t' inv_inc by blast
qed

end

interpretation bu: unsigned_arith toNat normal biguint_add biguint_subtract biguint_multiply
  biguint_divide biguint_compareTo biguint_inc biguint_dec
proof (unfold_locales, goal_cases)
  case (1 a b t)
  show ?case by (rule toNat_biguint_add)
next
  case (2 a b t)
  then show ?case by (rule normal_biguint_add)
next
  case (3 a b t)
  then show ?case using biguint_subtract_spec [of a b t] by simp
next
  case (4 a b t)
  then show ?case by (metis biguint_multiply_correct)
next
  case (5 a b q)
  then show ?case by (metis biguint_divide_correct)
next
  case (6 a b)
  then show ?case by (rule biguint_compareTo_sgn)
next
  case (7 a)
  then show ?case by (rule biguint_inc_correct)
next
  case (8 a)
  then show ?case by (rule biguint_inc_correct)
next
  case (9 a)
  then show ?case by (metis biguint_dec_correct)
qed

end
