(* ===== verification/BigInt.thy ===== *)
theory BigInt
  imports UnsignedArith
begin

unbundle bit_operations_syntax

text \<open>
  The signed integers of \<^verbatim>\<open>libs/utillib/bigint.h\<close> and \<^verbatim>\<open>bigint.cpp\<close>: a sign
  (\<open>-1\<close>, \<open>0\<close> or \<open>1\<close>) and a magnitude, with the arithmetic of the source over the
  operations of the magnitudes.
\<close>

section \<open>Construction\<close>

record bigint =
  sign :: int
  mag :: biguint

definition bigint_zero :: bigint where
  "bigint_zero = \<lparr>sign = 0, mag = store_empty\<rparr>"

definition bigint_copy :: "bigint \<Rightarrow> bigint" where
  "bigint_copy x = \<lparr>sign = sign x, mag = store_copy (mag x)\<rparr>"

definition bigint_assign :: "bigint \<Rightarrow> bigint \<Rightarrow> bigint" where
  "bigint_assign this x = \<lparr>sign = sign x, mag = store_assign (mag this) (mag x)\<rparr>"

definition bigint_of_biguint :: "biguint \<Rightarrow> bigint" where
  "bigint_of_biguint x = \<lparr>sign = (if len x = 0 then 0 else 1), mag = store_copy x\<rparr>"

definition bigint_of_blocks :: "block list \<Rightarrow> bigint" where
  "bigint_of_blocks b =
     (let m = biguint_of_blocks b in \<lparr>sign = (if len m = 0 then 0 else 1), mag = m\<rparr>)"

text \<open>
  With a sign other than \<open>-1\<close>, \<open>0\<close> and \<open>1\<close> the constructor leaves the field
  \<^verbatim>\<open>sign\<close> as it finds it in memory: \<open>junk\<close>.
\<close>

definition bigint_of_mag_sign :: "int \<Rightarrow> biguint \<Rightarrow> int \<Rightarrow> string \<Rightarrow> bigint result" where
  "bigint_of_mag_sign junk m sgn' msg =
     (if sgn' = 0 then
        (if len m \<noteq> 0 then Inl (Thrown msg) else Inr \<lparr>sign = 0, mag = m\<rparr>)
      else if sgn' = 1 \<or> sgn' = -1 then
        Inr \<lparr>sign = (if len m = 0 then 0 else sgn'), mag = m\<rparr>
      else Inr \<lparr>sign = junk, mag = m\<rparr>)"

definition bigint_of_biguint_sign :: "int \<Rightarrow> biguint \<Rightarrow> int \<Rightarrow> bigint result" where
  "bigint_of_biguint_sign junk x sgn' = bigint_of_mag_sign junk (store_copy x) sgn'
     ''bigint_t::bigint_t(const biguint_t &, int): Cannot use a sign of zero with a nonzero magnitude''"

definition bigint_of_blocks_sign :: "int \<Rightarrow> block list \<Rightarrow> int \<Rightarrow> bigint result" where
  "bigint_of_blocks_sign junk b sgn' = bigint_of_mag_sign junk (biguint_of_blocks b) sgn'
     ''bigint_t::bigint_t(const uint64_t *, unsigned int, int): Cannot use a sign of zero with a nonzero magnitude''"

definition bigint_of_uint64 :: "64 word \<Rightarrow> bigint" where
  "bigint_of_uint64 x =
     (let m = biguint_of_uint64 x in \<lparr>sign = (if len m = 0 then 0 else 1), mag = m\<rparr>)"

definition bigint_of_uint32 :: "32 word \<Rightarrow> bigint" where
  "bigint_of_uint32 x =
     (let m = biguint_of_uint32 x in \<lparr>sign = (if len m = 0 then 0 else 1), mag = m\<rparr>)"

definition bigint_of_uint16 :: "16 word \<Rightarrow> bigint" where
  "bigint_of_uint16 x =
     (let m = biguint_of_uint16 x in \<lparr>sign = (if len m = 0 then 0 else 1), mag = m\<rparr>)"

text \<open>
  \<^verbatim>\<open>magOf<X, UX>\<close>: a negative \<open>x\<close> is negated at its own width; a nonnegative one
  goes through \<^verbatim>\<open>(uint32_t)\<close>, at every width.
\<close>

definition magOf64 :: "64 word \<Rightarrow> 64 word" where
  "magOf64 x = (if sint x < 0 then - x else ucast (ucast x :: 32 word))"

definition magOf32 :: "32 word \<Rightarrow> 64 word" where
  "magOf32 x = (if sint x < 0 then ucast (- x) else ucast x)"

definition magOf16 :: "16 word \<Rightarrow> 64 word" where
  "magOf16 x = (if sint x < 0 then ucast (- x) else ucast (scast x :: 32 word))"

definition signOf :: "int \<Rightarrow> int" where
  "signOf x = (if x = 0 then 0 else if x > 0 then 1 else -1)"

definition bigint_of_int64 :: "64 word \<Rightarrow> bigint" where
  "bigint_of_int64 x = \<lparr>sign = signOf (sint x), mag = biguint_of_uint64 (magOf64 x)\<rparr>"

definition bigint_of_int32 :: "32 word \<Rightarrow> bigint" where
  "bigint_of_int32 x = \<lparr>sign = signOf (sint x), mag = biguint_of_uint64 (magOf32 x)\<rparr>"

definition bigint_of_int16 :: "16 word \<Rightarrow> bigint" where
  "bigint_of_int16 x = \<lparr>sign = signOf (sint x), mag = biguint_of_uint64 (magOf16 x)\<rparr>"

section \<open>Conversion to machine integers\<close>

definition msg_bigint_too_big :: string where
  "msg_bigint_too_big = ''bigint_t::to<Primitive>: Value is too big to fit in the requested type''"

definition bigint_convertToUnsignedPrimitive :: "bigint \<Rightarrow> 'x::len word result" where
  "bigint_convertToUnsignedPrimitive s =
     (if sign s = -1
      then Inl (Thrown ''bigint_t::to<Primitive>: Cannot convert a negative integer to an unsigned type'')
      else convertToPrimitive (ucast :: 'x word \<Rightarrow> 64 word) (mag s))"

definition bigint_convertToSignedPrimitive :: "bigint \<Rightarrow> 'x::len word result" where
  "bigint_convertToSignedPrimitive s =
     (if sign s = 0 then Inr 0
      else if len (mag s) = 1 then
        (let b = getBlock (mag s) 0
         in if sign s = 1 then
              (let x = ucast b :: 'x word
               in if 0 \<le> sint x \<and> (scast x :: 64 word) = b then Inr x
                  else Inl (Thrown msg_bigint_too_big))
            else
              (let x = - (ucast b :: 'x word)
               in if sint x < 0 \<and> (ucast (- x) :: 64 word) = b then Inr x
                  else Inl (Thrown msg_bigint_too_big)))
      else Inl (Thrown msg_bigint_too_big))"

definition bigint_to_long :: "bigint \<Rightarrow> 64 word result" where
  "bigint_to_long = bigint_convertToSignedPrimitive"

definition bigint_to_int :: "bigint \<Rightarrow> 32 word result" where
  "bigint_to_int = bigint_convertToSignedPrimitive"

definition bigint_to_ulong :: "bigint \<Rightarrow> 64 word result" where
  "bigint_to_ulong = bigint_convertToUnsignedPrimitive"

definition bigint_to_uint :: "bigint \<Rightarrow> 32 word result" where
  "bigint_to_uint = bigint_convertToUnsignedPrimitive"

section \<open>Comparison\<close>

definition bigint_compareTo :: "bigint \<Rightarrow> bigint \<Rightarrow> int" where
  "bigint_compareTo s x =
     (if sign s < sign x then -1
      else if sign s > sign x then 1
      else if sign s = 0 then 0
      else if sign s = 1 then biguint_compareTo (mag s) (mag x)
      else if sign s = -1 then - biguint_compareTo (mag s) (mag x)
      else 0)"

definition bigint_eq :: "bigint \<Rightarrow> bigint \<Rightarrow> bool" where
  "bigint_eq s x \<longleftrightarrow> sign s = sign x \<and> store_eq (mag s) (mag x)"

definition isNegative :: "bigint \<Rightarrow> bool" where
  "isNegative s \<longleftrightarrow> bigint_compareTo s (bigint_of_int32 0) < 0"

definition bigint_lt :: "bigint \<Rightarrow> bigint \<Rightarrow> bool" where
  "bigint_lt s x \<longleftrightarrow> bigint_compareTo s x < 0"

definition bigint_le :: "bigint \<Rightarrow> bigint \<Rightarrow> bool" where
  "bigint_le s x \<longleftrightarrow> bigint_compareTo s x \<le> 0"

definition bigint_gt :: "bigint \<Rightarrow> bigint \<Rightarrow> bool" where
  "bigint_gt s x \<longleftrightarrow> bigint_compareTo s x > 0"

definition bigint_ge :: "bigint \<Rightarrow> bigint \<Rightarrow> bool" where
  "bigint_ge s x \<longleftrightarrow> bigint_compareTo s x \<ge> 0"

definition bigint_getBlock :: "bigint \<Rightarrow> nat \<Rightarrow> block" where
  "bigint_getBlock s i = getBlock (mag s) i"

section \<open>Arithmetic\<close>

definition bigint_add :: "bigint \<Rightarrow> bigint \<Rightarrow> bigint \<Rightarrow> bigint result" where
  "bigint_add this a b =
     (if sign a = 0 then Inr (bigint_assign this b)
      else if sign b = 0 then Inr (bigint_assign this a)
      else if sign a = sign b
      then Inr \<lparr>sign = sign a, mag = biguint_add (mag this) (mag a) (mag b)\<rparr>
      else (let c = biguint_compareTo (mag a) (mag b)
            in if c = 0 then Inr \<lparr>sign = 0, mag = store_assign (mag this) store_empty\<rparr>
               else if c = 1 then
                 bindR (biguint_subtract (mag this) (mag a) (mag b)) (\<lambda>m. Inr \<lparr>sign = sign a, mag = m\<rparr>)
               else if c = -1 then
                 bindR (biguint_subtract (mag this) (mag b) (mag a)) (\<lambda>m. Inr \<lparr>sign = sign b, mag = m\<rparr>)
               else Inr this))"

definition bigint_subtract :: "bigint \<Rightarrow> bigint \<Rightarrow> bigint \<Rightarrow> bigint result" where
  "bigint_subtract this a b =
     (if sign a = 0 then Inr \<lparr>sign = - sign b, mag = store_assign (mag this) (mag b)\<rparr>
      else if sign b = 0 then Inr (bigint_assign this a)
      else if sign a \<noteq> sign b
      then Inr \<lparr>sign = sign a, mag = biguint_add (mag this) (mag a) (mag b)\<rparr>
      else (let c = biguint_compareTo (mag a) (mag b)
            in if c = 0 then Inr \<lparr>sign = 0, mag = store_assign (mag this) store_empty\<rparr>
               else if c = 1 then
                 bindR (biguint_subtract (mag this) (mag a) (mag b)) (\<lambda>m. Inr \<lparr>sign = sign a, mag = m\<rparr>)
               else if c = -1 then
                 bindR (biguint_subtract (mag this) (mag b) (mag a)) (\<lambda>m. Inr \<lparr>sign = - sign b, mag = m\<rparr>)
               else Inr this))"

definition bigint_multiply :: "bigint \<Rightarrow> bigint \<Rightarrow> bigint \<Rightarrow> bigint result" where
  "bigint_multiply this a b =
     (if sign a = 0 \<or> sign b = 0
      then Inr \<lparr>sign = 0, mag = store_assign (mag this) store_empty\<rparr>
      else bindR (biguint_multiply (mag this) (mag a) (mag b)) (\<lambda>m.
        Inr \<lparr>sign = (if sign a = sign b then 1 else -1), mag = m\<rparr>))"

definition bigint_negate :: "bigint \<Rightarrow> bigint \<Rightarrow> bigint" where
  "bigint_negate this a = \<lparr>sign = - sign a, mag = store_assign (mag this) (mag a)\<rparr>"

text \<open>
  \<open>bigint_divide this b q\<close> is \<^verbatim>\<open>this.divide(b, q)\<close> with three distinct objects: the
  pair of the new \<^verbatim>\<open>this\<close> (the remainder) and the new \<open>q\<close>. The call
  \<^verbatim>\<open>mag.subtract(b.mag, mag)\<close> has its target among its operands, so it goes through a
  temporary.
\<close>

definition set_signs :: "int \<Rightarrow> biguint \<Rightarrow> int \<Rightarrow> biguint \<Rightarrow> bigint \<times> bigint" where
  "set_signs rsign rmag qsign qmag =
     (\<lparr>sign = (if len rmag = 0 then 0 else rsign), mag = rmag\<rparr>,
      \<lparr>sign = (if len qmag = 0 then 0 else qsign), mag = qmag\<rparr>)"

definition bigint_divide :: "bigint \<Rightarrow> bigint \<Rightarrow> bigint \<Rightarrow> (bigint \<times> bigint) result" where
  "bigint_divide this b q =
     (if sign b = 0 then Inr (this, \<lparr>sign = 0, mag = store_assign (mag q) store_empty\<rparr>)
      else if sign this = 0 then Inr (this, \<lparr>sign = 0, mag = store_assign (mag q) store_empty\<rparr>)
      else if sign this = sign b then
        bindR (biguint_divide (mag this) (mag b) (mag q)) (\<lambda>(r, qm).
          Inr (set_signs (sign b) r 1 qm))
      else
        bindR (biguint_dec (mag this)) (\<lambda>m.
          bindR (biguint_divide m (mag b) (mag q)) (\<lambda>(r, qm).
            bindR (biguint_subtract store_empty (mag b) r) (\<lambda>tmp.
              bindR (biguint_dec (store_assign r tmp)) (\<lambda>r'.
                Inr (set_signs (sign b) r' (-1) (biguint_inc qm)))))))"

definition bigint_inc :: "bigint \<Rightarrow> bigint result" where
  "bigint_inc s =
     (if sign s = -1 then
        bindR (biguint_dec (mag s)) (\<lambda>m. Inr \<lparr>sign = (if store_eq m store_empty then 0 else -1), mag = m\<rparr>)
      else Inr \<lparr>sign = 1, mag = biguint_inc (mag s)\<rparr>)"

definition bigint_dec :: "bigint \<Rightarrow> bigint result" where
  "bigint_dec s =
     (if sign s = 1 then
        bindR (biguint_dec (mag s)) (\<lambda>m. Inr \<lparr>sign = (if store_eq m store_empty then 0 else 1), mag = m\<rparr>)
      else Inr \<lparr>sign = -1, mag = biguint_inc (mag s)\<rparr>)"

section \<open>Operators\<close>

definition bigint_op_plus :: "bigint \<Rightarrow> bigint \<Rightarrow> bigint result" where
  "bigint_op_plus a x = bigint_add bigint_zero a x"

definition bigint_op_minus :: "bigint \<Rightarrow> bigint \<Rightarrow> bigint result" where
  "bigint_op_minus a x = bigint_subtract bigint_zero a x"

definition bigint_op_times :: "bigint \<Rightarrow> bigint \<Rightarrow> bigint result" where
  "bigint_op_times a x = bigint_multiply bigint_zero a x"

text \<open>The test of \<^verbatim>\<open>operator/\<close> is on the dividend, as in the source.\<close>

definition bigint_op_divide :: "bigint \<Rightarrow> bigint \<Rightarrow> bigint result" where
  "bigint_op_divide a x =
     (if sign a = 0 then Inl (Thrown ''bigint_t::operator /: division by zero'')
      else bindR (bigint_divide (bigint_assign bigint_zero a) x bigint_zero) (\<lambda>(r, q). Inr q))"

definition bigint_op_mod :: "bigint \<Rightarrow> bigint \<Rightarrow> bigint result" where
  "bigint_op_mod a x =
     (if sign x = 0 then Inl (Thrown ''bigint_t::operator %: division by zero'')
      else bindR (bigint_divide (bigint_assign bigint_zero a) x bigint_zero) (\<lambda>(r, q). Inr r))"

definition bigint_op_neg :: "bigint \<Rightarrow> bigint" where
  "bigint_op_neg a = bigint_negate bigint_zero a"

definition bigint_op_plus_assign :: "bigint \<Rightarrow> bigint \<Rightarrow> bigint result" where
  "bigint_op_plus_assign this x =
     bindR (bigint_add bigint_zero this x) (\<lambda>tmp. Inr (bigint_assign this tmp))"

definition bigint_op_minus_assign :: "bigint \<Rightarrow> bigint \<Rightarrow> bigint result" where
  "bigint_op_minus_assign this x =
     bindR (bigint_subtract bigint_zero this x) (\<lambda>tmp. Inr (bigint_assign this tmp))"

definition bigint_op_times_assign :: "bigint \<Rightarrow> bigint \<Rightarrow> bigint result" where
  "bigint_op_times_assign this x =
     bindR (bigint_multiply bigint_zero this x) (\<lambda>tmp. Inr (bigint_assign this tmp))"

definition bigint_op_divide_assign :: "bigint \<Rightarrow> bigint \<Rightarrow> bigint result" where
  "bigint_op_divide_assign this x =
     (if sign x = 0 then Inl (Thrown ''bigint_t::operator /=: division by zero'')
      else bindR (bigint_divide this x bigint_zero) (\<lambda>(r, q). Inr (bigint_assign r q)))"

definition bigint_op_mod_assign :: "bigint \<Rightarrow> bigint \<Rightarrow> bigint result" where
  "bigint_op_mod_assign this x =
     (if sign x = 0 then Inl (Thrown ''bigint_t::operator %=: division by zero'')
      else bindR (bigint_divide this x bigint_zero) (\<lambda>(r, q). Inr r))"

end
