(* ===== verification/Archive.thy ===== *)
theory Archive
  imports BigInt "HOL-Library.Char_ord"
begin

text \<open>
  \<^verbatim>\<open>libs/utillib/sfarchive.cpp\<close> and the typed reads and writes of
  \<^verbatim>\<open>database.cpp\<close>: the binary format of every file the program keeps. A file is
  its list of bytes; writing gives the bytes to append, reading takes the bytes from the
  current position and returns the value with the bytes that are left. Machine integers
  are written in the byte order of the host, which is little-endian on every platform the
  program is built for; a \<^verbatim>\<open>double\<close> and a \<^verbatim>\<open>float\<close> are their bit patterns.

  The interface \<open>codec\<close> is the contract of a writer and a reader for one type; it is
  interpreted here for every type the archive knows.
\<close>

type_synonym bytes = "8 word list"
type_synonym 'a reader = "bytes \<Rightarrow> ('a \<times> bytes) result"

section \<open>Raw bytes and machine integers\<close>

text \<open>\<^verbatim>\<open>CSharedResource::Read(void*, size, cnt)\<close> and \<^verbatim>\<open>Write\<close> of \<open>n\<close> bytes.\<close>

definition read_raw :: "nat \<Rightarrow> bytes reader" where
  "read_raw n bs = (if n \<le> length bs then Inr (take n bs, drop n bs) else Inl ShortRead)"

definition put_word :: "'a::len word \<Rightarrow> bytes" where
  "put_word w = map (\<lambda>i. ucast (drop_bit (8 * i) w)) [0..<LENGTH('a) div 8]"

definition get_word :: "'a::len word reader" where
  "get_word bs =
     bindR (read_raw (LENGTH('a) div 8) bs) (\<lambda>(b, rest). Inr (word_of_nat (dval 256 (map unat b)), rest))"

definition put_bool :: "bool \<Rightarrow> bytes" where
  "put_bool b = put_word (if b then 1 else 0 :: 8 word)"

definition get_bool :: "bool reader" where
  "get_bool bs = bindR (get_word bs) (\<lambda>(w :: 8 word, rest). Inr (w \<noteq> 0, rest))"

section \<open>Strings\<close>

definition byte_of :: "char \<Rightarrow> 8 word" where
  "byte_of c = word_of_nat (of_char c)"

definition char_of_byte :: "8 word \<Rightarrow> char" where
  "char_of_byte b = char_of (unat b)"

definition put_string :: "string \<Rightarrow> bytes" where
  "put_string s = put_word (word_of_nat (length s) :: 64 word) @ map byte_of s"

text \<open>The buffer is assigned as a C string, so the value ends at its first zero byte.\<close>

definition c_string :: "bytes \<Rightarrow> string" where
  "c_string b = map char_of_byte (takeWhile (\<lambda>x. x \<noteq> 0) b)"

definition get_string :: "string reader" where
  "get_string bs =
     bindR (get_word bs) (\<lambda>(n :: 64 word, rest).
       bindR (read_raw (unat n) rest) (\<lambda>(buff, rest'). Inr (c_string buff, rest')))"

section \<open>Sequences\<close>

fun get_n :: "'a reader \<Rightarrow> nat \<Rightarrow> 'a list reader" where
  "get_n get 0 bs = Inr ([], bs)"
| "get_n get (Suc n) bs =
     bindR (get bs) (\<lambda>(x, rest). bindR (get_n get n rest) (\<lambda>(xs, rest'). Inr (x # xs, rest')))"

definition put_array :: "('a \<Rightarrow> bytes) \<Rightarrow> 'a list \<Rightarrow> bytes" where
  "put_array put xs = put_word (word_of_nat (length xs) :: 64 word) @ concat (map put xs)"

definition get_array :: "'a reader \<Rightarrow> 'a list reader" where
  "get_array get bs = bindR (get_word bs) (\<lambda>(n :: 64 word, rest). get_n get (unat n) rest)"

text \<open>The operators for the built-in array types push the elements they read onto the array.\<close>

definition read_array_into :: "'a reader \<Rightarrow> 'a list \<Rightarrow> 'a list reader" where
  "read_array_into get old bs = bindR (get_array get bs) (\<lambda>(xs, rest). Inr (old @ xs, rest))"

section \<open>Big numbers\<close>

definition put_biguint :: "biguint \<Rightarrow> bytes" where
  "put_biguint bn =
     put_word (word_of_nat (capacity bn) :: 32 word) @ put_word (word_of_nat (len bn) :: 32 word) @
     concat (map put_word (blk bn))"

text \<open>
  Reading into \<open>bn\<close>: after \<^verbatim>\<open>allocate(size)\<close> its array has room for the larger of
  the size read and the capacity it had. The length read is not checked against it.
\<close>

definition get_biguint_into :: "biguint \<Rightarrow> biguint reader" where
  "get_biguint_into bn bs =
     bindR (get_word bs) (\<lambda>(size :: 32 word, rest).
       bindR (get_word rest) (\<lambda>(l :: 32 word, rest').
         if unat l \<le> capacity (allocate (unat size) bn)
         then bindR (get_n get_word (unat l) rest') (\<lambda>(b, rest''). Inr (\<lparr>capacity = unat size, blk = b\<rparr>, rest''))
         else Inl OutOfBounds))"

definition get_biguint :: "biguint reader" where
  "get_biguint = get_biguint_into store_empty"

definition put_bigint :: "bigint \<Rightarrow> bytes" where
  "put_bigint bn = put_word (word_of_int (sign bn) :: 32 word) @ put_biguint (mag bn)"

definition get_bigint :: "bigint reader" where
  "get_bigint bs =
     bindR (get_word bs) (\<lambda>(s :: 32 word, rest).
       bindR (get_biguint rest) (\<lambda>(m, rest'). Inr (\<lparr>sign = sint s, mag = m\<rparr>, rest')))"

section \<open>The header of an archive\<close>

record archive_header =
  m_version :: "32 word"
  m_lastWritten :: "64 word"

definition put_header :: "archive_header \<Rightarrow> bytes" where
  "put_header h = put_word (m_version h) @ put_word (m_lastWritten h) @ put_bool False"

definition get_header :: "archive_header reader" where
  "get_header bs =
     bindR (get_word bs) (\<lambda>(v :: 32 word, rest).
       bindR (get_word rest) (\<lambda>(t :: 64 word, rest').
         bindR (get_bool rest') (\<lambda>(_, rest''). Inr (\<lparr>m_version = v, m_lastWritten = t\<rparr>, rest''))))"

section \<open>The contract of a writer and a reader\<close>

locale codec =
  fixes put :: "'a \<Rightarrow> bytes"
    and get :: "'a reader"
    and ok :: "'a \<Rightarrow> bool"
  assumes get_put: "ok x \<Longrightarrow> get (put x @ rest) = Inr (x, rest)"
begin

text \<open>What is written is self-delimiting: two files that start with a valid value and agree
  have the same value and the same rest.\<close>

lemma put_unique:
  assumes "ok x" "ok y" "put x @ r = put y @ s"
  shows "x = y \<and> r = s"
proof -
  have "Inr (x, r) = (Inr (y, s) :: ('a \<times> bytes) result)"
    unfolding get_put [OF assms(1), of r, symmetric] get_put [OF assms(2), of s, symmetric]
    by (rule arg_cong [OF assms(3)])
  then show ?thesis by blast
qed

lemma get_n_put: "\<forall>x \<in> set xs. ok x \<Longrightarrow> get_n get (length xs) (concat (map put xs) @ rest) = Inr (xs, rest)"
  by (induction xs) (simp_all add: get_put)

end

lemma dval_256_digits: "dval 256 (map (\<lambda>i. n div 256 ^ i mod 256) [0..<k]) = n mod 256 ^ k"
proof (induction k)
  case (Suc k)
  have "n mod 256 ^ Suc k = n mod 256 ^ k + 256 ^ k * (n div 256 ^ k mod 256)"
    using mod_mult2_eq [of n "256 ^ k" 256] by (simp add: mult.commute)
  then show ?case using Suc by (simp add: dval_append)
qed simp

lemma get_put_word:
  assumes "8 * (LENGTH('a::len) div 8) = LENGTH('a)"
  shows "get_word (put_word (w :: 'a word) @ rest) = Inr (w, rest)"
proof -
  define k where "k = LENGTH('a) div 8"
  have k: "(2::nat) ^ LENGTH('a) = 256 ^ k"
  proof -
    have "(2::nat) ^ LENGTH('a) = 2 ^ (8 * k)" using assms by (simp add: k_def)
    then show ?thesis by (simp add: power_mult)
  qed
  have d: "unat (ucast (drop_bit (8 * i) w) :: 8 word) = unat w div 256 ^ i mod 256" for i
  proof -
    have "unat w div 256 ^ i < 2 ^ LENGTH('a)"
      using unsigned_less [of w] div_le_dividend by (metis order.strict_trans1)
    moreover have "unat (drop_bit (8 * i) w) = drop_bit (8 * i) (unat w)"
      by (rule unsigned_drop_bit_eq [THEN trans]) (use \<open>unat w div 256 ^ i < 2 ^ LENGTH('a)\<close> in
          \<open>simp add: drop_bit_eq_div power_mult take_bit_nat_eq_self\<close>)
    ultimately show ?thesis
      unfolding unat_ucast_mod by (simp only: drop_bit_eq_div power_mult) simp
  qed
  have "dval 256 (map unat (put_word w)) = unat w mod 256 ^ k"
    using dval_256_digits [of "unat w" k] by (simp add: put_word_def d k_def comp_def)
  also have "\<dots> = unat w" using unsigned_less [of w, where ?'a = nat] unfolding k by simp
  finally show ?thesis by (simp add: get_word_def read_raw_def put_word_def k_def [symmetric])
qed

lemma codec_word: "8 * (LENGTH('a::len) div 8) = LENGTH('a) \<Longrightarrow> codec (put_word :: 'a word \<Rightarrow> bytes) get_word (\<lambda>_. True)"
  by unfold_locales (rule get_put_word)

interpretation w8: codec "put_word :: 8 word \<Rightarrow> bytes" get_word "\<lambda>_. True"
  by (rule codec_word) simp

interpretation w16: codec "put_word :: 16 word \<Rightarrow> bytes" get_word "\<lambda>_. True"
  by (rule codec_word) simp

interpretation w32: codec "put_word :: 32 word \<Rightarrow> bytes" get_word "\<lambda>_. True"
  by (rule codec_word) simp

interpretation w64: codec "put_word :: 64 word \<Rightarrow> bytes" get_word "\<lambda>_. True"
  by (rule codec_word) simp

interpretation cbool: codec put_bool get_bool "\<lambda>_. True"
  by unfold_locales (simp add: put_bool_def get_bool_def w8.get_put)

definition ok_string :: "string \<Rightarrow> bool" where
  "ok_string s \<longleftrightarrow> length s < 2 ^ 64 \<and> CHR 0x00 \<notin> set s"

lemma char_byte [simp]: "char_of_byte (byte_of c) = c"
proof -
  have "of_char c < (256::nat)" by simp
  then show ?thesis by (simp add: char_of_byte_def byte_of_def unat_of_nat)
qed

lemma byte_of_eq_0: "byte_of c = 0 \<longleftrightarrow> c = CHR 0x00"
proof
  assume "byte_of c = 0"
  then have "char_of_byte 0 = c" using char_byte [of c] by simp
  then show "c = CHR 0x00" by (simp add: char_of_byte_def char_of_def)
qed (simp add: byte_of_def)

lemma c_string_bytes: "c_string (map byte_of s) = takeWhile (\<lambda>c. c \<noteq> CHR 0x00) s"
  by (simp add: c_string_def takeWhile_map comp_def byte_of_eq_0)

text \<open>A string comes back cut at its first zero character; without one it comes back whole.\<close>

lemma get_put_string:
  "length s < 2 ^ 64 \<Longrightarrow>
   get_string (put_string s @ rest) = Inr (takeWhile (\<lambda>c. c \<noteq> CHR 0x00) s, rest)"
  by (simp add: get_string_def put_string_def w64.get_put read_raw_def unat_of_nat c_string_bytes)

interpretation cstring: codec put_string get_string ok_string
  by unfold_locales (auto simp: get_put_string ok_string_def takeWhile_eq_all_conv)

definition ok_array :: "('a \<Rightarrow> bool) \<Rightarrow> 'a list \<Rightarrow> bool" where
  "ok_array ok xs \<longleftrightarrow> length xs < 2 ^ 64 \<and> (\<forall>x \<in> set xs. ok x)"

lemma codec_array:
  assumes "codec put get ok"
  shows "codec (put_array put) (get_array get) (ok_array ok)"
proof -
  have "get_n get (length xs) (concat (map put xs) @ rest) = Inr (xs, rest)" if "\<forall>x \<in> set xs. ok x" for xs rest
    using codec.get_n_put [OF assms that] .
  then show ?thesis
    by unfold_locales (simp add: get_array_def put_array_def ok_array_def w64.get_put unat_of_nat)
qed

definition ok_biguint :: "biguint \<Rightarrow> bool" where
  "ok_biguint bn \<longleftrightarrow> len bn \<le> capacity bn \<and> capacity bn < 2 ^ 32"

interpretation cbiguint: codec put_biguint get_biguint ok_biguint
proof (unfold_locales, goal_cases)
  case (1 x rest)
  have n: "get_n get_word (len x) (concat (map put_word (blk x)) @ rest) = Inr (blk x, rest)"
    by (rule w64.get_n_put) simp
  from 1 have "len x < 2 ^ 32" "capacity x < 2 ^ 32" "len x \<le> capacity x" by (auto simp: ok_biguint_def)
  moreover have "capacity (allocate (capacity x) store_empty) = capacity x"
    by (simp add: allocate_def store_empty_def)
  ultimately show ?case
    by (simp add: get_biguint_def get_biguint_into_def put_biguint_def w32.get_put unat_of_nat n)
qed

definition ok_bigint :: "bigint \<Rightarrow> bool" where
  "ok_bigint bn \<longleftrightarrow> ok_biguint (mag bn) \<and> - (2 ^ 31) \<le> sign bn \<and> sign bn < 2 ^ 31"

interpretation cbigint: codec put_bigint get_bigint ok_bigint
proof (unfold_locales, goal_cases)
  case (1 x rest)
  then have "sint (word_of_int (sign x) :: 32 word) = sign x"
    by (simp add: ok_bigint_def signed_of_int signed_take_bit_int_eq_self)
  then show ?case using 1
    by (simp add: get_bigint_def put_bigint_def ok_bigint_def w32.get_put cbiguint.get_put)
qed

interpretation cheader: codec put_header get_header "\<lambda>_. True"
  by unfold_locales (simp add: put_header_def get_header_def w32.get_put w64.get_put cbool.get_put)

interpretation cstrings: codec "put_array put_string" "get_array get_string" "ok_array ok_string"
  by (rule codec_array) (rule cstring.codec_axioms)

interpretation cbiguints: codec "put_array put_biguint" "get_array get_biguint" "ok_array ok_biguint"
  by (rule codec_array) (rule cbiguint.codec_axioms)

interpretation cuints: codec "put_array (put_word :: 64 word \<Rightarrow> bytes)" "get_array get_word" "ok_array (\<lambda>_. True)"
  by (rule codec_array) (rule w64.codec_axioms)

lemmas codec_roundtrips [simp] = w8.get_put w16.get_put w32.get_put w64.get_put cbool.get_put
  cstring.get_put cbiguint.get_put cbigint.get_put cheader.get_put cstrings.get_put
  cbiguints.get_put cuints.get_put

end
