(* ===== verification/Strings.thy ===== *)
theory Strings
  imports Prelude "HOL-Library.Char_ord"
begin

text \<open>
  The string routines of \<^verbatim>\<open>libs/utillib/sfstring.cpp\<close> on which the index code rests:
  searching, cutting, splitting, trimming, padding and replacing. A \<^verbatim>\<open>string_q\<close> is a
  list of characters. Several routines go through \<^verbatim>\<open>c_str()\<close>, which cuts a string
  at its first zero character (\<open>c_str\<close>).
\<close>

section \<open>Searching and cutting\<close>

definition c_str :: "string \<Rightarrow> string" where
  "c_str s = takeWhile (\<lambda>c. c \<noteq> CHR 0x00) s"

text \<open>\<^verbatim>\<open>std::string::find\<close>; \<open>None\<close> is \<^verbatim>\<open>npos\<close>.\<close>

fun find_sub :: "string \<Rightarrow> string \<Rightarrow> nat option" where
  "find_sub needle [] = (if needle = [] then Some 0 else None)"
| "find_sub needle (c # cs) =
     (if take (length needle) (c # cs) = needle then Some 0 else map_option Suc (find_sub needle cs))"

text \<open>\<^verbatim>\<open>extract(s, pos, n)\<close>, and with the default length \<^verbatim>\<open>npos\<close>.\<close>

definition extract_q :: "string \<Rightarrow> nat \<Rightarrow> nat \<Rightarrow> string" where
  "extract_q haystack pos n = (if pos \<ge> length haystack then [] else take n (drop pos haystack))"

definition extract_from :: "string \<Rightarrow> nat \<Rightarrow> string" where
  "extract_from haystack pos = (if pos \<ge> length haystack then [] else drop pos haystack)"

definition contains :: "string \<Rightarrow> string \<Rightarrow> bool" where
  "contains haystack needle \<longleftrightarrow> find_sub needle haystack \<noteq> None"

definition countOf :: "string \<Rightarrow> char \<Rightarrow> nat" where
  "countOf haystack needle = length (filter (\<lambda>c. c = needle) (c_str haystack))"

definition startsWith :: "string \<Rightarrow> string \<Rightarrow> bool" where
  "startsWith haystack needle =
     (let hay = c_str haystack
      in if hay = [] \<or> needle = [] then False else extract_q hay 0 (length needle) = needle)"

text \<open>
  For a needle longer than the text the start position of \<^verbatim>\<open>extract\<close> wraps to a
  huge number, and \<^verbatim>\<open>extract\<close> returns the empty string.
\<close>

definition endsWith :: "string \<Rightarrow> string \<Rightarrow> bool" where
  "endsWith haystack needle =
     (let hay = c_str haystack
      in if hay = [] \<or> needle = [] then False
         else if length hay < length needle then False
         else extract_q hay (length hay - length needle) (length needle) = needle)"

definition startsWithAny :: "string \<Rightarrow> string \<Rightarrow> bool" where
  "startsWithAny haystack needles = list_ex (\<lambda>c. startsWith haystack [c]) (c_str needles)"

definition endsWithAny :: "string \<Rightarrow> string \<Rightarrow> bool" where
  "endsWithAny haystack needles = list_ex (\<lambda>c. endsWith haystack [c]) (c_str needles)"

definition containsAny :: "string \<Rightarrow> string \<Rightarrow> bool" where
  "containsAny haystack needles = list_ex (\<lambda>c. contains haystack [c]) (c_str needles)"

definition nextTokenClear :: "string \<Rightarrow> char \<Rightarrow> bool \<Rightarrow> string \<times> string" where
  "nextTokenClear line delim doClear =
     (case find_sub [delim] line of
        Some f \<Rightarrow> (extract_q line 0 f, extract_from line (f + 1))
      | None \<Rightarrow> if line \<noteq> [] then (line, if doClear then [] else line) else ([], line))"

section \<open>Case and padding\<close>

definition tolower :: "char \<Rightarrow> char" where
  "tolower c = (if CHR ''A'' \<le> c \<and> c \<le> CHR ''Z'' then char_of (of_char c + (32 :: nat)) else c)"

definition toupper :: "char \<Rightarrow> char" where
  "toupper c = (if CHR ''a'' \<le> c \<and> c \<le> CHR ''z'' then char_of (of_char c - (32 :: nat)) else c)"

definition toLower :: "string \<Rightarrow> string" where
  "toLower s = c_str (map tolower (c_str s))"

definition toUpper :: "string \<Rightarrow> string" where
  "toUpper s = c_str (map toupper (c_str s))"

definition containsI :: "string \<Rightarrow> string \<Rightarrow> bool" where
  "containsI haystack needle = contains (toLower haystack) (toLower needle)"

definition padRight :: "string \<Rightarrow> nat \<Rightarrow> char \<Rightarrow> string" where
  "padRight str n p = (if n > length str then str @ replicate (n - length str) p else str)"

definition padLeft :: "string \<Rightarrow> nat \<Rightarrow> char \<Rightarrow> string" where
  "padLeft str n p = (if n > length str then replicate (n - length str) p @ str else str)"

definition padCenter :: "string \<Rightarrow> nat \<Rightarrow> char \<Rightarrow> string" where
  "padCenter str n p =
     (if n > length str then (let padding = (n - length str) div 2 in replicate padding p @ str @ replicate padding p)
      else str)"

section \<open>Trimming\<close>

lemma length_c_str: "length (c_str s) \<le> length s"
  by (simp add: c_str_def length_takeWhile_le)

lemma startsWith_char: "startsWith s [c] \<longleftrightarrow> (\<exists>t. c_str s = c # t)"
  by (cases "c_str s") (auto simp: startsWith_def extract_q_def Let_def)

lemma endsWith_char: "endsWith s [c] \<longleftrightarrow> c_str s \<noteq> [] \<and> last (c_str s) = c"
proof (cases "c_str s" rule: rev_cases)
  case (snoc ys y)
  then show ?thesis by (auto simp: endsWith_def extract_q_def Let_def)
qed (simp add: endsWith_def)

lemma ends_or_starts_nonempty: "endsWith s [c] \<or> startsWith s [c] \<Longrightarrow> s \<noteq> []"
  using length_c_str [of s] by (auto simp: endsWith_char startsWith_char)

function trimTrailing :: "string \<Rightarrow> char \<Rightarrow> string" where
  "trimTrailing ret c = (if endsWith ret [c] then trimTrailing (extract_q ret 0 (length ret - 1)) c else ret)"
  by pat_completeness auto
termination
proof (relation "measure (\<lambda>(ret, c). length ret)")
  fix ret :: string and c :: char
  assume "endsWith ret [c]"
  then have "ret \<noteq> []" using ends_or_starts_nonempty by blast
  then show "((extract_q ret 0 (length ret - 1), c), ret, c) \<in> measure (\<lambda>(ret, c). length ret)"
    by (cases ret) (simp_all add: extract_q_def)
qed simp

function trimLeading_loop :: "string \<Rightarrow> char \<Rightarrow> string" where
  "trimLeading_loop ret c = (if startsWith ret [c] then trimLeading_loop (extract_from ret 1) c else ret)"
  by pat_completeness auto
termination
proof (relation "measure (\<lambda>(ret, c). length ret)")
  fix ret :: string and c :: char
  assume "startsWith ret [c]"
  then have "ret \<noteq> []" using ends_or_starts_nonempty by blast
  then show "((extract_from ret 1, c), ret, c) \<in> measure (\<lambda>(ret, c). length ret)"
    by (cases ret) (simp_all add: extract_from_def)
qed simp

declare trimTrailing.simps [simp del] trimLeading_loop.simps [simp del]

definition trimLeading :: "string \<Rightarrow> char \<Rightarrow> string" where
  "trimLeading str c = c_str (trimLeading_loop (c_str str) c)"

definition trim :: "string \<Rightarrow> char \<Rightarrow> string" where
  "trim str c = trimTrailing (trimLeading str c) c"

lemma length_trimTrailing: "length (trimTrailing s c) \<le> length s"
  by (induction s c rule: trimTrailing.induct)
    (subst trimTrailing.simps, auto simp: extract_q_def elim: order_trans)

lemma length_trimLeading_loop: "length (trimLeading_loop s c) \<le> length s"
proof (induction s c rule: trimLeading_loop.induct)
  case (1 s c)
  show ?case
  proof (cases "startsWith s [c]")
    case True
    have "length (trimLeading_loop (extract_from s 1) c) \<le> length (extract_from s 1)" using 1 [OF True] .
    also have "\<dots> \<le> length s" by (simp add: extract_from_def)
    finally show ?thesis using True by (subst trimLeading_loop.simps) simp
  next
    case False
    then show ?thesis by (subst trimLeading_loop.simps) simp
  qed
qed

lemma length_trim: "length (trim s c) \<le> length s"
proof -
  have "length (trim s c) \<le> length (trimLeading s c)" by (simp add: trim_def length_trimTrailing)
  also have "\<dots> \<le> length (trimLeading_loop (c_str s) c)" by (simp add: trimLeading_def length_c_str)
  also have "\<dots> \<le> length (c_str s)" by (rule length_trimLeading_loop)
  also have "\<dots> \<le> length s" by (rule length_c_str)
  finally show ?thesis .
qed

lemma c_str_idem [simp]: "c_str (c_str s) = c_str s"
  by (simp add: c_str_def)

lemma startsWith_c_str [simp]: "startsWith (c_str s) t = startsWith s t"
  by (simp add: startsWith_def)

lemma c_str_shorter_or_same: "length (c_str s) < length s \<or> c_str s = s"
  unfolding c_str_def
  by (metis length_takeWhile_le nat_less_le takeWhile_eq_take take_all order_refl)

lemma trimTrailing_not_ends: "\<not> endsWith (trimTrailing s c) [c]"
  by (induction s c rule: trimTrailing.induct) (subst trimTrailing.simps, auto)

lemma trimTrailing_shorter_or_same: "length (trimTrailing s c) < length s \<or> trimTrailing s c = s"
proof (cases "endsWith s [c]")
  case True
  then have ne: "s \<noteq> []" using ends_or_starts_nonempty by blast
  have "length (trimTrailing (extract_q s 0 (length s - 1)) c) \<le> length (extract_q s 0 (length s - 1))"
    by (rule length_trimTrailing)
  also have "\<dots> < length s" using ne by (cases s) (simp_all add: extract_q_def)
  finally show ?thesis using True by (subst (1) trimTrailing.simps) simp
qed (subst (1 2) trimTrailing.simps, simp)

lemma trimLeading_loop_shorter:
  assumes "startsWith s [c]"
  shows "length (trimLeading_loop s c) < length s"
proof -
  have ne: "s \<noteq> []" using assms ends_or_starts_nonempty by blast
  have "length (trimLeading_loop (extract_from s 1) c) \<le> length (extract_from s 1)"
    by (rule length_trimLeading_loop)
  also have "\<dots> < length s" using ne by (cases s) (simp_all add: extract_from_def)
  finally show ?thesis using assms by (subst trimLeading_loop.simps) simp
qed

lemma trimLeading_shorter_or_same: "length (trimLeading s c) < length s \<or> trimLeading s c = s"
proof (cases "startsWith (c_str s) [c]")
  case True
  have "length (trimLeading s c) \<le> length (trimLeading_loop (c_str s) c)"
    by (simp add: trimLeading_def length_c_str)
  also have "\<dots> < length (c_str s)" using True by (rule trimLeading_loop_shorter)
  finally show ?thesis using length_c_str [of s] by simp
next
  case False
  then have "trimLeading s c = c_str s"
    unfolding trimLeading_def by (subst trimLeading_loop.simps) simp
  then show ?thesis using c_str_shorter_or_same by auto
qed

lemma trim_shorter_or_same: "length (trim s c) < length s \<or> trim s c = s"
  using trimTrailing_shorter_or_same [of "trimLeading s c" c] trimLeading_shorter_or_same [of s c]
  unfolding trim_def by (metis less_trans)

lemma trim_shorter:
  assumes "endsWith s [c] \<or> startsWith s [c]"
  shows "length (trim s c) < length s"
proof (rule ccontr)
  assume "\<not> length (trim s c) < length s"
  then have same: "trim s c = s" using trim_shorter_or_same by blast
  then have "\<not> endsWith s [c]" using trimTrailing_not_ends unfolding trim_def by metis
  with assms have st: "startsWith s [c]" by blast
  have "length (trim s c) \<le> length (trimLeading s c)" by (simp add: trim_def length_trimTrailing)
  also have "\<dots> \<le> length (trimLeading_loop (c_str s) c)" by (simp add: trimLeading_def length_c_str)
  also have "\<dots> < length (c_str s)" using st by (intro trimLeading_loop_shorter) simp
  also have "\<dots> \<le> length s" by (rule length_c_str)
  finally show False using same by simp
qed

lemma foldl_trim_shorter_or_same: "length (foldl trim s cs) < length s \<or> foldl trim s cs = s"
proof (induction cs arbitrary: s)
  case (Cons c cs)
  from Cons [of "trim s c"] trim_shorter_or_same [of s c] show ?case
    by (metis foldl_Cons less_trans)
qed simp

lemma foldl_trim_shorter:
  "c \<in> set cs \<Longrightarrow> endsWith s [c] \<or> startsWith s [c] \<Longrightarrow> length (foldl trim s cs) < length s"
proof (induction cs arbitrary: s)
  case (Cons d cs)
  show ?case
  proof (cases "trim s d = s")
    case True
    with Cons.prems trim_shorter have "c \<noteq> d" by (metis less_irrefl)
    then show ?thesis using Cons.IH [of s] Cons.prems True by simp
  next
    case False
    then have "length (trim s d) < length s" using trim_shorter_or_same by blast
    then show ?thesis using foldl_trim_shorter_or_same [of "trim s d" cs] by auto
  qed
qed simp

function trimWhitespace_loop :: "string \<Rightarrow> string \<Rightarrow> string" where
  "trimWhitespace_loop ret any =
     (if endsWithAny ret any \<or> startsWithAny ret any then trimWhitespace_loop (foldl trim ret any) any else ret)"
  by pat_completeness auto
termination
proof (relation "measure (\<lambda>(ret, any). length ret)")
  fix ret any :: string
  assume "endsWithAny ret any \<or> startsWithAny ret any"
  then obtain c where "c \<in> set (c_str any)" "endsWith ret [c] \<or> startsWith ret [c]"
    by (auto simp: endsWithAny_def startsWithAny_def list_ex_iff)
  moreover then have "c \<in> set any" by (auto simp: c_str_def dest: set_takeWhileD)
  ultimately show "((foldl trim ret any, any), ret, any) \<in> measure (\<lambda>(ret, any). length ret)"
    by (auto intro: foldl_trim_shorter)
qed simp

declare trimWhitespace_loop.simps [simp del]

definition trimWhitespace :: "string \<Rightarrow> string \<Rightarrow> string" where
  "trimWhitespace str add =
     c_str (trimWhitespace_loop (c_str str) ([CHR 0x09, CHR 0x0D, CHR 0x0A, CHR '' ''] @ c_str add))"

section \<open>Splitting\<close>

fun explode_loop :: "bool \<Rightarrow> char \<Rightarrow> string \<Rightarrow> string \<Rightarrow> string list" where
  "explode_loop trm needle buffer [] = (if buffer \<noteq> [] then [buffer] else [])"
| "explode_loop trm needle buffer (ch # rest) =
     (if ch \<noteq> needle then explode_loop trm needle (buffer @ [ch]) rest
      else (if trm then trimWhitespace buffer [] else buffer) # explode_loop trm needle [] rest)"

definition explode_into :: "string list \<Rightarrow> string \<Rightarrow> char \<Rightarrow> bool \<Rightarrow> string list" where
  "explode_into result input needle trm = result @ explode_loop trm needle [] input"

section \<open>Replacing\<close>

definition replace_q :: "string \<Rightarrow> string \<Rightarrow> string \<Rightarrow> string" where
  "replace_q target what wth =
     (case find_sub what target of
        None \<Rightarrow> target
      | Some f \<Rightarrow> extract_q target 0 f @ c_str wth @ extract_from target (f + length what))"

text \<open>
  The loop of \<^verbatim>\<open>replaceAll\<close> searches the whole text again after every replacement,
  so it may find a match that the replacement created; it need not end, and not ending is
  \<open>None\<close>. A replacement that contains the searched text goes through a marker.
\<close>

partial_function (option) replaceAll_loop :: "string \<Rightarrow> string \<Rightarrow> string \<Rightarrow> string option" where
  "replaceAll_loop target what wth =
     (if find_sub what target \<noteq> None then replaceAll_loop (replace_q target what wth) what wth else Some target)"

definition marker :: string where
  "marker = ''~*~'' @ [CHR 0x60, CHR 0x60]"

partial_function (option) replaceAll :: "string \<Rightarrow> string \<Rightarrow> string \<Rightarrow> string option" where
  "replaceAll target what wth =
     (if what = [] then Some target
      else if find_sub what wth \<noteq> None
      then Option.bind (replaceAll target what marker) (\<lambda>t. replaceAll t marker wth)
      else replaceAll_loop target what wth)"

definition substitute :: "string \<Rightarrow> string \<Rightarrow> string \<Rightarrow> string option" where
  "substitute strIn what wth = replaceAll strIn what wth"

text \<open>\<^verbatim>\<open>reverse\<close> swaps the ends inwards, in place.\<close>

function reverse_loop :: "nat \<Rightarrow> nat \<Rightarrow> 'a list \<Rightarrow> 'a list" where
  "reverse_loop i n t =
     (if i < n div 2 then reverse_loop (Suc i) n (t[i := t ! (n - 1 - i), n - 1 - i := t ! i]) else t)"
  by pat_completeness auto
termination by (relation "measure (\<lambda>(i, n, t). n div 2 - i)") auto

declare reverse_loop.simps [simp del]

definition reverse_q :: "string \<Rightarrow> string" where
  "reverse_q t = reverse_loop 0 (length t) t"

definition nextTokenClearReverse :: "string \<Rightarrow> char \<Rightarrow> string \<times> string" where
  "nextTokenClearReverse str token =
     (case nextTokenClear (reverse_q str) token True of (ret, rest) \<Rightarrow> (reverse_q ret, reverse_q rest))"

definition removeCharacters_inner :: "string \<Rightarrow> string \<Rightarrow> string" where
  "removeCharacters_inner str chars = filter (\<lambda>ch. \<not> list_ex (\<lambda>c. c = ch) chars) str"

end
