(* ===== verification/Strings_Correct.thy ===== *)
theory Strings_Correct
  imports Strings
begin

text \<open>
  Facts on the string routines: reversal, the end of \<^verbatim>\<open>replaceAll\<close>, splitting of a
  line into its fields, and texts that trimming leaves alone.
\<close>

section \<open>Reversal\<close>

lemma reverse_loop_correct:
  assumes "length t = n" "i \<le> n div 2" "t = rev (drop (n - i) u) @ drop i (take (n - i) u) @ rev (take i u)"
    "length u = n"
  shows "reverse_loop i n t = rev u"
  using assms
proof (induction i n t rule: reverse_loop.induct)
  case (1 i n t)
  have nth: "t ! k = (if k < i \<or> n - i \<le> k then rev u ! k else u ! k)" if "k < n" for k
    using that 1(3-5) by (auto simp: nth_append rev_nth nth_append)
  show ?case
  proof (cases "i < n div 2")
    case True
    define t' where "t' = t[i := t ! (n - 1 - i), n - 1 - i := t ! i]"
    have "t' = rev (drop (n - Suc i) u) @ drop (Suc i) (take (n - Suc i) u) @ rev (take (Suc i) u)"
    proof (rule nth_equalityI)
      show len: "length t' = length (rev (drop (n - Suc i) u) @ drop (Suc i) (take (n - Suc i) u) @ rev (take (Suc i) u))"
        using 1(2,5) True by (simp add: t'_def)
      fix k
      assume "k < length t'"
      then have k: "k < n" using 1(2) by (simp add: t'_def)
      have i: "i < n" "n - Suc i < n" "n - Suc (n - Suc i) = i" using True by auto
      have "t' ! k = (if k < Suc i \<or> n - Suc i \<le> k then rev u ! k else u ! k)"
        using k i True 1(2,5) nth [OF k] nth [OF i(1)] nth [OF i(2)]
        by (auto simp: t'_def nth_list_update rev_nth)
      also have "\<dots> = (rev (drop (n - Suc i) u) @ drop (Suc i) (take (n - Suc i) u) @ rev (take (Suc i) u)) ! k"
        using k True 1(5) by (auto simp: nth_append rev_nth)
      finally show "t' ! k = (rev (drop (n - Suc i) u) @ drop (Suc i) (take (n - Suc i) u) @ rev (take (Suc i) u)) ! k" .
    qed
    moreover have "length t' = n" using 1(2) by (simp add: t'_def)
    ultimately have "reverse_loop (Suc i) n t' = rev u"
      using 1(1) [OF True] True 1(5) unfolding t'_def by simp
    then show ?thesis using True by (subst reverse_loop.simps) (simp add: t'_def)
  next
    case False
    have "t = rev u"
    proof (rule nth_equalityI)
      show "length t = length (rev u)" using 1(2,5) by simp
      fix k
      assume "k < length t"
      then have k: "k < n" using 1(2) by simp
      then have "t ! k = rev u ! k \<or> k = n - 1 - k" using nth [OF k] False 1(3) by auto
      moreover have "u ! k = rev u ! k" if "k = n - 1 - k" using that k 1(5) by (simp add: rev_nth)
      ultimately show "t ! k = rev u ! k" using nth [OF k] by (auto split: if_splits)
    qed
    then show ?thesis using False by (subst reverse_loop.simps) simp
  qed
qed

lemma reverse_q_rev: "reverse_q t = rev t"
  unfolding reverse_q_def by (rule reverse_loop_correct) auto

section \<open>Searching and replacing\<close>

lemma find_sub_Some:
  "find_sub what s = Some f \<Longrightarrow> f + length what \<le> length s \<and> s = take f s @ what @ drop (f + length what) s"
proof (induction what s arbitrary: f rule: find_sub.induct)
  case (2 needle c cs)
  show ?case
  proof (cases "take (length needle) (c # cs) = needle")
    case True
    then have "length needle \<le> length (c # cs)" by (metis length_take min.cobounded1 min_def nat_le_linear)
    moreover have "c # cs = needle @ drop (length needle) (c # cs)" using True by (metis append_take_drop_id)
    ultimately show ?thesis using 2(2) True by simp
  next
    case False
    then obtain g where "find_sub needle cs = Some g" "f = Suc g" using 2(2) by auto
    then show ?thesis using 2(1) [OF False] by auto
  qed
qed (auto split: if_splits)

lemma find_sub_char: "find_sub [c] s = None \<longleftrightarrow> c \<notin> set s"
  by (induction s) auto

lemma find_sub_absent: "c \<in> set what \<Longrightarrow> c \<notin> set s \<Longrightarrow> find_sub what s = None"
proof (rule ccontr)
  assume c: "c \<in> set what" "c \<notin> set s" and "find_sub what s \<noteq> None"
  then obtain f where "s = take f s @ what @ drop (f + length what) s" using find_sub_Some by blast
  then have "set what \<subseteq> set s" by (metis set_append Un_upper1 Un_upper2 subset_trans)
  with c show False by blast
qed

text \<open>
  \<^verbatim>\<open>replaceAll\<close> ends, and leaves no match, whenever the replacement has no character
  of the searched text: every turn takes away characters of that text.
\<close>

lemma replace_q_measure:
  assumes "find_sub what t = Some f" "what \<noteq> []" "set what \<inter> set wth = {}"
  shows "length (filter (\<lambda>c. c \<in> set what) (replace_q t what wth)) < length (filter (\<lambda>c. c \<in> set what) t)"
proof -
  have t: "t = take f t @ what @ drop (f + length what) t" "f + length what \<le> length t"
    using find_sub_Some [OF assms(1)] by auto
  have "set (c_str wth) \<subseteq> set wth" by (auto simp: c_str_def dest: set_takeWhileD)
  then have w: "filter (\<lambda>c. c \<in> set what) (c_str wth) = []" using assms(3) by (auto simp: filter_empty_conv)
  have r: "replace_q t what wth = take f t @ c_str wth @ drop (f + length what) t"
    using assms t(2) by (simp add: replace_q_def extract_q_def extract_from_def)
  have "length (filter (\<lambda>c. c \<in> set what) t) =
      length (filter (\<lambda>c. c \<in> set what) (take f t)) + length what +
      length (filter (\<lambda>c. c \<in> set what) (drop (f + length what) t))"
    by (subst t(1)) simp
  then show ?thesis using assms(2) w by (simp add: r)
qed

lemma replaceAll_loop_ends:
  assumes "what \<noteq> []" "set what \<inter> set wth = {}"
  shows "\<exists>r. replaceAll_loop t what wth = Some r \<and> find_sub what r = None"
proof (induction "length (filter (\<lambda>c. c \<in> set what) t)" arbitrary: t rule: less_induct)
  case less
  show ?case
  proof (cases "find_sub what t")
    case None
    then show ?thesis by (subst replaceAll_loop.simps) simp
  next
    case (Some f)
    then show ?thesis
      using less [OF replace_q_measure [OF Some assms]] by (subst replaceAll_loop.simps) simp
  qed
qed

lemma replaceAll_ends:
  assumes "what \<noteq> []" "set what \<inter> set wth = {}"
  shows "\<exists>r. replaceAll t what wth = Some r \<and> find_sub what r = None"
proof -
  obtain c where "c \<in> set what" using assms(1) by (cases what) auto
  then have "find_sub what wth = None" using assms(2) find_sub_absent by blast
  then show ?thesis using replaceAll_loop_ends [OF assms] assms(1) by (subst replaceAll.simps) simp
qed

lemma substitute_absent: "what \<noteq> [] \<Longrightarrow> find_sub what wth = None \<Longrightarrow> find_sub what s = None \<Longrightarrow> substitute s what wth = Some s"
  by (simp add: substitute_def replaceAll.simps replaceAll_loop.simps)

text \<open>Taking the prefix \<^verbatim>\<open>0x\<close> off a hexadecimal number.\<close>

lemma substitute_0x:
  assumes "CHR ''x'' \<notin> set r"
  shows "substitute (''0x'' @ r) ''0x'' [] = Some r"
proof -
  have "find_sub ''0x'' (''0x'' @ r) = Some 0" by simp
  moreover have "replace_q (''0x'' @ r) ''0x'' [] = r"
    by (simp add: replace_q_def extract_q_def extract_from_def c_str_def)
  moreover have "find_sub ''0x'' r = None" using assms by (intro find_sub_absent [of "CHR ''x''"]) auto
  ultimately have "replaceAll_loop (''0x'' @ r) ''0x'' [] = replaceAll_loop r ''0x'' []"
    by (subst replaceAll_loop.simps) simp
  moreover have "replaceAll_loop r ''0x'' [] = Some r"
    using \<open>find_sub ''0x'' r = None\<close> by (subst replaceAll_loop.simps) simp
  ultimately show ?thesis by (simp add: substitute_def replaceAll.simps)
qed

section \<open>Trimming and splitting\<close>

definition blanks :: string where
  "blanks = [CHR 0x09, CHR 0x0D, CHR 0x0A, CHR '' '']"

lemma c_str_id: "CHR 0x00 \<notin> set s \<Longrightarrow> c_str s = s"
  by (auto simp add: c_str_def takeWhile_eq_all_conv)

lemma trimWhitespace_id:
  assumes "CHR 0x00 \<notin> set s" "s = [] \<or> hd s \<notin> set blanks \<and> last s \<notin> set blanks"
  shows "trimWhitespace s [] = s"
proof -
  have cs: "c_str s = s" by (rule c_str_id [OF assms(1)])
  have b: "c_str [CHR 0x09, CHR 0x0D, CHR 0x0A, CHR '' ''] = blanks"
    by (simp add: c_str_def blanks_def)
  have "\<not> endsWithAny s [CHR 0x09, CHR 0x0D, CHR 0x0A, CHR '' '']"
    using assms(2) cs by (auto simp: endsWithAny_def b list_ex_iff endsWith_char)
  moreover have "\<not> startsWithAny s [CHR 0x09, CHR 0x0D, CHR 0x0A, CHR '' '']"
    using assms(2) cs by (auto simp: startsWithAny_def b list_ex_iff startsWith_char)
  ultimately show ?thesis
    unfolding trimWhitespace_def by (subst trimWhitespace_loop.simps) (simp add: cs c_str_def [of "[]"])
qed

lemma explode_loop_field:
  "needle \<notin> set a \<Longrightarrow> explode_loop trm needle buffer (a @ needle # rest) =
     (if trm then trimWhitespace (buffer @ a) [] else buffer @ a) # explode_loop trm needle [] rest"
  by (induction a arbitrary: buffer) auto

lemma explode_loop_last:
  "needle \<notin> set a \<Longrightarrow> explode_loop trm needle buffer a = (if buffer @ a \<noteq> [] then [buffer @ a] else [])"
  by (induction a arbitrary: buffer) auto

section \<open>Where a text occurs\<close>

lemma find_sub_prefix: "find_sub n (n @ b) = Some 0"
proof (cases "n @ b")
  case (Cons c cs)
  then have "take (length n) (c # cs) = n" by (metis append_eq_conv_conj)
  then show ?thesis using Cons by simp
qed simp

lemma find_sub_first: "\<exists>f. find_sub n (a @ n @ b) = Some f \<and> f \<le> length a"
  by (induction a) (auto simp: find_sub_prefix)

lemma find_sub_None: "find_sub n s = None \<longleftrightarrow> (\<forall>a b. s \<noteq> a @ n @ b)"
  using find_sub_first [of n] find_sub_Some [of n s] by (metis option.distinct(1) option.exhaust)

text \<open>A text none of whose proper ends is one of its beginnings occurs first where it was put.\<close>

lemma find_sub_unique:
  assumes "find_sub n L = None" "n \<noteq> []" "hd n \<notin> set (tl n) \<or> last n \<notin> set (butlast n)"
  shows "find_sub n (L @ n @ R) = Some (length L)"
proof -
  obtain f where f: "find_sub n (L @ n @ R) = Some f" and le: "f \<le> length L"
    using find_sub_first by blast
  define s where "s = L @ n @ R"
  have s: "s = take f s @ n @ drop (f + length n) s" using find_sub_Some [OF f] unfolding s_def by blast
  have len: "length n > 0" using assms(2) by simp
  have at: "n ! i = s ! (f + i)" if "i < length n" for i
  proof -
    have "length (take f s) = f" using le by (simp add: s_def)
    then show ?thesis using that s by (metis nth_append_length_plus nth_append)
  qed
  have "\<not> f < length L"
  proof
    assume lt: "f < length L"
    show False
    proof (cases "f + length n \<le> length L")
      case True
      have "take (f + length n) s = take f s @ n" using s le
        by (metis add_diff_cancel_left' append.assoc append_eq_conv_conj length_append length_take min.absorb2 s_def trans_le_add1)
      then have "take (f + length n) L = take f L @ n" using True le by (simp add: s_def)
      then have "L = take f L @ n @ drop (f + length n) L" by (metis append.assoc append_take_drop_id)
      then show False using assms(1) find_sub_None by metis
    next
      case False
      define k where "k = length L - f"
      have k: "0 < k" "k < length n" using lt False by (auto simp: k_def)
      have "n ! k = n ! 0" using at [OF k(2)] lt len by (simp add: s_def k_def nth_append)
      moreover have "tl n ! (k - 1) = n ! k" using k by (simp add: nth_tl)
      moreover have "tl n ! (k - 1) \<in> set (tl n)" using k by (intro nth_mem) simp
      ultimately have h: "hd n \<in> set (tl n)" using assms(2) by (simp add: hd_conv_nth)
      have "length n - 1 < length n" using len by simp
      from at [OF this] have "n ! (length n - 1) = s ! (f + (length n - 1))" .
      moreover have "s ! (f + (length n - 1)) = n ! (f + (length n - 1) - length L)"
        using False lt len by (auto simp: s_def nth_append)
      moreover have "f + (length n - 1) - length L < length n - 1" using lt len False by linarith
      ultimately have "last n \<in> set (butlast n)"
        using assms(2) by (metis last_conv_nth length_butlast nth_butlast nth_mem)
      with h assms(3) show False by blast
    qed
  qed
  then show ?thesis using f le by simp
qed

lemma find_sub_append_None:
  assumes "find_sub (c # n) pre = None" "find_sub (c # n) (c # t) = None" "c \<notin> set n"
  shows "find_sub (c # n) (pre @ c # t) = None"
proof (rule ccontr)
  assume "find_sub (c # n) (pre @ c # t) \<noteq> None"
  then obtain a b where "pre @ (c # t) = a @ ((c # n) @ b)" unfolding find_sub_None by blast
  from iffD1 [OF append_eq_append_conv2 this]
  consider us where "pre = a @ us" "us @ (c # t) = (c # n) @ b" | us where "c # t = us @ (c # n) @ b" by blast
  then show False
  proof cases
    case (1 us)
    from iffD1 [OF append_eq_append_conv2 1(2)]
    consider vs where "us = (c # n) @ vs" | vs where "us @ vs = c # n" "c # t = vs @ b" by metis
    then show False
    proof cases
      case (1 vs)
      then show False using assms(1) \<open>pre = a @ us\<close> find_sub_None by (metis append.assoc)
    next
      case (2 vs)
      show False
      proof (cases us)
        case Nil
        then show False using 2 assms(2) find_sub_None [of "c # n" "c # t"] by (metis append_Nil)
      next
        case (Cons u us')
        then have u: "u = c" "n = us' @ vs" using 2 by auto
        show False
        proof (cases vs)
          case Nil
          then show False using u Cons assms(1) \<open>pre = a @ us\<close> find_sub_None [of "c # n" pre] by (metis append_Nil2)
        qed (use 2 u assms(3) in auto)
      qed
    qed
  next
    case (2 us)
    then show False using assms(2) find_sub_None by metis
  qed
qed

text \<open>Replacing an ending, or a part in the middle, that occurs once.\<close>

lemma substitute_once:
  assumes "find_sub what s = Some f" "s = a @ what @ b" "length a = f" "what \<noteq> []" "CHR 0x00 \<notin> set wth"
    "find_sub what wth = None" "find_sub what (a @ wth @ b) = None"
  shows "substitute s what wth = Some (a @ wth @ b)"
proof -
  have "replace_q s what wth = a @ wth @ b"
    using assms(1-3,5) by (cases b) (auto simp: replace_q_def extract_q_def extract_from_def c_str_id)
  then show ?thesis using assms(1,4,6,7)
    by (simp add: substitute_def replaceAll.simps replaceAll_loop.simps [of s] replaceAll_loop.simps [of "a @ wth @ b"])
qed

lemma find_sub_extend: "find_sub n s = Some f \<Longrightarrow> find_sub n (s @ r) = Some f"
proof (induction n s arbitrary: f rule: find_sub.induct)
  case (1 needle)
  then show ?case using find_sub_prefix [of "[]"] by (auto split: if_splits)
next
  case (2 needle c cs)
  show ?case
  proof (cases "take (length needle) (c # cs) = needle")
    case True
    then obtain t where "c # cs = needle @ t" by (metis append_take_drop_id)
    then show ?thesis using 2(2) find_sub_prefix [of needle "t @ r"] find_sub_prefix [of needle t]
      by (metis append.assoc)
  next
    case False
    then obtain g where g: "find_sub needle cs = Some g" "f = Suc g" using 2(2) by auto
    have "take (length needle) (c # cs @ r) \<noteq> needle"
    proof (cases "length needle \<le> length (c # cs)")
      case True
      then show ?thesis using False by (cases needle) auto
    next
      case len: False
      then have "length needle > length cs" by simp
      then show ?thesis using find_sub_Some [OF g(1)] by simp
    qed
    then show ?thesis using 2(1) [OF False g(1)] g(2) by simp
  qed
qed

lemma find_sub_extend_None:
  assumes "find_sub n s = None" "n \<noteq> []" "last n \<notin> set r"
  shows "find_sub n (s @ r) = None"
proof (rule ccontr)
  assume "find_sub n (s @ r) \<noteq> None"
  then obtain a b where "s @ r = (a @ n) @ b" unfolding find_sub_None by auto
  from iffD1 [OF append_eq_append_conv2 this] obtain us
    where "s = (a @ n) @ us \<or> s @ us = a @ n \<and> r = us @ b" by blast
  then show False
  proof
    assume "s = (a @ n) @ us"
    then show False using assms(1) unfolding find_sub_None by auto
  next
    assume *: "s @ us = a @ n \<and> r = us @ b"
    show False
    proof (cases "us = []")
      case True
      then show False using * assms(1) unfolding find_sub_None by (metis append_Nil2)
    next
      case False
      then have "last us = last n" using * assms(2) by (metis last_appendR)
      then show False using False * assms(3) by (metis UnCI last_in_set set_append)
    qed
  qed
qed

end
