(* ===== verification/BigInt_Arith.thy ===== *)
theory BigInt_Arith
  imports BigInt
begin

text \<open>
  The arithmetic of \<^verbatim>\<open>bigint.cpp\<close> is the arithmetic of the integers: every
  operation keeps the representation invariant (the sign is \<open>0\<close> exactly when the
  magnitude has no block) and returns the integer it should; division rounds towards minus
  infinity. The proofs use the magnitudes only through the interface
  \<open>unsigned_arith\<close>.
\<close>

definition toInt :: "bigint \<Rightarrow> int" where
  "toInt s = sign s * int (toNat (mag s))"

definition wf_bigint :: "bigint \<Rightarrow> bool" where
  "wf_bigint s \<longleftrightarrow> normal (mag s) \<and> (sign s = -1 \<or> sign s = 0 \<or> sign s = 1) \<and>
     (sign s = 0 \<longleftrightarrow> blk (mag s) = [])"

lemma wf_bigint_normal: "wf_bigint s \<Longrightarrow> normal (mag s)"
  by (simp add: wf_bigint_def)

lemma wf_bigint_alt:
  "wf_bigint s \<longleftrightarrow> normal (mag s) \<and> (sign s = -1 \<or> sign s = 0 \<or> sign s = 1) \<and>
     (sign s = 0 \<longleftrightarrow> toNat (mag s) = 0)"
  using toNat_eq_0_iff [of "mag s"] by (auto simp: wf_bigint_def)

lemma wf_bigint_cases:
  assumes "wf_bigint s"
  obtains (zero) "sign s = 0" "toNat (mag s) = 0" "toInt s = 0"
    | (pos) "sign s = 1" "toNat (mag s) \<noteq> 0" "toInt s = int (toNat (mag s))"
    | (neg) "sign s = -1" "toNat (mag s) \<noteq> 0" "toInt s = - int (toNat (mag s))"
  using assms by (auto simp: wf_bigint_alt toInt_def)

lemma sign_toInt: "wf_bigint s \<Longrightarrow> sign s = sgn (toInt s)"
  by (erule wf_bigint_cases) auto

lemma wf_bigint_zero [simp]: "wf_bigint bigint_zero" "toInt bigint_zero = 0"
  by (simp_all add: bigint_zero_def wf_bigint_def toInt_def)

lemma bigint_assign_simps [simp]:
  "sign (bigint_assign this x) = sign x" "toInt (bigint_assign this x) = toInt x"
  "toNat (mag (bigint_assign this x)) = toNat (mag x)"
  "wf_bigint x \<Longrightarrow> wf_bigint (bigint_assign this x)"
  by (auto simp add: bigint_assign_def toInt_def wf_bigint_def)

text \<open>The triple of a result that exists, its invariant and its value.\<close>

definition yields :: "bigint result \<Rightarrow> int \<Rightarrow> bool" where
  "yields r v \<longleftrightarrow> (\<exists>s. r = Inr s \<and> wf_bigint s \<and> toInt s = v)"

lemma yieldsI [intro]: "wf_bigint s \<Longrightarrow> toInt s = v \<Longrightarrow> yields (Inr s) v"
  by (auto simp: yields_def)

lemma yieldsE [elim]:
  assumes "yields r v"
  obtains s where "r = Inr s" "wf_bigint s" "toInt s = v"
  using assms by (auto simp: yields_def)

lemma yields_signed:
  assumes "s = 1 \<or> s = -1" "normal m" "toNat m \<noteq> 0" "s * int (toNat m) = v"
  shows "yields (Inr \<lparr>sign = s, mag = m\<rparr>) v"
  using assms by (auto simp: wf_bigint_alt toInt_def intro!: yieldsI)

section \<open>Comparison\<close>

lemma bigint_compareTo_sgn:
  assumes "wf_bigint a" "wf_bigint b"
  shows "bigint_compareTo a b = sgn (toInt a - toInt b)"
  by (rule wf_bigint_cases [OF assms(1)]; rule wf_bigint_cases [OF assms(2)])
    (simp_all add: bigint_compareTo_def bu.cmp_sgn wf_bigint_normal assms sgn_if)

lemma bigint_eq_iff:
  assumes "wf_bigint a" "wf_bigint b"
  shows "bigint_eq a b \<longleftrightarrow> toInt a = toInt b"
  by (rule wf_bigint_cases [OF assms(1)]; rule wf_bigint_cases [OF assms(2)])
    (simp_all add: bigint_eq_def biguint_eq_iff wf_bigint_normal assms)

section \<open>Addition, subtraction, multiplication, negation\<close>

lemma bigint_add_correct:
  assumes "wf_bigint a" "wf_bigint b"
  shows "yields (bigint_add this a b) (toInt a + toInt b)"
proof -
  note n = assms [THEN wf_bigint_normal]
  consider "sign a = 0" | "sign b = 0" | "sign a \<noteq> 0" "sign a = sign b"
    | "sign a \<noteq> 0" "sign b = - sign a"
    using assms by (auto simp: wf_bigint_def)
  then show ?thesis
  proof cases
    case 1
    then show ?thesis using assms by (auto simp: bigint_add_def sign_toInt sgn_0_0)
  next
    case 2
    then show ?thesis using assms by (auto simp: bigint_add_def sign_toInt sgn_0_0)
  next
    case 3
    then show ?thesis using assms
      by (auto simp: bigint_add_def wf_bigint_alt bu.val_add bu.inv_add toInt_def algebra_simps
          intro!: yields_signed)
  next
    case 4
    show ?thesis using n
    proof (cases rule: bu.cmp_cases)
      case eq
      then show ?thesis using 4 assms
        by (auto simp: bigint_add_def wf_bigint_def toInt_def)
    next
      case gt
      then show ?thesis using 4 assms bu.sub_int [OF n gt(2), of "mag this"]
        by (auto simp: bigint_add_def wf_bigint_alt toInt_def algebra_simps intro!: yields_signed)
    next
      case lt
      then show ?thesis using 4 assms bu.sub_int [OF n(2,1) lt(2), of "mag this"]
        by (auto simp: bigint_add_def wf_bigint_alt toInt_def algebra_simps intro!: yields_signed)
    qed
  qed
qed

lemma bigint_subtract_correct:
  assumes "wf_bigint a" "wf_bigint b"
  shows "yields (bigint_subtract this a b) (toInt a - toInt b)"
proof -
  note n = assms [THEN wf_bigint_normal]
  consider "sign a = 0" | "sign a \<noteq> 0" "sign b = 0" | "sign a \<noteq> 0" "sign b = - sign a"
    | "sign a \<noteq> 0" "sign a = sign b"
    using assms by (auto simp: wf_bigint_def)
  then show ?thesis
  proof cases
    case 1
    then show ?thesis using assms
      by (auto simp: bigint_subtract_def wf_bigint_def toInt_def intro!: yieldsI)
  next
    case 2
    then show ?thesis using assms by (auto simp: bigint_subtract_def sign_toInt sgn_0_0)
  next
    case 3
    then show ?thesis using assms
      by (auto simp: bigint_subtract_def wf_bigint_alt bu.val_add bu.inv_add toInt_def algebra_simps
          intro!: yields_signed)
  next
    case 4
    show ?thesis using n
    proof (cases rule: bu.cmp_cases)
      case eq
      then show ?thesis using 4 assms
        by (auto simp: bigint_subtract_def wf_bigint_def toInt_def)
    next
      case gt
      then show ?thesis using 4 assms bu.sub_int [OF n gt(2), of "mag this"]
        by (auto simp: bigint_subtract_def wf_bigint_alt toInt_def algebra_simps intro!: yields_signed)
    next
      case lt
      then show ?thesis using 4 assms bu.sub_int [OF n(2,1) lt(2), of "mag this"]
        by (auto simp: bigint_subtract_def wf_bigint_alt toInt_def algebra_simps intro!: yields_signed)
    qed
  qed
qed

lemma bigint_multiply_correct:
  assumes "wf_bigint a" "wf_bigint b"
  shows "yields (bigint_multiply this a b) (toInt a * toInt b)"
proof (cases "sign a = 0 \<or> sign b = 0")
  case True
  then show ?thesis using assms
    by (auto simp: bigint_multiply_def wf_bigint_def toInt_def)
next
  case False
  from bu.mul_ok [OF assms [THEN wf_bigint_normal], of "mag this"]
  show ?thesis using False assms
    by (auto simp: bigint_multiply_def wf_bigint_alt toInt_def intro!: yields_signed)
qed

lemma bigint_negate_correct:
  assumes "wf_bigint a"
  shows "wf_bigint (bigint_negate this a)" and "toInt (bigint_negate this a) = - toInt a"
  using assms by (auto simp: bigint_negate_def wf_bigint_def toInt_def)

section \<open>Division\<close>

lemma set_signs_correct:
  assumes "normal r" "normal q" "s = 1 \<or> s = -1" "t = 1 \<or> t = -1" "set_signs s r t q = (r', q')"
  shows "wf_bigint r'" "wf_bigint q'" "toInt r' = s * int (toNat r)" "toInt q' = t * int (toNat q)"
  using assms toNat_eq_0_iff [OF assms(1)] toNat_eq_0_iff [OF assms(2)]
  by (auto simp: set_signs_def wf_bigint_def toInt_def)

lemma div_mod_of_opposite:
  fixes a b :: nat
  shows "int a div (- int b) = (- int a) div int b" "int a mod (- int b) = - ((- int a) mod int b)"
  by (simp_all add: div_minus_right mod_minus_right)

lemma bigint_divide_correct:
  assumes "wf_bigint a" "wf_bigint b"
  shows "\<exists>r q'. bigint_divide a b q = Inr (r, q') \<and> wf_bigint r \<and> wf_bigint q' \<and>
    toInt r = toInt a mod toInt b \<and> toInt q' = toInt a div toInt b"
proof -
  note n = assms [THEN wf_bigint_normal]
  have z: "wf_bigint \<lparr>sign = 0, mag = store_assign (mag q) store_empty\<rparr>"
    "toInt \<lparr>sign = 0, mag = store_assign (mag q) store_empty\<rparr> = 0"
    by (simp_all add: wf_bigint_def toInt_def)
  consider "sign b = 0" | "sign a = 0" | "sign a \<noteq> 0" "sign b \<noteq> 0" "sign a = sign b"
    | "sign a \<noteq> 0" "sign b \<noteq> 0" "sign a = - sign b"
    using assms by (auto simp: wf_bigint_def)
  then show ?thesis
  proof cases
    case 1
    then show ?thesis using assms z
      by (simp add: bigint_divide_def toInt_def [of b])
  next
    case 2
    then show ?thesis using assms z
      by (simp add: bigint_divide_def toInt_def [of a])
  next
    case 3
    then have nz: "toNat (mag b) \<noteq> 0" using assms by (simp add: wf_bigint_alt)
    from bu.divm_ok [OF n nz, of "mag q"] obtain r q' where d:
      "biguint_divide (mag a) (mag b) (mag q) = Inr (r, q')"
      "toNat r = toNat (mag a) mod toNat (mag b)" "toNat q' = toNat (mag a) div toNat (mag b)"
      "normal r" "normal q'" by blast
    obtain R Q where s: "set_signs (sign b) r 1 q' = (R, Q)" by force
    have sb: "sign b = 1 \<or> sign b = -1" using 3 assms by (auto simp: wf_bigint_def)
    show ?thesis
      using 3 d s sb set_signs_correct [OF d(4,5) sb _ s]
      by (auto simp: bigint_divide_def toInt_def zdiv_int zmod_int)
  next
    case 4
    then have nz: "toNat (mag a) \<noteq> 0" "toNat (mag b) \<noteq> 0" using assms by (simp_all add: wf_bigint_alt)
    from bu.opposite_signs_divm [OF n nz, of "mag q" store_empty] obtain a' r q' t' where d:
      "biguint_dec (mag a) = Inr a'" "biguint_divide a' (mag b) (mag q) = Inr (r, q')"
      "biguint_subtract store_empty (mag b) r = Inr t'" "normal t'" "toNat t' \<noteq> 0"
      "int (toNat (biguint_inc q')) = - ((- int (toNat (mag a))) div int (toNat (mag b)))"
      "normal (biguint_inc q')"
      "int (toNat t') - 1 = (- int (toNat (mag a))) mod int (toNat (mag b))" by blast
    from bu.dec_ok [of "store_assign r t'"] d(4,5) obtain u where u:
      "biguint_dec (store_assign r t') = Inr u" "toNat u = toNat t' - 1" "normal u" by auto
    have u': "int (toNat u) = (- int (toNat (mag a))) mod int (toNat (mag b))"
      using u(2) d(5,8) by simp
    have sb: "sign b = 1 \<or> sign b = -1" using 4 assms by (auto simp: wf_bigint_def)
    obtain R Q where s: "set_signs (sign b) u (-1) (biguint_inc q') = (R, Q)" by force
    show ?thesis
      using 4 d(1-3,6) u s sb set_signs_correct [OF u(3) d(7) sb _ s] u'
      by (auto simp: bigint_divide_def toInt_def div_mod_of_opposite)
  qed
qed

lemma bigint_divide_yields:
  assumes "wf_bigint a" "wf_bigint b"
  shows "yields (bindR (bigint_divide a b q) (\<lambda>(r, q'). Inr (f r q'))) v \<longleftrightarrow>
    (\<forall>r q'. bigint_divide a b q = Inr (r, q') \<longrightarrow> yields (Inr (f r q')) v)"
  using bigint_divide_correct [OF assms, of q] by auto

section \<open>Increment and decrement\<close>

lemma store_eq_empty: "store_eq m store_empty \<longleftrightarrow> blk m = []"
  by (simp add: store_eq_iff)

lemma bigint_inc_correct:
  assumes "wf_bigint s"
  shows "yields (bigint_inc s) (toInt s + 1)"
  using assms
proof (cases rule: wf_bigint_cases)
  case neg
  then show ?thesis using bu.dec_ok [OF wf_bigint_normal [OF assms]]
    by (auto simp: bigint_inc_def store_eq_empty wf_bigint_def toInt_def toNat_eq_0_iff [symmetric]
        intro!: yieldsI)
qed (use assms wf_bigint_normal [OF assms] in \<open>auto simp: bigint_inc_def wf_bigint_alt toInt_def
      bu.val_inc bu.inv_inc intro!: yieldsI\<close>)

lemma bigint_dec_correct:
  assumes "wf_bigint s"
  shows "yields (bigint_dec s) (toInt s - 1)"
  using assms
proof (cases rule: wf_bigint_cases)
  case pos
  then show ?thesis using bu.dec_ok [OF wf_bigint_normal [OF assms]]
    by (auto simp: bigint_dec_def store_eq_empty wf_bigint_def toInt_def toNat_eq_0_iff [symmetric]
        intro!: yieldsI)
qed (use assms wf_bigint_normal [OF assms] in \<open>auto simp: bigint_dec_def wf_bigint_alt toInt_def
      bu.val_inc bu.inv_inc intro!: yieldsI\<close>)

end
