(* ===== verification/BigLib.thy ===== *)
theory BigLib
  imports BigInt_Arith "HOL-Library.Char_ord" "HOL-Library.Signed_Division"
begin

text \<open>
  \<^verbatim>\<open>libs/utillib/biglib.cpp\<close> and the class \<^verbatim>\<open>BigUnsignedInABase\<close> of
  \<^verbatim>\<open>biguint.h\<close>: numbers in a base of the caller's choice, their conversion from and to
  \<^verbatim>\<open>biguint_t\<close> and text, the greatest common divisor, modular powers and inverses,
  and the output of the two number types.
\<close>

section \<open>Numbers in a base\<close>

record inABase = "16 word BigNumStore" +
  base :: "16 word"

definition inABase_default :: inABase where
  "inABase_default = \<lparr>capacity = 0, blk = [], base = 2\<rparr>"

definition inABase_copy :: "inABase \<Rightarrow> inABase" where
  "inABase_copy x = \<lparr>capacity = len x, blk = blk x, base = base x\<rparr>"

definition inABase_assign :: "inABase \<Rightarrow> inABase \<Rightarrow> inABase" where
  "inABase_assign this x =
     \<lparr>capacity = (if len x > capacity this then len x else capacity this), blk = blk x, base = base x\<rparr>"

definition inABase_eq :: "inABase \<Rightarrow> inABase \<Rightarrow> bool" where
  "inABase_eq s x \<longleftrightarrow> base s = base x \<and>
     store_eq (BigNumStore.truncate s) (BigNumStore.truncate x)"

definition msg_digit_too_large :: string where
  "msg_digit_too_large = ''BigUnsignedInABase::BigUnsignedInABase(const unsigned short *, unsigned int, unsigned short): A digit is too large for the specified base''"

definition inABase_of_digits :: "16 word list \<Rightarrow> 16 word \<Rightarrow> inABase result" where
  "inABase_of_digits d bs =
     (if bs < 2 then Inl (Thrown ''BigUnsignedInABase::BigUnsignedInABase(const unsigned short *, unsigned int, unsigned short): The base must be at least 2'')
      else if \<exists>x \<in> set d. x \<ge> bs then Inl (Thrown msg_digit_too_large)
      else Inr \<lparr>capacity = length d, blk = trimLeadingZeros d, base = bs\<rparr>)"

section \<open>From a number to its digits\<close>

function bitLen_loop :: "32 word \<Rightarrow> nat \<Rightarrow> nat" where
  "bitLen_loop x n = (if x > 0 then bitLen_loop (drop_bit 1 x) (n + 1) else n)"
  by pat_completeness auto
termination
proof (relation "measure (\<lambda>(x, n). unat x)")
  fix x :: "32 word" and n :: nat
  assume "0 < x"
  then have "0 < unat x" by (simp add: unat_gt_0 word_greater_zero_iff)
  moreover have "unat (drop_bit 1 x) = unat x div 2"
    by (simp add: drop_bit_eq_div unat_div)
  ultimately show "((drop_bit 1 x, n + 1), x, n) \<in> measure (\<lambda>(x, n). unat x)" by simp
qed simp

declare bitLen_loop.simps [simp del]

definition bitLen :: "32 word \<Rightarrow> nat" where
  "bitLen x = bitLen_loop x 0"

text \<open>
  The loop that divides by the base. The digits \<open>ds\<close> are the blocks written so far, so
  \<^verbatim>\<open>digitNum\<close> is their number; a write past the allocated \<open>cap\<close> blocks is
  out of bounds.
\<close>

function to_base_loop :: "nat \<Rightarrow> biguint \<Rightarrow> biguint \<Rightarrow> 16 word list \<Rightarrow> 16 word list result" where
  "to_base_loop cap buBase x2 ds =
     (if len x2 \<noteq> 0 then
        bindR (biguint_divide (store_copy x2) buBase x2) (\<lambda>(lastDigit, x2').
          bindR (biguint_to_uint lastDigit) (\<lambda>d.
            if length ds < cap then to_base_loop cap buBase x2' (ds @ [ucast d])
            else Inl OutOfBounds))
      else Inr ds)"
  by pat_completeness auto
termination
  by (relation "measure (\<lambda>(cap, b, x, ds). cap - length ds)") auto

declare to_base_loop.simps [simp del]

text \<open>
  The space for the digits is computed in 32 bits: the product wraps, the sums and the
  division are signed, and the result is cast to an unsigned number.
\<close>

definition maxDigitLen :: "biguint \<Rightarrow> 16 word \<Rightarrow> nat" where
  "maxDigitLen x bs =
     (let maxBitLenOfX = word_of_nat (len x * N) :: 32 word;
          minBitsPerDigit = word_of_nat (bitLen (ucast bs)) - 1 :: 32 word
      in unat (word_of_int (sint (maxBitLenOfX + minBitsPerDigit - 1) sdiv sint minBitsPerDigit) :: 32 word))"

definition inABase_of_biguint :: "biguint \<Rightarrow> 16 word \<Rightarrow> inABase result" where
  "inABase_of_biguint x bs =
     (if bs < 2 then Inl (Thrown ''BigUnsignedInABase(biguint_t, Base): The base must be at least 2'')
      else (let cap = maxDigitLen x bs
            in bindR (to_base_loop cap (biguint_of_uint16 bs) (store_copy x) []) (\<lambda>ds.
                 Inr \<lparr>capacity = cap, blk = ds, base = bs\<rparr>)))"

section \<open>From text to digits and back\<close>

definition symbol_digit :: "char \<Rightarrow> 16 word result" where
  "symbol_digit c =
     (if c \<ge> CHR ''0'' \<and> c \<le> CHR ''9'' then Inr (word_of_nat (of_char c - of_char CHR ''0''))
      else if c \<ge> CHR ''A'' \<and> c \<le> CHR ''Z'' then Inr (word_of_nat (of_char c - of_char CHR ''A'' + 10))
      else if c \<ge> CHR ''a'' \<and> c \<le> CHR ''z'' then Inr (word_of_nat (of_char c - of_char CHR ''a'' + 10))
      else Inl (Thrown ''BigUnsignedInABase(string, unsigned short): Bad symbol in input.  Only 0-9, A-Z, a-z are accepted.''))"

text \<open>The loop over the symbols, from the last one to the first.\<close>

fun from_string_loop :: "16 word \<Rightarrow> string \<Rightarrow> 16 word list result" where
  "from_string_loop bs [] = Inr []"
| "from_string_loop bs (c # cs) =
     bindR (symbol_digit c) (\<lambda>d.
       if d \<ge> bs then Inl (Thrown msg_digit_too_large)
       else bindR (from_string_loop bs cs) (\<lambda>ds. Inr (d # ds)))"

definition inABase_of_string :: "string \<Rightarrow> 16 word \<Rightarrow> inABase result" where
  "inABase_of_string s bs =
     (if bs > 36 then Inl (Thrown ''BigUnsignedInABase(string, unsigned short): The default string conversion routines use the symbol set 0-9, A-Z and therefore support only up to base 36.  You tried a conversion with a base over 36; write your own string conversion routine.'')
      else bindR (from_string_loop bs (rev s)) (\<lambda>ds.
        Inr \<lparr>capacity = length s, blk = trimLeadingZeros ds, base = bs\<rparr>))"

text \<open>Horner's rule, from the most significant digit; \<open>temp\<close> is reused by every turn.\<close>

fun to_biguint_loop :: "biguint \<Rightarrow> 16 word list \<Rightarrow> biguint \<Rightarrow> biguint \<Rightarrow> biguint result" where
  "to_biguint_loop buBase [] temp ans = Inr ans"
| "to_biguint_loop buBase (d # ds) temp ans =
     bindR (biguint_multiply temp ans buBase) (\<lambda>temp'.
       to_biguint_loop buBase ds temp' (biguint_add ans temp' (biguint_of_uint16 d)))"

definition inABase_to_biguint :: "inABase \<Rightarrow> biguint result" where
  "inABase_to_biguint s = to_biguint_loop (biguint_of_uint16 (base s)) (rev (blk s)) store_empty store_empty"

definition digit_symbol :: "16 word \<Rightarrow> char" where
  "digit_symbol c =
     (if c < 10 then char_of (of_char CHR ''0'' + unat c) else char_of (of_char CHR ''A'' + unat c - 10))"

definition inABase_to_string :: "inABase \<Rightarrow> string" where
  "inABase_to_string s =
     (if len s = 0 then ''0'' else map (\<lambda>p. digit_symbol (blk s ! (len s - 1 - p))) [0..<len s])"

section \<open>Number theory\<close>

text \<open>
  The loops of \<^verbatim>\<open>gcd\<close> and \<^verbatim>\<open>exteuclidean\<close> have no bound of their own:
  not returning is \<open>None\<close>.
\<close>

partial_function (option) gcd_loop :: "biguint \<Rightarrow> biguint \<Rightarrow> biguint \<Rightarrow> biguint result option" where
  "gcd_loop a b trash =
     (if len b = 0 then Some (Inr (store_copy a))
      else case biguint_divide a b trash of
        Inl e \<Rightarrow> Some (Inl e)
      | Inr (a', trash') \<Rightarrow>
          (if len a' = 0 then Some (Inr (store_copy b))
           else case biguint_divide b a' trash' of
             Inl e \<Rightarrow> Some (Inl e)
           | Inr (b', trash'') \<Rightarrow> gcd_loop a' b' trash''))"

definition big_gcd :: "biguint \<Rightarrow> biguint \<Rightarrow> biguint result option" where
  "big_gcd a b = gcd_loop (store_copy a) (store_copy b) store_empty"

fun modexp_loop :: "nat \<Rightarrow> biguint \<Rightarrow> biguint \<Rightarrow> biguint \<Rightarrow> biguint \<Rightarrow> biguint result" where
  "modexp_loop 0 ans base2 exponent modulus = Inr ans"
| "modexp_loop (Suc i) ans base2 exponent modulus =
     bindR (op_times_assign ans ans) (\<lambda>ans1.
       bindR (op_mod_assign ans1 modulus) (\<lambda>ans2.
         if getBit exponent i then
           bindR (op_times_assign ans2 base2) (\<lambda>ans3.
             bindR (op_mod_assign ans3 modulus) (\<lambda>ans4.
               modexp_loop i ans4 base2 exponent modulus))
         else modexp_loop i ans2 base2 exponent modulus))"

definition modexp :: "bigint \<Rightarrow> biguint \<Rightarrow> biguint \<Rightarrow> biguint result" where
  "modexp bs exponent modulus =
     bindR (biguint_of_int32 1) (\<lambda>ans.
       bindR (bigint_op_mod bs (bigint_of_biguint modulus)) (\<lambda>b.
         modexp_loop (bitLength exponent) ans (store_copy (mag b)) exponent modulus))"

text \<open>
  One half turn of \<^verbatim>\<open>exteuclidean\<close>: \<^verbatim>\<open>m.divide(n, q); r1 -= q * r2;
  s1 -= q * s2;\<close>. The other half is the same with the roles exchanged.
\<close>

definition ext_half ::
    "bigint \<Rightarrow> bigint \<Rightarrow> bigint \<Rightarrow> bigint \<times> bigint \<Rightarrow> bigint \<times> bigint \<Rightarrow>
     (bigint \<times> bigint \<times> bigint \<times> bigint) result" where
  "ext_half m n q = (\<lambda>(r1, s1) (r2, s2).
     bindR (bigint_divide m n q) (\<lambda>(m', q').
       bindR (bigint_op_times q' r2) (\<lambda>qr. bindR (bigint_op_minus_assign r1 qr) (\<lambda>r1'.
         bindR (bigint_op_times q' s2) (\<lambda>qs. bindR (bigint_op_minus_assign s1 qs) (\<lambda>s1'.
           Inr (m', q', r1', s1')))))))"

partial_function (option) ext_loop ::
    "bigint \<Rightarrow> bigint \<Rightarrow> bigint \<Rightarrow> bigint \<times> bigint \<Rightarrow> bigint \<times> bigint \<Rightarrow>
     (bigint \<times> bigint \<times> bigint) result option" where
  "ext_loop m n q u v =
     (if sign n = 0 then Some (Inr (m, fst u, snd u))
      else case ext_half m n q u v of
        Inl e \<Rightarrow> Some (Inl e)
      | Inr (m', q', r1', s1') \<Rightarrow>
          (if sign m' = 0 then Some (Inr (n, fst v, snd v))
           else case ext_half n m' q' v (r1', s1') of
             Inl e \<Rightarrow> Some (Inl e)
           | Inr (n', q'', r2', s2') \<Rightarrow> ext_loop m' n' q'' (r1', s1') (r2', s2')))"

text \<open>
  The outputs are \<open>(g, r, s)\<close>, which the code assigns to the three objects of the
  caller. Its test that they are distinct has the one caller below, which passes three
  local variables.
\<close>

definition exteuclidean ::
    "bigint \<Rightarrow> bigint \<Rightarrow> bigint \<Rightarrow> bigint \<Rightarrow> bigint \<Rightarrow> (bigint \<times> bigint \<times> bigint) result option" where
  "exteuclidean m n g r s =
     map_option (\<lambda>res. bindR res (\<lambda>(g', r', s'). Inr (bigint_assign g g', bigint_assign r r', bigint_assign s s')))
       (ext_loop m n bigint_zero (bigint_of_int32 1, bigint_of_int32 0) (bigint_of_int32 0, bigint_of_int32 1))"

definition modinv :: "bigint \<Rightarrow> biguint \<Rightarrow> biguint result option" where
  "modinv x n =
     (case exteuclidean (bigint_copy x) (bigint_of_biguint n) bigint_zero bigint_zero bigint_zero of
        None \<Rightarrow> None
      | Some (Inl e) \<Rightarrow> Some (Inl e)
      | Some (Inr (g, r, s)) \<Rightarrow>
          Some (if bigint_eq g (bigint_of_int32 1)
                then bindR (bigint_op_mod r (bigint_of_biguint n)) (\<lambda>y. Inr (store_copy (mag y)))
                else Inl (Thrown ''bigint_t modinv: x and n have a common factor'')))"

section \<open>Output\<close>

text \<open>The format flags of a stream that the output operators read.\<close>

record osFlags =
  os_dec :: bool
  os_hex :: bool
  os_oct :: bool
  os_showbase :: bool

definition write_biguint :: "osFlags \<Rightarrow> string \<Rightarrow> biguint \<Rightarrow> string result" where
  "write_biguint fl os x =
     (let emit = (\<lambda>os bs. bindR (inABase_of_biguint x bs) (\<lambda>d. Inr (os @ inABase_to_string d)))
      in if os_dec fl then emit os 10
         else if os_hex fl then emit (if os_showbase fl then os @ ''0x'' else os) 16
         else if os_oct fl then emit (if os_showbase fl then os @ ''0'' else os) 8
         else Inl (Thrown ''ostream << biguint_t: Could not determine the desired base from output-stream flags''))"

definition write_bigint :: "osFlags \<Rightarrow> string \<Rightarrow> bigint \<Rightarrow> string result" where
  "write_bigint fl os x = write_biguint fl (if isNegative x then os @ ''-'' else os) (mag x)"

end
