(* ===== verification/BigLib_Correct.thy ===== *)
theory BigLib_Correct
  imports BigLib
begin

text \<open>
  The correctness of \<^verbatim>\<open>biglib.cpp\<close>: the digits in a base are the positional
  representation of the number and fit in the space computed for them, text and number
  convert into each other without loss, and the loops of the number theory end with the
  greatest common divisor, the modular power and the modular inverse.
\<close>

section \<open>Digits\<close>

definition digits_value :: "inABase \<Rightarrow> nat" where
  "digits_value s = dval (unat (base s)) (map unat (blk s))"

definition wf_inABase :: "inABase \<Rightarrow> bool" where
  "wf_inABase s \<longleftrightarrow> trimmed (blk s) \<and> (\<forall>d \<in> set (blk s). d < base s)"

lemma bitLen_loop_correct:
  "\<exists>k. bitLen_loop x n = n + k \<and> (x \<noteq> 0 \<longrightarrow> 2 ^ k \<le> 2 * unat x \<and> unat x < 2 ^ k)"
proof (induction x n rule: bitLen_loop.induct)
  case (1 x n)
  show ?case
  proof (cases "x = 0")
    case True
    then show ?thesis by (subst bitLen_loop.simps) simp
  next
    case False
    then have x: "x > 0" by (simp add: word_greater_zero_iff)
    have half: "unat (drop_bit 1 x) = unat x div 2" by (simp add: drop_bit_eq_div unat_div)
    obtain k where k: "bitLen_loop (drop_bit 1 x) (n + 1) = n + 1 + k"
      "drop_bit 1 x \<noteq> 0 \<longrightarrow> 2 ^ k \<le> 2 * unat (drop_bit 1 x) \<and> unat (drop_bit 1 x) < 2 ^ k"
      using 1 [OF x] by blast
    have e: "bitLen_loop x n = n + 1 + k" using x k(1) by (subst bitLen_loop.simps) simp
    show ?thesis
    proof (cases "drop_bit 1 x = 0")
      case True
      then have "unat x div 2 = 0" using half by simp
      moreover have "unat x \<noteq> 0" using False by (simp add: unat_eq_0)
      ultimately have "unat x = 1" by linarith
      moreover have "k = 0" using k(1) True by (simp add: bitLen_loop.simps)
      ultimately show ?thesis using e by simp
    next
      case False
      then have "2 ^ k \<le> 2 * (unat x div 2)" "unat x div 2 < 2 ^ k" using k(2) half by auto
      then have "2 ^ Suc k \<le> 2 * unat x" "unat x < 2 ^ Suc k" by auto
      then show ?thesis using e by (intro exI [of _ "Suc k"]) auto
    qed
  qed
qed

lemma bitLen_bounds:
  assumes "x \<noteq> 0"
  shows "2 ^ (bitLen x - 1) \<le> unat x" "unat x < 2 ^ bitLen x"
proof -
  obtain k where k: "bitLen x = k" "2 ^ k \<le> 2 * unat x" "unat x < 2 ^ k"
    using bitLen_loop_correct [of x 0] assms by (auto simp: bitLen_def)
  then show "2 ^ (bitLen x - 1) \<le> unat x" by (cases k) auto
  from k show "unat x < 2 ^ bitLen x" by simp
qed

text \<open>
  The space computed before the loop is enough for numbers of less than \<open>2 ^ 32\<close> bits, also
  where the signed sum is negative: then the cast gives at least \<open>2 ^ 31\<close>.
\<close>

lemma bits_per_digit:
  assumes "2 \<le> (bs :: 16 word)"
  obtains m where "bitLen (ucast bs) = Suc m" "0 < m" "m \<le> 15" "2 ^ m \<le> unat bs"
proof -
  define m where "m = bitLen (ucast bs) - 1"
  have b2: "2 \<le> unat bs" using assms by (simp add: word_le_nat_alt)
  have u: "unat (ucast bs :: 32 word) = unat bs" by (simp add: unat_ucast_up)
  have nz: "(ucast bs :: 32 word) \<noteq> 0" using u b2 by auto
  have m: "2 ^ m \<le> unat bs" using bitLen_bounds(1) [OF nz] u by (simp add: m_def)
  have "unat bs < 2 ^ bitLen (ucast bs)" using bitLen_bounds(2) [OF nz] u by simp
  then have "\<not> bitLen (ucast bs) \<le> 1" using b2
    using power_increasing [of "bitLen (ucast bs)" 1 "2::nat"] by auto
  then have l: "bitLen (ucast bs) = Suc m" "0 < m" by (simp_all add: m_def)
  have "unat bs < 2 ^ 16" using unsigned_less [of bs] by simp
  with m have "(2 :: nat) ^ m < 2 ^ 16" by (rule le_less_trans)
  then have "m < 16" by (rule power_less_imp_less_exp [rotated]) simp
  then show thesis using that l m by simp
qed

lemma sdiv_pos: "0 \<le> i \<Longrightarrow> 0 < j \<Longrightarrow> i sdiv j = i div (j :: int)"
  by (simp add: signed_divide_int_def sgn_if)

lemma sdiv_neg: "i < 0 \<Longrightarrow> 0 < j \<Longrightarrow> i sdiv j = - ((- i) div (j :: int))"
  by (simp add: signed_divide_int_def sgn_if)

lemma maxDigitLen_word:
  assumes "bitLen (ucast bs) = Suc m"
  shows "maxDigitLen x bs =
    unat (word_of_int (sint (word_of_int (int (len x * 64) + int m - 1) :: 32 word) sdiv sint (word_of_nat m :: 32 word)) :: 32 word)"
  by (simp add: maxDigitLen_def assms N_def Let_def)

lemma maxDigitLen_le:
  assumes "bitLen (ucast bs) = Suc m" "0 < m" "m \<le> 15" "len x < 2 ^ 26"
  shows "len x * 64 \<le> m * maxDigitLen x bs"
proof -
  define k where "k = len x * 64"
  have k: "k + 64 \<le> 2 ^ 32" using assms(4) by (simp add: k_def)
  have sm: "sint (word_of_nat m :: 32 word) = int m"
    using sint_word_of_int [where 'a = 32, of "int m"] assms(3) by simp
  have le: "k \<le> m * ((k + m - 1) div m)"
  proof -
    have "k + m - 1 < m * ((k + m - 1) div m) + m"
      using assms(2) by (metis dividend_less_times_div add.commute)
    then show ?thesis using assms(2) by linarith
  qed
  show ?thesis
  proof (cases "k < 2 ^ 31")
    case True
    then have kd: "k + 64 \<le> 2 ^ 31" unfolding k_def by simp
    have "sint (word_of_int (int k + int m - 1) :: 32 word) = int k + int m - 1"
      using kd assms(2,3) by (intro sint_word_of_int) simp_all
    then have e: "sint (word_of_int (int k + int m - 1) :: 32 word) sdiv int m = int ((k + m - 1) div m)"
      using assms(2) by (simp add: sdiv_pos zdiv_int of_nat_diff)
    have "(k + m - 1) div m \<le> k + m - 1" by (rule div_le_dividend)
    moreover have "k + m - 1 < 2 ^ 32" using kd assms(3) by simp
    ultimately have "(k + m - 1) div m < 2 ^ 32" by (rule le_less_trans)
    then have "maxDigitLen x bs = (k + m - 1) div m"
      unfolding maxDigitLen_word [OF assms(1)] sm k_def [symmetric] e by (simp add: unsigned_of_nat take_bit_nat_eq_self)
    then show ?thesis using le by (simp add: k_def)
  next
    case False
    define j where "j = (2 ^ 32 - k - m + 1) div m"
    have wrap: "(word_of_int (int k + int m - 1) :: 32 word) = word_of_int (int k + int m - 1 - 2 ^ 32)"
      by (simp add: word_of_int_eq_iff take_bit_eq_mod)
    have s: "sint (word_of_int (int k + int m - 1) :: 32 word) = int k + int m - 1 - 2 ^ 32"
      unfolding wrap using k False assms(2,3) by (intro sint_word_of_int) simp_all
    have n: "- (int k + int m - 1 - 2 ^ 32) = int (2 ^ 32 - k - m + 1)" using k assms(3) by simp
    have e: "sint (word_of_int (int k + int m - 1) :: 32 word) sdiv int m = - int j"
      unfolding s using k assms(2,3) by (subst sdiv_neg) (simp_all only: n j_def zdiv_int, simp_all)
    have j2: "j \<le> 2 ^ 32 - k - m + 1" unfolding j_def by (rule div_le_dividend)
    have "m \<le> 2 ^ 32 - k - m + 1" using k assms(3) by linarith
    then have j1: "1 \<le> j" using assms(2) by (simp add: j_def div_greater_zero_iff Suc_le_eq)
    have "(word_of_int (- int j) :: 32 word) = word_of_nat (2 ^ 32 - j)"
    proof -
      have "int (2 ^ 32 - j) = - int j + 2 ^ 32" using j2 False by simp
      then have "(word_of_nat (2 ^ 32 - j) :: 32 word) = word_of_int (- int j + 2 ^ 32)" by (metis of_int_of_nat_eq)
      also have "\<dots> = word_of_int (- int j)" by (simp add: word_of_int_eq_iff take_bit_eq_mod)
      finally show ?thesis ..
    qed
    then have cap: "maxDigitLen x bs = 2 ^ 32 - j"
      unfolding maxDigitLen_word [OF assms(1)] sm k_def [symmetric] e using j1 by (simp add: unsigned_of_nat take_bit_nat_eq_self)
    show ?thesis
    proof (cases "m = 1")
      case True
      then show ?thesis using cap k by (simp add: j_def k_def)
    next
      case m: False
      then have "2 * (2 ^ 32 - j) \<le> m * (2 ^ 32 - j)" using assms(2) by (intro mult_le_mono1) simp
      moreover have "k \<le> 2 * (2 ^ 32 - j)" using j2 False k assms(2) m by simp
      ultimately show ?thesis unfolding cap k_def by linarith
    qed
  qed
qed

lemma maxDigitLen_enough:
  assumes "2 \<le> bs" "len x < 2 ^ 26"
  shows "toNat x < unat bs ^ maxDigitLen x bs"
proof -
  obtain m where m: "bitLen (ucast bs) = Suc m" "0 < m" "m \<le> 15" "2 ^ m \<le> unat bs" by (rule bits_per_digit [OF assms(1)])
  have "toNat x < 2 ^ (len x * 64)"
    using bval_less [of "blk x"] by (simp add: toNat_def B_pow mult.commute)
  also have "\<dots> \<le> 2 ^ (m * maxDigitLen x bs)" using maxDigitLen_le [OF m(1-3) assms(2)] by (intro power_increasing) auto
  also have "\<dots> = (2 ^ m) ^ maxDigitLen x bs" by (simp add: power_mult)
  also have "\<dots> \<le> unat bs ^ maxDigitLen x bs" using m(4) by (intro power_mono) auto
  finally show ?thesis .
qed

text \<open>With \<open>2 ^ 32\<close> bits there is no space at all.\<close>

lemma maxDigitLen_wraps:
  assumes "2 \<le> bs" "len x = 2 ^ 26"
  shows "maxDigitLen x bs = 0"
proof -
  obtain m where m: "bitLen (ucast bs) = Suc m" "0 < m" "m \<le> 15" by (rule bits_per_digit [OF assms(1)])
  have sm: "sint (word_of_nat m :: 32 word) = int m"
    using sint_word_of_int [where 'a = 32, of "int m"] m(3) by simp
  have "(word_of_int (int (len x * 64) + int m - 1) :: 32 word) = word_of_int (int m - 1)"
    by (simp add: assms(2) word_of_int_eq_iff take_bit_eq_mod)
  moreover have "sint (word_of_int (int m - 1) :: 32 word) = int m - 1"
    using m(2,3) by (intro sint_word_of_int) simp_all
  moreover have "(int m - 1) sdiv int m = 0" using m(2) by (simp add: sdiv_pos)
  ultimately show ?thesis by (simp add: maxDigitLen_word [OF m(1)] sm)
qed

lemma to_base_loop_correct:
  assumes "2 \<le> bs" "normal x2" "length ds \<le> cap" "toNat x2 < unat bs ^ (cap - length ds)"
  shows "\<exists>es. to_base_loop cap (biguint_of_uint16 bs) x2 ds = Inr (ds @ es) \<and>
    dval (unat bs) (map unat es) = toNat x2 \<and> (\<forall>d \<in> set es. d < bs) \<and> trimmed es \<and>
    length ds + length es \<le> cap"
  using assms(2-4)
proof (induction "toNat x2" arbitrary: x2 ds rule: less_induct)
  case less
  have b2: "2 \<le> unat bs" using assms(1) by (simp add: word_le_nat_alt)
  show ?case
  proof (cases "len x2 = 0")
    case True
    then have "toNat x2 = 0" by (simp add: toNat_def)
    then show ?thesis using True less.prems by (subst to_base_loop.simps) auto
  next
    case False
    then have nz: "toNat x2 \<noteq> 0" using less.prems toNat_eq_0_iff by auto
    have c: "normal (store_copy x2)" "toNat (biguint_of_uint16 bs) \<noteq> 0" using less.prems b2 by auto
    from bu.divm_ok [OF c(1) normal_biguint_of(3) c(2), of x2] obtain r q where d:
      "biguint_divide (store_copy x2) (biguint_of_uint16 bs) x2 = Inr (r, q)"
      "toNat r = toNat x2 mod unat bs" "toNat q = toNat x2 div unat bs" "normal r" "normal q" by auto
    have lt: "toNat r < unat bs" using d(2) b2 by simp
    have bs16: "unat bs < 2 ^ 16" using unsigned_less [of bs] by simp
    have u: "biguint_to_uint r = Inr (word_of_nat (toNat r))"
      using convertToPrimitive_unsigned [where 'x = 32, of r] d(4) lt bs16
      by (simp add: biguint_to_uint_def)
    define w where "w = (ucast (word_of_nat (toNat r) :: 32 word) :: 16 word)"
    have w: "unat w = toNat r"
      using lt bs16 by (simp add: w_def unat_ucast_mod unat_of_nat)
    have room: "length ds < cap"
      using less.prems nz by (cases "length ds < cap") auto
    have q1: "toNat q < toNat x2" using d(3) nz b2 by simp
    have "toNat x2 < unat bs * unat bs ^ (cap - length (ds @ [w]))"
      using less.prems(3) room by (simp add: power_Suc [symmetric] Suc_diff_Suc)
    then have q2: "toNat q < unat bs ^ (cap - length (ds @ [w]))"
      unfolding d(3) using b2 by (simp add: less_mult_imp_div_less mult.commute)
    from less.hyps [OF q1 d(5) _ q2] room obtain es where es:
      "to_base_loop cap (biguint_of_uint16 bs) q (ds @ [w]) = Inr (ds @ [w] @ es)"
      "dval (unat bs) (map unat es) = toNat q" "\<forall>d \<in> set es. d < bs" "trimmed es"
      "length ds + 1 + length es \<le> cap" by auto
    have run: "to_base_loop cap (biguint_of_uint16 bs) x2 ds = Inr (ds @ w # es)"
      using False d(1) u room es(1) by (subst to_base_loop.simps) (simp add: w_def)
    have val: "dval (unat bs) (map unat (w # es)) = toNat x2"
      using es(2) d(2,3) w by simp
    have "w < bs" using w lt by (simp add: word_less_nat_alt)
    moreover have "trimmed (w # es)"
    proof (cases "es = []")
      case True
      then have "unat w \<noteq> 0" using val nz by auto
      then show ?thesis using True by (auto simp: trimmed_def unat_eq_0)
    next
      case False
      then show ?thesis using es(4) by (simp add: trimmed_def)
    qed
    ultimately show ?thesis using run val es(3,5) by (intro exI [of _ "w # es"]) auto
  qed
qed

lemma inABase_of_biguint_correct:
  assumes "2 \<le> bs" "normal x" "len x < 2 ^ 26"
  obtains d where "inABase_of_biguint x bs = Inr d" "digits_value d = toNat x" "wf_inABase d"
    "base d = bs" "len d \<le> capacity d"
proof -
  have "toNat (store_copy x) < unat bs ^ (maxDigitLen x bs - length ([] :: 16 word list))"
    using maxDigitLen_enough [OF assms(1,3)] by simp
  from to_base_loop_correct [OF assms(1) _ _ this] assms(2) obtain es where es:
    "to_base_loop (maxDigitLen x bs) (biguint_of_uint16 bs) (store_copy x) [] = Inr es"
    "dval (unat bs) (map unat es) = toNat x" "\<forall>d \<in> set es. d < bs" "trimmed es"
    "length es \<le> maxDigitLen x bs" by auto
  moreover have "\<not> bs < 2" using assms(1) by simp
  ultimately show ?thesis
    by (intro that [of "\<lparr>capacity = maxDigitLen x bs, blk = es, base = bs\<rparr>"])
      (simp_all add: inABase_of_biguint_def digits_value_def wf_inABase_def Let_def)
qed

lemma inABase_of_biguint_wraps:
  assumes "2 \<le> bs" "normal x" "len x = 2 ^ 26"
  shows "inABase_of_biguint x bs = Inl OutOfBounds"
proof -
  have b2: "2 \<le> unat bs" using assms(1) by (simp add: word_le_nat_alt)
  have c: "normal (store_copy x)" "toNat (biguint_of_uint16 bs) \<noteq> 0" using assms(2) b2 by auto
  have c': "normal (store_copy (store_copy x))" using assms(2) by simp
  from bu.divm_ok [OF c' normal_biguint_of(3) c(2), of "store_copy x"] obtain r q where d:
    "biguint_divide (store_copy (store_copy x)) (biguint_of_uint16 bs) (store_copy x) = Inr (r, q)"
    "toNat r = toNat x mod unat bs" "normal r" by auto
  have "toNat r < unat bs" using d(2) b2 by simp
  moreover have "unat bs < 2 ^ 16" using unsigned_less [of bs] by simp
  ultimately have "toNat r < 2 ^ 32" by simp
  then have "\<exists>u. biguint_to_uint r = Inr u"
    using convertToPrimitive_unsigned [where 'x = 32, of r] d(3) by (simp add: biguint_to_uint_def)
  then have "to_base_loop 0 (biguint_of_uint16 bs) (store_copy x) [] = Inl OutOfBounds"
    using d(1) assms(3) by (subst to_base_loop.simps) auto
  moreover have "\<not> bs < 2" using assms(1) by simp
  ultimately show ?thesis by (simp add: inABase_of_biguint_def maxDigitLen_wraps [OF assms(1,3)])
qed

lemma len_of_value:
  assumes "normal x" "toNat x < 2 ^ (64 * n)"
  shows "len x \<le> n"
proof (cases "blk x = []")
  case False
  then have "B ^ (len x - 1) \<le> toNat x" using bval_ge [of "blk x"] assms(1) by (simp add: normal_def toNat_def)
  then have "(2 :: nat) ^ (64 * (len x - 1)) < 2 ^ (64 * n)" using assms(2) by (simp only: B_pow le_less_trans)
  then have "64 * (len x - 1) < 64 * n" by (rule power_less_imp_less_exp [rotated]) simp
  then show ?thesis by simp
qed simp

lemma to_biguint_loop_correct:
  assumes "normal ans"
  shows "\<exists>r. to_biguint_loop (biguint_of_uint16 bs) ds temp ans = Inr r \<and> normal r \<and>
    toNat r = toNat ans * unat bs ^ length ds + dval (unat bs) (map unat (rev ds))"
  using assms
proof (induction ds arbitrary: temp ans)
  case (Cons d ds)
  from bu.mul_ok [OF Cons.prems normal_biguint_of(3), of temp bs] obtain t where t:
    "biguint_multiply temp ans (biguint_of_uint16 bs) = Inr t" "toNat t = toNat ans * unat bs" "normal t"
    by auto
  from Cons.IH [of "biguint_add ans t (biguint_of_uint16 d)" t] t show ?case
    by (auto simp: normal_biguint_add dval_append algebra_simps)
qed simp

lemma inABase_to_biguint_correct:
  "\<exists>r. inABase_to_biguint d = Inr r \<and> normal r \<and> toNat r = digits_value d"
  using to_biguint_loop_correct [of store_empty "base d" "rev (blk d)" store_empty]
  by (simp add: inABase_to_biguint_def digits_value_def)

section \<open>Text\<close>

lemma symbol_digit_symbol:
  assumes "d < 36"
  shows "symbol_digit (digit_symbol d) = Inr d"
proof -
  have d: "unat d < 36" using assms by (simp add: word_less_nat_alt)
  show ?thesis
  proof (cases "d < 10")
    case True
    then have "unat d < 10" by (simp add: word_less_nat_alt)
    then show ?thesis using True
      by (simp add: digit_symbol_def symbol_digit_def less_eq_char_def)
  next
    case False
    then have "10 \<le> unat d" by (simp add: word_less_nat_alt)
    then show ?thesis using False d
      by (simp add: digit_symbol_def symbol_digit_def less_eq_char_def)
  qed
qed

lemma from_string_loop_symbols:
  assumes "\<forall>d \<in> set ds. d < bs" "bs \<le> 36"
  shows "from_string_loop bs (map digit_symbol ds) = Inr ds"
  using assms(1)
proof (induction ds)
  case (Cons d ds)
  then have d: "d < bs" by simp
  then have "d < 36" using assms(2) by simp
  then show ?case using Cons d symbol_digit_symbol [of d] by (simp add: not_le)
qed simp

lemma inABase_to_string_alt:
  "inABase_to_string s = (if blk s = [] then ''0'' else map digit_symbol (rev (blk s)))"
  by (auto simp: inABase_to_string_def rev_nth intro!: nth_equalityI)

lemma inABase_string_roundtrip:
  assumes "wf_inABase d" "base d \<le> 36" "0 < base d"
  obtains d' where "inABase_of_string (inABase_to_string d) (base d) = Inr d'"
    "blk d' = blk d" "base d' = base d"
proof (cases "blk d = []")
  case True
  have "symbol_digit CHR ''0'' = Inr 0" by (simp add: symbol_digit_def less_eq_char_def)
  then have "from_string_loop (base d) (rev (inABase_to_string d)) = Inr [0]"
    using True assms(3) by (simp add: inABase_to_string_alt not_le)
  moreover have "trimLeadingZeros [0 :: 16 word] = []"
    by (simp add: trimLeadingZeros.simps)
  ultimately show ?thesis using assms True
    by (intro that [of "\<lparr>capacity = length (inABase_to_string d), blk = [], base = base d\<rparr>"])
      (simp_all add: inABase_of_string_def not_less)
next
  case False
  then have "from_string_loop (base d) (rev (inABase_to_string d)) = Inr (blk d)"
    using assms from_string_loop_symbols [of "blk d" "base d"]
    by (simp add: inABase_to_string_alt wf_inABase_def rev_map)
  then show ?thesis using assms
    by (intro that [of "\<lparr>capacity = length (inABase_to_string d), blk = blk d, base = base d\<rparr>"])
      (simp_all add: inABase_of_string_def wf_inABase_def trimLeadingZeros_trimmed not_less)
qed

section \<open>Greatest common divisor\<close>

lemma gcd_loop_correct:
  assumes "normal a" "normal b"
  shows "\<exists>g. gcd_loop a b trash = Some (Inr g) \<and> normal g \<and> toNat g = gcd (toNat a) (toNat b)"
  using assms
proof (induction "toNat b" arbitrary: a b trash rule: less_induct)
  case less
  show ?case
  proof (cases "len b = 0")
    case True
    then have "toNat b = 0" by (simp add: toNat_def)
    then show ?thesis using True less.prems by (subst gcd_loop.simps) simp
  next
    case False
    then have nb: "toNat b \<noteq> 0" using less.prems toNat_eq_0_iff by auto
    from bu.divm_ok [OF less.prems nb, of trash] obtain a' t1 where a':
      "biguint_divide a b trash = Inr (a', t1)" "toNat a' = toNat a mod toNat b" "normal a'" by blast
    have g1: "gcd (toNat a) (toNat b) = gcd (toNat b) (toNat a')"
      unfolding a'(2) by (rule gcd_red_nat)
    show ?thesis
    proof (cases "len a' = 0")
      case True
      then have "toNat a' = 0" by (simp add: toNat_def)
      then show ?thesis using True False a'(1) less.prems g1 by (subst gcd_loop.simps) simp
    next
      case na': False
      then have nz: "toNat a' \<noteq> 0" using toNat_eq_0_iff [OF a'(3)] by simp
      from bu.divm_ok [OF less.prems(2) a'(3) nz, of t1] obtain b' t2 where b':
        "biguint_divide b a' t1 = Inr (b', t2)" "toNat b' = toNat b mod toNat a'" "normal b'" by blast
      have "toNat b' < toNat a'" using b'(2) nz by simp
      also have "\<dots> < toNat b" using a'(2) nb by simp
      finally have lt: "toNat b' < toNat b" .
      have "gcd (toNat b) (toNat a') = gcd (toNat a') (toNat b')"
        unfolding b'(2) by (rule gcd_red_nat)
      then show ?thesis
        using less.hyps [OF lt a'(3) b'(3), of t2] False na' a'(1) b'(1) g1
        by (subst gcd_loop.simps) simp
    qed
  qed
qed

section \<open>Modular powers\<close>

lemma op_times_assign_correct:
  assumes "normal a" "normal b"
  shows "\<exists>r. op_times_assign a b = Inr r \<and> toNat r = toNat a * toNat b \<and> normal r"
  using bu.mul_ok [OF assms, of store_empty] by (auto simp: op_times_assign_def)

lemma op_mod_assign_correct:
  assumes "normal a" "normal b" "toNat b \<noteq> 0"
  shows "\<exists>r. op_mod_assign a b = Inr r \<and> toNat r = toNat a mod toNat b \<and> normal r"
proof -
  have "len b \<noteq> 0" using assms by (auto simp: toNat_def)
  then show ?thesis using bu.divm_ok [OF assms, of store_empty] by (auto simp: op_mod_assign_def)
qed

lemma div_two_power_Suc: "n div 2 ^ i = 2 * (n div 2 ^ Suc i) + of_bool (bit (n::nat) i)"
proof -
  have "n div 2 ^ i = 2 * (n div 2 ^ i div 2) + n div 2 ^ i mod 2" by simp
  also have "n div 2 ^ i div 2 = n div 2 ^ Suc i" by (simp add: div_mult2_eq [symmetric] mult.commute)
  also have "n div 2 ^ i mod 2 = of_bool (bit n i)" by (simp add: bit_iff_odd mod_2_eq_odd)
  finally show ?thesis .
qed

lemma modexp_loop_correct:
  assumes "normal base2" "normal modulus" "toNat modulus \<noteq> 0" "normal ans" "normal e"
    "toNat ans mod toNat modulus = toNat base2 ^ (toNat e div 2 ^ i) mod toNat modulus"
  shows "\<exists>r. modexp_loop i ans base2 e modulus = Inr r \<and> normal r \<and>
    toNat r mod toNat modulus = toNat base2 ^ toNat e mod toNat modulus \<and>
    (0 < i \<longrightarrow> toNat r < toNat modulus) \<and> (i = 0 \<longrightarrow> r = ans)"
  using assms(4,6)
proof (induction i arbitrary: ans)
  case (Suc i)
  define m b where "m = toNat modulus" and "b = toNat base2"
  from op_times_assign_correct [OF Suc.prems(1) Suc.prems(1)] obtain a1 where a1:
    "op_times_assign ans ans = Inr a1" "toNat a1 = toNat ans * toNat ans" "normal a1" by blast
  from op_mod_assign_correct [OF a1(3) assms(2,3)] obtain a2 where a2:
    "op_mod_assign a1 modulus = Inr a2" "toNat a2 = toNat a1 mod m" "normal a2"
    unfolding m_def by blast
  have sq: "toNat a2 = b ^ (2 * (toNat e div 2 ^ Suc i)) mod m"
  proof -
    have "toNat a2 = (toNat ans mod m) * (toNat ans mod m) mod m"
      using a1(2) a2(2) by (simp add: mod_mult_eq)
    also have "\<dots> = b ^ (toNat e div 2 ^ Suc i) * b ^ (toNat e div 2 ^ Suc i) mod m"
      unfolding Suc.prems(2) [folded m_def b_def] by (simp add: mod_mult_eq)
    finally show ?thesis by (simp add: power_add [symmetric] mult_2)
  qed
  have lt2: "toNat a2 < m" using a2(2) assms(3) by (simp add: m_def)
  show ?case
  proof (cases "getBit e i")
    case False
    then have "toNat a2 mod m = b ^ (toNat e div 2 ^ i) mod m"
      using sq div_two_power_Suc [of "toNat e" i] getBit_correct [of e i] by simp
    from Suc.IH [OF a2(3) this [unfolded m_def b_def]] obtain r where
      "modexp_loop i a2 base2 e modulus = Inr r" "normal r" "toNat r mod m = b ^ toNat e mod m"
      "0 < i \<longrightarrow> toNat r < m" "i = 0 \<longrightarrow> r = a2" unfolding m_def b_def by blast
    then show ?thesis using False a1(1) a2(1) lt2 unfolding m_def b_def by (cases i) auto
  next
    case True
    from op_times_assign_correct [OF a2(3) assms(1)] obtain a3 where a3:
      "op_times_assign a2 base2 = Inr a3" "toNat a3 = toNat a2 * b" "normal a3" unfolding b_def by blast
    from op_mod_assign_correct [OF a3(3) assms(2,3)] obtain a4 where a4:
      "op_mod_assign a3 modulus = Inr a4" "toNat a4 = toNat a3 mod m" "normal a4"
      unfolding m_def by blast
    have "toNat a4 mod m = b ^ (toNat e div 2 ^ i) mod m"
      using True a4(2) a3(2) sq div_two_power_Suc [of "toNat e" i] getBit_correct [of e i]
      by (simp add: mod_mult_right_eq mult.commute)
    from Suc.IH [OF a4(3) this [unfolded m_def b_def]] obtain r where
      "modexp_loop i a4 base2 e modulus = Inr r" "normal r" "toNat r mod m = b ^ toNat e mod m"
      "0 < i \<longrightarrow> toNat r < m" "i = 0 \<longrightarrow> r = a4" unfolding m_def b_def by blast
    moreover have "toNat a4 < m" using a4(2) assms(3) by (simp add: m_def)
    ultimately show ?thesis using True a1(1) a2(1) a3(1) a4(1) unfolding m_def b_def by (cases i) auto
  qed
qed simp

lemma bigint_of_biguint_correct [simp]:
  assumes "normal n"
  shows "wf_bigint (bigint_of_biguint n)" "toInt (bigint_of_biguint n) = int (toNat n)"
  using assms by (auto simp: bigint_of_biguint_def wf_bigint_def toInt_def toNat_def)

lemma bigint_op_mod_correct:
  assumes "wf_bigint a" "wf_bigint b"
  shows "if toInt b = 0 then bigint_op_mod a b = Inl (Thrown ''bigint_t::operator %: division by zero'')
    else yields (bigint_op_mod a b) (toInt a mod toInt b)"
  using sign_toInt [OF assms(2)] bigint_divide_correct [of "bigint_assign bigint_zero a" b bigint_zero] assms
  by (auto simp: bigint_op_mod_def yields_def sgn_0_0)

lemma wf_bigint_nonneg: "wf_bigint s \<Longrightarrow> 0 \<le> toInt s \<Longrightarrow> int (toNat (mag s)) = toInt s"
  by (erule wf_bigint_cases) auto

section \<open>The extended Euclidean algorithm\<close>

lemma ext_half_correct:
  assumes "wf_bigint m" "wf_bigint n" "wf_bigint r1" "wf_bigint s1" "wf_bigint r2" "wf_bigint s2"
  obtains m' q' r1' s1' where "ext_half m n q (r1, s1) (r2, s2) = Inr (m', q', r1', s1')"
    "wf_bigint m'" "wf_bigint r1'" "wf_bigint s1'" "toInt m' = toInt m mod toInt n"
    "toInt r1' = toInt r1 - toInt m div toInt n * toInt r2"
    "toInt s1' = toInt s1 - toInt m div toInt n * toInt s2"
proof -
  from bigint_divide_correct [OF assms(1,2), of q] obtain m' q' where d:
    "bigint_divide m n q = Inr (m', q')" "wf_bigint m'" "wf_bigint q'"
    "toInt m' = toInt m mod toInt n" "toInt q' = toInt m div toInt n" by blast
  have step: "\<exists>x' z. bigint_op_times q' y = Inr z \<and> bigint_op_minus_assign x z = Inr x' \<and>
      wf_bigint x' \<and> toInt x' = toInt x - toInt m div toInt n * toInt y"
    if "wf_bigint x" "wf_bigint y" for x y
  proof -
    from bigint_multiply_correct [OF d(3) that(2), of bigint_zero] obtain z where z:
      "bigint_op_times q' y = Inr z" "wf_bigint z" "toInt z = toInt q' * toInt y"
      by (auto simp: yields_def bigint_op_times_def)
    from bigint_subtract_correct [OF that(1) z(2), of bigint_zero] show ?thesis
      using z d(5) by (auto simp: yields_def bigint_op_minus_assign_def)
  qed
  from step [OF assms(3,5)] step [OF assms(4,6)] d(1,2,4) show ?thesis
    by (auto simp: ext_half_def intro!: that)
qed

lemma bezout_step:
  fixes a b :: int
  assumes "r1 * a + s1 * b = m" "r2 * a + s2 * b = n"
  shows "(r1 - m div n * r2) * a + (s1 - m div n * s2) * b = m mod n"
proof -
  have "(r1 - m div n * r2) * a + (s1 - m div n * s2) * b
      = (r1 * a + s1 * b) - m div n * (r2 * a + s2 * b)" by (simp add: algebra_simps)
  then show ?thesis using assms by (simp add: minus_div_mult_eq_mod)
qed

lemma ext_loop_correct:
  assumes "wf_bigint m" "wf_bigint n" "wf_bigint r1" "wf_bigint s1" "wf_bigint r2" "wf_bigint s2"
    "toInt r1 * a + toInt s1 * b = toInt m" "toInt r2 * a + toInt s2 * b = toInt n"
  shows "\<exists>g r s. ext_loop m n q (r1, s1) (r2, s2) = Some (Inr (g, r, s)) \<and>
    wf_bigint g \<and> wf_bigint r \<and> wf_bigint s \<and> toInt r * a + toInt s * b = toInt g \<and>
    \<bar>toInt g\<bar> = gcd (toInt m) (toInt n) \<and> (0 < toInt n \<longrightarrow> 0 < toInt g) \<and> (toInt n = 0 \<longrightarrow> toInt g = toInt m)"
  using assms
proof (induction "nat \<bar>toInt n\<bar>" arbitrary: m n q r1 s1 r2 s2 rule: less_induct)
  case less
  note wf = less.prems(1-6)
  show ?case
  proof (cases "sign n = 0")
    case True
    then have "toInt n = 0" by (simp add: toInt_def)
    then show ?thesis using True less.prems by (subst ext_loop.simps) simp
  next
    case False
    then have nn: "toInt n \<noteq> 0" using wf(2) by (auto simp: sign_toInt)
    obtain m' q' r1' s1' where h: "ext_half m n q (r1, s1) (r2, s2) = Inr (m', q', r1', s1')"
      "wf_bigint m'" "wf_bigint r1'" "wf_bigint s1'" "toInt m' = toInt m mod toInt n"
      "toInt r1' = toInt r1 - toInt m div toInt n * toInt r2"
      "toInt s1' = toInt s1 - toInt m div toInt n * toInt s2"
      using ext_half_correct [OF wf] by blast
    have g1: "gcd (toInt m) (toInt n) = gcd (toInt n) (toInt m')"
      unfolding h(5) by (rule gcd_red_int)
    show ?thesis
    proof (cases "sign m' = 0")
      case True
      then have "toInt m' = 0" by (simp add: toInt_def)
      then show ?thesis using True False h(1) less.prems g1 nn by (subst ext_loop.simps) simp
    next
      case nm': False
      then have mm: "toInt m' \<noteq> 0" using h(2) by (auto simp: sign_toInt)
      obtain n' q'' r2' s2' where k: "ext_half n m' q' (r2, s2) (r1', s1') = Inr (n', q'', r2', s2')"
        "wf_bigint n'" "wf_bigint r2'" "wf_bigint s2'" "toInt n' = toInt n mod toInt m'"
        "toInt r2' = toInt r2 - toInt n div toInt m' * toInt r1'"
        "toInt s2' = toInt s2 - toInt n div toInt m' * toInt s1'"
        using ext_half_correct [OF wf(2) h(2) wf(5,6) h(3,4)] by blast
      have i1: "toInt r1' * a + toInt s1' * b = toInt m'"
        unfolding h(5-7) by (rule bezout_step [OF less.prems(7,8)])
      have i2: "toInt r2' * a + toInt s2' * b = toInt n'"
        unfolding k(5-7) by (rule bezout_step [OF less.prems(8) i1])
      have "\<bar>toInt n'\<bar> < \<bar>toInt m'\<bar>" unfolding k(5) using mm by (rule abs_mod_less)
      also have "\<dots> < \<bar>toInt n\<bar>" unfolding h(5) using nn by (rule abs_mod_less)
      finally have lt: "nat \<bar>toInt n'\<bar> < nat \<bar>toInt n\<bar>" by simp
      have g2: "gcd (toInt n) (toInt m') = gcd (toInt m') (toInt n')"
        unfolding k(5) by (rule gcd_red_int)
      have pos: "0 < toInt m' \<and> 0 \<le> toInt n'" if "0 < toInt n"
      proof -
        have "0 \<le> toInt m'" unfolding h(5) using that by (rule pos_mod_sign)
        then have "0 < toInt m'" using mm by linarith
        then show ?thesis using pos_mod_sign [of "toInt m'" "toInt n"] k(5) by linarith
      qed
      have run: "ext_loop m n q (r1, s1) (r2, s2) = ext_loop m' n' q'' (r1', s1') (r2', s2')"
        using False nm' h(1) k(1) by (subst ext_loop.simps) simp
      from less.hyps [OF lt h(2) k(2) h(3,4) k(3,4) i1 i2, of q''] pos g1 g2
      show ?thesis unfolding run by (cases "toInt n' = 0") (fastforce simp: nn)+
    qed
  qed
qed

lemma bigint_of_int32_consts [simp]:
  "wf_bigint (bigint_of_int32 1)" "toInt (bigint_of_int32 1) = 1"
  "wf_bigint (bigint_of_int32 0)" "toInt (bigint_of_int32 0) = 0"
  by (simp_all add: bigint_of_int32_def wf_bigint_def toInt_def signOf_def magOf32_def
      biguint_of_uint64_def normal_def trimmed_def toNat_def)

lemma bigint_copy_correct [simp]:
  "toInt (bigint_copy x) = toInt x" "wf_bigint x \<Longrightarrow> wf_bigint (bigint_copy x)"
  by (auto simp: bigint_copy_def toInt_def wf_bigint_def)

lemma exteuclidean_correct:
  assumes "wf_bigint m" "wf_bigint n"
  shows "\<exists>g' r' s'. exteuclidean m n g r s = Some (Inr (g', r', s')) \<and>
    wf_bigint g' \<and> wf_bigint r' \<and> wf_bigint s' \<and> toInt r' * toInt m + toInt s' * toInt n = toInt g' \<and>
    \<bar>toInt g'\<bar> = gcd (toInt m) (toInt n) \<and> (0 < toInt n \<longrightarrow> 0 < toInt g') \<and> (toInt n = 0 \<longrightarrow> toInt g' = toInt m)"
  using ext_loop_correct [OF assms, of "bigint_of_int32 1" "bigint_of_int32 0" "bigint_of_int32 0"
      "bigint_of_int32 1" "toInt m" "toInt n" bigint_zero]
  by (auto simp: exteuclidean_def)

lemma isNegative_iff: "wf_bigint s \<Longrightarrow> isNegative s \<longleftrightarrow> toInt s < 0"
  by (simp add: isNegative_def bigint_compareTo_sgn)

end
