(* ===== verification/Conversions.thy ===== *)
theory Conversions
  imports Archive Strings_Correct BigLib_Correct
begin

text \<open>
  The conversions of \<^verbatim>\<open>libs/utillib/conversions.cpp\<close> between texts, numbers, hexadecimal
  strings and the bytes of addresses and hashes.
\<close>

section \<open>Characters\<close>

text \<open>A \<^verbatim>\<open>char\<close> is signed.\<close>

definition schar :: "char \<Rightarrow> int" where
  "schar c = (if (of_char c :: nat) < 128 then of_char c else of_char c - 256)"

definition isdigit :: "char \<Rightarrow> bool" where
  "isdigit c \<longleftrightarrow> CHR ''0'' \<le> c \<and> c \<le> CHR ''9''"

definition isxdigit :: "char \<Rightarrow> bool" where
  "isxdigit c \<longleftrightarrow> isdigit c \<or> CHR ''a'' \<le> c \<and> c \<le> CHR ''f'' \<or> CHR ''A'' \<le> c \<and> c \<le> CHR ''F''"

definition isspace :: "char \<Rightarrow> bool" where
  "isspace c \<longleftrightarrow> c = CHR '' '' \<or> CHR 0x09 \<le> c \<and> c \<le> CHR 0x0D"

section \<open>Texts as numbers\<close>

definition isNumeral :: "string \<Rightarrow> bool" where
  "isNumeral test = list_all isdigit test"

definition isHexStr :: "string \<Rightarrow> bool" where
  "isHexStr str = (if \<not> startsWith str ''0x'' \<or> length str < 2 then False
     else list_all isxdigit (extract_from str 2))"

definition isAddress :: "string \<Rightarrow> bool" where
  "isAddress addrIn \<longleftrightarrow> length addrIn = 42 \<and> isHexStr addrIn"

definition isHash :: "string \<Rightarrow> bool" where
  "isHash hashIn \<longleftrightarrow> length hashIn = 66 \<and> isHexStr hashIn"

definition isUnsigned :: "string \<Rightarrow> bool" where
  "isUnsigned inp =
     (if inp = [] then False
      else if \<not> isdigit (inp ! 0) then False
      else if startsWith inp ''0x'' \<and> length inp > 2 then isxdigit (inp ! 2)
      else True)"

text \<open>The loop of \<^verbatim>\<open>hex_2_Uint64\<close> from the last digit on, with its 64-bit arithmetic.\<close>

fun hex_2_Uint64_loop :: "string \<Rightarrow> 64 word \<Rightarrow> 64 word \<Rightarrow> 64 word" where
  "hex_2_Uint64_loop [] ret mult = ret"
| "hex_2_Uint64_loop (c # s) ret mult =
     (let val = (if CHR ''a'' \<le> c \<and> c \<le> CHR ''f'' then schar c - 97 + 10 else schar c - 48)
      in hex_2_Uint64_loop s (ret + mult * word_of_int val) (mult * 16))"

definition hex_2_Uint64 :: "string \<Rightarrow> 64 word" where
  "hex_2_Uint64 str =
     hex_2_Uint64_loop (c_str (reverse_q (toLower (if startsWith str ''0x'' then extract_from str 2 else str)))) 0 1"

text \<open>\<^verbatim>\<open>strtoul(s, NULL, 10)\<close>: blanks, a sign, digits; an overflow gives the largest value.\<close>

definition dec_value :: "string \<Rightarrow> nat" where
  "dec_value ds = foldl (\<lambda>v c. 10 * v + (of_char c - 48)) 0 ds"

definition strtoul :: "string \<Rightarrow> 64 word" where
  "strtoul s =
     (let t = dropWhile isspace s;
          neg = (t \<noteq> [] \<and> hd t = CHR ''-'');
          u = (if t \<noteq> [] \<and> (hd t = CHR ''-'' \<or> hd t = CHR ''+'') then tl t else t);
          v = dec_value (takeWhile isdigit u)
      in if v \<ge> 2 ^ 64 then - 1 else if neg then - word_of_nat v else word_of_nat v)"

definition str_2_Uint :: "string \<Rightarrow> 64 word" where
  "str_2_Uint str = (if isHexStr str then hex_2_Uint64 str else strtoul (c_str str))"

section \<open>Addresses and hashes as bytes\<close>

definition hex_nibble :: "char \<Rightarrow> 8 word" where
  "hex_nibble c = (if schar c \<ge> 65 then (byte_of c AND 0xDF) - 65 + 10 else byte_of c - 48)"

definition hex_2_Ascii :: "char \<Rightarrow> char \<Rightarrow> 8 word" where
  "hex_2_Ascii c1 c2 = hex_nibble c1 * 16 + hex_nibble c2"

text \<open>Past the end of an odd number of digits \<^verbatim>\<open>str[i + 1]\<close> is the terminating zero.\<close>

fun hex_pairs :: "string \<Rightarrow> 8 word list" where
  "hex_pairs [] = []"
| "hex_pairs [c] = [hex_2_Ascii c (CHR 0x00)]"
| "hex_pairs (c # d # s) = hex_2_Ascii c d # hex_pairs s"

definition addr_2_Bytes :: "string \<Rightarrow> 8 word list" where
  "addr_2_Bytes addrIn = hex_pairs (the (substitute addrIn ''0x'' []))"

definition hash_2_Bytes :: "string \<Rightarrow> 8 word list" where
  "hash_2_Bytes hashIn = hex_pairs (the (substitute hashIn ''0x'' []))"

definition bnu_2_Hex :: "biguint \<Rightarrow> string result" where
  "bnu_2_Hex i = bindR (inABase_of_biguint i 16) (\<lambda>d. Inr (inABase_to_string d))"

definition bnu_2_Str :: "biguint \<Rightarrow> string result" where
  "bnu_2_Str num = bindR (inABase_of_biguint num 10) (\<lambda>d. Inr (inABase_to_string d))"

fun bytes_2_hex_loop :: "8 word list \<Rightarrow> string result" where
  "bytes_2_hex_loop [] = Inr []"
| "bytes_2_hex_loop (b # bs) =
     bindR (biguint_of_int32 (ucast b)) (\<lambda>n.
       bindR (bnu_2_Hex n) (\<lambda>h.
         bindR (bytes_2_hex_loop bs) (\<lambda>rest. Inr (toLower (padLeft h 2 (CHR ''0'')) @ rest))))"

definition bytes_2_Addr :: "8 word list \<Rightarrow> string result" where
  "bytes_2_Addr b = bindR (bytes_2_hex_loop (take 20 b)) (\<lambda>s. Inr (''0x'' @ s))"

definition bytes_2_Hash :: "8 word list \<Rightarrow> string result" where
  "bytes_2_Hash b = bindR (bytes_2_hex_loop (take 32 b)) (\<lambda>s. Inr (''0x'' @ s))"

definition rangesIntersect :: "64 word \<times> 64 word \<Rightarrow> 64 word \<times> 64 word \<Rightarrow> bool" where
  "rangesIntersect r1 r2 \<longleftrightarrow> \<not> (snd r1 < fst r2 \<or> fst r1 > snd r2)"

section \<open>Lower-case hexadecimal digits\<close>

definition is_hex :: "char \<Rightarrow> bool" where
  "is_hex c \<longleftrightarrow> CHR ''0'' \<le> c \<and> c \<le> CHR ''9'' \<or> CHR ''a'' \<le> c \<and> c \<le> CHR ''f''"

definition hex_val :: "char \<Rightarrow> nat" where
  "hex_val c = (if c \<le> CHR ''9'' then of_char c - 48 else of_char c - 87)"

lemma is_hex_range: "is_hex c \<longleftrightarrow> (48 \<le> (of_char c :: nat) \<and> (of_char c :: nat) \<le> 57) \<or> (97 \<le> (of_char c :: nat) \<and> (of_char c :: nat) \<le> 102)"
  by (simp add: is_hex_def less_eq_char_def)

lemma hex_val_less: "is_hex c \<Longrightarrow> hex_val c < 16"
  by (auto simp: is_hex_range hex_val_def less_eq_char_def)

lemma hex_val_mono: "is_hex c \<Longrightarrow> is_hex d \<Longrightarrow> hex_val c < hex_val d \<longleftrightarrow> c < d"
  by (auto simp: is_hex_range hex_val_def less_eq_char_def less_char_def)

lemma hex_val_inj: "is_hex c \<Longrightarrow> is_hex d \<Longrightarrow> hex_val c = hex_val d \<longleftrightarrow> c = d"
  using hex_val_mono [of c d] hex_val_mono [of d c] by (metis linorder_neqE less_irrefl)

lemma isxdigit_hex: "is_hex c \<Longrightarrow> isxdigit c"
  by (auto simp: is_hex_def isxdigit_def isdigit_def)

lemma hex_nibble_val: "is_hex c \<Longrightarrow> hex_nibble c = word_of_nat (hex_val c)"
proof -
  assume h: "is_hex c"
  define n where "n = (of_char c :: nat)"
  have b: "byte_of c = word_of_nat n" by (simp add: byte_of_def n_def)
  from h have r: "48 \<le> n \<and> n \<le> 57 \<or> 97 \<le> n \<and> n \<le> 102" by (simp add: is_hex_range n_def)
  have c: "of_char c = int n" by (simp add: n_def of_nat_of_char)
  show ?thesis
  proof (cases "n \<le> 57")
    case True
    then have "schar c < 65" using r by (simp add: schar_def n_def [symmetric] c)
    moreover have "(word_of_nat n :: 8 word) - 48 = word_of_nat (n - 48)" using True r by simp
    ultimately show ?thesis using True by (simp add: hex_nibble_def hex_val_def less_eq_char_def n_def [symmetric] b)
  next
    case False
    then have n: "n \<in> {97, 98, 99, 100, 101, 102}" using r by auto
    then have "schar c \<ge> 65" by (auto simp: schar_def n_def [symmetric] c)
    then show ?thesis using n False
      by (auto simp: hex_nibble_def hex_val_def less_eq_char_def n_def [symmetric] b)
  qed
qed

lemma hex_2_Ascii_val:
  assumes "is_hex c" "is_hex d"
  shows "unat (hex_2_Ascii c d) = 16 * hex_val c + hex_val d"
proof -
  have l: "16 * hex_val c + hex_val d < 256"
    using hex_val_less [OF assms(1)] hex_val_less [OF assms(2)] by linarith
  have "hex_2_Ascii c d = word_of_nat (16 * hex_val c + hex_val d)"
    by (simp add: hex_2_Ascii_def hex_nibble_val assms)
  then show ?thesis using l by (simp only: unat_of_nat) simp
qed

text \<open>A well-formed address: the prefix and forty lower-case hexadecimal digits.\<close>

definition valid_addr :: "string \<Rightarrow> bool" where
  "valid_addr a \<longleftrightarrow> length a = 42 \<and> take 2 a = ''0x'' \<and> list_all is_hex (drop 2 a)"

lemma valid_addrE:
  assumes "valid_addr a"
  obtains r where "a = ''0x'' @ r" "length r = 40" "list_all is_hex r"
proof
  show "a = ''0x'' @ drop 2 a" using assms append_take_drop_id [of 2 a] by (simp add: valid_addr_def)
qed (use assms in \<open>auto simp: valid_addr_def\<close>)

lemma hex_no_x: "list_all is_hex r \<Longrightarrow> CHR ''x'' \<notin> set r"
  by (auto simp: list_all_iff is_hex_range)

lemma hex_no_zero: "list_all is_hex r \<Longrightarrow> CHR 0x00 \<notin> set r"
  by (auto simp: list_all_iff is_hex_range)

lemma addr_2_Bytes_hex: "list_all is_hex r \<Longrightarrow> addr_2_Bytes (''0x'' @ r) = hex_pairs r"
  by (simp only: addr_2_Bytes_def substitute_0x [OF hex_no_x] option.sel)

lemma length_hex_pairs: "even (length r) \<Longrightarrow> length (hex_pairs r) = length r div 2"
  by (induction r rule: hex_pairs.induct) auto

lemma length_addr_2_Bytes: "valid_addr a \<Longrightarrow> length (addr_2_Bytes a) = 20"
  by (elim valid_addrE) (simp only: addr_2_Bytes_hex length_hex_pairs, simp add: length_hex_pairs)

lemma startsWith_0x: "CHR 0x00 \<notin> set r \<Longrightarrow> startsWith (''0x'' @ r) ''0x''"
  using c_str_id [of "''0x'' @ r"] by (simp add: startsWith_def extract_q_def)

lemma isAddress_valid: "valid_addr a \<Longrightarrow> isAddress a"
proof (elim valid_addrE)
  fix r
  assume r: "a = ''0x'' @ r" "length r = 40" "list_all is_hex r"
  have "list_all isxdigit r" using r(3) isxdigit_hex by (auto simp: list_all_iff)
  then show "isAddress a" using r startsWith_0x [OF hex_no_zero [OF r(3)]]
    by (simp add: isAddress_def isHexStr_def extract_from_def)
qed

section \<open>Bytes back to text\<close>

lemma tolower_digit_symbol:
  assumes "is_hex c" "unat w = hex_val c"
  shows "tolower (digit_symbol w) = c"
proof -
  define n where "n = (of_char c :: nat)"
  have r: "48 \<le> n \<and> n \<le> 57 \<or> 97 \<le> n \<and> n \<le> 102" using assms(1) by (simp add: is_hex_range n_def)
  have c: "c = char_of n" by (simp add: n_def)
  show ?thesis
  proof (cases "n \<le> 57")
    case True
    then have "unat w = n - 48" using assms(2) by (simp add: hex_val_def less_eq_char_def n_def)
    then have "digit_symbol w = char_of n" using True r by (simp add: digit_symbol_def word_less_nat_alt)
    then show ?thesis using True r c by (simp add: tolower_def less_eq_char_def)
  next
    case False
    then have "unat w = n - 87" using assms(2) by (simp add: hex_val_def less_eq_char_def n_def)
    then have "digit_symbol w = char_of (n - 32)" using False r by (auto simp: digit_symbol_def word_less_nat_alt)
    moreover have "(n - 32) mod 256 = n - 32" using False r by (intro mod_less) linarith
    ultimately show ?thesis using False r c by (auto simp: tolower_def less_eq_char_def)
  qed
qed

lemma two_digits:
  assumes "dval 16 (map unat es) = 16 * h + l" "h < 16" "l < 16" "\<forall>d \<in> set es. d < (16 :: 16 word)" "trimmed es"
  shows "if h = 0 \<and> l = 0 then es = [] else if h = 0 then map unat es = [l] else map unat es = [l, h]"
proof -
  have lt: "\<forall>d \<in> set es. unat d < 16" using assms(4) by (auto simp: word_less_nat_alt)
  consider "es = []" | a where "es = [a]" | a b where "es = [a, b]" | a b c ds where "es = a # b # c # ds"
    by (metis list.exhaust)
  then show ?thesis
  proof cases
    case (2 a)
    then have "unat a \<noteq> 0" using assms(5) by (simp add: trimmed_def unat_eq_0)
    moreover have "unat a < 16" "unat a = 16 * h + l" using assms(1) lt 2 by auto
    ultimately have "h = 0 \<and> l \<noteq> 0 \<and> unat a = l" by (cases h) auto
    then show ?thesis using 2 by auto
  next
    case (3 a b)
    then have "unat a < 16" "unat b \<noteq> 0" "unat a + 16 * unat b = 16 * h + l"
      using assms(1,5) lt by (auto simp: trimmed_def unat_eq_0)
    then have "unat b = h \<and> unat a = l \<and> h \<noteq> 0" using assms(3) by (cases "unat b" h rule: linorder_cases) auto
    then show ?thesis using 3 by auto
  next
    case (4 a b c ds)
    have nz: "unat (last es) \<noteq> 0" using assms(5) 4 by (auto simp: trimmed_def unat_eq_0)
    have "dval 16 (map unat (c # ds)) \<noteq> 0"
    proof
      assume z: "dval 16 (map unat (c # ds)) = 0"
      have "c # ds = butlast (c # ds) @ [last es]" using 4 by simp
      then have "map unat (c # ds) = map unat (butlast (c # ds)) @ [unat (last es)]" by (metis list.simps(8,9) map_append)
      then show False using z nz by (simp only: dval_append) simp
    qed
    then show ?thesis using assms(1-3) 4 by simp
  qed (use assms in auto)
qed

lemma bytes_2_hex_pair:
  assumes "is_hex c" "is_hex d"
  shows "bytes_2_hex_loop (hex_2_Ascii c d # bs) = bindR (bytes_2_hex_loop bs) (\<lambda>rest. Inr (c # d # rest))"
proof -
  let ?b = "hex_2_Ascii c d"
  note v = hex_2_Ascii_val [OF assms]
  note h = hex_val_less [OF assms(1)] hex_val_less [OF assms(2)]
  have lt: "uint ?b < 256" using uint_lt2p [of ?b] by simp
  have s: "sint (ucast ?b :: 32 word) = uint ?b"
  proof -
    have "signed_take_bit 31 (uint ?b) = uint ?b"
      using lt by (intro signed_take_bit_int_eq_self order_trans [OF _ uint_ge_0]) auto
    then show ?thesis by (simp add: signed_ucast_eq)
  qed
  define n where "n = (if ?b \<noteq> 0 then \<lparr>capacity = 1, blk = [scast (ucast ?b :: 32 word)]\<rparr> else store_empty :: biguint)"
  have sc: "uint (scast (ucast ?b :: 32 word) :: block) = uint ?b"
    using lt by (simp only: scast_eq s uint_word_of_int) (simp add: mod_pos_pos_trivial)
  have z: "(ucast ?b :: 32 word) = 0 \<longleftrightarrow> ?b = 0" 
    using s by (metis signed_0 unsigned_0 unsigned_eq_0_iff)
  have nn: "biguint_of_int32 (ucast ?b) = Inr n" by (simp add: biguint_of_int32_def s z n_def)
  have n: "normal n" "toNat n = unat ?b"
  proof -
    have u: "unat (scast (ucast ?b :: 32 word) :: block) = unat ?b" using sc by (metis unat_eq_nat_uint)
    then have "?b \<noteq> 0 \<Longrightarrow> (scast (ucast ?b :: 32 word) :: block) \<noteq> 0" by (metis unat_0 unat_eq_0)
    then show "normal n" "toNat n = unat ?b" using u
      by (auto simp: n_def normal_def trimmed_def toNat_def bval_def store_empty_def)
  qed
  have n1: "len n < 2 ^ 26" by (simp add: n_def store_empty_def)
  obtain e where e: "inABase_of_biguint n 16 = Inr e" "digits_value e = toNat n" "wf_inABase e" "base e = 16"
    using inABase_of_biguint_correct [of 16 n] n(1) n1 by auto
  define es where "es = blk e"
  have "dval 16 (map unat es) = 16 * hex_val c + hex_val d" "\<forall>x \<in> set es. x < 16" "trimmed es"
    using e n v by (simp_all add: digits_value_def wf_inABase_def es_def)
  note t = two_digits [OF this(1) h this(2,3)]
  have str: "inABase_to_string e = (if es = [] then ''0'' else map digit_symbol (rev es))"
    by (simp add: inABase_to_string_alt es_def)
  have z0: "x = CHR ''0''" if "hex_val x = 0" "is_hex x" for x
    using that hex_val_inj [of x "CHR ''0''"] by (simp add: is_hex_def hex_val_def)
  have t0: "tolower (CHR ''0'') = CHR ''0''" by (simp add: tolower_def)
  have nz: "x \<noteq> CHR 0x00" if "is_hex x" for x using that by (auto simp: is_hex_range)
  have "toLower (padLeft (inABase_to_string e) 2 (CHR ''0'')) = [c, d]"
  proof -
    have p: "padLeft (inABase_to_string e) 2 (CHR ''0'') = [x, y] \<Longrightarrow> tolower x = c \<Longrightarrow> tolower y = d \<Longrightarrow> ?thesis" for x y
      by (cases "x = CHR 0x00"; cases "y = CHR 0x00") (use assms nz in \<open>auto simp: toLower_def c_str_def tolower_def\<close>)
    consider "hex_val c = 0" "hex_val d = 0" "es = []" | w where "hex_val c = 0" "hex_val d \<noteq> 0" "es = [w]" "unat w = hex_val d"
      | w u where "es = [w, u]" "unat w = hex_val d" "unat u = hex_val c"
      using t by (auto split: if_splits)
    then show ?thesis
    proof cases
      case 1
      then have "c = CHR ''0''" "d = CHR ''0''" using z0 assms by auto
      then show ?thesis using 1 t0 by (intro p [of "CHR ''0''" "CHR ''0''"]) (auto simp: str padLeft_def)
    next
      case (2 w)
      then have "c = CHR ''0''" using z0 assms by auto
      then show ?thesis using 2 t0 assms tolower_digit_symbol
        by (intro p [of "CHR ''0''" "digit_symbol w"]) (auto simp: str padLeft_def)
    next
      case (3 w u)
      then show ?thesis using assms tolower_digit_symbol
        by (intro p [of "digit_symbol u" "digit_symbol w"]) (auto simp: str padLeft_def)
    qed
  qed
  then show ?thesis by (simp add: nn bnu_2_Hex_def e(1))
qed

lemma bytes_2_hex_pairs:
  "list_all is_hex r \<Longrightarrow> even (length r) \<Longrightarrow> bytes_2_hex_loop (hex_pairs r) = Inr r"
proof (induction r rule: hex_pairs.induct)
  case (3 c d s)
  then show ?case using bytes_2_hex_pair [of c d "hex_pairs s"] by simp
qed auto

lemma bytes_2_Addr_bytes:
  assumes "valid_addr a"
  shows "bytes_2_Addr (addr_2_Bytes a) = Inr a"
proof -
  obtain r where r: "a = ''0x'' @ r" "length r = 40" "list_all is_hex r" using assms by (rule valid_addrE)
  have "take 20 (hex_pairs r) = hex_pairs r" using r(2) by (simp add: length_hex_pairs)
  moreover have "addr_2_Bytes a = hex_pairs r" unfolding r(1) by (rule addr_2_Bytes_hex [OF r(3)])
  ultimately have "bytes_2_Addr (addr_2_Bytes a) = bindR (bytes_2_hex_loop (hex_pairs r)) (\<lambda>s. Inr (''0x'' @ s))"
    by (simp add: bytes_2_Addr_def)
  then show ?thesis using bytes_2_hex_pairs [OF r(3)] r(1,2) by simp
qed

end
