(* ===== verification/Decimal.thy ===== *)
theory Decimal
  imports Conversions
begin

text \<open>
  Decimal numbers in texts: the conversions of \<^verbatim>\<open>conversions.cpp\<close> from and to decimal
  digits, and the cutting of a text at a separator.
\<close>

function dec_str :: "nat \<Rightarrow> string" where
  "dec_str n = (if n < 10 then [char_of (48 + n)] else dec_str (n div 10) @ [char_of (48 + n mod 10)])"
  by pat_completeness auto
termination by (relation "measure id") auto

declare dec_str.simps [simp del]

definition uint_2_Str :: "64 word \<Rightarrow> string" where
  "uint_2_Str i = dec_str (unat i)"

lemma isdigit_range: "isdigit c \<longleftrightarrow> 48 \<le> (of_char c :: nat) \<and> (of_char c :: nat) \<le> 57"
  by (simp add: isdigit_def less_eq_char_def)

lemma dec_value_bound:
  assumes "list_all isdigit ds"
  shows "dec_value ds < 10 ^ length ds"
  using assms
proof (induction ds rule: rev_induct)
  case (snoc d ds)
  have "of_char d - 48 \<le> (9::nat)" using snoc.prems by (auto simp: isdigit_range)
  then show ?case using snoc by (simp add: dec_value_def)
qed (simp add: dec_value_def)

text \<open>The fields of digits are read as decimal numbers.\<close>

lemma str_2_Uint_digits:
  assumes "list_all isdigit ds" "length ds \<le> 19"
  shows "str_2_Uint ds = word_of_nat (dec_value ds)"
proof -
  have d: "isdigit c" if "c \<in> set ds" for c using assms(1) that by (simp add: list_all_iff)
  have cs: "c_str ds = ds" using d [of "CHR 0x00"] by (intro c_str_id) (auto simp: isdigit_def)
  have "\<not> isdigit (CHR ''x'')" by (simp add: isdigit_def)
  then have "take 2 ds \<noteq> ''0x''" using d in_set_takeD [of "CHR ''x''" 2 ds] by auto
  then have hex: "\<not> isHexStr ds" by (simp add: isHexStr_def startsWith_def extract_q_def cs numeral_2_eq_2)
  have "\<not> isspace c" if "c \<in> set ds" for c using d [OF that] by (auto simp: isspace_def isdigit_range less_eq_char_def)
  then have sp: "dropWhile isspace ds = ds" by (cases ds) auto
  have sg: "ds \<noteq> [] \<Longrightarrow> hd ds \<noteq> CHR ''-'' \<and> hd ds \<noteq> CHR ''+''" using d [of "hd ds"] by (auto simp: isdigit_range)
  have tw: "takeWhile isdigit ds = ds" using d by (simp add: takeWhile_eq_all_conv)
  have "dec_value ds < 2 ^ 64"
  proof -
    have "dec_value ds < 10 ^ length ds" by (rule dec_value_bound [OF assms(1)])
    also have "\<dots> \<le> 10 ^ 19" using assms(2) by (intro power_increasing) auto
    finally show ?thesis by simp
  qed
  then show ?thesis using hex sg unfolding str_2_Uint_def strtoul_def Let_def cs sp by (auto simp: tw)
qed

lemma dec_str_digits: "list_all isdigit (dec_str n) \<and> dec_str n \<noteq> []"
proof (induction n rule: dec_str.induct)
  case (1 n)
  have d: "isdigit (char_of (48 + k))" if "k < 10" for k :: nat
    using that by (simp add: isdigit_range)
  show ?case using 1 d [of n] d [of "n mod 10"] by (subst (1 2) dec_str.simps) auto
qed

lemma dec_value_dec_str: "dec_value (dec_str n) = n"
proof (induction n rule: dec_str.induct)
  case (1 n)
  have d: "of_char (char_of (48 + k)) - 48 = k" if "k < 10" for k :: nat using that by simp
  show ?case using 1 d [of n] d [of "n mod 10"] by (subst dec_str.simps) (auto simp: dec_value_def)
qed

lemma dec_str_length: "length (dec_str n) \<le> k + 1 \<longleftrightarrow> n < 10 ^ (k + 1)"
proof (induction n arbitrary: k rule: dec_str.induct)
  case (1 n)
  show ?case
  proof (cases "n < 10")
    case True
    then have "n < 10 ^ (k + 1)" using order_less_le_trans [of n 10 "10 ^ (k + 1)"] by simp
    then show ?thesis using True by (simp add: dec_str.simps [of n])
  next
    case False
    show ?thesis
    proof (cases k)
      case 0
      then show ?thesis using False dec_str_digits [of "n div 10"] by (simp add: dec_str.simps [of n])
    next
      case (Suc j)
      have "length (dec_str n) \<le> k + 1 \<longleftrightarrow> n div 10 < 10 ^ (j + 1)" using 1 [OF False, of j] False Suc by (simp add: dec_str.simps [of n])
      also have "\<dots> \<longleftrightarrow> n < 10 ^ (k + 1)" using Suc by (simp add: div_less_iff_less_mult mult.commute)
      finally show ?thesis .
    qed
  qed
qed

lemma nextTokenClear_at:
  assumes "c \<notin> set a" "b \<noteq> []"
  shows "nextTokenClear (a @ c # b) c True = (a, b)"
proof -
  have "find_sub [c] (a @ [c] @ b) = Some (length a)"
    by (rule find_sub_unique) (simp_all add: find_sub_char assms(1))
  then show ?thesis using assms(2) by (auto simp: nextTokenClear_def extract_q_def extract_from_def)
qed

end
