(* ===== verification/AbiNumbers.thy ===== *)
theory AbiNumbers
  imports Decimal
begin

text \<open>
  The conversions of \<^verbatim>\<open>libs/utillib/conversions.cpp\<close> on which the decoding of call data
  rests: numbers of a width in bits, signed numbers, and hexadecimal text.
\<close>

section \<open>Taking a text out of another\<close>

text \<open>\<^verbatim>\<open>substitute\<close> with nothing always ends (\<open>substitute_out_ends\<close>).\<close>

definition substitute_out :: "string \<Rightarrow> string \<Rightarrow> string" where
  "substitute_out s what = the (substitute s what [])"

lemma substitute_out_ends: "what \<noteq> [] \<Longrightarrow> substitute s what [] = Some (substitute_out s what)"
  using replaceAll_ends [of what "[]" s] by (auto simp: substitute_def substitute_out_def)

section \<open>The largest number of a width\<close>

definition max_table :: "(nat \<times> string) list" where
  "max_table =
    [(256, ''115792089237316195423570985008687907853269984665640564039457584007913129639935''),
     (248, ''452312848583266388373324160190187140051835877600158453279131187530910662655''),
     (240, ''1766847064778384329583297500742918515827483896875618958121606201292619775''),
     (232, ''6901746346790563787434755862277025452451108972170386555162524223799295''),
     (224, ''26959946667150639794667015087019630673637144422540572481103610249215''),
     (216, ''105312291668557186697918027683670432318895095400549111254310977535''),
     (208, ''411376139330301510538742295639337626245683966408394965837152255''),
     (200, ''1606938044258990275541962092341162602522202993782792835301375''),
     (192, ''6277101735386680763835789423207666416102355444464034512895''),
     (184, ''24519928653854221733733552434404946937899825954937634815''),
     (176, ''95780971304118053647396689196894323976171195136475135''),
     (168, ''374144419156711147060143317175368453031918731001855''),
     (160, ''1461501637330902918203684832716283019655932542975''),
     (152, ''5708990770823839524233143877797980545530986495''),
     (144, ''22300745198530623141535718272648361505980415''),
     (136, ''87112285931760246646623899502532662132735''),
     (128, ''340282366920938463463374607431768211455''),
     (120, ''1329227995784915872903807060280344575''),
     (112, ''5192296858534827628530496329220095''),
     (104, ''20282409603651670423947251286015''),
     (96, ''79228162514264337593543950335''),
     (88, ''309485009821345068724781055''),
     (80, ''1208925819614629174706175''),
     (72, ''4722366482869645213695''),
     (64, ''18446744073709551615''),
     (56, ''72057594037927935''),
     (48, ''281474976710655''),
     (40, ''1099511627775''),
     (32, ''4294967295''),
     (24, ''16777215''),
     (16, ''65535''),
     (8, ''255'')]"

definition getMax :: "nat \<Rightarrow> string" where
  "getMax bits = (case map_of max_table bits of Some s \<Rightarrow> s | None \<Rightarrow> [])"

section \<open>Unsigned numbers\<close>

definition dec_2_BigUint :: "string \<Rightarrow> biguint result" where
  "dec_2_BigUint s = bindR (inABase_of_string s 10) inABase_to_biguint"

text \<open>\<^verbatim>\<open>str_2_Wei\<close> of a text with \<^verbatim>\<open>0x\<close>.\<close>

definition hex_2_BigUint :: "string \<Rightarrow> biguint result" where
  "hex_2_BigUint str = bindR (inABase_of_string (c_str (extract_from str 2)) 16) inABase_to_biguint"

text \<open>The width 257 stands for no width.\<close>

definition str_2_BigUint :: "string \<Rightarrow> nat \<Rightarrow> biguint result" where
  "str_2_BigUint str bits =
     (if str = [] \<or> str = ''0x'' then biguint_of_int32 0
      else
        let ss = trimLeading (substitute_out str ''0x'') (CHR ''0'')
        in bindR
             (if isHexStr str
              then
                let lenInBits = length ss * 4;
                    ss = (if lenInBits > bits \<and> bits \<noteq> 257 then reverse_q (take (bits div 4) (reverse_q ss)) else ss)
                in hex_2_BigUint (''0x'' @ ss)
              else dec_2_BigUint ss) (\<lambda>ret.
           if bits = 257 then Inr ret
           else
             let maxStr = getMax bits
             in if maxStr = [] then Inr ret
                else bindR (dec_2_BigUint maxStr) (\<lambda>maxInt.
                  if biguint_gt ret maxInt then op_mod ret maxInt else Inr ret)))"

section \<open>Signed numbers\<close>

definition str_2_BigInt_nonhex :: "int \<Rightarrow> string \<Rightarrow> bigint result" where
  "str_2_BigInt_nonhex junk s =
     (if hd s = CHR ''-'' then bindR (str_2_BigUint (tl s) 257) (\<lambda>val. bigint_of_biguint_sign junk val (-1))
      else if hd s = CHR ''+'' then bindR (str_2_BigUint (tl s) 257) (\<lambda>val. bigint_of_biguint_sign junk val 1)
      else bindR (str_2_BigUint s 257) (\<lambda>val. Inr (bigint_of_biguint val)))"

text \<open>
  The width is that of the number when it has the digits for it, and otherwise the one asked
  for. \<open>junk\<close> is what a sign that is not set would hold; the signs here are all set.
\<close>

definition str_2_BigInt :: "int \<Rightarrow> string \<Rightarrow> nat \<Rightarrow> bigint result" where
  "str_2_BigInt junk s bits =
     (if s = [] \<or> s = ''0x'' then Inr (bigint_of_int32 0)
      else if \<not> isHexStr s then str_2_BigInt_nonhex junk s
      else
        bindR (str_2_BigUint s 257) (\<lambda>uValIn.
          let ss = trimLeading (substitute_out s ''0x'') (CHR ''0'');
              l = length ss;
              bits = (if bits \<noteq> 257 \<and> l < bits div 4 then bits else min 256 (l * 4));
              maxStr = getMax bits
          in if maxStr = [] then Inr (bigint_of_biguint uValIn)
             else
               bindR (str_2_BigUint maxStr 257) (\<lambda>m.
               bindR (bigint_of_biguint_sign junk m 1) (\<lambda>maxInt.
               bindR (bigint_of_biguint_sign junk uValIn 1) (\<lambda>sVal.
               bindR (bigint_op_divide maxInt (bigint_of_int32 2)) (\<lambda>h.
                 if bigint_gt sVal h
                 then bindR (bigint_op_minus sVal maxInt) (\<lambda>x. bigint_op_minus x (bigint_of_int32 1))
                 else Inr sVal))))))"

definition bni_2_Str :: "bigint \<Rightarrow> string result" where
  "bni_2_Str num = bindR (bnu_2_Str (mag num)) (\<lambda>s. Inr ((if isNegative num then ''-'' else []) @ s))"

section \<open>Machine integers\<close>

text \<open>\<^verbatim>\<open>strtol(s, NULL, 10)\<close>; an overflow gives the largest or the smallest value.\<close>

definition strtol :: "string \<Rightarrow> 64 word" where
  "strtol s =
     (let t = dropWhile isspace s;
          neg = (t \<noteq> [] \<and> hd t = CHR ''-'');
          u = (if t \<noteq> [] \<and> (hd t = CHR ''-'' \<or> hd t = CHR ''+'') then tl t else t);
          v = dec_value (takeWhile isdigit u)
      in if neg then (if v > 2 ^ 63 then word_of_int (- (2 ^ 63)) else - word_of_nat v)
         else if v \<ge> 2 ^ 63 then word_of_int (2 ^ 63 - 1) else word_of_nat v)"

definition str_2_Int :: "string \<Rightarrow> 64 word" where
  "str_2_Int str = (if isHexStr str then hex_2_Uint64 str else strtol (c_str str))"

definition int_2_Str :: "64 word \<Rightarrow> string" where
  "int_2_Str i = (if sint i < 0 then ''-'' @ dec_str (nat (- sint i)) else dec_str (nat (sint i)))"

section \<open>Hexadecimal text\<close>

fun hex_2_Str_loop :: "string \<Rightarrow> string" where
  "hex_2_Str_loop (c # d # rest) =
     (let ch = char_of (unat (hex_2_Ascii c d)) in (if ch \<noteq> CHR 0x22 then [ch] else []) @ hex_2_Str_loop rest)"
| "hex_2_Str_loop _ = []"

definition hex_2_Str :: "string \<Rightarrow> nat option \<Rightarrow> string" where
  "hex_2_Str inHex nBytes =
     (let inp = (if startsWith inHex ''0x'' then extract_from inHex 2 else inHex)
      in hex_2_Str_loop (case nBytes of None \<Rightarrow> inp | Some n \<Rightarrow> take (n * 2) inp))"

text \<open>The classes of characters of the C locale.\<close>

definition isalpha :: "char \<Rightarrow> bool" where
  "isalpha c \<longleftrightarrow> (c \<ge> CHR ''A'' \<and> CHR ''Z'' \<ge> c) \<or> (c \<ge> CHR ''a'' \<and> CHR ''z'' \<ge> c)"

definition ispunct :: "char \<Rightarrow> bool" where
  "ispunct c \<longleftrightarrow> CHR 0x21 \<le> c \<and> c \<le> CHR 0x7E \<and> \<not> isalpha c \<and> \<not> isdigit c"

definition isblank :: "char \<Rightarrow> bool" where
  "isblank c \<longleftrightarrow> c = CHR '' '' \<or> c = CHR 0x09"

fun printable_loop :: "string \<Rightarrow> string option" where
  "printable_loop (c # d # rest) =
     (let ch = char_of (unat (hex_2_Ascii c d))
      in if ch = CHR 0x5C then map_option (\<lambda>r. [CHR 0x5C, CHR 0x5C] @ r) (printable_loop rest)
         else if ch = CHR 0x22 then map_option (\<lambda>r. [CHR 0x5C, CHR 0x22] @ r) (printable_loop rest)
         else if isalpha ch \<or> isdigit ch \<or> ispunct ch \<or> isblank ch then map_option (\<lambda>r. ch # r) (printable_loop rest)
         else if ch = CHR 0x19 then printable_loop rest
         else None)"
| "printable_loop _ = Some []"

definition toPrintable :: "string \<Rightarrow> bool \<times> string" where
  "toPrintable inHex =
     (case printable_loop (substitute_out inHex ''0x'') of
        Some cleaned \<Rightarrow> (True, cleaned)
      | None \<Rightarrow> (False, inHex))"

end
