(* ===== verification/AbiParse.thy ===== *)
theory AbiParse
  imports AbiNumbers
begin

text \<open>
  Decoding of call data, results and logs, \<^verbatim>\<open>libs/etherlib/abi_decoderlp.cpp\<close>: the fast
  functions for frequent lists of types, and what the general decoder does with one
  parameter. The data is hexadecimal text, cut into words of 64 digits. What is only
  printed in test mode is left out.
\<close>

section \<open>Parameters\<close>

text \<open>The members of \<^verbatim>\<open>CParameter\<close> that decoding uses.\<close>

datatype CParameter =
  CParameter (par_type: string) (par_name: string) (par_value: string) (internalType: string) (components: "CParameter list")

fun set_value :: "string \<Rightarrow> CParameter \<Rightarrow> CParameter" where
  "set_value v (CParameter t n _ i c) = CParameter t n v i c"

fun set_components :: "CParameter list \<Rightarrow> CParameter \<Rightarrow> CParameter" where
  "set_components c (CParameter t n v i _) = CParameter t n v i c"

definition new_parameter :: "string \<Rightarrow> string \<Rightarrow> CParameter list \<Rightarrow> CParameter" where
  "new_parameter t i c = CParameter t [] [] i c"

fun params_loop :: "string \<Rightarrow> CParameter list \<Rightarrow> string" where
  "params_loop ret [] = ret"
| "params_loop ret (p # ps) = params_loop ((if ret \<noteq> [] then ret @ '', '' else ret) @ par_value p) ps"

definition params_2_Str :: "CParameter list \<Rightarrow> string" where
  "params_2_Str params = trim (params_loop [] params) (CHR '' '')"

section \<open>The fast functions\<close>

definition right_of :: "string \<Rightarrow> nat \<Rightarrow> string" where
  "right_of s r = (if length s \<ge> r then drop (length s - r) s else [])"

definition middle :: "string \<Rightarrow> nat \<Rightarrow> nat \<Rightarrow> string" where
  "middle str s e = (if length str \<ge> s then take e (drop s str) else [])"

text \<open>\<^verbatim>\<open>middle(input, input.length() - n, npos)\<close>; below zero the difference is huge.\<close>

definition middle_last :: "string \<Rightarrow> nat \<Rightarrow> string" where
  "middle_last input n = (if length input < n then [] else drop (length input - n) input)"

fun join_fields :: "string result list \<Rightarrow> string result" where
  "join_fields [] = Inr []"
| "join_fields [r] = r"
| "join_fields (r # rs) = bindR r (\<lambda>s. bindR (join_fields rs) (\<lambda>t. Inr (s @ '','' @ t)))"

definition parse_addr :: "string \<Rightarrow> string result" where
  "parse_addr input = Inr (''0x'' @ right_of input 40)"

definition parse_bool :: "string \<Rightarrow> string result" where
  "parse_bool input = Inr (if right_of input 1 = ''1'' then ''true'' else ''false'')"

text \<open>
  \<^verbatim>\<open>strtol\<close> of up to eight digits behind \<^verbatim>\<open>0x\<close>; the result is cast to a signed
  character whatever the width.
\<close>

definition strtol_16 :: "string \<Rightarrow> nat" where
  "strtol_16 s = foldl (\<lambda>v c. 16 * v + hex_val (tolower c)) 0 (takeWhile isxdigit s)"

definition parse_signed_char :: "nat \<Rightarrow> string \<Rightarrow> string result" where
  "parse_signed_char n input =
     (let i = sint (word_of_nat (strtol_16 (right_of input n)) :: 8 word)
      in Inr (if i < 0 then ''-'' @ dec_str (nat (- i)) else dec_str (nat i)))"

definition parse_i8 :: "string \<Rightarrow> string result" where
  "parse_i8 input = parse_signed_char 2 input"

definition parse_i16 :: "string \<Rightarrow> string result" where
  "parse_i16 input = parse_signed_char 4 input"

definition parse_i32 :: "string \<Rightarrow> string result" where
  "parse_i32 input = parse_signed_char 8 input"

definition parse_i64 :: "string \<Rightarrow> string result" where
  "parse_i64 input = Inr (int_2_Str (str_2_Int (''0x'' @ right_of input 16)))"

definition leads48 :: string where
  "leads48 = replicate 48 (CHR ''0'')"

definition parse_i128 :: "string \<Rightarrow> string result" where
  "parse_i128 input =
     (if startsWith input leads48 then parse_i64 (''0x'' @ substitute_out input leads48)
      else bindR (str_2_BigInt 0 (''0x'' @ input) 128) bni_2_Str)"

definition parse_i256 :: "string \<Rightarrow> string result" where
  "parse_i256 input =
     (if startsWith input leads48 then parse_i64 (substitute_out input leads48)
      else bindR (str_2_BigInt 0 (''0x'' @ input) 256) bni_2_Str)"

definition parse_u8 :: "string \<Rightarrow> string result" where
  "parse_u8 input = Inr (uint_2_Str (str_2_Uint (''0x'' @ middle_last input (8 div 4))))"

definition parse_u16 :: "string \<Rightarrow> string result" where
  "parse_u16 input = Inr (uint_2_Str (str_2_Uint (''0x'' @ middle_last input (16 div 4))))"

definition parse_u32 :: "string \<Rightarrow> string result" where
  "parse_u32 input = Inr (uint_2_Str (str_2_Uint (''0x'' @ middle_last input (32 div 4))))"

definition parse_u64 :: "string \<Rightarrow> string result" where
  "parse_u64 input = Inr (uint_2_Str (str_2_Uint (''0x'' @ middle_last input (64 div 4))))"

definition parse_u128 :: "string \<Rightarrow> string result" where
  "parse_u128 input =
     (if startsWith input leads48 then parse_u64 (''0x'' @ middle input 0 64)
      else bindR (str_2_BigUint (''0x'' @ middle input 0 64) 128) bnu_2_Str)"

definition parse_u256 :: "string \<Rightarrow> string result" where
  "parse_u256 input =
     (if startsWith input leads48 then parse_u64 (''0x'' @ middle input 0 64)
      else bindR (str_2_BigUint (''0x'' @ middle input 0 64) 256) bnu_2_Str)"

definition parse_by32 :: "string \<Rightarrow> string result" where
  "parse_by32 input = Inr (case toPrintable input of (ok, ret) \<Rightarrow> if ok then ret else ''0x'' @ input)"

definition parse_str :: "string \<Rightarrow> string result" where
  "parse_str input =
     (let l = str_2_Uint (''0x'' @ right_of (middle input 64 64) 16) * 2
      in Inr (hex_2_Str (middle input 128 (unat l)) None))"

subsection \<open>Lists of types\<close>

definition parse_addr_addr :: "string \<Rightarrow> string result" where
  "parse_addr_addr input = join_fields [parse_addr (middle input 0 64), parse_addr (middle input 64 64)]"

definition parse_addr_bool :: "string \<Rightarrow> string result" where
  "parse_addr_bool input = join_fields [parse_addr (middle input 0 64), parse_bool (middle input 64 64)]"

definition parse_addr_by32 :: "string \<Rightarrow> string result" where
  "parse_addr_by32 input = join_fields [parse_addr (middle input 0 64), parse_by32 (middle input 64 64)]"

definition parse_addr_i256 :: "string \<Rightarrow> string result" where
  "parse_addr_i256 input = join_fields [parse_addr (middle input 0 64), parse_i256 (middle input 64 64)]"

definition parse_addr_u256 :: "string \<Rightarrow> string result" where
  "parse_addr_u256 input = join_fields [parse_addr (middle input 0 64), parse_u256 (middle input 64 64)]"

definition parse_u8_u8 :: "string \<Rightarrow> string result" where
  "parse_u8_u8 input = join_fields [parse_u8 (middle input 0 64), parse_u8 (middle input 64 64)]"

definition parse_u16_u16 :: "string \<Rightarrow> string result" where
  "parse_u16_u16 input = join_fields [parse_u16 (middle input 0 64), parse_u16 (middle input 64 64)]"

definition parse_u32_u32 :: "string \<Rightarrow> string result" where
  "parse_u32_u32 input = join_fields [parse_u32 (middle input 0 64), parse_u32 (middle input 64 64)]"

definition parse_u64_u64 :: "string \<Rightarrow> string result" where
  "parse_u64_u64 input = join_fields [parse_u64 (middle input 0 64), parse_u64 (middle input 64 64)]"

definition parse_u112_u112 :: "string \<Rightarrow> string result" where
  "parse_u112_u112 input = join_fields [parse_u256 (middle input 0 64), parse_u256 (middle input 64 64)]"

definition parse_u256_addr :: "string \<Rightarrow> string result" where
  "parse_u256_addr input = join_fields [parse_u256 (middle input 0 64), parse_addr (middle input 64 64)]"

definition parse_u256_bool :: "string \<Rightarrow> string result" where
  "parse_u256_bool input = join_fields [parse_u256 (middle input 0 64), parse_bool (middle input 64 64)]"

definition parse_u256_u8 :: "string \<Rightarrow> string result" where
  "parse_u256_u8 input = join_fields [parse_u256 (middle input 0 64), parse_u8 (middle input 64 64)]"

definition parse_u256_u256 :: "string \<Rightarrow> string result" where
  "parse_u256_u256 input = join_fields [parse_u256 (middle input 0 64), parse_u256 (middle input 64 64)]"

definition parse_by32_addr :: "string \<Rightarrow> string result" where
  "parse_by32_addr input = join_fields [parse_by32 (middle input 0 64), parse_addr (middle input 64 64)]"

definition parse_by32_by32 :: "string \<Rightarrow> string result" where
  "parse_by32_by32 input = join_fields [parse_by32 (middle input 0 64), parse_by32 (middle input 64 64)]"

definition parse_by32_u256 :: "string \<Rightarrow> string result" where
  "parse_by32_u256 input = join_fields [parse_by32 (middle input 0 64), parse_u256 (middle input 64 64)]"

definition parse_addr_addr_addr :: "string \<Rightarrow> string result" where
  "parse_addr_addr_addr input = join_fields [parse_addr (middle input 0 64), parse_addr (middle input 64 64),
     parse_addr (middle input 128 64)]"

definition parse_addr_addr_u256 :: "string \<Rightarrow> string result" where
  "parse_addr_addr_u256 input = join_fields [parse_addr (middle input 0 64), parse_addr (middle input 64 64),
     parse_u256 (middle input 128 64)]"

definition parse_addr_u256_addr :: "string \<Rightarrow> string result" where
  "parse_addr_u256_addr input = join_fields [parse_addr (middle input 0 64), parse_u256 (middle input 64 64),
     parse_addr (middle input 128 64)]"

definition parse_addr_u256_u256 :: "string \<Rightarrow> string result" where
  "parse_addr_u256_u256 input = join_fields [parse_addr (middle input 0 64), parse_u256 (middle input 64 64),
     parse_u256 (middle input 128 64)]"

definition parse_by32_by32_u256 :: "string \<Rightarrow> string result" where
  "parse_by32_by32_u256 input = join_fields [parse_by32 (middle input 0 64), parse_by32 (middle input 64 64),
     parse_u256 (middle input 128 64)]"

definition parse_u256_addr_u256 :: "string \<Rightarrow> string result" where
  "parse_u256_addr_u256 input = join_fields [parse_u256 (middle input 0 64), parse_addr (middle input 64 64),
     parse_u256 (middle input 128 64)]"

definition parse_u256_u256_u256 :: "string \<Rightarrow> string result" where
  "parse_u256_u256_u256 input = join_fields [parse_u256 (middle input 0 64), parse_u256 (middle input 64 64),
     parse_u256 (middle input 128 64)]"

definition parse_addr_addr_addr_u256 :: "string \<Rightarrow> string result" where
  "parse_addr_addr_addr_u256 input = join_fields [parse_addr (middle input 0 64), parse_addr (middle input 64 64),
     parse_addr (middle input 128 64), parse_u256 (middle input 192 64)]"

definition parse_addr_addr_u256_u256 :: "string \<Rightarrow> string result" where
  "parse_addr_addr_u256_u256 input = join_fields [parse_addr (middle input 0 64), parse_addr (middle input 64 64),
     parse_u256 (middle input 128 64), parse_u256 (middle input 192 64)]"

definition parse_addr_u256_u256_u256 :: "string \<Rightarrow> string result" where
  "parse_addr_u256_u256_u256 input = join_fields [parse_addr (middle input 0 64), parse_u256 (middle input 64 64),
     parse_u256 (middle input 128 64), parse_u256 (middle input 192 64)]"

definition parse_u256_u256_u256_u256 :: "string \<Rightarrow> string result" where
  "parse_u256_u256_u256_u256 input = join_fields [parse_u256 (middle input 0 64), parse_u256 (middle input 64 64),
     parse_u256 (middle input 128 64), parse_u256 (middle input 192 64)]"

definition parse_u256_u256_u256_u256_u256 :: "string \<Rightarrow> string result" where
  "parse_u256_u256_u256_u256_u256 input = join_fields [parse_u256 (middle input 0 64),
     parse_u256 (middle input 64 64), parse_u256 (middle input 128 64), parse_u256 (middle input 192 64),
     parse_u256 (middle input 256 64)]"

definition parse_u256_u256_u256_u256_u256_u256 :: "string \<Rightarrow> string result" where
  "parse_u256_u256_u256_u256_u256_u256 input = join_fields [parse_u256 (middle input 0 64),
     parse_u256 (middle input 64 64), parse_u256 (middle input 128 64), parse_u256 (middle input 192 64),
     parse_u256 (middle input 256 64), parse_u256 (middle input 320 64)]"

definition parse_two_u256_one_addr :: "string \<Rightarrow> string result" where
  "parse_two_u256_one_addr input = join_fields [parse_u256 (middle input 0 64), parse_u256 (middle input 64 64),
     parse_addr (middle input 128 64)]"

definition parse_three_u256_one_addr :: "string \<Rightarrow> string result" where
  "parse_three_u256_one_addr input = join_fields [parse_u256 (middle input 0 64), parse_u256 (middle input 64 64),
     parse_u256 (middle input 128 64), parse_addr (middle input 192 64)]"

definition parse_four_u256_one_addr :: "string \<Rightarrow> string result" where
  "parse_four_u256_one_addr input = join_fields [parse_u256 (middle input 0 64), parse_u256 (middle input 64 64),
     parse_u256 (middle input 128 64), parse_u256 (middle input 192 64), parse_addr (middle input 256 64)]"

definition parse_four_u256_two_addr :: "string \<Rightarrow> string result" where
  "parse_four_u256_two_addr input = join_fields [parse_u256 (middle input 0 64), parse_u256 (middle input 64 64),
     parse_u256 (middle input 128 64), parse_u256 (middle input 192 64), parse_addr (middle input 256 64),
     parse_addr (middle input 320 64)]"

definition parse_table :: "(string \<times> (string \<Rightarrow> string result)) list" where
  "parse_table =
    [(''address'', parse_addr),
     (''bool'', parse_bool),
     (''int8'', parse_i8),
     (''int16'', parse_i16),
     (''int32'', parse_i32),
     (''int64'', parse_i64),
     (''int128'', parse_i128),
     (''int256'', parse_i256),
     (''uint8'', parse_u8),
     (''uint16'', parse_u16),
     (''uint32'', parse_u32),
     (''uint64'', parse_u64),
     (''uint128'', parse_u128),
     (''uint256'', parse_u256),
     (''bytes32'', parse_by32),
     (''address,address'', parse_addr_addr),
     (''address,bool'', parse_addr_bool),
     (''address,bytes32'', parse_addr_by32),
     (''address,int256'', parse_addr_i256),
     (''address,uint256'', parse_addr_u256),
     (''uint8,uint8'', parse_u8_u8),
     (''uint16,uint16'', parse_u16_u16),
     (''uint32,uint32'', parse_u32_u32),
     (''uint64,uint64'', parse_u64_u64),
     (''uint112,uint112'', parse_u112_u112),
     (''uint256,address'', parse_u256_addr),
     (''uint256,bool'', parse_u256_bool),
     (''uint256,uint8'', parse_u256_u8),
     (''uint256,uint256'', parse_u256_u256),
     (''bytes32,address'', parse_by32_addr),
     (''bytes32,bytes32'', parse_by32_by32),
     (''bytes32,uint256'', parse_by32_u256),
     (''address,address,address'', parse_addr_addr_addr),
     (''address,address,uint256'', parse_addr_addr_u256),
     (''address,uint256,address'', parse_addr_u256_addr),
     (''address,uint256,uint256'', parse_addr_u256_u256),
     (''bytes32,bytes32,uint256'', parse_by32_by32_u256),
     (''uint256,address,uint256'', parse_u256_addr_u256),
     (''uint256,uint256,uint256'', parse_u256_u256_u256),
     (''address,address,address,uint256'', parse_addr_addr_addr_u256),
     (''address,address,uint256,uint256'', parse_addr_addr_u256_u256),
     (''address,uint256,uint256,uint256'', parse_addr_u256_u256_u256),
     (''uint256,uint256,uint256,uint256'', parse_u256_u256_u256_u256),
     (''uint256,uint256,uint256,uint256,uint256'', parse_u256_u256_u256_u256_u256),
     (''uint256,uint256,uint256,uint256,uint256,uint256'', parse_u256_u256_u256_u256_u256_u256),
     (''uint256,uint256,address'', parse_two_u256_one_addr),
     (''uint256,uint256,uint256,address'', parse_three_u256_one_addr),
     (''uint256,uint256,uint256,uint256,address'', parse_four_u256_one_addr),
     (''uint256,uint256,uint256,uint256,address,address'', parse_four_u256_two_addr)]"

definition parseMap :: "string \<Rightarrow> (string \<Rightarrow> string result) option" where
  "parseMap typeList = map_of parse_table typeList"

section \<open>The general decoder\<close>

definition replaceReverse :: "string \<Rightarrow> string \<Rightarrow> string \<Rightarrow> string" where
  "replaceReverse target what wth = reverse_q (replace_q (reverse_q target) (reverse_q what) (reverse_q wth))"

definition data_word :: "string list \<Rightarrow> nat \<Rightarrow> string result" where
  "data_word dataArray i = (if i < length dataArray then Inr (dataArray ! i) else Inl OutOfBounds)"

text \<open>The character behind the end of a text is zero.\<close>

definition last_digit :: "string \<Rightarrow> char result" where
  "last_digit w = (if 63 < length w then Inr (w ! 63) else if length w = 63 then Inr (CHR 0x00) else Inl OutOfBounds)"

definition isBaseType :: "string \<Rightarrow> bool" where
  "isBaseType t \<longleftrightarrow> \<not> contains t ''['' \<and> \<not> (t = ''string'' \<or> t = ''bytes'')"

definition type_bits :: "string \<Rightarrow> string \<Rightarrow> nat" where
  "type_bits t what = unat (str_2_Uint (substitute_out t what))"

text \<open>
  What the loop does with one parameter: go on with a value, return, or decode other
  parameters: the components of a tuple, the one array of a known size that an array
  of a variable size becomes, or the items of an array.
\<close>

datatype step =
  Goto CParameter nat
| Return bool CParameter nat
| IntoTuple
| IntoVariable CParameter nat
| IntoFixed "CParameter list"

definition decode_word :: "string \<Rightarrow> string \<Rightarrow> string result option" where
  "decode_word t w =
     (if contains t ''bool'' then Some (bindR (last_digit w) (\<lambda>c. Inr (if c = CHR ''1'' then ''true'' else ''false'')))
      else if contains t ''address'' then
        Some (bindR (str_2_BigUint (''0x'' @ w) 160) (\<lambda>n.
          bindR (bnu_2_Hex n) (\<lambda>h. Inr (''0x'' @ padLeft (toLower h) 40 (CHR ''0'')))))
      else if contains t ''uint'' then Some (bindR (str_2_BigUint (''0x'' @ w) (type_bits t ''uint'')) bnu_2_Str)
      else if contains t ''int'' then Some (bindR (str_2_BigInt 0 (''0x'' @ w) (type_bits t ''int'')) bni_2_Str)
      else if contains t ''bytes'' then Some (Inr (''0x'' @ w))
      else None)"

text \<open>
  The bytes of a string in the words from \<open>pos\<close> on, \<open>n\<close> of them; words behind the
  end of the data are skipped.
\<close>

fun bytes_loop :: "nat \<Rightarrow> string list \<Rightarrow> nat \<Rightarrow> nat \<Rightarrow> string" where
  "bytes_loop 0 dataArray pos n = []"
| "bytes_loop (Suc k) dataArray pos n =
     (if pos < length dataArray then take (n * 2) (dataArray ! pos) else []) @
     bytes_loop k dataArray (pos + 1) (if n \<ge> 32 then n - 32 else 0)"

text \<open>
  The offset may be that of the end of the data, where the word of the length is read out of
  bounds.
\<close>

definition decode_bytes :: "CParameter \<Rightarrow> string list \<Rightarrow> nat \<Rightarrow> step result" where
  "decode_bytes param dataArray readOffset =
     bindR (data_word dataArray readOffset) (\<lambda>w.
       let sizeLoc = unat (str_2_Uint (''0x'' @ w)) div 32
       in if sizeLoc > length dataArray then Inr (Return False (set_value [] param) (readOffset + 1))
          else
            bindR (data_word dataArray sizeLoc) (\<lambda>w.
              let nBytes = unat (str_2_Uint (''0x'' @ w));
                  nItems = nBytes div 32 + 1
              in if nItems > length dataArray then Inr (Return True param (readOffset + 1))
                 else
                   let result = bytes_loop nItems dataArray (sizeLoc + 1) nBytes;
                       v = ''0x'' @ take (nBytes * 2) result
                   in Inr (Goto (set_value (if par_type param = ''string'' then hex_2_Str v None else v) param) (readOffset + 1))))"

definition decode_variable :: "CParameter \<Rightarrow> string list \<Rightarrow> nat \<Rightarrow> step result" where
  "decode_variable param dataArray readOffset =
     bindR (data_word dataArray readOffset) (\<lambda>w.
       let countLoc = unat (str_2_Uint (''0x'' @ w)) div 32
       in if countLoc > length dataArray then Inr (Return False param (readOffset + 1))
          else
            bindR (data_word dataArray countLoc) (\<lambda>w.
              let nItems = str_2_Uint (''0x'' @ w)
              in if nItems = 0 then Inr (Goto param (readOffset + 1))
                 else
                   let t = replaceReverse (par_type param) ''[]'' (''['' @ uint_2_Str nItems @ '']'');
                       t = replace_q t ''bytes['' ''bytes32[''
                   in Inr (IntoVariable (new_parameter t (internalType param) (components param)) (countLoc + 1))))"

definition decode_fixed :: "CParameter \<Rightarrow> string list \<Rightarrow> nat \<Rightarrow> step result" where
  "decode_fixed param dataArray readOffset =
     (let parts = explode_into [] (replaceReverse (replaceReverse (par_type param) ''['' ''|'') '']'' ''|'') (CHR ''|'') True
      in bindR (data_word parts 0) (\<lambda>subType.
         bindR (data_word parts 1) (\<lambda>count.
           let nItems = unat (str_2_Uint count)
           in if nItems > length dataArray then Inr (Return False param readOffset)
              else Inr (IntoFixed (replicate nItems
                     (new_parameter subType (if contains (internalType param) ''struct'' then internalType param else subType)
                        (components param)))))))"

definition decode_step :: "CParameter \<Rightarrow> string list \<Rightarrow> nat \<Rightarrow> step result" where
  "decode_step param dataArray readOffset =
     (let t = par_type param
      in if isBaseType t then
           (if t = ''tuple'' then Inr IntoTuple
            else
              bindR (data_word dataArray readOffset) (\<lambda>w.
                case decode_word t w of
                  None \<Rightarrow> Inr (Return True param readOffset)
                | Some r \<Rightarrow> bindR r (\<lambda>v. Inr (Goto (set_value v param) (readOffset + 1)))))
         else if t = ''string'' \<or> t = ''bytes'' then decode_bytes param dataArray readOffset
         else if endsWith t ''[]'' then decode_variable param dataArray readOffset
         else if endsWith t '']'' then decode_fixed param dataArray readOffset
         else Inr (Return True param readOffset))"

end
