(* ===== verification/AbiDecode.thy ===== *)
theory AbiDecode
  imports AbiParse
begin

text \<open>
  The general decoder of \<^verbatim>\<open>libs/etherlib/abi_decoderlp.cpp\<close>, which descends into arrays
  and tuples, with the proof that it ends for every type, and \<^verbatim>\<open>decodeRLP\<close>.
\<close>

section \<open>The general decoder\<close>

subsection \<open>Descending ends\<close>

text \<open>
  A parameter weighs more than what it descends to: an array of a variable size becomes one of
  a known size, with one \<^verbatim>\<open>[]\<close> less, the items of an array of a known size have one bracket
  less, and the components of a tuple are below it.
\<close>

definition brackets :: "string \<Rightarrow> nat" where
  "brackets t = length (filter (\<lambda>c. c = CHR ''['') t)"

fun open_pairs :: "string \<Rightarrow> nat" where
  "open_pairs (c # d # s) = (if c = CHR ''['' \<and> d = CHR '']'' then 1 else 0) + open_pairs (d # s)"
| "open_pairs _ = 0"

definition type_weight :: "string \<Rightarrow> nat" where
  "type_weight t = (brackets t + 1) * (brackets t + 1) + open_pairs t"

fun weight :: "CParameter \<Rightarrow> nat" where
  "weight (CParameter t n v i c) = 1 + type_weight t + foldr max (map weight c) 0"

abbreviation weights :: "CParameter list \<Rightarrow> nat" where
  "weights ps \<equiv> foldr max (map weight ps) 0"

lemma brackets_append: "brackets (s @ t) = brackets s + brackets t"
  by (simp add: brackets_def)

lemma open_pairs_le: "open_pairs t \<le> brackets t"
  by (induction t rule: open_pairs.induct) (auto simp: brackets_def)

lemma open_pairs_Cons: "open_pairs (c # t) = open_pairs t + (if t \<noteq> [] \<and> c = CHR ''['' \<and> hd t = CHR '']'' then 1 else 0)"
  by (cases t) auto

lemma open_pairs_append:
  "open_pairs (s @ t) = open_pairs s + open_pairs t + (if s \<noteq> [] \<and> t \<noteq> [] \<and> last s = CHR ''['' \<and> hd t = CHR '']'' then 1 else 0)"
  by (induction s) (auto simp: open_pairs_Cons hd_append)

lemma weight_decreases:
  assumes "brackets t < brackets u \<or> brackets t = brackets u \<and> open_pairs t < open_pairs u"
  shows "type_weight t < type_weight u"
proof (cases "brackets t < brackets u")
  case True
  have "type_weight t \<le> (brackets t + 1) * (brackets t + 1) + brackets t" using open_pairs_le [of t] by (simp add: type_weight_def)
  also have "\<dots> < (brackets t + 2) * (brackets t + 2)" by (simp add: algebra_simps)
  also have "\<dots> \<le> (brackets u + 1) * (brackets u + 1)" using True by (intro mult_le_mono) auto
  finally show ?thesis by (simp add: type_weight_def)
qed (use assms in \<open>simp add: type_weight_def\<close>)

lemma replace_q_found:
  assumes "find_sub what t \<noteq> None" "CHR 0x00 \<notin> set wth" "what \<noteq> []"
  obtains a b where "t = a @ what @ b" "replace_q t what wth = a @ wth @ b"
proof -
  obtain f where f: "find_sub what t = Some f" using assms(1) by auto
  have d: "f + length what \<le> length t" "t = take f t @ what @ drop (f + length what) t" using find_sub_Some [OF f] by blast+
  have "replace_q t what wth = take f t @ wth @ drop (f + length what) t"
    using f d(1) assms(2,3) by (simp add: replace_q_def extract_q_def extract_from_def c_str_id)
  with d(2) that show ?thesis by blast
qed

lemma replaceReverse_found:
  assumes "t = x @ what @ y" "CHR 0x00 \<notin> set wth" "what \<noteq> []"
  obtains a b where "t = a @ what @ b" "replaceReverse t what wth = a @ wth @ b"
proof -
  have "rev t = rev y @ rev what @ rev x" by (simp add: assms(1))
  then have "find_sub (rev what) (rev t) \<noteq> None" unfolding find_sub_None by blast
  then obtain a b where ab: "rev t = a @ rev what @ b" "replace_q (rev t) (rev what) (rev wth) = a @ rev wth @ b"
    using assms(2,3) replace_q_found [of "rev what" "rev t" "rev wth"] by auto
  from ab(1) have "t = rev b @ what @ rev a" by (metis append_assoc rev_append rev_rev_ident)
  moreover have "replaceReverse t what wth = rev b @ wth @ rev a" using ab(2) by (simp add: replaceReverse_def reverse_q_rev)
  ultimately show ?thesis by (rule that)
qed

lemma replaceReverse_ex:
  assumes "t = x @ what @ y" "CHR 0x00 \<notin> set wth" "what \<noteq> []"
  shows "\<exists>a b. t = a @ what @ b \<and> replaceReverse t what wth = a @ wth @ b"
  using replaceReverse_found [OF assms] by blast

lemma replaceReverse_id: "find_sub (rev what) (rev t) = None \<Longrightarrow> replaceReverse t what wth = t"
  by (simp add: replaceReverse_def reverse_q_rev replace_q_def)

text \<open>Trimming and splitting keep part of a text.\<close>

lemma brackets_take: "brackets (take n s) \<le> brackets s" and brackets_drop: "brackets (drop n s) \<le> brackets s"
  using brackets_append [of "take n s" "drop n s"] by simp_all

lemma brackets_c_str: "brackets (c_str s) \<le> brackets s"
  unfolding c_str_def by (subst takeWhile_eq_take) (rule brackets_take)

lemma brackets_trim: "brackets (trim s c) \<le> brackets s"
proof -
  have l: "brackets (trimLeading_loop t c) \<le> brackets t" for t
  proof (induction t c rule: trimLeading_loop.induct)
    case (1 t c)
    then show ?case using brackets_drop [of 1 t]
      by (subst trimLeading_loop.simps) (auto simp: extract_from_def brackets_def intro: order_trans)
  qed
  have t: "brackets (trimTrailing t c) \<le> brackets t" for t
  proof (induction t c rule: trimTrailing.induct)
    case (1 t c)
    then show ?case using brackets_take [of "length t - 1" t]
      by (subst trimTrailing.simps) (auto simp: extract_q_def brackets_def intro: order_trans)
  qed
  show ?thesis unfolding trim_def trimLeading_def
    by (meson order_trans t l brackets_c_str)
qed

lemma brackets_trimWhitespace: "brackets (trimWhitespace s a) \<le> brackets s"
proof -
  have f: "brackets (foldl trim t cs) \<le> brackets t" for t cs
    by (induction cs arbitrary: t) (auto intro: order_trans [OF _ brackets_trim])
  have "brackets (trimWhitespace_loop t cs) \<le> brackets t" for t cs
  proof (induction t cs rule: trimWhitespace_loop.induct)
    case (1 t cs)
    then show ?case using f [of t cs] by (subst trimWhitespace_loop.simps) (auto intro: order_trans)
  qed
  then show ?thesis unfolding trimWhitespace_def by (meson order_trans brackets_c_str)
qed

lemma brackets_explode: "explode_loop True n buf s = p # ps \<Longrightarrow> brackets p \<le> brackets (buf @ s)"
proof (induction s arbitrary: buf)
  case (Cons c s)
  then show ?case using brackets_trimWhitespace [of buf "[]"] brackets_append [of buf "c # s"] Cons.IH [of "buf @ [c]"]
    by (auto split: if_splits)
qed (auto split: if_splits)

lemma decode_fixed_weight:
  assumes "decode_fixed param data off = Inr (IntoFixed ps)" "contains (par_type param) ''[''" "q \<in> set ps"
  shows "weight q < weight param"
proof -
  let ?t = "par_type param" and ?u = "replaceReverse (replaceReverse (par_type param) ''['' ''|'') '']'' ''|''"
  obtain sub i where q: "q = new_parameter sub i (components param)" "data_word (explode_loop True (CHR ''|'') [] ?u) 0 = Inr sub"
    using assms(1,3) by (auto simp: decode_fixed_def Let_def bindR_eq_Inr_iff explode_into_def split: if_splits)
  obtain x y where "?t = x @ ''['' @ y" using assms(2) find_sub_None [of "''[''" ?t] by (auto simp: contains_def)
  then obtain a b where ab: "?t = a @ ''['' @ b" "replaceReverse ?t ''['' ''|'' = a @ ''|'' @ b"
    using replaceReverse_ex [of ?t x "''[''" y "''|''"] by auto
  have "brackets ?u \<le> brackets (a @ ''|'' @ b)"
  proof (cases "find_sub (rev '']'') (rev (a @ ''|'' @ b))")
    case None
    then show ?thesis using ab by (simp add: replaceReverse_id)
  next
    case (Some f)
    then obtain x y where "rev (a @ ''|'' @ b) = x @ rev '']'' @ y" using find_sub_None [of "rev '']''"] by (metis option.distinct(1))
    then have "a @ ''|'' @ b = rev y @ '']'' @ rev x" by (metis append_assoc rev_append rev_rev_ident)
    then obtain c d where "a @ ''|'' @ b = c @ '']'' @ d" "replaceReverse (a @ ''|'' @ b) '']'' ''|'' = c @ ''|'' @ d"
      using replaceReverse_ex [of "a @ ''|'' @ b" "rev y" "'']''" "rev x" "''|''"] by auto
    then show ?thesis unfolding ab(2) by (simp add: brackets_append) (simp add: brackets_def)
  qed
  also have "\<dots> < brackets ?t" unfolding ab(1) by (simp add: brackets_append) (simp add: brackets_def)
  finally have u: "brackets ?u < brackets ?t" .
  have "brackets sub \<le> brackets ?u" using q(2) brackets_explode [of "CHR ''|''" "[]" ?u]
    by (cases "explode_loop True (CHR ''|'') [] ?u") (auto simp: data_word_def)
  then have "type_weight sub < type_weight ?t" using u by (intro weight_decreases) simp
  then show ?thesis unfolding q(1) new_parameter_def by (cases param) simp
qed

lemma replace_bytes_weight:
  "brackets (replace_q u ''bytes['' ''bytes32['') = brackets u \<and> open_pairs (replace_q u ''bytes['' ''bytes32['') = open_pairs u"
proof (cases "find_sub ''bytes['' u")
  case (Some f)
  then obtain a b where ab: "u = a @ ''bytes['' @ b" "replace_q u ''bytes['' ''bytes32['' = a @ ''bytes32['' @ b"
    using replace_q_found [of "''bytes[''" u "''bytes32[''"] by auto
  have "open_pairs (a @ ''bytes32['' @ b) = open_pairs (a @ ''bytes['' @ b)"
    unfolding open_pairs_append [of a] open_pairs_append [of _ b] by (simp add: open_pairs_Cons)
  moreover have "brackets (a @ ''bytes32['' @ b) = brackets (a @ ''bytes['' @ b)"
    unfolding brackets_append by (simp add: brackets_def)
  ultimately show ?thesis by (simp only: ab(2)) (simp only: ab(1))
qed (simp add: replace_q_def)

lemma decode_variable_weight:
  assumes "decode_variable param data off = Inr (IntoVariable q loc)" "endsWith (par_type param) ''[]''"
  shows "weight q < weight param"
proof -
  let ?t = "par_type param"
  obtain n where q: "q = new_parameter (replace_q (replaceReverse ?t ''[]'' (''['' @ uint_2_Str n @ '']'')) ''bytes['' ''bytes32['') (internalType param) (components param)"
    using assms(1) by (auto simp: decode_variable_def Let_def bindR_eq_Inr_iff split: if_splits)
  let ?d = "''['' @ uint_2_Str n @ '']''"
  have dg: "list_all isdigit (uint_2_Str n)" "uint_2_Str n \<noteq> []" using dec_str_digits by (simp_all add: uint_2_Str_def)
  have hl: "CHR 0x00 \<notin> set (uint_2_Str n)" "CHR '']'' \<notin> set (uint_2_Str n)" "CHR ''['' \<notin> set (uint_2_Str n)"
    using dg(1) by (auto simp: list_all_iff isdigit_def)
  have "\<exists>x y. ?t = x @ ''[]'' @ y"
  proof -
    let ?c = "c_str ?t"
    have "2 \<le> length ?c" "take 2 (drop (length ?c - 2) ?c) = ''[]''"
      using assms(2) by (auto simp: endsWith_def Let_def extract_q_def numeral_2_eq_2 split: if_splits)
    then have "?c = take (length ?c - 2) ?c @ ''[]''" by (metis append_take_drop_id diff_diff_cancel length_drop take_all order_refl)
    moreover have "?t = ?c @ dropWhile (\<lambda>c. c \<noteq> CHR 0x00) ?t" by (simp add: c_str_def)
    ultimately show ?thesis by (metis append_assoc)
  qed
  then obtain x y where "?t = x @ ''[]'' @ y" by blast
  moreover have "CHR 0x00 \<notin> set ?d" using hl(1) by simp
  ultimately obtain a b where ab: "?t = a @ ''[]'' @ b" "replaceReverse ?t ''[]'' ?d = a @ ?d @ b"
    using replaceReverse_ex [of ?t x "''[]''" y ?d] by blast
  define u where "u = a @ ?d @ b"
  have z0: "brackets (uint_2_Str n) = 0" using hl(3) by (auto simp: brackets_def filter_empty_conv)
  then have z: "brackets (uint_2_Str n) = 0" "open_pairs (uint_2_Str n) = 0" using open_pairs_le [of "uint_2_Str n"] by simp_all
  have "hd (uint_2_Str n) \<noteq> CHR '']''" using dg(2) hl(2) by (metis hd_in_set)
  moreover have "last (uint_2_Str n) \<noteq> CHR ''[''" using dg(2) hl(3) by (metis last_in_set)
  ultimately have bd: "brackets ?d = 1" "open_pairs ?d = 0"
    using z dg(2) hl(3) by (simp_all add: brackets_append open_pairs_append open_pairs_Cons hd_append) (simp add: brackets_def)
  have "brackets u = brackets ?t" using bd(1) unfolding u_def ab(1) brackets_append by (simp add: brackets_def)
  moreover have "open_pairs u < open_pairs ?t"
    using bd(2) unfolding u_def ab(1) open_pairs_append [of a] open_pairs_append [of _ b] by (simp add: open_pairs_Cons) 
  moreover have "brackets (replace_q u ''bytes['' ''bytes32['') = brackets u \<and> open_pairs (replace_q u ''bytes['' ''bytes32['') = open_pairs u"
    by (rule replace_bytes_weight)
  ultimately have "type_weight (replace_q u ''bytes['' ''bytes32['') < type_weight ?t" by (intro weight_decreases) simp
  then show ?thesis unfolding q ab(2) u_def new_parameter_def by (cases param) simp
qed

lemma weight_le_weights: "p \<in> set ps \<Longrightarrow> weight p \<le> weights ps"
  by (induction ps) auto

lemma weights_less: "0 < n \<Longrightarrow> (\<And>p. p \<in> set ps \<Longrightarrow> weight p < n) \<Longrightarrow> weights ps < n"
  by (induction ps) auto

lemma weights_components: "weights (components p) < weight p"
  by (cases p) simp

lemma weight_pos: "0 < weight p"
  by (cases p) simp

lemma decode_step_fixed:
  assumes "decode_step param data off = Inr (IntoFixed ps)"
  shows "weights ps < weight param"
proof -
  have "decode_fixed param data off = Inr (IntoFixed ps)" "contains (par_type param) ''[''"
    using assms
    by (auto simp: decode_step_def Let_def isBaseType_def decode_bytes_def decode_variable_def bindR_eq_Inr_iff
        split: if_splits option.splits)
  then show ?thesis using decode_fixed_weight by (intro weights_less weight_pos) blast
qed

lemma decode_step_variable:
  assumes "decode_step param data off = Inr (IntoVariable q loc)"
  shows "weight q < weight param"
proof -
  have "decode_variable param data off = Inr (IntoVariable q loc)" "endsWith (par_type param) ''[]''"
    using assms
    by (auto simp: decode_step_def Let_def decode_bytes_def decode_fixed_def bindR_eq_Inr_iff
        split: if_splits option.splits)
  then show ?thesis by (rule decode_variable_weight)
qed

subsection \<open>The loop over the parameters\<close>

text \<open>
  The result has the answer, the parameters with their values and \<^verbatim>\<open>readOffset\<close>, a fault
  when the data is read out of bounds; \<^verbatim>\<open>objectStart\<close> is only printed. When the items of a
  parameter fail, \<^verbatim>\<open>readOffset\<close> is one word further.
\<close>

definition cons_result :: "CParameter \<Rightarrow> (bool \<times> CParameter list \<times> nat) result \<Rightarrow> (bool \<times> CParameter list \<times> nat) result" where
  "cons_result param r = bindR r (\<lambda>(ok, rest, readOffset). Inr (ok, param # rest, readOffset))"

text \<open>The components of a tuple are shown as an object.\<close>

fun tuple_loop :: "string \<Rightarrow> CParameter list \<Rightarrow> string" where
  "tuple_loop v [] = v"
| "tuple_loop v (p # ps) =
     tuple_loop ((if v \<noteq> ''{'' then v @ '', '' else v) @ [CHR 0x22] @ par_name p @ [CHR 0x22] @ '':'' @ [CHR 0x22] @ par_value p @ [CHR 0x22]) ps"

function decodeAnObject :: "CParameter list \<Rightarrow> string list \<Rightarrow> nat \<Rightarrow> (bool \<times> CParameter list \<times> nat) result" where
  "decodeAnObject [] dataArray readOffset = Inr (True, [], readOffset)"
| "decodeAnObject (param # rest) dataArray readOffset =
     (if readOffset \<ge> length dataArray then Inr (False, param # rest, readOffset)
      else
        bindR (decode_step param dataArray readOffset) (\<lambda>s.
          case s of
            Goto param pos \<Rightarrow> cons_result param (decodeAnObject rest dataArray pos)
          | Return ok param pos \<Rightarrow> Inr (ok, param # rest, pos)
          | IntoTuple \<Rightarrow>
              bindR (decodeAnObject (components param) dataArray readOffset) (\<lambda>r.
                let ok = fst r; cs = fst (snd r); pos = snd (snd r)
                in if \<not> ok then Inr (False, set_components cs param # rest, readOffset + 1)
                   else cons_result (set_value (tuple_loop ''{'' cs @ ''}'') (set_components cs param))
                     (decodeAnObject rest dataArray pos))
          | IntoVariable q loc \<Rightarrow>
              bindR (decodeAnObject [q] dataArray loc) (\<lambda>r.
                let ok = fst r; tmp = fst (snd r)
                in if \<not> ok then Inr (False, param # rest, readOffset + 1)
                   else cons_result (set_value (par_value (hd tmp)) param) (decodeAnObject rest dataArray (readOffset + 1)))
          | IntoFixed ps \<Rightarrow>
              bindR (decodeAnObject ps dataArray readOffset) (\<lambda>r.
                let ok = fst r; tmp = fst (snd r); pos = snd (snd r)
                in if \<not> ok then Inr (False, param # rest, readOffset + 1)
                   else cons_result (set_value (''['' @ params_2_Str tmp @ '']'') param) (decodeAnObject rest dataArray pos))))"
  by pat_completeness auto
termination
  by (relation "measures [\<lambda>(ps, d, i). weights ps, \<lambda>(ps, d, i). length ps]")
    (auto simp: less_max_iff_disj weights_components weight_pos dest: decode_step_variable decode_step_fixed)

declare decodeAnObject.simps [simp del]

section \<open>The decoder\<close>

fun assign_values :: "CParameter list \<Rightarrow> string \<Rightarrow> CParameter list" where
  "assign_values [] result = []"
| "assign_values (item # params) result =
     (case nextTokenClear result (CHR '','') True of (v, rest) \<Rightarrow> set_value v item # assign_values params rest)"

lemma replace_first_words: "str \<noteq> [] \<Longrightarrow> length (replace_q str (take 64 str) []) < length str"
proof -
  assume "str \<noteq> []"
  moreover have "find_sub (take 64 str) str = Some 0" using find_sub_prefix [of "take 64 str" "drop 64 str"] by simp
  ultimately show ?thesis by (simp add: replace_q_def extract_q_def extract_from_def c_str_def)
qed

function split_words :: "string \<Rightarrow> string list" where
  "split_words str = (if str = [] then [] else let item = take 64 str in item # split_words (replace_q str item []))"
  by pat_completeness auto
termination by (relation "measure length") (auto simp: replace_first_words)

declare split_words.simps [simp del]

definition type_list :: "CParameter list \<Rightarrow> string" where
  "type_list params = trim (concat (map (\<lambda>i. par_type i @ '','') params)) (CHR '','')"

definition find_parser :: "CParameter list \<Rightarrow> string \<Rightarrow> (string \<Rightarrow> string result) option" where
  "find_parser params typeListIn =
     (case parseMap typeListIn of Some f \<Rightarrow> Some f | None \<Rightarrow> parseMap (type_list params))"

definition decodeRLP :: "CParameter list \<Rightarrow> string \<Rightarrow> string \<Rightarrow> (bool \<times> CParameter list) result" where
  "decodeRLP params typeListIn inputStrIn =
     (let inputStr = (if inputStrIn = ''0x'' then [] else inputStrIn);
          slow =
            (let inputs = (if inputStr = [] then [] else split_words (trim (substitute_out inputStr ''0x'') (CHR '' '')));
                 params = (if length inputs < length params then take (length inputs) params else params)
             in bindR (decodeAnObject params inputs 0) (\<lambda>(ok, params, readOffset). Inr (ok, params)))
      in case find_parser params typeListIn of
           Some func \<Rightarrow>
             if inputStr \<noteq> []
             then bindR (func (substitute_out inputStr ''0x'')) (\<lambda>result. Inr (True, assign_values params result))
             else slow
         | None \<Rightarrow> slow)"

end
