(* ===== verification/AbiNumbers_Correct.thy ===== *)
theory AbiNumbers_Correct
  imports AbiNumbers
begin

text \<open>
  The value of hexadecimal and decimal texts (\<open>hexnum\<close>, \<open>dec_value\<close>), and what the
  conversions to numbers and back make of them.
\<close>

section \<open>Digits\<close>

definition hexnum :: "string \<Rightarrow> nat" where
  "hexnum s = foldl (\<lambda>v c. 16 * v + hex_val c) 0 s"

lemma foldl_dval: "foldl (\<lambda>v c. b * v + f c) v0 s = v0 * b ^ length s + dval b (map f (rev s))"
  by (induction s arbitrary: v0) (simp_all add: dval_append algebra_simps)

lemma hexnum_dval: "hexnum s = dval 16 (map hex_val (rev s))"
  by (simp add: hexnum_def foldl_dval)

lemma dec_value_dval: "dec_value s = dval 10 (map (\<lambda>c. of_char c - 48) (rev s))"
  by (simp add: dec_value_def foldl_dval)

lemma hexnum_append: "hexnum (s @ t) = hexnum s * 16 ^ length t + hexnum t"
  by (simp add: hexnum_dval dval_append)

lemma hexnum_less: "list_all is_hex s \<Longrightarrow> hexnum s < 16 ^ length s"
  using dval_less [of "map hex_val (rev s)" 16] hex_val_less by (auto simp: hexnum_dval list_all_iff)

lemma dval_butlast_0: "xs \<noteq> [] \<Longrightarrow> last xs = 0 \<Longrightarrow> dval b (map unat (butlast xs)) = dval b (map unat (xs :: 'a::len word list))"
  by (cases xs rule: rev_cases) (simp_all add: dval_append)

lemma dval_trimLeadingZeros: "dval b (map unat (trimLeadingZeros (ds :: 'a::len word list))) = dval b (map unat ds)"
proof (induction ds rule: trimLeadingZeros.induct)
  case (1 xs)
  show ?case
  proof (cases "xs \<noteq> [] \<and> last xs = 0")
    case True
    then show ?thesis using 1 dval_butlast_0 [of xs b] by (subst trimLeadingZeros.simps) simp
  next
    case False
    then show ?thesis by (subst trimLeadingZeros.simps) auto
  qed
qed

lemma unat16: "n < unat (bs :: 16 word) \<Longrightarrow> unat (word_of_nat n :: 16 word) = n"
proof -
  assume "n < unat bs"
  moreover have "unat bs < 2 ^ LENGTH(16)" by (rule unsigned_less)
  ultimately have "n < 2 ^ 16" by simp
  then show ?thesis by (simp add: unsigned_of_nat take_bit_nat_eq_self)
qed

lemma symbol_digit_hex:
  assumes "is_hex c"
  shows "symbol_digit c = Inr (word_of_nat (hex_val c))"
  using assms by (auto simp: symbol_digit_def is_hex_range hex_val_def less_eq_char_def)

lemma symbol_digit_dec: "isdigit c \<Longrightarrow> symbol_digit c = Inr (word_of_nat (of_char c - 48)) \<and> of_char c - 48 < (10 :: nat)"
  by (auto simp: symbol_digit_def isdigit_range less_eq_char_def)

lemma from_string_loop_digits:
  assumes "\<And>c. c \<in> set s \<Longrightarrow> symbol_digit c = Inr (word_of_nat (f c)) \<and> f c < unat bs"
  shows "from_string_loop bs s = Inr (map (\<lambda>c. word_of_nat (f c)) s)"
  using assms
proof (induction s)
  case (Cons c s)
  have "unat (word_of_nat (f c) :: 16 word) = f c" using Cons.prems [of c] by (intro unat16 [of _ bs]) simp
  then have "\<not> bs \<le> word_of_nat (f c)" using Cons.prems [of c] by (simp add: word_le_nat_alt)
  then show ?case using Cons by simp
qed simp

lemma inABase_value:
  assumes "\<And>c. c \<in> set s \<Longrightarrow> symbol_digit c = Inr (word_of_nat (f c)) \<and> f c < unat bs" "bs \<le> 36"
  shows "\<exists>r. bindR (inABase_of_string s bs) inABase_to_biguint = Inr r \<and> normal r \<and> toNat r = dval (unat bs) (map f (rev s))"
proof -
  let ?d = "\<lparr>capacity = length s, blk = trimLeadingZeros (map (\<lambda>c. word_of_nat (f c)) (rev s)), base = bs\<rparr> :: inABase"
  have u: "unat (word_of_nat (f c) :: 16 word) = f c" if "c \<in> set s" for c
    using assms(1) [OF that] by (intro unat16 [of _ bs]) simp
  have "from_string_loop bs (rev s) = Inr (map (\<lambda>c. word_of_nat (f c)) (rev s))"
    using assms(1) by (intro from_string_loop_digits) simp
  then have "inABase_of_string s bs = Inr ?d" using assms(2) by (simp add: inABase_of_string_def not_less)
  moreover have "digits_value ?d = dval (unat bs) (map f (rev s))"
  proof -
    have "map unat (map (\<lambda>c. word_of_nat (f c) :: 16 word) (rev s)) = map f (rev s)" unfolding map_map by (rule map_cong) (use u in auto)
    then show ?thesis by (simp only: digits_value_def dval_trimLeadingZeros BigNumStore.simps inABase.simps)
  qed
  ultimately show ?thesis using inABase_to_biguint_correct [of ?d] by auto
qed

lemma dec_2_BigUint_value:
  assumes "list_all isdigit s"
  shows "\<exists>r. dec_2_BigUint s = Inr r \<and> normal r \<and> toNat r = dec_value s"
  using inABase_value [of s "\<lambda>c. of_char c - 48" 10] symbol_digit_dec assms
  by (simp add: dec_2_BigUint_def dec_value_dval list_all_iff)

lemma hex_2_BigUint_value:
  assumes "list_all is_hex s"
  shows "\<exists>r. hex_2_BigUint (''0x'' @ s) = Inr r \<and> normal r \<and> toNat r = hexnum s"
proof -
  have "c_str (extract_from (''0x'' @ s) 2) = s" using c_str_id [OF hex_no_zero [OF assms]] by (cases s) (auto simp: extract_from_def c_str_def)
  then show ?thesis using inABase_value [of s hex_val 16] symbol_digit_hex hex_val_less assms
    by (auto simp: hex_2_BigUint_def hexnum_dval list_all_iff)
qed

section \<open>Text of numbers\<close>

lemma digits_text:
  assumes "trimmed es" "\<forall>d \<in> set es. d < (10 :: 16 word)" "dval 10 (map unat es) = n"
  shows "(if es = [] then ''0'' else map digit_symbol (rev es)) = dec_str n"
  using assms
proof (induction es arbitrary: n)
  case (Cons d ds)
  have d: "d < 10" "unat d < 10" using Cons.prems(2) by (simp_all add: word_less_nat_alt)
  have n: "n = unat d + 10 * dval 10 (map unat ds)" using Cons.prems(3) by simp
  then have nd: "n div 10 = dval 10 (map unat ds)" "n mod 10 = unat d" using d(2) by simp_all
  have sym: "digit_symbol d = char_of (48 + unat d)" using d(1) by (simp add: digit_symbol_def)
  show ?case
  proof (cases "ds = []")
    case True
    then show ?thesis using n d(2) sym by (subst dec_str.simps) simp
  next
    case False
    then have t: "trimmed ds" using Cons.prems(1) by (auto simp: trimmed_def)
    have "n div 10 \<noteq> 0"
    proof -
      have "last ds \<noteq> 0" using t False by (simp add: trimmed_def)
      then have "10 ^ (length (map unat ds) - 1) \<le> dval 10 (map unat ds)"
        using False by (intro dval_ge_last) (auto simp: last_map unat_eq_0)
      then show ?thesis unfolding nd(1) by (metis le_zero_eq power_not_zero zero_neq_numeral)
    qed
    then have "\<not> n < 10" by auto
    then have "dec_str n = dec_str (n div 10) @ [char_of (48 + n mod 10)]" by (subst dec_str.simps) simp
    then show ?thesis using Cons.IH [OF t _ refl] Cons.prems(2) False nd sym by simp
  qed
qed (subst dec_str.simps, simp add: char_of_def bit_0)

lemma bnu_2_Str_value: "normal x \<Longrightarrow> toNat x < 2 ^ 256 \<Longrightarrow> bnu_2_Str x = Inr (dec_str (toNat x))"
proof -
  assume x: "normal x" "toNat x < 2 ^ 256"
  then have "len x < 2 ^ 26" using len_of_value [of x 4] by simp
  with x obtain d where d: "inABase_of_biguint x 10 = Inr d" "digits_value d = toNat x" "wf_inABase d" "base d = 10"
    using inABase_of_biguint_correct [of 10 x] by auto
  then show ?thesis using digits_text [of "blk d" "toNat x"]
    by (simp add: bnu_2_Str_def inABase_to_string_alt wf_inABase_def digits_value_def)
qed

definition int_text :: "int \<Rightarrow> string" where
  "int_text i = (if i < 0 then ''-'' else []) @ dec_str (nat \<bar>i\<bar>)"

lemma bni_2_Str_value:
  assumes "yields r v" "\<bar>v\<bar> < 2 ^ 256"
  shows "bindR r bni_2_Str = Inr (int_text v)"
  using assms(1)
proof (elim yieldsE)
  fix s assume s: "r = Inr s" "wf_bigint s" "toInt s = v"
  have "toNat (mag s) = nat \<bar>v\<bar>" by (rule wf_bigint_cases [OF s(2)]) (use s in \<open>auto simp: toInt_def\<close>)
  moreover from this have "int (toNat (mag s)) < int (2 ^ 256)" using assms(2) by (simp only: int_nat_eq) simp
  then have "toNat (mag s) < 2 ^ 256" by (simp only: of_nat_less_iff)
  ultimately show ?thesis using s wf_bigint_normal [OF s(2)]
    by (simp add: bni_2_Str_def bnu_2_Str_value isNegative_iff int_text_def)
qed

section \<open>Widths\<close>

lemma max_table_values: "list_all (\<lambda>(b, s). list_all isdigit s \<and> dec_value s = 2 ^ b - 1 \<and> s \<noteq> [] \<and> b \<noteq> 257) max_table"
  by (simp add: max_table_def dec_value_def isdigit_range)

lemma getMax_value:
  assumes "getMax b \<noteq> []"
  shows "list_all isdigit (getMax b)" "dec_value (getMax b) = 2 ^ b - 1" "b \<noteq> 257"
proof -
  obtain s where "map_of max_table b = Some s" "getMax b = s" using assms by (auto simp: getMax_def split: option.splits)
  then have "(b, getMax b) \<in> set max_table" by (simp add: map_of_SomeD)
  with max_table_values show "list_all isdigit (getMax b)" "dec_value (getMax b) = 2 ^ b - 1" "b \<noteq> 257"
    unfolding list_all_iff [of _ max_table] by auto
qed

lemma getMax_defined:
  assumes "8 dvd b" "0 < b" "b \<le> 256"
  shows "getMax b \<noteq> []"
proof -
  obtain k where k: "b = 8 * k" "0 < k" "k \<le> 32" using assms by (elim dvdE) auto
  have "8 * k \<in> fst ` set max_table" using k(2,3) by (simp add: max_table_def) presburger
  then obtain s where "map_of max_table b = Some s" "(b, s) \<in> set max_table"
    using k(1) by (metis map_of_SomeD map_of_eq_None_iff not_None_eq)
  then show ?thesis using max_table_values by (auto simp: getMax_def list_all_iff [of _ max_table])
qed

section \<open>Hexadecimal numbers of a width\<close>

lemma trimLeading_loop_dropWhile:
  "CHR 0x00 \<notin> set s \<Longrightarrow> c \<noteq> CHR 0x00 \<Longrightarrow> trimLeading_loop s c = dropWhile (\<lambda>x. x = c) s"
proof (induction s)
  case (Cons d s)
  have "startsWith (d # s) [c] \<longleftrightarrow> d = c" using Cons.prems by (auto simp: startsWith_char c_str_def)
  then show ?case using Cons by (subst trimLeading_loop.simps) (cases s; simp add: extract_from_def)
qed (simp add: trimLeading_loop.simps startsWith_def c_str_def)

lemma trimLeading_hex: "list_all is_hex s \<Longrightarrow> trimLeading s (CHR ''0'') = dropWhile (\<lambda>x. x = CHR ''0'') s"
proof -
  assume "list_all is_hex s"
  then have n: "CHR 0x00 \<notin> set s" by (rule hex_no_zero)
  then have "CHR 0x00 \<notin> set (dropWhile (\<lambda>x. x = CHR ''0'') s)" by (meson set_dropWhileD)
  then show ?thesis using n by (simp add: trimLeading_def c_str_id trimLeading_loop_dropWhile)
qed

lemma hexnum_Cons: "hexnum (c # s) = hex_val c * 16 ^ length s + hexnum s"
  using hexnum_append [of "[c]" s] by (simp add: hexnum_def)

lemma hexnum_dropWhile: "hexnum (dropWhile (\<lambda>x. x = CHR ''0'') s) = hexnum s"
  by (induction s) (auto simp: hexnum_Cons hex_val_def)

lemma hexnum_ge: "list_all is_hex s \<Longrightarrow> s \<noteq> [] \<Longrightarrow> hd s \<noteq> CHR ''0'' \<Longrightarrow> 16 ^ (length s - 1) \<le> hexnum s"
proof (cases s)
  case (Cons c t)
  assume a: "list_all is_hex s" "hd s \<noteq> CHR ''0''"
  then have "hex_val c \<noteq> 0" using Cons hex_val_inj [of c "CHR ''0''"] by (auto simp: is_hex_def hex_val_def)
  then show ?thesis using Cons by (simp add: hexnum_Cons trans_le_add1)
qed simp

lemma hexnum_suffix:
  assumes "list_all is_hex s"
  shows "hexnum (drop (length s - k) s) = hexnum s mod 16 ^ k"
proof (cases "k \<le> length s")
  case True
  let ?t = "drop (length s - k) s"
  have l: "length ?t = k" using True by simp
  have "list_all is_hex ?t" using assms by (auto simp: list_all_iff dest: in_set_dropD)
  then have "hexnum ?t < 16 ^ k" using hexnum_less [of ?t] l by simp
  moreover have "hexnum s = hexnum (take (length s - k) s) * 16 ^ k + hexnum ?t"
    using hexnum_append [of "take (length s - k) s" ?t] l by simp
  ultimately show ?thesis by simp
next
  case False
  then have "(16 :: nat) ^ length s \<le> 16 ^ k" by (intro power_increasing) auto
  then have "hexnum s < 16 ^ k" using hexnum_less [OF assms] by linarith
  then show ?thesis using False by simp
qed

lemma isHexStr_hex: "list_all is_hex s \<Longrightarrow> isHexStr (''0x'' @ s)"
  using startsWith_0x [OF hex_no_zero, of s] isxdigit_hex by (auto simp: isHexStr_def extract_from_def list_all_iff)

lemma substitute_out_hex: "list_all is_hex s \<Longrightarrow> substitute_out (''0x'' @ s) ''0x'' = s"
  using substitute_0x [OF hex_no_x, of s] by (simp only: substitute_out_def option.sel)

lemma biguint_gt_iff: "normal a \<Longrightarrow> normal b \<Longrightarrow> biguint_gt a b \<longleftrightarrow> toNat b < toNat a"
  by (simp add: biguint_gt_def biguint_compareTo_sgn sgn_if)

lemma str_2_BigUint_hex:
  assumes "list_all is_hex s" "s \<noteq> []"
  shows "\<exists>r. str_2_BigUint (''0x'' @ s) 257 = Inr r \<and> normal r \<and> toNat r = hexnum s"
proof -
  have "list_all is_hex (dropWhile (\<lambda>x. x = CHR ''0'') s)" using assms(1) by (auto simp: list_all_iff dest: set_dropWhileD)
  from hex_2_BigUint_value [OF this] obtain r where
    "hex_2_BigUint (''0x'' @ dropWhile (\<lambda>x. x = CHR ''0'') s) = Inr r" "normal r" "toNat r = hexnum s"
    by (auto simp: hexnum_dropWhile)
  then show ?thesis using assms isHexStr_hex [OF assms(1)] substitute_out_hex [OF assms(1)] trimLeading_hex [OF assms(1)]
    by (simp add: str_2_BigUint_def Let_def)
qed

lemma str_2_BigUint_width:
  assumes "list_all is_hex s" "s \<noteq> []" "8 dvd b" "0 < b" "b \<le> 256"
  shows "\<exists>r. str_2_BigUint (''0x'' @ s) b = Inr r \<and> normal r \<and> toNat r = hexnum s mod 2 ^ b"
proof -
  define t where "t = dropWhile (\<lambda>x. x = CHR ''0'') s"
  define u where "u = (if length t * 4 > b then drop (length t - b div 4) t else t)"
  have ht: "list_all is_hex t" using assms(1) by (auto simp: t_def list_all_iff dest: set_dropWhileD)
  then have hu: "list_all is_hex u" by (auto simp: u_def list_all_iff dest: in_set_dropD)
  obtain k where k: "b = 8 * k" using assms(3) by (elim dvdE)
  have b4: "(16 :: nat) ^ (b div 4) = 2 ^ b"
  proof -
    have "(16 :: nat) ^ (2 * k) = (2 ^ 4) ^ (2 * k)" by simp
    also have "\<dots> = 2 ^ (8 * k)" unfolding power_mult [symmetric] by simp
    finally show ?thesis by (simp add: k)
  qed
  have hv: "hexnum u = hexnum s mod 2 ^ b"
  proof (cases "length t * 4 > b")
    case True
    then show ?thesis using hexnum_suffix [OF ht, of "b div 4"] b4 by (simp add: u_def t_def hexnum_dropWhile)
  next
    case False
    then have "length t \<le> b div 4" by simp
    then have "(16 :: nat) ^ length t \<le> 2 ^ b" unfolding b4 [symmetric] by (intro power_increasing) auto
    then have "hexnum t < 2 ^ b" using hexnum_less [OF ht] by linarith
    then show ?thesis using False by (simp add: u_def t_def hexnum_dropWhile)
  qed
  obtain r where r: "hex_2_BigUint (''0x'' @ u) = Inr r" "normal r" "toNat r = hexnum u"
    using hex_2_BigUint_value [OF hu] by auto
  have g: "getMax b \<noteq> []" by (rule getMax_defined [OF assms(3-5)])
  note gm = getMax_value [OF g]
  obtain m where m: "dec_2_BigUint (getMax b) = Inr m" "normal m" "toNat m = 2 ^ b - 1"
    using dec_2_BigUint_value [OF gm(1)] gm(2) by auto
  have "\<not> biguint_gt r m" using r(3) m(3) hv by (simp add: biguint_gt_iff [OF r(2) m(2)] not_less) (metis Suc_pred less_Suc_eq_le mod_less_divisor zero_less_numeral zero_less_power)
  then have "str_2_BigUint (''0x'' @ s) b = Inr r"
    using assms(2) isHexStr_hex [OF assms(1)] substitute_out_hex [OF assms(1)] trimLeading_hex [OF assms(1)] r(1) m(1) g gm(3)
    by (simp add: str_2_BigUint_def Let_def t_def [symmetric] reverse_q_rev rev_take u_def split: if_splits)
  then show ?thesis using r hv by simp
qed

section \<open>Signed numbers of a width\<close>

lemma bigint_of_biguint_sign_value: "normal m \<Longrightarrow> yields (bigint_of_biguint_sign junk m 1) (int (toNat m))"
  by (auto simp: bigint_of_biguint_sign_def bigint_of_mag_sign_def wf_bigint_def toInt_def toNat_def intro!: yieldsI)

lemma bigint_of_int32_two: "wf_bigint (bigint_of_int32 2)" "toInt (bigint_of_int32 2) = 2"
  by (simp_all add: bigint_of_int32_def wf_bigint_def toInt_def signOf_def magOf32_def
      biguint_of_uint64_def normal_def trimmed_def toNat_def)

lemma bigint_half:
  assumes "wf_bigint a" "toInt a \<noteq> 0"
  shows "yields (bigint_op_divide a (bigint_of_int32 2)) (toInt a div 2)"
  using sign_toInt [OF assms(1)] bigint_divide_correct [of "bigint_assign bigint_zero a" "bigint_of_int32 2" bigint_zero] assms
    bigint_of_int32_two
  by (auto simp: bigint_op_divide_def yields_def sgn_0_0)

lemma wrap_correct:
  assumes "normal u" "normal m" "toNat m \<noteq> 0"
  shows "yields (bindR (bigint_of_biguint_sign junk m 1) (\<lambda>maxInt.
           bindR (bigint_of_biguint_sign junk u 1) (\<lambda>sVal.
           bindR (bigint_op_divide maxInt (bigint_of_int32 2)) (\<lambda>h.
             if bigint_gt sVal h
             then bindR (bigint_op_minus sVal maxInt) (\<lambda>x. bigint_op_minus x (bigint_of_int32 1))
             else Inr sVal))))
         (if toNat m div 2 < toNat u then int (toNat u) - int (toNat m) - 1 else int (toNat u))"
proof -
  obtain a where a: "bigint_of_biguint_sign junk m 1 = Inr a" "wf_bigint a" "toInt a = int (toNat m)"
    using bigint_of_biguint_sign_value [OF assms(2), of junk] by auto
  obtain s where s: "bigint_of_biguint_sign junk u 1 = Inr s" "wf_bigint s" "toInt s = int (toNat u)"
    using bigint_of_biguint_sign_value [OF assms(1), of junk] by auto
  obtain h where h: "bigint_op_divide a (bigint_of_int32 2) = Inr h" "wf_bigint h" "toInt h = int (toNat m) div 2"
    using bigint_half [OF a(2)] a(3) assms(3) by auto
  obtain x where x: "bigint_op_minus s a = Inr x" "wf_bigint x" "toInt x = int (toNat u) - int (toNat m)"
    using bigint_subtract_correct [OF s(2) a(2), of bigint_zero] a s by (auto simp: bigint_op_minus_def)
  have y: "yields (bigint_op_minus x (bigint_of_int32 1)) (int (toNat u) - int (toNat m) - 1)"
    using bigint_subtract_correct [OF x(2) bigint_of_int32_consts(1), of bigint_zero] x(3) by (simp add: bigint_op_minus_def)
  have "bigint_gt s h \<longleftrightarrow> toNat m div 2 < toNat u"
    by (simp add: bigint_gt_def bigint_compareTo_sgn s h sgn_if) linarith
  then show ?thesis using a s h x y by auto
qed

lemma str_2_BigUint_dec:
  assumes "list_all isdigit s" "s \<noteq> []"
  shows "\<exists>r. str_2_BigUint s 257 = Inr r \<and> normal r \<and> toNat r = dec_value s"
proof -
  define t where "t = dropWhile (\<lambda>x. x = CHR ''0'') s"
  have d: "isdigit c" if "c \<in> set s" for c using assms(1) that by (simp add: list_all_iff)
  have nx: "CHR ''x'' \<notin> set s" "CHR 0x00 \<notin> set s" using d [of "CHR ''x''"] d [of "CHR 0x00"] by (auto simp: isdigit_def)
  have cs: "c_str s = s" by (rule c_str_id [OF nx(2)])
  have "find_sub ''0x'' s = None" using nx(1) by (intro find_sub_absent [of "CHR ''x''"]) auto
  then have so: "substitute_out s ''0x'' = s" by (simp add: substitute_out_def substitute_absent)
  have "take 2 s \<noteq> ''0x''" using nx(1) in_set_takeD [of "CHR ''x''" 2 s] by auto
  then have hex: "\<not> isHexStr s" "s \<noteq> ''0x''" by (auto simp: isHexStr_def startsWith_def extract_q_def cs numeral_2_eq_2)
  have "CHR 0x00 \<notin> set t" using nx(2) by (auto simp: t_def dest: set_dropWhileD)
  then have tl: "trimLeading s (CHR ''0'') = t" using nx(2) by (simp add: trimLeading_def c_str_id trimLeading_loop_dropWhile t_def)
  have "list_all isdigit t" using assms(1) by (auto simp: t_def list_all_iff dest: set_dropWhileD)
  from dec_2_BigUint_value [OF this] obtain r where "dec_2_BigUint t = Inr r" "normal r" "toNat r = dec_value t" by auto
  moreover have "dec_value t = dec_value s" unfolding t_def by (induction s) (auto simp: dec_value_def)
  ultimately show ?thesis using assms(2) hex so tl by (simp add: str_2_BigUint_def)
qed

lemma str_2_BigInt_width:
  assumes "list_all is_hex s" "s \<noteq> []" "length s \<le> 64" "8 dvd b" "0 < b" "b \<le> 256"
    and "hexnum s < 2 ^ (b - 1) \<or> 2 ^ 256 - 2 ^ (b - 1) \<le> hexnum s"
  shows "yields (str_2_BigInt junk (''0x'' @ s) b) (if hexnum s < 2 ^ (b - 1) then int (hexnum s) else int (hexnum s) - 2 ^ 256)"
proof -
  define t where "t = dropWhile (\<lambda>x. x = CHR ''0'') s"
  have ht: "list_all is_hex t" using assms(1) by (auto simp: t_def list_all_iff dest: set_dropWhileD)
  have v: "hexnum t = hexnum s" by (simp add: t_def hexnum_dropWhile)
  obtain k where k: "b = 8 * k" using assms(4) by (elim dvdE)
  have b4: "(16 :: nat) ^ n = 2 ^ (4 * n)" for n by (simp add: power_mult)
  define w where "w = (if b \<noteq> 257 \<and> length t < b div 4 then b else min 256 (length t * 4))"
  have low: "t \<noteq> [] \<Longrightarrow> 2 ^ (4 * (length t - 1)) \<le> hexnum s"
    using hexnum_ge [OF ht] v hd_dropWhile [of "\<lambda>x. x = CHR ''0''" s] by (auto simp: t_def b4)
  have w: "w = (if hexnum s < 2 ^ (b - 1) then b else 256)"
  proof (cases "hexnum s < 2 ^ (b - 1)")
    case True
    have "length t \<le> b div 4"
    proof (cases "t = []")
      case False
      then have "(2 :: nat) ^ (4 * (length t - 1)) < 2 ^ (b - 1)" using low True by linarith
      then have "4 * (length t - 1) < b - 1" by (rule power_less_imp_less_exp [rotated]) simp
      then show ?thesis using k assms(5) by simp
    qed simp
    then show ?thesis using True assms(6) k by (auto simp: w_def)
  next
    case False
    then have big: "2 ^ 256 - 2 ^ (b - 1) \<le> hexnum s" using assms(7) by simp
    have "(2 :: nat) ^ (b - 1) \<le> 2 ^ 255" using assms(5,6) by (intro power_increasing) auto
    then have "2 ^ 255 \<le> hexnum s" using big by simp
    moreover have "hexnum s < 2 ^ (4 * length t)" using hexnum_less [OF ht] v by (simp add: b4)
    ultimately have "(2 :: nat) ^ 255 < 2 ^ (4 * length t)" by linarith
    then have "255 < 4 * length t" by (rule power_less_imp_less_exp [rotated]) simp
    moreover have "length t \<le> 64" using assms(3) length_dropWhile_le [of "\<lambda>x. x = CHR ''0''" s] by (simp add: t_def)
    ultimately have "length t = 64" by linarith
    moreover have "b div 4 \<le> 64" using assms(6) by simp
    ultimately show ?thesis using False by (simp add: w_def)
  qed
  have w8: "8 dvd w" "0 < w" "w \<le> 256" using w assms(4-6) by auto
  have g: "getMax w \<noteq> []" by (rule getMax_defined [OF w8])
  note gm = getMax_value [OF g]
  obtain u where u: "str_2_BigUint (''0x'' @ s) 257 = Inr u" "normal u" "toNat u = hexnum s"
    using str_2_BigUint_hex [OF assms(1,2)] by auto
  obtain m where m: "str_2_BigUint (getMax w) 257 = Inr m" "normal m" "toNat m = 2 ^ w - 1"
    using str_2_BigUint_dec [OF gm(1) g] gm(2) by auto
  have "(2 :: nat) ^ 1 \<le> 2 ^ w" using w8(2) by (intro power_increasing) auto
  then have "toNat m \<noteq> 0" using m(3) by simp
  note wc = wrap_correct [OF u(2) m(2) this, of junk]
  have "str_2_BigInt junk (''0x'' @ s) b = bindR (Inr m) (\<lambda>m. bindR (bigint_of_biguint_sign junk m 1) (\<lambda>maxInt.
           bindR (bigint_of_biguint_sign junk u 1) (\<lambda>sVal.
           bindR (bigint_op_divide maxInt (bigint_of_int32 2)) (\<lambda>h.
             if bigint_gt sVal h
             then bindR (bigint_op_minus sVal maxInt) (\<lambda>x. bigint_op_minus x (bigint_of_int32 1))
             else Inr sVal))))"
    using assms(2) isHexStr_hex [OF assms(1)] substitute_out_hex [OF assms(1)] trimLeading_hex [OF assms(1)] u(1) g m(1)
    by (simp add: str_2_BigInt_def Let_def t_def [symmetric] w_def [symmetric])
  moreover have "toNat m div 2 = 2 ^ (w - 1) - 1" using w8(2) by (cases w) (simp_all add: m(3))
  moreover have "int (2 ^ w - 1) = 2 ^ w - 1" by (simp add: of_nat_diff)
  moreover have "(2 :: nat) ^ (w - 1) - 1 < hexnum s \<longleftrightarrow> \<not> hexnum s < 2 ^ (b - 1)"
  proof (cases "hexnum s < 2 ^ (b - 1)")
    case False
    then have "(2 :: nat) ^ 255 \<le> hexnum s"
      using assms(7) power_increasing [of "b - 1" 255 "2 :: nat"] assms(6) by auto
    then show ?thesis using False w by simp
  qed (use w in auto)
  ultimately show ?thesis using wc w u(3) m(3) by (cases "hexnum s < 2 ^ (b - 1)") simp_all
qed

end
