(* ===== verification/AbiWords.thy ===== *)
theory AbiWords
  imports AbiDecode AbiNumbers_Correct
begin

text \<open>
  The values of one word: their types, encodings and texts (\<open>abival\<close>), and that both the
  fast functions and the general decoder show the text of an encoded value.
\<close>

section \<open>Words of digits\<close>

definition hex_char :: "nat \<Rightarrow> char" where
  "hex_char n = char_of (if n < 10 then 48 + n else 87 + n)"

fun hex_digits :: "nat \<Rightarrow> nat \<Rightarrow> string" where
  "hex_digits 0 n = []"
| "hex_digits (Suc k) n = hex_digits k (n div 16) @ [hex_char (n mod 16)]"

lemma hex_char: "n < 16 \<Longrightarrow> is_hex (hex_char n) \<and> hex_val (hex_char n) = n"
  by (auto simp: hex_char_def is_hex_range hex_val_def less_eq_char_def)

lemma length_hex_digits [simp]: "length (hex_digits k n) = k"
  by (induction k arbitrary: n) auto

lemma hex_digits_hex [simp]: "list_all is_hex (hex_digits k n)"
  by (induction k arbitrary: n) (auto simp: hex_char)

lemma hexnum_hex_digits: "hexnum (hex_digits k n) = n mod 16 ^ k"
proof (induction k arbitrary: n)
  case (Suc k)
  have "hexnum [hex_char (n mod 16)] = n mod 16" by (simp add: hexnum_def hex_char)
  then show ?case by (simp add: hexnum_append Suc mod_mult2_eq)
qed (simp add: hexnum_def)

lemma hexnum_word: "n < 16 ^ k \<Longrightarrow> hexnum (hex_digits k n) = n"
  by (simp add: hexnum_hex_digits)

lemma drop_hex_digits: "m \<le> k \<Longrightarrow> drop (k - m) (hex_digits k n) = hex_digits m n"
proof (induction m arbitrary: k n)
  case (Suc m)
  then obtain j where "k = Suc j" "m \<le> j" by (cases k) auto
  then show ?case using Suc.IH [of j "n div 16"] by simp
qed simp

lemma right_of_hex_digits: "m \<le> k \<Longrightarrow> right_of (hex_digits k n) m = hex_digits m n"
  by (simp add: right_of_def drop_hex_digits)

lemma middle_last_hex_digits: "m \<le> k \<Longrightarrow> middle_last (hex_digits k n) m = hex_digits m n"
  by (simp add: middle_last_def drop_hex_digits)

text \<open>A word with 48 leading zeros is that of a 64-bit number.\<close>

lemma hex_digits_zero: "hex_digits k 0 = replicate k (CHR ''0'')"
proof (induction k)
  case (Suc k)
  then show ?case by (simp add: hex_char_def char_of_def bit_0 replicate_append_same)
qed simp

lemma hex_digits_append: "hex_digits (j + k) n = hex_digits j (n div 16 ^ k) @ hex_digits k n"
  by (induction k arbitrary: n) (simp_all add: div_mult2_eq)

lemma hex_digits_inj: "hex_digits k m = hex_digits k n \<Longrightarrow> m mod 16 ^ k = n mod 16 ^ k"
  using hexnum_hex_digits by metis

lemma leads48_iff: "n < 16 ^ 64 \<Longrightarrow> startsWith (hex_digits 64 n) leads48 \<longleftrightarrow> n < 2 ^ 64"
proof -
  assume n: "n < 16 ^ 64"
  have z: "CHR 0x00 \<notin> set (hex_digits 64 n)" by (rule hex_no_zero) simp
  have e: "hex_digits 64 n = hex_digits 48 (n div 16 ^ 16) @ hex_digits 16 n"
    using hex_digits_append [of 48 16 n] by simp
  have "startsWith (hex_digits 64 n) leads48 \<longleftrightarrow> hex_digits 48 (n div 16 ^ 16) = hex_digits 48 0"
    using length_hex_digits [of 64 n] unfolding startsWith_def c_str_id [OF z] Let_def
    by (auto simp: extract_q_def leads48_def hex_digits_zero e)
  also have "\<dots> \<longleftrightarrow> n div 16 ^ 16 = 0"
  proof
    assume "hex_digits 48 (n div 16 ^ 16) = hex_digits 48 0"
    then have "n div 16 ^ 16 mod 16 ^ 48 = 0" using hex_digits_inj by fastforce
    moreover have "n div 16 ^ 16 < 16 ^ 48" using n by (simp add: less_mult_imp_div_less)
    ultimately show "n div 16 ^ 16 = 0" by simp
  qed simp
  finally show ?thesis by (simp add: div_eq_0_iff)
qed

section \<open>Machine integers\<close>

lemma hex_2_Uint64_loop_value:
  "list_all is_hex s \<Longrightarrow> hex_2_Uint64_loop s r m = r + m * word_of_nat (dval 16 (map hex_val s))"
proof (induction s arbitrary: r m)
  case (Cons c s)
  have "is_hex c" using Cons.prems by simp
  then have "(if CHR ''a'' \<le> c \<and> c \<le> CHR ''f'' then schar c - 97 + 10 else schar c - 48) = int (hex_val c)"
    by (auto simp: is_hex_range schar_def hex_val_def less_eq_char_def of_nat_of_char)
  then show ?case using Cons by (simp add: algebra_simps)
qed simp

lemma map_tolower_hex: "list_all is_hex s \<Longrightarrow> map tolower s = s"
  by (rule map_idI) (auto simp: list_all_iff tolower_def is_hex_range less_eq_char_def)

lemma toLower_hex: "list_all is_hex s \<Longrightarrow> toLower s = s"
  by (simp add: toLower_def c_str_id hex_no_zero map_tolower_hex)

lemma hex_2_Uint64_value:
  assumes "list_all is_hex s"
  shows "hex_2_Uint64 (''0x'' @ s) = word_of_nat (hexnum s)"
proof -
  have r: "list_all is_hex (rev s)" using assms by (simp add: list_all_iff)
  have "extract_from (''0x'' @ s) 2 = s" by (cases s) (simp_all add: extract_from_def)
  then show ?thesis using startsWith_0x [OF hex_no_zero [OF assms]]
    by (simp add: hex_2_Uint64_def toLower_hex [OF assms] reverse_q_rev c_str_id [OF hex_no_zero [OF r]] hex_2_Uint64_loop_value [OF r] hexnum_dval rev_map)
qed

lemma str_2_Uint_hex: "list_all is_hex s \<Longrightarrow> str_2_Uint (''0x'' @ s) = word_of_nat (hexnum s)"
  using isHexStr_hex [of s] hex_2_Uint64_value [of s] by (simp add: str_2_Uint_def)

lemma str_2_Int_hex: "list_all is_hex s \<Longrightarrow> str_2_Int (''0x'' @ s) = word_of_nat (hexnum s)"
  using isHexStr_hex [of s] hex_2_Uint64_value [of s] by (simp add: str_2_Int_def)

lemma uint_word: "n < 2 ^ 64 \<Longrightarrow> n < 16 ^ k \<Longrightarrow> unat (str_2_Uint (''0x'' @ hex_digits k n)) = n"
  using str_2_Uint_hex [of "hex_digits k n"] by (simp add: hexnum_word unsigned_of_nat take_bit_nat_eq_self)

lemma uint_2_Str_hex: "n < 2 ^ 64 \<Longrightarrow> n < 16 ^ k \<Longrightarrow> uint_2_Str (str_2_Uint (''0x'' @ hex_digits k n)) = dec_str n"
  using uint_word [of n k] by (simp add: uint_2_Str_def)

lemma int_2_Str_text: "int_2_Str i = int_text (sint i)"
  by (simp add: int_2_Str_def int_text_def)

section \<open>Values of one word\<close>

text \<open>The widths \<open>k\<close> are in bytes; \<open>ABytes\<close> has the digits of its word.\<close>

datatype abival = AAddress nat | ABool bool | AUint nat nat | AInt nat int | ABytes string

fun abi_ok :: "abival \<Rightarrow> bool" where
  "abi_ok (AAddress n) = (n < 2 ^ 160)"
| "abi_ok (ABool b) = True"
| "abi_ok (AUint k n) = (0 < k \<and> k \<le> 32 \<and> n < 2 ^ (8 * k))"
| "abi_ok (AInt k i) = (0 < k \<and> k \<le> 32 \<and> - (2 ^ (8 * k - 1)) \<le> i \<and> i < 2 ^ (8 * k - 1))"
| "abi_ok (ABytes w) = (length w = 64 \<and> list_all is_hex w)"

fun abi_type :: "abival \<Rightarrow> string" where
  "abi_type (AAddress n) = ''address''"
| "abi_type (ABool b) = ''bool''"
| "abi_type (AUint k n) = ''uint'' @ dec_str (8 * k)"
| "abi_type (AInt k i) = ''int'' @ dec_str (8 * k)"
| "abi_type (ABytes w) = ''bytes32''"

fun abi_number :: "abival \<Rightarrow> nat" where
  "abi_number (AAddress n) = n"
| "abi_number (ABool b) = of_bool b"
| "abi_number (AUint k n) = n"
| "abi_number (AInt k i) = nat (i mod 2 ^ 256)"
| "abi_number (ABytes w) = hexnum w"

fun abi_word :: "abival \<Rightarrow> string" where
  "abi_word (ABytes w) = w"
| "abi_word v = hex_digits 64 (abi_number v)"

fun abi_text :: "abival \<Rightarrow> string" where
  "abi_text (AAddress n) = ''0x'' @ hex_digits 40 n"
| "abi_text (ABool b) = (if b then ''true'' else ''false'')"
| "abi_text (AUint k n) = dec_str n"
| "abi_text (AInt k i) = int_text i"
| "abi_text (ABytes w) = ''0x'' @ w"

lemma bits_64: "(16 :: nat) ^ 64 = 2 ^ 256" "(16 :: nat) ^ 16 = 2 ^ 64" "(16 :: nat) ^ 40 = 2 ^ 160"
  by simp_all

lemma abi_number_less: "abi_ok v \<Longrightarrow> abi_number v < 16 ^ 64"
proof (cases v)
  case (AUint k n)
  assume "abi_ok v"
  then have "n < 2 ^ (8 * k)" "8 * k \<le> 256" using AUint by auto
  moreover from this have "(2 :: nat) ^ (8 * k) \<le> 2 ^ 256" by (intro power_increasing) auto
  ultimately show ?thesis unfolding AUint abi_number.simps bits_64 by linarith
next
  case (AInt k i)
  have "i mod 2 ^ 256 < 2 ^ 256" by simp
  then have "nat (i mod 2 ^ 256) < nat (2 ^ 256)" by (subst nat_less_eq_zless) simp_all
  then show ?thesis using AInt by simp
next
  case (ABytes w)
  assume "abi_ok v"
  then show ?thesis using ABytes hexnum_less [of w] by simp
qed auto

lemma length_abi_word: "abi_ok v \<Longrightarrow> length (abi_word v) = 64"
  by (cases v) auto

lemma abi_word_hex: "abi_ok v \<Longrightarrow> list_all is_hex (abi_word v)"
  by (cases v) auto

text \<open>A number of two's complement is read back from its digits.\<close>

lemma signed_number:
  assumes "0 < b" "b \<le> 256" "- (2 ^ (b - 1)) \<le> i" "i < (2 :: int) ^ (b - 1)"
  defines "n \<equiv> nat (i mod 2 ^ 256)"
  shows "n < 2 ^ (b - 1) \<or> 2 ^ 256 - 2 ^ (b - 1) \<le> n" "(if n < 2 ^ (b - 1) then int n else int n - 2 ^ 256) = i"
proof -
  have le: "(2 :: int) ^ (b - 1) \<le> 2 ^ 255" using assms(1,2) by (intro power_increasing) auto
  have pn: "int (2 ^ (b - 1)) = 2 ^ (b - 1)" by simp
  show "n < 2 ^ (b - 1) \<or> 2 ^ 256 - 2 ^ (b - 1) \<le> n" "(if n < 2 ^ (b - 1) then int n else int n - 2 ^ 256) = i"
  proof (atomize (full), cases "0 \<le> i")
    case True
    then have "i mod 2 ^ 256 = i" using assms(4) le by (intro mod_pos_pos_trivial) auto
    then have "int n = i" using True by (simp add: n_def)
    then have "n < 2 ^ (b - 1)" using assms(4) pn by linarith
    then show "(n < 2 ^ (b - 1) \<or> 2 ^ 256 - 2 ^ (b - 1) \<le> n) \<and> (if n < 2 ^ (b - 1) then int n else int n - 2 ^ 256) = i"
      using \<open>int n = i\<close> by simp
  next
    case False
    have "i mod 2 ^ 256 = (i + 2 ^ 256) mod 2 ^ 256" by simp
    also have "\<dots> = i + 2 ^ 256" using False assms(3) le by (intro mod_pos_pos_trivial) auto
    finally have n: "int n = i + 2 ^ 256" using False assms(3) le by (simp add: n_def)
    moreover have "(2 :: int) ^ 256 = 2 * 2 ^ 255" by simp
    ultimately have "\<not> int n < 2 ^ (b - 1)" using assms(3) le by linarith
    then have "\<not> n < 2 ^ (b - 1)" using pn by linarith
    moreover have "int (2 ^ 256) - int (2 ^ (b - 1)) \<le> int n" using n assms(3) pn by simp
    then have "2 ^ 256 - 2 ^ (b - 1) \<le> n" by linarith
    ultimately show "(n < 2 ^ (b - 1) \<or> 2 ^ 256 - 2 ^ (b - 1) \<le> n) \<and> (if n < 2 ^ (b - 1) then int n else int n - 2 ^ 256) = i"
      using n by simp
  qed
qed

lemma uint_width:
  assumes "0 < k" "k \<le> 32" "n < 2 ^ (8 * k)"
  shows "bindR (str_2_BigUint (''0x'' @ hex_digits 64 n) (8 * k)) bnu_2_Str = Inr (dec_str n)"
proof -
  have "abi_ok (AUint k n)" using assms by simp
  from abi_number_less [OF this] have n: "n < 16 ^ 64" by simp
  have ne: "hex_digits 64 n \<noteq> []" using length_hex_digits [of 64 n] by (metis list.size(3) zero_neq_numeral)
  obtain r where "str_2_BigUint (''0x'' @ hex_digits 64 n) (8 * k) = Inr r" "normal r" "toNat r = hexnum (hex_digits 64 n) mod 2 ^ (8 * k)"
    using str_2_BigUint_width [OF hex_digits_hex ne, of "8 * k"] assms by auto
  then show ?thesis using n assms(3) bnu_2_Str_value [of r] by (simp add: hexnum_word bits_64)
qed

lemma int_width:
  assumes "0 < k" "k \<le> 32" "- (2 ^ (8 * k - 1)) \<le> i" "i < 2 ^ (8 * k - 1)"
  shows "bindR (str_2_BigInt junk (''0x'' @ hex_digits 64 (nat (i mod 2 ^ 256))) (8 * k)) bni_2_Str = Inr (int_text i)"
proof -
  let ?n = "nat (i mod 2 ^ 256)"
  have "abi_ok (AInt k i)" using assms by simp
  from abi_number_less [OF this] have n: "?n < 16 ^ 64" by simp
  have ne: "hex_digits 64 ?n \<noteq> []" using length_hex_digits [of 64 ?n] by (metis list.size(3) zero_neq_numeral)
  have b: "0 < 8 * k" "8 * k \<le> 256" using assms(1,2) by auto
  note s = signed_number [OF b assms(3,4)]
  have "hexnum (hex_digits 64 ?n) < 2 ^ (8 * k - 1) \<or> 2 ^ 256 - 2 ^ (8 * k - 1) \<le> hexnum (hex_digits 64 ?n)"
    unfolding hexnum_word [OF n] by (rule s(1))
  from str_2_BigInt_width [OF hex_digits_hex ne _ _ b this, of junk]
  have "yields (str_2_BigInt junk (''0x'' @ hex_digits 64 ?n) (8 * k)) i"
    unfolding hexnum_word [OF n] s(2) by (simp only: length_hex_digits order_refl dvd_triv_left simp_thms)
  moreover have "\<bar>i\<bar> < 2 ^ 256"
  proof -
    have "(2 :: int) ^ (8 * k - 1) \<le> 2 ^ 255" using b by (intro power_increasing) auto
    moreover have "\<bar>i\<bar> \<le> 2 ^ (8 * k - 1)" using assms(3,4) by linarith
    moreover have "(2 :: int) ^ 255 < 2 ^ 256" by simp
    ultimately show ?thesis by (meson le_less_trans)
  qed
  ultimately show ?thesis by (rule bni_2_Str_value)
qed

section \<open>The fast functions\<close>

lemma substitute_out_prefix: "what \<noteq> [] \<Longrightarrow> find_sub what r = None \<Longrightarrow> substitute_out (what @ r) what = r"
  using substitute_once [of what "what @ r" 0 "[]" r "[]"] find_sub_prefix [of what r] by (simp add: substitute_out_def)

lemma parse_addr_word: "parse_addr (hex_digits 64 n) = Inr (''0x'' @ hex_digits 40 n)"
  by (simp add: parse_addr_def right_of_hex_digits)

lemma parse_bool_word: "parse_bool (hex_digits 64 (of_bool b)) = Inr (if b then ''true'' else ''false'')"
proof -
  have "right_of (hex_digits 64 (of_bool b)) 1 = [hex_char (of_bool b)]"
    by (simp only: right_of_hex_digits one_le_numeral) (simp add: One_nat_def)
  moreover have "hex_char 1 = CHR ''1''" "hex_char 0 = CHR ''0''" by code_simp+
  ultimately show ?thesis by (cases b) (simp_all add: parse_bool_def)
qed

lemma parse_u_words:
  "n < 2 ^ 8 \<Longrightarrow> parse_u8 (hex_digits 64 n) = Inr (dec_str n)"
  "n < 2 ^ 16 \<Longrightarrow> parse_u16 (hex_digits 64 n) = Inr (dec_str n)"
  "n < 2 ^ 32 \<Longrightarrow> parse_u32 (hex_digits 64 n) = Inr (dec_str n)"
  "n < 2 ^ 64 \<Longrightarrow> parse_u64 (hex_digits 64 n) = Inr (dec_str n)"
  using uint_2_Str_hex [of n 2] uint_2_Str_hex [of n 4] uint_2_Str_hex [of n 8] uint_2_Str_hex [of n 16]
  by (simp_all add: parse_u8_def parse_u16_def parse_u32_def parse_u64_def middle_last_hex_digits)

lemma middle_last_0x: "middle_last (''0x'' @ hex_digits 64 n) 16 = hex_digits 16 n"
  using drop_hex_digits [of 16 64 n] by (simp add: middle_last_def)

lemma right_of_0x: "right_of (''0x'' @ hex_digits 16 n) 16 = hex_digits 16 n"
  by (simp add: right_of_def)

lemma parse_u64_0x: "n < 2 ^ 64 \<Longrightarrow> parse_u64 (''0x'' @ hex_digits 64 n) = Inr (dec_str n)"
  using uint_2_Str_hex [of n 16] middle_last_0x [of n] by (simp add: parse_u64_def)

lemma middle_word: "middle (hex_digits 64 n) 0 64 = hex_digits 64 n"
  by (simp add: middle_def)

lemma parse_u_wide:
  assumes "k = 16 \<or> k = 32" "n < 2 ^ (8 * k)"
  shows "(if k = 16 then parse_u128 else parse_u256) (hex_digits 64 n) = Inr (dec_str n)"
proof -
  have "abi_ok (AUint k n)" using assms by auto
  from abi_number_less [OF this] have n: "n < 16 ^ 64" by simp
  show ?thesis
  proof (cases "n < 2 ^ 64")
    case True
    then show ?thesis using leads48_iff [OF n] parse_u64_0x [OF True] assms(1)
      by (auto simp: parse_u128_def parse_u256_def middle_word)
  next
    case False
    then show ?thesis using leads48_iff [OF n] uint_width [of k n] assms
      by (auto simp: parse_u128_def parse_u256_def middle_word)
  qed
qed

subsection \<open>Signed numbers\<close>

lemma word_of_number:
  "LENGTH('a::len) \<le> 256 \<Longrightarrow> (word_of_nat (nat (i mod 2 ^ 256)) :: 'a word) = word_of_int i"
proof -
  assume l: "LENGTH('a) \<le> 256"
  have "0 \<le> i mod 2 ^ 256" by simp
  then have "(word_of_nat (nat (i mod 2 ^ 256)) :: 'a word) = word_of_int (i mod 2 ^ 256)"
    by (simp only: of_nat_nat word_of_nat_eq_iff flip: word_of_int_nat)
  also have "\<dots> = word_of_int i"
  proof -
    have "take_bit LENGTH('a) (i mod 2 ^ 256) = take_bit LENGTH('a) i"
      using l take_bit_take_bit [of "LENGTH('a)" 256 i] by (simp only: take_bit_eq_mod [symmetric] min_def if_True)
    then show ?thesis by (simp only: word_of_int_eq_iff)
  qed
  finally show ?thesis .
qed

lemma strtol_16_hex: "list_all is_hex s \<Longrightarrow> strtol_16 s = hexnum s"
proof -
  assume h: "list_all is_hex s"
  have t: "takeWhile isxdigit s = s" using h isxdigit_hex by (auto simp: list_all_iff)
  have "foldl (\<lambda>v c. 16 * v + hex_val (tolower c)) v s = foldl (\<lambda>v c. 16 * v + hex_val c) v s" for v
    using h by (induction s arbitrary: v) (auto simp: tolower_def is_hex_range less_eq_char_def)
  then show ?thesis by (simp only: strtol_16_def hexnum_def t)
qed

lemma word_mod: "LENGTH('a::len) \<le> 4 * j \<Longrightarrow> (word_of_nat (m mod 16 ^ j) :: 'a word) = word_of_nat m"
proof -
  assume l: "LENGTH('a) \<le> 4 * j"
  have "(16 :: nat) ^ j = 2 ^ (4 * j)" by (simp add: power_mult)
  then have "m mod 16 ^ j = take_bit (4 * j) m" by (simp add: take_bit_eq_mod)
  then show ?thesis using l by (simp add: word_of_nat_eq_iff min_def)
qed

lemma parse_signed_char_word:
  assumes "2 \<le> j" "j \<le> 64"
  shows "parse_signed_char j (hex_digits 64 (nat (i mod 2 ^ 256))) = Inr (int_text (sint (word_of_int i :: 8 word)))"
proof -
  let ?n = "nat (i mod 2 ^ 256)"
  have l: "LENGTH(8) \<le> 4 * j" "LENGTH(8) \<le> 256" using assms(1) by simp_all
  have "(word_of_nat (?n mod 16 ^ j) :: 8 word) = word_of_int i"
    by (rule trans [OF word_mod [OF l(1)] word_of_number [OF l(2)]])
  then show ?thesis
    unfolding parse_signed_char_def right_of_hex_digits [OF assms(2)] strtol_16_hex [OF hex_digits_hex] hexnum_hex_digits Let_def int_text_def
    by (auto simp del: of_nat_nat)
qed

lemma parse_i64_word:
  "parse_i64 (hex_digits 64 (nat (i mod 2 ^ 256))) = Inr (int_text (sint (word_of_int i :: 64 word)))"
proof -
  let ?n = "nat (i mod 2 ^ 256)"
  have l: "LENGTH(64) \<le> 4 * 16" "LENGTH(64) \<le> 256" by simp_all
  have "(word_of_nat (?n mod 16 ^ 16) :: 64 word) = word_of_int i"
    by (rule trans [OF word_mod [OF l(1)] word_of_number [OF l(2)]])
  then have "str_2_Int (''0x'' @ hex_digits 16 ?n) = word_of_int i"
    using str_2_Int_hex [of "hex_digits 16 ?n"] by (simp only: hex_digits_hex hexnum_hex_digits)
  moreover have "right_of (hex_digits 64 ?n) 16 = hex_digits 16 ?n" by (rule right_of_hex_digits) simp
  ultimately show ?thesis by (simp only: parse_i64_def int_2_Str_text)
qed

text \<open>
  In a word with leading zeros the fast functions for wide integers read a 64-bit signed
  number, so that one from \<open>2 ^ 63\<close> on becomes negative.
\<close>

definition int_wide :: "int \<Rightarrow> int" where
  "int_wide i = (if 2 ^ 63 \<le> i \<and> i < 2 ^ 64 then i - 2 ^ 64 else i)"

lemma sint_64_wrap: "2 ^ 63 \<le> i \<Longrightarrow> i < 2 ^ 64 \<Longrightarrow> sint (word_of_int i :: 64 word) = i - 2 ^ 64"
proof -
  assume i: "2 ^ 63 \<le> i" "i < 2 ^ 64"
  have "(word_of_int i :: 64 word) = word_of_int (i - 2 ^ 64)" by (simp add: word_of_int_eq_iff take_bit_eq_mod)
  also have "sint \<dots> = i - 2 ^ 64" using i by (intro sint_word_of_int) simp_all
  finally show ?thesis .
qed

lemma parse_i_wide:
  assumes "k = 16 \<or> k = 32" "- (2 ^ (8 * k - 1)) \<le> i" "i < 2 ^ (8 * k - 1)"
  shows "(if k = 16 then parse_i128 else parse_i256) (hex_digits 64 (nat (i mod 2 ^ 256))) = Inr (int_text (int_wide i))"
proof -
  have "abi_ok (AInt k i)" using assms by auto
  from abi_number_less [OF this] obtain n where n: "n = nat (i mod 2 ^ 256)" "n < 16 ^ 64" by simp
  have k: "0 < k" "k \<le> 32" "0 < 8 * k" "8 * k \<le> 256" using assms(1) by auto
  note sg = signed_number [OF k(3,4) assms(2,3), folded n(1)]
  show ?thesis
  proof (cases "n < 2 ^ 64")
    case True
    have "int (2 ^ 64) = (2 :: int) ^ 64" by simp
    then have "n < 2 ^ (8 * k - 1)" using True assms(1) by auto
    then have i: "i = int n" using sg(2) by simp
    have w: "hex_digits 64 n = leads48 @ hex_digits 16 n"
    proof -
      have "n div 16 ^ 16 = 0" using True by simp
      then show ?thesis using hex_digits_append [of 48 16 n] by (simp add: hex_digits_zero leads48_def)
    qed
    have "find_sub leads48 (hex_digits 16 n) = None"
      unfolding find_sub_None
    proof (intro allI notI)
      fix a b assume "hex_digits 16 n = a @ leads48 @ b"
      then have "length (hex_digits 16 n) = length a + 48 + length b" by (simp add: leads48_def)
      then show False by simp
    qed
    then have so: "substitute_out (hex_digits 64 n) leads48 = hex_digits 16 n"
      unfolding w by (rule substitute_out_prefix [rotated]) (simp add: leads48_def)
    have r: "right_of (hex_digits 16 n) 16 = hex_digits 16 n" by (simp add: right_of_hex_digits)
    have "parse_i64 (hex_digits 64 n) = parse_i64 (hex_digits 16 n)"
      using right_of_hex_digits [of 16 64 n] r by (simp add: parse_i64_def)
    moreover have "parse_i64 (''0x'' @ hex_digits 16 n) = parse_i64 (hex_digits 16 n)"
      using right_of_0x [of n] r by (simp add: parse_i64_def)
    moreover have "sint (word_of_int i :: 64 word) = int_wide i"
      using True i sint_64_wrap [of i] sint_word_of_int [where 'a = 64, of i] by (auto simp: int_wide_def)
    ultimately show ?thesis
      using leads48_iff [OF n(2)] True so parse_i64_word [of i, folded n(1)] unfolding n(1) [symmetric]
      by (auto simp: parse_i128_def parse_i256_def)
  next
    case False
    have "int_wide i = i"
    proof -
      have "int n = i" if "0 \<le> i" "i < 2 ^ 64" using n(1) that by simp
      then show ?thesis using False by (auto simp: int_wide_def)
    qed
    then show ?thesis
      using leads48_iff [OF n(2)] False int_width [OF k(1,2) assms(2,3), of 0, folded n(1)] assms(1) unfolding n(1) [symmetric]
      by (auto simp: parse_i128_def parse_i256_def)
  qed
qed

end
