(* ===== verification/AbiDecode_Correct.thy ===== *)
theory AbiDecode_Correct
  imports AbiWords
begin

text \<open>
  The decoders on lists of values: the general decoder on words, byte strings and arrays, and
  \<^verbatim>\<open>decodeRLP\<close> on lists of words, whichever way it goes.
\<close>

section \<open>One word in the general decoder\<close>

lemma hex_text:
  assumes "length es \<le> k" "\<forall>d \<in> set es. d < (16 :: 16 word)"
  shows "replicate (k - length es) (CHR ''0'') @ map (\<lambda>d. hex_char (unat d)) (rev es) = hex_digits k (dval 16 (map unat es))"
  using assms
proof (induction es arbitrary: k)
  case (Cons d es)
  obtain j where j: "k = Suc j" using Cons.prems by (cases k) auto
  have "unat d < 16" using Cons.prems(2) by (simp add: word_less_nat_alt)
  then show ?case using Cons.IH [of j] Cons.prems j by simp
qed (simp add: hex_digits_zero)

lemma bnu_2_Hex_text:
  assumes "normal x" "toNat x < 16 ^ k" "0 < k" "len x < 2 ^ 26"
  shows "\<exists>h. bnu_2_Hex x = Inr h \<and> padLeft (toLower h) k (CHR ''0'') = hex_digits k (toNat x)"
proof -
  obtain d where d: "inABase_of_biguint x 16 = Inr d" "digits_value d = toNat x" "wf_inABase d" "base d = 16"
    using inABase_of_biguint_correct [of 16 x] assms(1,4) by auto
  define es where "es = blk d"
  have es: "dval 16 (map unat es) = toNat x" "\<forall>d \<in> set es. d < 16" "trimmed es"
    using d by (simp_all add: digits_value_def wf_inABase_def es_def)
  have le: "length es \<le> k"
  proof (cases "es = []")
    case False
    then have "last es \<noteq> 0" using es(3) by (simp add: trimmed_def)
    then have "16 ^ (length (map unat es) - 1) \<le> dval 16 (map unat es)"
      using False by (intro dval_ge_last) (auto simp: last_map unat_eq_0)
    then have "(16 :: nat) ^ (length es - 1) < 16 ^ k" unfolding es(1) length_map using assms(2) by (rule le_less_trans)
    then have "length es - 1 < k" by (rule power_less_imp_less_exp [rotated]) simp
    then show ?thesis by simp
  qed simp
  have dig: "tolower (digit_symbol d) = hex_char (unat d)" if "d \<in> set es" for d
  proof -
    have "unat d < 16" using es(2) that by (simp add: word_less_nat_alt)
    then show ?thesis using hex_char [of "unat d"] by (intro tolower_digit_symbol) simp_all
  qed
  have "padLeft (toLower (inABase_to_string d)) k (CHR ''0'') = replicate (k - length es) (CHR ''0'') @ map (\<lambda>d. hex_char (unat d)) (rev es)"
  proof (cases "es = []")
    case True
    then have "inABase_to_string d = ''0''" by (simp add: inABase_to_string_alt es_def)
    moreover have "toLower ''0'' = ''0''" by code_simp
    moreover have "padLeft ''0'' k (CHR ''0'') = replicate k (CHR ''0'')"
      using assms(3) by (cases k) (auto simp: padLeft_def replicate_append_same)
    ultimately show ?thesis using True by simp
  next
    case False
    let ?s = "map digit_symbol (rev es)"
    have m: "map tolower ?s = map (\<lambda>d. hex_char (unat d)) (rev es)" using dig by simp
    have h: "list_all is_hex (map (\<lambda>d. hex_char (unat d)) (rev es))"
      using es(2) hex_char by (auto simp: list_all_iff word_less_nat_alt)
    have z: "CHR 0x00 \<notin> set ?s"
    proof
      assume "CHR 0x00 \<in> set ?s"
      then have "tolower (CHR 0x00) \<in> set (map tolower ?s)" by auto
      moreover have "tolower (CHR 0x00) = CHR 0x00" by code_simp
      ultimately show False using hex_no_zero [OF h] m by simp
    qed
    have "toLower ?s = map (\<lambda>d. hex_char (unat d)) (rev es)"
      unfolding toLower_def c_str_id [OF z] m by (rule c_str_id [OF hex_no_zero [OF h]])
    then show ?thesis using False le by (simp add: inABase_to_string_alt es_def [symmetric] padLeft_def)
  qed
  also have "\<dots> = hex_digits k (toNat x)" using hex_text [OF le es(2)] es(1) by simp
  finally show ?thesis using d(1) by (simp add: bnu_2_Hex_def)
qed

lemma address_width:
  assumes "n < 2 ^ 160"
  shows "bindR (str_2_BigUint (''0x'' @ hex_digits 64 n) 160) (\<lambda>n.
           bindR (bnu_2_Hex n) (\<lambda>h. Inr (''0x'' @ padLeft (toLower h) 40 (CHR ''0'')))) = Inr (''0x'' @ hex_digits 40 n)"
proof -
  have ne: "hex_digits 64 n \<noteq> []" using length_hex_digits [of 64 n] by (metis list.size(3) zero_neq_numeral)
  have "abi_ok (AAddress n)" using assms by simp
  from abi_number_less [OF this] have n: "n < 16 ^ 64" by simp
  obtain r where r: "str_2_BigUint (''0x'' @ hex_digits 64 n) 160 = Inr r" "normal r" "toNat r = hexnum (hex_digits 64 n) mod 2 ^ 160"
    using str_2_BigUint_width [OF hex_digits_hex ne, of 160] by auto
  then have rn: "toNat r = n" using assms by (simp add: hexnum_word [OF n])
  then have "len r < 2 ^ 26" using n len_of_value [OF r(2), of 4] by simp
  then show ?thesis using r(1) rn bnu_2_Hex_text [OF r(2), of 40] assms by auto
qed

subsection \<open>Names of types\<close>

lemma not_contains: "c \<in> set w \<Longrightarrow> c \<notin> set s \<Longrightarrow> \<not> contains s w"
  by (simp add: contains_def find_sub_absent)

lemma contains_prefix: "contains (w @ s) w"
  by (simp add: contains_def find_sub_prefix)

lemma dec_str_chars: "c \<in> set (dec_str n) \<Longrightarrow> isdigit c"
  using dec_str_digits [of n] by (auto simp: list_all_iff)

lemma letter_not_dec: "\<not> isdigit c \<Longrightarrow> c \<notin> set (dec_str n)"
  using dec_str_chars by blast

lemma type_bits_of:
  assumes "n < 10 ^ 19" "what \<noteq> []" "\<not> isdigit (hd what)"
  shows "type_bits (what @ dec_str n) what = n"
proof -
  have "hd what \<in> set what" using assms(2) by simp
  then have "find_sub what (dec_str n) = None" using assms(3) letter_not_dec by (intro find_sub_absent) auto
  then have "substitute_out (what @ dec_str n) what = dec_str n" by (rule substitute_out_prefix [OF assms(2)])
  moreover have "str_2_Uint (dec_str n) = word_of_nat n"
    using str_2_Uint_digits [of "dec_str n"] dec_str_digits [of n] dec_value_dec_str [of n] dec_str_length [of n 18] assms(1) by simp
  moreover have "n < 2 ^ 64" using assms(1) by simp
  ultimately show ?thesis by (simp add: type_bits_def unsigned_of_nat take_bit_nat_eq_self)
qed

lemma abi_type_chars:
  "CHR ''['' \<notin> set (abi_type v)" "CHR '','' \<notin> set (abi_type v)" "CHR ''|'' \<notin> set (abi_type v)" "CHR 0x00 \<notin> set (abi_type v)"
  by (cases v; auto dest!: dec_str_chars simp: isdigit_def)+

lemma last_digit_word: "last_digit (hex_digits 64 n) = Inr (hex_char (n mod 16))"
proof -
  have "hex_digits 64 n = hex_digits 63 (n div 16) @ [hex_char (n mod 16)]"
    using hex_digits.simps(2) [of 63 n] by (simp only: numeral_eq_Suc pred_numeral_simps BitM.simps)
  then have "hex_digits 64 n ! 63 = hex_char (n mod 16)" by (simp add: nth_append)
  then show ?thesis by (simp add: last_digit_def)
qed

lemma decode_word_value:
  assumes "abi_ok v"
  shows "decode_word (abi_type v) (abi_word v) = Some (Inr (abi_text v))"
proof (cases v)
  case (AAddress n)
  have "\<not> contains ''address'' ''bool''" "contains ''address'' ''address''" by code_simp+
  then show ?thesis using AAddress assms address_width [of n] by (simp add: decode_word_def)
next
  case (ABool b)
  have "contains ''bool'' ''bool''" "hex_char 1 = CHR ''1''" "hex_char 0 = CHR ''0''" by code_simp+
  then show ?thesis using ABool by (cases b) (simp_all add: decode_word_def last_digit_word)
next
  case (AUint k n)
  have l: "CHR ''l'' \<notin> set (abi_type v)" "CHR ''a'' \<notin> set (abi_type v)"
    using AUint by (auto dest!: dec_str_chars simp: isdigit_def)
  have "\<not> contains (abi_type v) ''bool''" "\<not> contains (abi_type v) ''address''"
    by (rule not_contains [OF _ l(1)], simp) (rule not_contains [OF _ l(2)], simp)
  moreover have "contains (abi_type v) ''uint''" using AUint contains_prefix [of "''uint''" "dec_str (8 * k)"] by simp
  moreover have "type_bits (abi_type v) ''uint'' = 8 * k"
    using type_bits_of [of "8 * k" "''uint''"] AUint assms by (simp add: isdigit_def)
  ultimately show ?thesis using AUint assms uint_width [of k n] by (simp add: decode_word_def)
next
  case (AInt k i)
  have l: "CHR ''l'' \<notin> set (abi_type v)" "CHR ''a'' \<notin> set (abi_type v)" "CHR ''u'' \<notin> set (abi_type v)"
    using AInt by (auto dest!: dec_str_chars simp: isdigit_def)
  have "\<not> contains (abi_type v) ''bool''" "\<not> contains (abi_type v) ''address''" "\<not> contains (abi_type v) ''uint''"
    by (rule not_contains [OF _ l(1)], simp) (rule not_contains [OF _ l(2)], simp, rule not_contains [OF _ l(3)], simp)
  moreover have "contains (abi_type v) ''int''" using AInt contains_prefix [of "''int''" "dec_str (8 * k)"] by simp
  moreover have "type_bits (abi_type v) ''int'' = 8 * k"
    using type_bits_of [of "8 * k" "''int''"] AInt assms by (simp add: isdigit_def)
  ultimately show ?thesis using AInt assms int_width [of k i 0] by (simp add: decode_word_def)
next
  case (ABytes w)
  have "\<not> contains ''bytes32'' ''bool''" "\<not> contains ''bytes32'' ''address''" "\<not> contains ''bytes32'' ''uint''"
    "\<not> contains ''bytes32'' ''int''" "contains ''bytes32'' ''bytes''" by code_simp+
  then show ?thesis using ABytes by (simp add: decode_word_def)
qed

lemma isBaseType_value: "isBaseType (abi_type v) \<and> abi_type v \<noteq> ''tuple''"
proof -
  have "\<not> contains (abi_type v) ''[''" using abi_type_chars(1) by (intro not_contains [of "CHR ''[''"]) auto
  moreover have "abi_type v \<noteq> ''string'' \<and> abi_type v \<noteq> ''bytes'' \<and> abi_type v \<noteq> ''tuple''" by (cases v) auto
  ultimately show ?thesis by (simp add: isBaseType_def)
qed

text \<open>A parameter with its value at a place of the data.\<close>

lemma decode_step_word:
  assumes "abi_ok v" "par_type param = abi_type v" "off < length data" "data ! off = abi_word v"
  shows "decode_step param data off = Inr (Goto (set_value (abi_text v) param) (off + 1))"
  using assms isBaseType_value [of v] decode_word_value [OF assms(1)]
  by (simp add: decode_step_def data_word_def)

definition with_values :: "string list \<Rightarrow> CParameter list \<Rightarrow> CParameter list" where
  "with_values txts params = map2 set_value txts params"

lemma decode_words:
  assumes "list_all abi_ok vs" "map par_type params = map abi_type vs" "off + length vs \<le> length data"
    "take (length vs) (drop off data) = map abi_word vs"
  shows "decodeAnObject params data off = Inr (True, with_values (map abi_text vs) params, off + length vs)"
  using assms
proof (induction vs arbitrary: params off)
  case (Cons v vs)
  obtain p ps where p: "params = p # ps" "par_type p = abi_type v" "map par_type ps = map abi_type vs"
    using Cons.prems(2) by (cases params) auto
  have l: "off < length data" using Cons.prems(3) by simp
  then have d: "drop off data = data ! off # drop (Suc off) data" by (simp add: Cons_nth_drop_Suc)
  have w: "data ! off = abi_word v" "take (length vs) (drop (Suc off) data) = map abi_word vs"
    using Cons.prems(4) unfolding d by simp_all
  have "decodeAnObject ps data (Suc off) = Inr (True, with_values (map abi_text vs) ps, Suc off + length vs)"
    by (rule Cons.IH) (use Cons.prems p w in auto)
  then show ?case using decode_step_word [of v p off data] Cons.prems(1) p(1,2) l w(1)
    by (simp add: decodeAnObject.simps cons_result_def with_values_def)
qed (simp add: decodeAnObject.simps with_values_def)

end
