(* ===== verification/AbiFast_Correct.thy ===== *)
theory AbiFast_Correct
  imports AbiDecode_Correct
begin

text \<open>
  \<^verbatim>\<open>decodeRLP\<close> on lists of one-word values: every entry of the table of fast functions
  works word by word, the texts of the fields are taken apart at the commas, and where
  there is no entry the general decoder gives the same.
\<close>

section \<open>The fast functions by words\<close>

definition word_table :: "(string \<times> (string \<Rightarrow> string result)) list" where
  "word_table =
    [(''address'', parse_addr), (''bool'', parse_bool), (''int8'', parse_i8), (''int16'', parse_i16),
     (''int32'', parse_i32), (''int64'', parse_i64), (''int128'', parse_i128), (''int256'', parse_i256),
     (''uint8'', parse_u8), (''uint16'', parse_u16), (''uint32'', parse_u32), (''uint64'', parse_u64),
     (''uint112'', parse_u256), (''uint128'', parse_u128), (''uint256'', parse_u256), (''bytes32'', parse_by32)]"

definition word_parser :: "string \<Rightarrow> string \<Rightarrow> string result" where
  "word_parser t = the (map_of word_table t)"

fun parse_words :: "string list \<Rightarrow> string \<Rightarrow> string result list" where
  "parse_words [] input = []"
| "parse_words (t # ts) input = word_parser t (take 64 input) # parse_words ts (drop 64 input)"

definition type_fields :: "string \<Rightarrow> string list" where
  "type_fields t = explode_loop False (CHR '','') [] t"

definition by_words :: "string \<times> (string \<Rightarrow> string result) \<Rightarrow> bool" where
  "by_words e \<longleftrightarrow> list_all (\<lambda>t. map_of word_table t \<noteq> None) (type_fields (fst e)) \<and>
     (\<forall>input. length input = 64 * length (type_fields (fst e)) \<longrightarrow> snd e input = join_fields (parse_words (type_fields (fst e)) input))"

lemmas field_parsers =
  parse_addr_addr_def parse_addr_bool_def parse_addr_by32_def parse_addr_i256_def parse_addr_u256_def
  parse_u8_u8_def parse_u16_u16_def parse_u32_u32_def parse_u64_u64_def parse_u112_u112_def
  parse_u256_addr_def parse_u256_bool_def parse_u256_u8_def parse_u256_u256_def parse_by32_addr_def
  parse_by32_by32_def parse_by32_u256_def parse_addr_addr_addr_def parse_addr_addr_u256_def
  parse_addr_u256_addr_def parse_addr_u256_u256_def parse_by32_by32_u256_def parse_u256_addr_u256_def
  parse_u256_u256_u256_def parse_addr_addr_addr_u256_def parse_addr_addr_u256_u256_def
  parse_addr_u256_u256_u256_def parse_u256_u256_u256_u256_def parse_u256_u256_u256_u256_u256_def
  parse_u256_u256_u256_u256_u256_u256_def parse_two_u256_one_addr_def parse_three_u256_one_addr_def
  parse_four_u256_one_addr_def parse_four_u256_two_addr_def

lemma table_by_words: "list_all by_words parse_table"
  unfolding parse_table_def list.pred_inject
  by (intro conjI TrueI; simp add: by_words_def type_fields_def word_table_def word_parser_def middle_def field_parsers)

section \<open>Texts with commas\<close>

fun commas :: "string list \<Rightarrow> string" where
  "commas [] = []"
| "commas [t] = t"
| "commas (t # ts) = t @ '','' @ commas ts"

definition plain :: "string \<Rightarrow> bool" where
  "plain t \<longleftrightarrow> t \<noteq> [] \<and> CHR '','' \<notin> set t"

lemma commas_Cons: "ts \<noteq> [] \<Longrightarrow> commas (t # ts) = t @ CHR '','' # commas ts"
  by (cases ts) auto

lemma commas_ne: "list_all plain ts \<Longrightarrow> ts \<noteq> [] \<Longrightarrow> commas ts \<noteq> []"
  by (cases ts rule: commas.cases) (auto simp: plain_def)

lemma type_fields_commas: "list_all plain ts \<Longrightarrow> type_fields (commas ts) = ts"
  unfolding type_fields_def
proof (induction ts)
  case (Cons t ts)
  then show ?case
    by (cases "ts = []") (auto simp: plain_def commas_Cons explode_loop_field explode_loop_last)
qed simp

lemma join_fields_commas: "ts \<noteq> [] \<Longrightarrow> join_fields (map Inr ts) = Inr (commas ts)"
proof (induction ts)
  case (Cons t ts)
  then show ?case by (cases ts) auto
qed simp

lemma nextTokenClear_plain: "plain t \<Longrightarrow> nextTokenClear t (CHR '','') True = (t, [])"
proof -
  assume p: "plain t"
  then have "find_sub [CHR '',''] t = None" by (intro find_sub_absent [of "CHR '',''"]) (auto simp: plain_def)
  then show ?thesis using p by (simp add: nextTokenClear_def plain_def)
qed

lemma assign_values_commas:
  assumes "list_all plain ts" "length ts = length params"
  shows "assign_values params (commas ts) = with_values ts params"
  using assms
proof (induction ts arbitrary: params)
  case (Cons t ts)
  obtain p ps where p: "params = p # ps" "length ts = length ps" using Cons.prems(2) by (cases params) auto
  show ?case
  proof (cases "ts = []")
    case True
    then show ?thesis using Cons.prems(1) p by (simp add: nextTokenClear_plain with_values_def)
  next
    case False
    then have "CHR '','' \<notin> set t" "commas ts \<noteq> []" using Cons.prems(1) commas_ne [of ts] by (simp_all add: plain_def [of t])
    then have "nextTokenClear (commas (t # ts)) (CHR '','') True = (t, commas ts)"
      using False by (simp add: commas_Cons nextTokenClear_at)
    then show ?thesis using Cons.IH [of ps] Cons.prems(1) p by (simp add: with_values_def)
  qed
qed (simp add: with_values_def)

lemma trimTrailing_last: "CHR 0x00 \<notin> set s \<Longrightarrow> s = [] \<or> last s \<noteq> c \<Longrightarrow> trimTrailing s c = s"
  by (subst trimTrailing.simps) (auto simp: endsWith_char c_str_id)

lemma trim_inner:
  assumes "CHR 0x00 \<notin> set s" "c \<noteq> CHR 0x00" "s \<noteq> []" "hd s \<noteq> c" "last s \<noteq> c"
  shows "trim s c = s" "trim (s @ [c]) c = s"
proof -
  have d: "dropWhile (\<lambda>x. x = c) (s @ t) = s @ t" for t using assms(3,4) by (cases s) auto
  have z: "CHR 0x00 \<notin> set (s @ [c])" using assms(1,2) by simp
  have "trimTrailing s c = s" using assms(1,5) by (intro trimTrailing_last) auto
  moreover have "trimTrailing (s @ [c]) c = trimTrailing s c"
    using assms(3) z by (subst trimTrailing.simps) (simp add: endsWith_char c_str_id extract_q_def)
  ultimately show "trim s c = s" "trim (s @ [c]) c = s"
    using assms(1,2) d [of "[]"] d [of "[c]"] z by (simp_all add: trim_def trimLeading_def c_str_id trimLeading_loop_dropWhile)
qed

lemma concat_commas: "ts \<noteq> [] \<Longrightarrow> concat (map (\<lambda>t. t @ '','') ts) = commas ts @ '',''"
proof (induction ts)
  case (Cons t ts)
  then show ?case by (cases "ts = []") (auto simp: commas_Cons)
qed simp

lemma commas_ends: "list_all plain ts \<Longrightarrow> ts \<noteq> [] \<Longrightarrow> hd (commas ts) \<noteq> CHR '','' \<and> last (commas ts) \<noteq> CHR '',''"
proof (induction ts)
  case (Cons t ts)
  have t: "hd t \<noteq> CHR '',''" "last t \<noteq> CHR '',''" "t \<noteq> []" using Cons.prems(1) by (auto simp: plain_def) (metis hd_in_set, metis last_in_set)
  then show ?case using Cons commas_ne [of ts] by (cases "ts = []") (auto simp: commas_Cons)
qed simp

lemma set_commas: "set (commas ts) \<subseteq> insert (CHR '','') (\<Union> (set ` set ts))"
  by (induction ts rule: commas.induct) auto

lemma type_list_commas:
  assumes "list_all plain (map par_type params)" "\<And>p. p \<in> set params \<Longrightarrow> CHR 0x00 \<notin> set (par_type p)"
  shows "type_list params = commas (map par_type params)"
proof (cases "params = []")
  case False
  let ?ts = "map par_type params"
  have ne: "?ts \<noteq> []" using False by simp
  have "CHR 0x00 \<notin> set (commas ?ts)" using set_commas [of ?ts] assms(2) by auto
  moreover have "map (\<lambda>i. par_type i @ '','') params = map (\<lambda>t. t @ '','') ?ts" by simp
  ultimately show ?thesis
    using concat_commas [OF ne] commas_ends [OF assms(1) ne] commas_ne [OF assms(1) ne] trim_inner(2) [of "commas ?ts" "CHR '',''"]
    by (simp only: type_list_def) simp
qed (simp add: type_list_def trim_def trimLeading_def c_str_def trimLeading_loop.simps trimTrailing.simps startsWith_def endsWith_def)

section \<open>Values in the fast functions\<close>

text \<open>
  The fast functions cut signed numbers to a character or to 64 bits, and show a word of
  printable characters as text; all other values they show as the general decoder does.
\<close>

fun fast_ok :: "abival \<Rightarrow> bool" where
  "fast_ok (AInt k i) =
     (if k = 2 \<or> k = 4 then - 128 \<le> i \<and> i < 128 else if k = 16 \<or> k = 32 then \<not> (2 ^ 63 \<le> i \<and> i < 2 ^ 64) else True)"
| "fast_ok (ABytes w) = (printable_loop w = None)"
| "fast_ok _ = True"

lemma width_of: "map_of word_table (''uint'' @ dec_str (8 * k)) \<noteq> None \<Longrightarrow> k \<in> {1, 2, 4, 8, 14, 16, 32}"
    and int_width_of: "map_of word_table (''int'' @ dec_str (8 * k)) \<noteq> None \<Longrightarrow> k \<in> {1, 2, 4, 8, 16, 32}"
proof -
  have v: "dec_value (dec_str (8 * k)) = 8 * k" by (rule dec_value_dec_str)
  show "map_of word_table (''uint'' @ dec_str (8 * k)) \<noteq> None \<Longrightarrow> k \<in> {1, 2, 4, 8, 14, 16, 32}"
    using v by (auto simp: word_table_def dec_value_def split: if_splits)
  show "map_of word_table (''int'' @ dec_str (8 * k)) \<noteq> None \<Longrightarrow> k \<in> {1, 2, 4, 8, 16, 32}"
    using v by (auto simp: word_table_def dec_value_def split: if_splits)
qed

lemma dec_str_widths: "dec_str 8 = ''8''" "dec_str 16 = ''16''" "dec_str 32 = ''32''" "dec_str 64 = ''64''"
  "dec_str 112 = ''112''" "dec_str 128 = ''128''" "dec_str 256 = ''256''"
  by code_simp+

lemma word_parser_value:
  assumes "abi_ok v" "fast_ok v" "map_of word_table (abi_type v) \<noteq> None"
  shows "word_parser (abi_type v) (abi_word v) = Inr (abi_text v)"
proof (cases v)
  case (AAddress n)
  then show ?thesis by (simp add: word_parser_def word_table_def parse_addr_word)
next
  case (ABool b)
  then show ?thesis using parse_bool_word [of b] by (simp add: word_parser_def word_table_def)
next
  case (AUint k n)
  have k: "k \<in> {1, 2, 4, 8, 14, 16, 32}" using width_of assms(3) AUint by simp
  have n: "n < 2 ^ (8 * k)" using assms(1) AUint by simp
  have n': "k = 14 \<Longrightarrow> n < 2 ^ (8 * 32)" using n by simp
  show ?thesis using k n parse_u_words [of n] parse_u_wide [of 16 n] parse_u_wide [of 32 n] AUint n'
    by (auto simp: word_parser_def word_table_def dec_str_widths)
next
  case (AInt k i)
  have k: "k \<in> {1, 2, 4, 8, 16, 32}" using int_width_of assms(3) AInt by simp
  have i: "- (2 ^ (8 * k - 1)) \<le> i" "i < 2 ^ (8 * k - 1)" using assms(1) AInt by simp_all
  have f: "if k = 2 \<or> k = 4 then - 128 \<le> i \<and> i < 128 else if k = 16 \<or> k = 32 then \<not> (2 ^ 63 \<le> i \<and> i < 2 ^ 64) else True"
    using assms(2) unfolding AInt fast_ok.simps .
  show ?thesis
  proof (cases "k = 16 \<or> k = 32")
    case True
    then have "int_wide i = i" using f by (auto simp: int_wide_def)
    then show ?thesis using True parse_i_wide [OF True i] AInt
      by (auto simp: word_parser_def word_table_def dec_str_widths simp del: power_numeral)
  next
    case False
    show ?thesis
    proof (cases "k = 8")
      case True
      then have "sint (word_of_int i :: 64 word) = i" using i by (intro sint_word_of_int) simp_all
      then show ?thesis using True parse_i64_word [of i] AInt
        by (auto simp: word_parser_def word_table_def dec_str_widths simp del: power_numeral)
    next
      case not8: False
      then have "- 128 \<le> i \<and> i < 128" using f False k i by auto
      then have "sint (word_of_int i :: 8 word) = i" by (intro sint_word_of_int) simp_all
      then show ?thesis using k not8 False parse_signed_char_word [of _ i] AInt
        by (auto simp: word_parser_def word_table_def dec_str_widths parse_i8_def parse_i16_def parse_i32_def simp del: power_numeral)
    qed
  qed
next
  case (ABytes w)
  then have h: "list_all is_hex w" "printable_loop w = None" using assms(1,2) by simp_all
  have "find_sub ''0x'' w = None" using hex_no_x [OF h(1)] by (intro find_sub_absent [of "CHR ''x''"]) auto
  then have "substitute_out w ''0x'' = w" by (simp add: substitute_out_def substitute_absent)
  then show ?thesis using ABytes h(2)
    by (simp add: word_parser_def word_table_def parse_by32_def toPrintable_def)
qed

section \<open>The input as words\<close>

lemma split_words_concat: "(\<And>w. w \<in> set ws \<Longrightarrow> length w = 64) \<Longrightarrow> split_words (concat ws) = ws"
proof (induction ws)
  case (Cons w ws)
  have w: "length w = 64" "w \<noteq> []" using Cons.prems [of w] by auto
  have "replace_q (w @ concat ws) w [] = concat ws"
    using find_sub_prefix [of w "concat ws"] by (simp add: replace_q_def extract_q_def extract_from_def c_str_def)
  then show ?case using Cons w by (subst split_words.simps) (simp add: Let_def)
qed (simp add: split_words.simps)

lemma words_hex: "list_all abi_ok vs \<Longrightarrow> list_all is_hex (concat (map abi_word vs))"
  using abi_word_hex by (auto simp: list_all_iff)

lemma trim_hex: "list_all is_hex s \<Longrightarrow> trim s (CHR '' '') = s"
proof (cases "s = []")
  case False
  assume h: "list_all is_hex s"
  then have "is_hex (hd s)" "is_hex (last s)" using False by (simp_all add: list_all_iff)
  then have "hd s \<noteq> CHR '' ''" "last s \<noteq> CHR '' ''" by (auto simp: is_hex_def)
  then show ?thesis using hex_no_zero [OF h] False by (intro trim_inner(1)) auto
qed (simp add: trim_def trimLeading_def c_str_def trimLeading_loop.simps trimTrailing.simps startsWith_def endsWith_def)

lemma substitute_out_input:
  assumes "list_all is_hex s" "pre = [] \<or> pre = ''0x''"
  shows "substitute_out (pre @ s) ''0x'' = s"
proof (cases "pre = []")
  case True
  have "find_sub ''0x'' s = None" using hex_no_x [OF assms(1)] by (intro find_sub_absent [of "CHR ''x''"]) auto
  then show ?thesis using True by (simp add: substitute_out_def substitute_absent)
next
  case False
  then show ?thesis using assms substitute_out_hex by auto
qed

lemma parse_words_values:
  assumes "list_all abi_ok vs" "list_all fast_ok vs" "\<And>v. v \<in> set vs \<Longrightarrow> map_of word_table (abi_type v) \<noteq> None"
  shows "parse_words (map abi_type vs) (concat (map abi_word vs)) = map Inr (map abi_text vs)"
  using assms
proof (induction vs)
  case (Cons v vs)
  have "length (abi_word v) = 64" using Cons.prems(1) by (intro length_abi_word) simp
  then show ?case using Cons word_parser_value [of v] by simp
qed simp

lemma plain_type: "plain (abi_type v)"
  using abi_type_chars(2) [of v] by (cases v) (auto simp: plain_def)

lemma plain_text: "abi_ok v \<Longrightarrow> plain (abi_text v)"
proof -
  assume ok: "abi_ok v"
  have h: "CHR '','' \<notin> set s" if "list_all is_hex s" for s using that by (auto simp: list_all_iff is_hex_def)
  have d: "CHR '','' \<notin> set (dec_str n) \<and> dec_str n \<noteq> []" for n
    using dec_str_digits [of n] by (auto simp: list_all_iff isdigit_def)
  show ?thesis using ok h [OF hex_digits_hex] d h by (cases v) (auto simp: plain_def int_text_def)
qed

section \<open>Lists of words\<close>

lemma fast_values:
  assumes "list_all abi_ok vs" "list_all fast_ok vs" "vs \<noteq> []" "parseMap (commas (map abi_type vs)) = Some f"
  shows "f (concat (map abi_word vs)) = Inr (commas (map abi_text vs))"
proof -
  let ?ts = "map abi_type vs" and ?in = "concat (map abi_word vs)"
  have "(commas ?ts, f) \<in> set parse_table" using assms(4) by (simp add: parseMap_def map_of_SomeD)
  then have "by_words (commas ?ts, f)" using table_by_words by (auto simp: list_all_iff)
  moreover have tf: "type_fields (commas ?ts) = ?ts" using plain_type by (intro type_fields_commas) (simp add: list_all_iff)
  moreover have "length ?in = 64 * length ?ts"
  proof -
    have "map length (map abi_word vs) = replicate (length vs) 64"
      using assms(1) length_abi_word by (auto simp: list_all_iff intro!: replicate_eqI)
    then show ?thesis by (simp add: length_concat sum_list_replicate)
  qed
  ultimately have w: "list_all (\<lambda>t. map_of word_table t \<noteq> None) ?ts" "f ?in = join_fields (parse_words ?ts ?in)"
    by (simp_all add: by_words_def)
  have "parse_words ?ts ?in = map Inr (map abi_text vs)"
    using w(1) by (intro parse_words_values assms) (simp add: list_all_iff)
  then show ?thesis using w(2) join_fields_commas [of "map abi_text vs"] assms(3) by simp
qed

lemma decodeRLP_words:
  assumes "list_all abi_ok vs" "list_all fast_ok vs" "map par_type params = map abi_type vs"
    "pre = [] \<or> pre = ''0x''" "typeList = [] \<or> typeList = commas (map abi_type vs)"
  shows "decodeRLP params typeList (pre @ concat (map abi_word vs)) = Inr (True, with_values (map abi_text vs) params)"
proof -
  let ?ts = "map abi_type vs" and ?in = "concat (map abi_word vs)"
  have hex: "list_all is_hex ?in" by (rule words_hex [OF assms(1)])
  have len: "length params = length vs" using assms(3) by (metis length_map)
  have split: "split_words ?in = map abi_word vs"
    using assms(1) length_abi_word by (intro split_words_concat) (auto simp: list_all_iff)
  have slow: "decodeAnObject params (map abi_word vs) 0 = Inr (True, with_values (map abi_text vs) params, length vs)"
    using decode_words [OF assms(1,3), of 0 "map abi_word vs"] by simp
  have in0: "pre @ ?in = ''0x'' \<or> pre @ ?in = [] \<longleftrightarrow> vs = []"
  proof (cases vs)
    case (Cons v us)
    then have l: "length (pre @ ?in) \<ge> 64" using assms(1) length_abi_word [of v] by simp
    have "pre @ ?in \<noteq> ''0x''"
    proof
      assume "pre @ ?in = ''0x''"
      then have "length (pre @ ?in) = length ''0x''" by (rule arg_cong)
      then show False using l by simp
    qed
    moreover have "pre @ ?in \<noteq> []" using l by (metis list.size(3) not_numeral_le_zero)
    ultimately show ?thesis using Cons by blast
  qed (use assms(4) in auto)
  have pt: "\<exists>v. par_type p = abi_type v" if "p \<in> set params" for p
  proof -
    have "par_type p \<in> set (map par_type params)" using that by simp
    then show ?thesis unfolding assms(3) by auto
  qed
  have tl: "type_list params = commas ?ts"
    unfolding assms(3) [symmetric]
  proof (rule type_list_commas)
    show "list_all plain (map par_type params)" using pt plain_type by (fastforce simp: list_all_iff)
    show "CHR 0x00 \<notin> set (par_type p)" if "p \<in> set params" for p
      using pt [OF that] abi_type_chars(4) by auto
  qed
  show ?thesis
  proof (cases "vs = []")
    case True
    have "parseMap [] = None" by (simp add: parseMap_def parse_table_def)
    then have "find_parser params typeList = None" using tl assms(5) True by (auto simp: find_parser_def)
    with assms(4) show ?thesis using True len slow by (elim disjE) (simp_all add: decodeRLP_def Let_def)
  next
    case False
    then have ne: "pre @ ?in \<noteq> ''0x''" "pre @ ?in \<noteq> []" using in0 by auto
    have so: "substitute_out (pre @ ?in) ''0x'' = ?in" by (rule substitute_out_input [OF hex assms(4)])
    have "parseMap [] = None" by (simp add: parseMap_def parse_table_def)
    then have fp: "find_parser params typeList = parseMap (commas ?ts)"
      using tl assms(5) by (auto simp: find_parser_def split: option.splits)
    show ?thesis
    proof (cases "parseMap (commas ?ts)")
      case None
      then show ?thesis using ne so fp split slow len trim_hex [OF hex] by (simp add: decodeRLP_def Let_def del: append_is_Nil_conv)
    next
      case (Some f)
      then have "f ?in = Inr (commas (map abi_text vs))" using fast_values assms(1,2) False by blast
      moreover have "assign_values params (commas (map abi_text vs)) = with_values (map abi_text vs) params"
        using plain_text assms(1) len by (intro assign_values_commas) (auto simp: list_all_iff)
      ultimately show ?thesis using Some ne so fp by (simp add: decodeRLP_def Let_def del: append_is_Nil_conv)
    qed
  qed
qed

end
