(* ===== verification/AbiDynamic_Correct.thy ===== *)
theory AbiDynamic_Correct
  imports AbiFast_Correct
begin

text \<open>
  Byte strings and arrays, which stand behind an offset in the data, and lists of parameters
  of all these kinds.
\<close>

section \<open>Byte strings\<close>

lemma bytes_loop_behind: "length data \<le> pos \<Longrightarrow> bytes_loop k data pos n = []"
  by (induction k arbitrary: pos n) auto

lemma bytes_loop_value:
  assumes "\<And>w. w \<in> set data \<Longrightarrow> length w = 64" "n div 32 < k"
  shows "take (n * 2) (bytes_loop k data pos n) = take (n * 2) (concat (drop pos data))"
  using assms(2)
proof (induction k arbitrary: pos n)
  case (Suc k)
  show ?case
  proof (cases "pos < length data")
    case True
    then have d: "concat (drop pos data) = data ! pos @ concat (drop (pos + 1) data)"
      by (simp flip: Cons_nth_drop_Suc)
    have w: "length (data ! pos) = 64" using assms(1) True by simp
    show ?thesis
    proof (cases "n \<ge> 32")
      case ge: True
      then have "(n - 32) div 32 < k" using Suc.prems by (simp add: le_div_geq)
      from Suc.IH [OF this, of "pos + 1"] show ?thesis using True ge w d
        by (simp add: diff_mult_distrib)
    qed (use True w d in simp)
  qed (simp add: bytes_loop_behind)
qed simp

lemma hex_2_Str_loop_pairs:
  "even (length h) \<Longrightarrow> hex_2_Str_loop h = filter (\<lambda>c. c \<noteq> CHR 0x22) (map (\<lambda>b. char_of (unat b)) (hex_pairs h))"
  by (induction h rule: hex_2_Str_loop.induct) (auto simp: Let_def)

text \<open>The offset of a place, its length, and what follows.\<close>

definition bytes_at :: "string list \<Rightarrow> nat \<Rightarrow> string \<Rightarrow> bool" where
  "bytes_at data off h \<longleftrightarrow> list_all is_hex h \<and> even (length h) \<and>
     (\<exists>loc. data ! off = hex_digits 64 (32 * loc) \<and> loc < length data \<and> data ! loc = hex_digits 64 (length h div 2) \<and>
        take (length h) (concat (drop (loc + 1) data)) = h)"

definition words_64 :: "string list \<Rightarrow> bool" where
  "words_64 data \<longleftrightarrow> length data < 2 ^ 59 \<and> (\<forall>w \<in> set data. length w = 64)"

lemma length_concat_64: "(\<forall>w \<in> set data. length w = 64) \<Longrightarrow> length (concat data) = 64 * length data"
  by (induction data) auto

lemma offset_word: "n < 2 ^ 64 \<Longrightarrow> unat (str_2_Uint (''0x'' @ hex_digits 64 n)) = n"
proof (rule uint_word)
  assume "n < 2 ^ 64"
  moreover have "(2 :: nat) ^ 64 \<le> 16 ^ 64" by simp
  ultimately show "n < 16 ^ 64" by linarith
qed

lemma decode_bytes_value:
  assumes "words_64 data" "off < length data" "bytes_at data off h" "par_type param = ''string'' \<or> par_type param = ''bytes''"
  shows "decode_bytes param data off = Inr (Goto (set_value
    (if par_type param = ''string'' then filter (\<lambda>c. c \<noteq> CHR 0x22) (map (\<lambda>b. char_of (unat b)) (hex_pairs h)) else ''0x'' @ h) param) (off + 1))"
proof -
  obtain loc where loc: "data ! off = hex_digits 64 (32 * loc)" "loc < length data" "data ! loc = hex_digits 64 (length h div 2)"
    "take (length h) (concat (drop (loc + 1) data)) = h" "list_all is_hex h" "even (length h)"
    using assms(3) by (auto simp: bytes_at_def)
  have w: "length data < 2 ^ 59" "\<And>w. w \<in> set data \<Longrightarrow> length w = 64" using assms(1) by (simp_all add: words_64_def)
  define m where "m = length h div 2"
  have m: "length h = m * 2" using loc(6) by (auto simp: m_def)
  have "length h \<le> length (concat (drop (loc + 1) data))" using loc(4) by (metis length_take min.cobounded1)
  also have "\<dots> = 64 * (length data - (loc + 1))"
    using w(2) by (subst length_concat_64) (auto dest: in_set_dropD)
  finally have le: "m * 2 \<le> 64 * (length data - (loc + 1))" using m by simp
  then have n: "m div 32 + 1 \<le> length data" using loc(2) by linarith
  have sm: "32 * loc < 2 ^ 64" "m < 2 ^ 64" using w(1) loc(2) le by simp_all
  have "take (m * 2) (bytes_loop (m div 32 + 1) data (loc + 1) m) = h"
    using bytes_loop_value [of data m "m div 32 + 1" "loc + 1"] w(2) loc(4) m by simp
  moreover have "hex_2_Str (''0x'' @ h) None = hex_2_Str_loop h"
    using startsWith_0x [OF hex_no_zero [OF loc(5)]] by (cases h) (simp_all add: hex_2_Str_def extract_from_def)
  ultimately show ?thesis
    using assms(2,4) loc(1-3) offset_word [OF sm(1)] offset_word [OF sm(2)] n
    by (auto simp: decode_bytes_def data_word_def Let_def m_def [symmetric] hex_2_Str_loop_pairs loc(6))
qed

section \<open>Arrays\<close>

lemma bracket_unique:
  assumes "CHR ''['' \<notin> set t" "t @ CHR ''['' # x = a @ CHR ''['' # y" "CHR ''['' \<notin> set x"
  shows "a = t \<and> y = x"
  using assms
proof (induction t arbitrary: a)
  case Nil
  then show ?case by (cases a) auto
next
  case (Cons c t)
  then show ?case by (cases a) auto
qed

lemma array_type_sized:
  assumes "CHR ''['' \<notin> set t" "\<And>a. t \<noteq> a @ ''bytes''" "0 < n"
  shows "replace_q (replaceReverse (t @ ''[]'') ''[]'' (''['' @ dec_str n @ '']'')) ''bytes['' ''bytes32['' = t @ ''['' @ dec_str n @ '']''"
proof -
  have d: "CHR ''['' \<notin> set (dec_str n)" "CHR 0x00 \<notin> set (dec_str n)"
    using dec_str_digits [of n] by (auto simp: list_all_iff isdigit_def)
  have "CHR 0x00 \<notin> set (''['' @ dec_str n @ '']'')" using d(2) by simp
  then obtain a b where ab: "t @ ''[]'' = a @ ''[]'' @ b"
    "replaceReverse (t @ ''[]'') ''[]'' (''['' @ dec_str n @ '']'') = a @ (''['' @ dec_str n @ '']'') @ b"
    using replaceReverse_ex [of "t @ ''[]''" t "''[]''" "[]" "''['' @ dec_str n @ '']''"] by auto
  have "a = t \<and> CHR '']'' # b = '']''"
    using ab(1) by (intro bracket_unique [OF assms(1)]) auto
  then have r: "replaceReverse (t @ ''[]'') ''[]'' (''['' @ dec_str n @ '']'') = t @ ''['' @ dec_str n @ '']''" using ab(2) by simp
  have "find_sub ''bytes['' (t @ ''['' @ dec_str n @ '']'') = None"
    unfolding find_sub_None
  proof (intro allI notI)
    fix x y assume e: "t @ ''['' @ dec_str n @ '']'' = x @ ''bytes['' @ y"
    have "x @ ''bytes'' = t \<and> y = dec_str n @ '']''"
      by (rule bracket_unique [OF assms(1)]) (use e d(1) in auto)
    then show False using assms(2) by metis
  qed
  then show ?thesis unfolding r by (simp add: replace_q_def)
qed

lemma last_dec_str: "last (dec_str n) \<noteq> CHR ''s''"
proof
  assume "last (dec_str n) = CHR ''s''"
  moreover have "isdigit (last (dec_str n))" using dec_str_digits [of n] by (intro dec_str_chars [of _ n] last_in_set) auto
  ultimately show False by (simp add: isdigit_def)
qed

lemma not_ends_bytes: "abi_type v \<noteq> a @ ''bytes''"
proof
  assume e: "abi_type v = a @ ''bytes''"
  have l: "last (abi_type v) = CHR ''s''" unfolding e by simp
  show False
  proof (cases v)
    case (AAddress n)
    then have "length (''address'' :: string) = length (a @ ''bytes'')" using e by simp
    then have "length a = Suc (Suc 0)" by simp
    then obtain x y where "a = [x, y]" by (metis length_0_conv length_Suc_conv)
    then show False using e AAddress by simp
  next
    case (AUint k n)
    then show False using l last_dec_str dec_str_digits by simp
  next
    case (AInt k i)
    then show False using l last_dec_str dec_str_digits by simp
  qed (use l in \<open>auto split: if_splits\<close>)
qed

text \<open>The array of a known size is taken apart at its brackets.\<close>

lemma trimWhitespace_name: "CHR 0x00 \<notin> set s \<Longrightarrow> (\<And>c. c \<in> set s \<Longrightarrow> c \<notin> set blanks) \<Longrightarrow> trimWhitespace s [] = s"
  by (rule trimWhitespace_id) (cases "s = []"; simp)+

lemma type_no_blanks: "c \<in> set (abi_type v) \<Longrightarrow> c \<notin> set blanks" and dec_no_blanks: "c \<in> set (dec_str n) \<Longrightarrow> c \<notin> set blanks"
  by (cases v; auto dest!: dec_str_chars simp: blanks_def isdigit_def) (auto dest!: dec_str_chars simp: blanks_def isdigit_def)

lemma sized_type_parts:
  "explode_into [] (replaceReverse (replaceReverse (abi_type v @ ''['' @ dec_str n @ '']'') ''['' ''|'') '']'' ''|'') (CHR ''|'') True =
   [abi_type v, dec_str n]"
proof -
  let ?t = "abi_type v"
  have d: "CHR ''['' \<notin> set (dec_str n)" "CHR 0x00 \<notin> set (dec_str n)" "CHR ''|'' \<notin> set (dec_str n)" "CHR '']'' \<notin> set (dec_str n)"
    using dec_str_digits [of n] by (auto simp: list_all_iff isdigit_def)
  obtain a b where ab: "?t @ ''['' @ dec_str n @ '']'' = a @ ''['' @ b"
    "replaceReverse (?t @ ''['' @ dec_str n @ '']'') ''['' ''|'' = a @ ''|'' @ b"
    using replaceReverse_ex [of "?t @ ''['' @ dec_str n @ '']''" ?t "''[''" "dec_str n @ '']''" "''|''"] by auto
  have "a = ?t \<and> b = dec_str n @ '']''"
    using ab(1) d(1) by (intro bracket_unique [OF abi_type_chars(1) [of v]]) auto
  then have r1: "replaceReverse (?t @ ''['' @ dec_str n @ '']'') ''['' ''|'' = (?t @ ''|'' @ dec_str n) @ '']''" using ab(2) by simp
  have r2: "replaceReverse (u @ '']'') '']'' ''|'' = u @ ''|''" for u
    by (simp add: replaceReverse_def reverse_q_rev replace_q_def extract_q_def extract_from_def c_str_def)
  have "explode_loop True (CHR ''|'') [] (?t @ CHR ''|'' # dec_str n @ [CHR ''|'']) =
      [trimWhitespace ?t [], trimWhitespace (dec_str n) []]"
    using abi_type_chars(3) [of v] d(3) explode_loop_field [of "CHR ''|''" "dec_str n" True "[]" "[]"] by (simp add: explode_loop_field)
  moreover have "trimWhitespace ?t [] = ?t" using abi_type_chars(4) type_no_blanks by (intro trimWhitespace_name) auto
  moreover have "trimWhitespace (dec_str n) [] = dec_str n" using d(2) dec_no_blanks by (intro trimWhitespace_name) auto
  ultimately show ?thesis unfolding r1 r2 by (simp add: explode_into_def)
qed

lemma dec_str_uint: "n < 10 ^ 19 \<Longrightarrow> str_2_Uint (dec_str n) = word_of_nat n"
  using str_2_Uint_digits [of "dec_str n"] dec_str_digits [of n] dec_value_dec_str [of n] dec_str_length [of n 18] by simp

fun spaced :: "string list \<Rightarrow> string" where
  "spaced [] = []"
| "spaced [t] = t"
| "spaced (t # ts) = t @ '', '' @ spaced ts"

lemma params_loop_spaced:
  "list_all (\<lambda>t. t \<noteq> []) ts \<Longrightarrow> length ts = length ps \<Longrightarrow>
   params_loop ret (with_values ts ps) = (if ret \<noteq> [] \<and> ts \<noteq> [] then ret @ '', '' @ spaced ts else ret @ spaced ts)"
proof (induction ts arbitrary: ret ps)
  case (Cons t ts)
  obtain p qs where p: "ps = p # qs" "length ts = length qs" using Cons.prems(2) by (cases ps) auto
  obtain pt pn pv pi pc where "p = CParameter pt pn pv pi pc" by (cases p)
  then have "par_value (set_value t p) = t" by simp
  then show ?case using Cons.IH [of qs "(if ret \<noteq> [] then ret @ '', '' else ret) @ t"] Cons.prems(1) p
    by (cases ts) (auto simp: with_values_def)
qed (simp add: with_values_def)

lemma spaced_ends:
  assumes "ts \<noteq> []" "\<And>t. t \<in> set ts \<Longrightarrow> t \<noteq> [] \<and> CHR '' '' \<notin> set t \<and> CHR 0x00 \<notin> set t"
  shows "spaced ts \<noteq> [] \<and> hd (spaced ts) \<noteq> CHR '' '' \<and> last (spaced ts) \<noteq> CHR '' '' \<and> CHR 0x00 \<notin> set (spaced ts)"
  using assms
proof (induction ts rule: spaced.induct)
  case (2 t)
  then have "t \<noteq> []" "CHR '' '' \<notin> set t" "CHR 0x00 \<notin> set t" by auto
  then show ?case using hd_in_set [of t] last_in_set [of t] by (auto simp del: hd_in_set last_in_set)
next
  case (3 t u ts)
  then have "t \<noteq> []" "CHR '' '' \<notin> set t" "CHR 0x00 \<notin> set t" by auto
  then show ?case using 3 hd_in_set [of t] by (auto simp: hd_append simp del: hd_in_set)
qed simp

lemma text_chars: "abi_ok v \<Longrightarrow> abi_text v \<noteq> [] \<and> CHR '' '' \<notin> set (abi_text v) \<and> CHR 0x00 \<notin> set (abi_text v)"
proof -
  assume ok: "abi_ok v"
  have h: "CHR '' '' \<notin> set s \<and> CHR 0x00 \<notin> set s" if "list_all is_hex s" for s using that by (auto simp: list_all_iff is_hex_def)
  have d: "CHR '' '' \<notin> set (dec_str n) \<and> CHR 0x00 \<notin> set (dec_str n) \<and> dec_str n \<noteq> []" for n
    using dec_str_digits [of n] by (auto simp: list_all_iff isdigit_def)
  show ?thesis using ok h [OF hex_digits_hex] d h by (cases v) (auto simp: int_text_def)
qed

definition array_at :: "string list \<Rightarrow> nat \<Rightarrow> abival list \<Rightarrow> bool" where
  "array_at data off vs \<longleftrightarrow> vs \<noteq> [] \<and> list_all (\<lambda>v. abi_ok v \<and> abi_type v = abi_type (hd vs)) vs \<and>
     (\<exists>loc. data ! off = hex_digits 64 (32 * loc) \<and> loc < length data \<and> data ! loc = hex_digits 64 (length vs) \<and>
        take (length vs) (drop (loc + 1) data) = map abi_word vs)"

lemma decode_sized_array:
  assumes "vs \<noteq> []" "list_all (\<lambda>v. abi_ok v \<and> abi_type v = t) vs" "t = abi_type (hd vs)"
    "pos + length vs \<le> length data" "take (length vs) (drop pos data) = map abi_word vs" "length data < 2 ^ 59"
    "par_type p = t @ ''['' @ dec_str (length vs) @ '']''"
  shows "decodeAnObject [p] data pos = Inr (True, [set_value (''['' @ spaced (map abi_text vs) @ '']'') p], pos + length vs)"
proof -
  let ?n = "length vs"
  define sub where "sub = new_parameter t (if contains (internalType p) ''struct'' then internalType p else t) (components p)"
  have d: "CHR 0x00 \<notin> set (dec_str ?n)" using dec_str_digits [of ?n] by (auto simp: list_all_iff isdigit_def)
  have z: "CHR 0x00 \<notin> set (par_type p)" using abi_type_chars(4) d unfolding assms(7,3) by simp
  have "contains (par_type p) ''[''" unfolding assms(7) contains_def find_sub_None by blast
  then have nb: "\<not> isBaseType (par_type p)" by (simp add: isBaseType_def)
  obtain ds c where ds: "dec_str ?n = ds @ [c]" using dec_str_digits [of ?n] by (cases "dec_str ?n" rule: rev_cases) auto
  have "isdigit c" using dec_str_digits [of ?n] ds by simp
  then have c: "c \<noteq> CHR ''[''" by (auto simp: isdigit_def)
  have pt: "par_type p = (t @ ''['' @ ds) @ [c, CHR '']'']" using assms(7) ds by simp
  have e: "\<not> endsWith (par_type p) ''[]''" "endsWith (par_type p) '']''"
    using c z unfolding pt by (simp_all add: endsWith_def c_str_id extract_q_def)
  have ns: "par_type p \<noteq> ''string''" "par_type p \<noteq> ''bytes''" unfolding pt by (auto dest: arg_cong [of _ _ last])
  have len: "?n < 10 ^ 19" using assms(4,6) by simp
  have "str_2_Uint (dec_str ?n) = word_of_nat ?n" by (rule dec_str_uint [OF len])
  then have u: "unat (str_2_Uint (dec_str ?n)) = ?n" using len by (simp add: unsigned_of_nat take_bit_nat_eq_self)
  have df: "decode_fixed p data pos = Inr (IntoFixed (replicate ?n sub))"
    using sized_type_parts [of "hd vs" ?n] u assms(4)
    unfolding decode_fixed_def assms(7) assms(3)
    by (simp add: Let_def data_word_def sub_def assms(3))
  have step: "decode_step p data pos = Inr (IntoFixed (replicate ?n sub))"
    unfolding decode_step_def Let_def using nb ns e df by simp
  have ok: "list_all abi_ok vs" using assms(2) by (auto simp: list_all_iff)
  have ty: "map par_type (replicate ?n sub) = map abi_type vs"
    using assms(2) by (auto simp: list_all_iff sub_def new_parameter_def map_replicate_const intro!: replicate_eqI [symmetric])
  have dw: "decodeAnObject (replicate ?n sub) data pos = Inr (True, with_values (map abi_text vs) (replicate ?n sub), pos + ?n)"
    by (rule decode_words [OF ok ty assms(4,5)])
  have ch: "t \<noteq> [] \<and> CHR '' '' \<notin> set t \<and> CHR 0x00 \<notin> set t" if "t \<in> set (map abi_text vs)" for t
    using that ok text_chars by (auto simp: list_all_iff)
  have "params_2_Str (with_values (map abi_text vs) (replicate ?n sub)) = spaced (map abi_text vs)"
  proof -
    have "list_all (\<lambda>t. t \<noteq> []) (map abi_text vs)" using ch by (auto simp: list_all_iff)
    moreover have "trim (spaced (map abi_text vs)) (CHR '' '') = spaced (map abi_text vs)"
      using spaced_ends [of "map abi_text vs"] ch assms(1) by (intro trim_inner(1)) auto
    ultimately show ?thesis using params_loop_spaced [of "map abi_text vs" "replicate ?n sub" "[]"] by (simp add: params_2_Str_def)
  qed
  moreover have "pos < length data" using assms(1,4) by (cases vs) auto
  ultimately show ?thesis
    by (simp add: decodeAnObject.simps(2) step dw Let_def cons_result_def decodeAnObject.simps(1))
qed

end
