(* ===== verification/AbiEncode.thy ===== *)
theory AbiEncode
  imports AbiDynamic_Correct
begin

text \<open>
  Parameters of all these kinds in one list: their encoding, which puts values of one word
  first and what is of variable size behind them, and that it is decoded.
\<close>

section \<open>Encoding\<close>

text \<open>The types of one word; strings are lists of their bytes, byte strings hexadecimal text.\<close>

datatype abitype = TAddress | TBool | TUint nat | TInt nat | TBytes32

fun type_name :: "abitype \<Rightarrow> string" where
  "type_name TAddress = ''address''"
| "type_name TBool = ''bool''"
| "type_name (TUint k) = ''uint'' @ dec_str (8 * k)"
| "type_name (TInt k) = ''int'' @ dec_str (8 * k)"
| "type_name TBytes32 = ''bytes32''"

lemma type_name_value: obtains v where "type_name t = abi_type v"
proof (cases t)
  case TAddress
  then show thesis using that [of "AAddress 0"] by simp
next
  case TBool
  then show thesis using that [of "ABool True"] by simp
next
  case (TUint k)
  then show thesis using that [of "AUint k 0"] by simp
next
  case (TInt k)
  then show thesis using that [of "AInt k 0"] by simp
next
  case TBytes32
  then show thesis using that [of "ABytes []"] by simp
qed

datatype abiparam = PWord abival | PBytes string | PString string | PArray abitype "abival list"

fun dynamic :: "abiparam \<Rightarrow> bool" where
  "dynamic (PWord v) = False"
| "dynamic _ = True"

fun param_ok :: "abiparam \<Rightarrow> bool" where
  "param_ok (PWord v) = abi_ok v"
| "param_ok (PBytes h) = (list_all is_hex h \<and> even (length h))"
| "param_ok (PString s) = True"
| "param_ok (PArray t vs) = list_all (\<lambda>v. abi_ok v \<and> abi_type v = type_name t) vs"

fun param_type :: "abiparam \<Rightarrow> string" where
  "param_type (PWord v) = abi_type v"
| "param_type (PBytes h) = ''bytes''"
| "param_type (PString s) = ''string''"
| "param_type (PArray t vs) = type_name t @ ''[]''"

text \<open>The text of a value: a string itself, of an array the texts of its items.\<close>

fun param_text :: "abiparam \<Rightarrow> string" where
  "param_text (PWord v) = abi_text v"
| "param_text (PBytes h) = ''0x'' @ h"
| "param_text (PString s) = s"
| "param_text (PArray t vs) = ''['' @ spaced (map abi_text vs) @ '']''"

text \<open>
  What becomes of a parameter: the decoder drops quotation marks, and it leaves the former
  value of the parameter where an array is empty. In all other cases it gives the text.
\<close>

fun decoded :: "abiparam \<Rightarrow> CParameter \<Rightarrow> CParameter" where
  "decoded (PString s) q = set_value (filter (\<lambda>c. c \<noteq> CHR 0x22) s) q"
| "decoded (PArray t []) q = q"
| "decoded p q = set_value (param_text p) q"

fun exact :: "abiparam \<Rightarrow> bool" where
  "exact (PString s) = (CHR 0x22 \<notin> set s)"
| "exact (PArray t vs) = (vs \<noteq> [])"
| "exact _ = True"

lemma decoded_exact: "exact p \<Longrightarrow> decoded p q = set_value (param_text p) q"
proof (cases p)
  case (PString s)
  assume "exact p"
  then have "filter (\<lambda>c. c \<noteq> CHR 0x22) s = s" using PString by (auto simp: filter_id_conv)
  then show ?thesis using PString by simp
next
  case (PArray t vs)
  assume "exact p"
  then show ?thesis using PArray by (cases vs) auto
qed simp_all

lemma all_decoded_exact: "list_all exact ps \<Longrightarrow> map2 decoded ps qs = with_values (map param_text ps) qs"
proof (induction ps arbitrary: qs)
  case (Cons p ps)
  then show ?case by (cases qs) (simp_all add: with_values_def decoded_exact)
qed (simp add: with_values_def)

definition hex_text :: "string \<Rightarrow> string" where
  "hex_text s = concat (map (\<lambda>c. hex_digits 2 (of_char c)) s)"

lemma hex_text_hex: "list_all is_hex (hex_text s) \<and> even (length (hex_text s))"
proof (induction s)
  case (Cons c s)
  have "hex_text (c # s) = hex_digits 2 (of_char c) @ hex_text s" by (simp add: hex_text_def)
  then show ?case using Cons by (simp only: list_all_append hex_digits_hex length_append length_hex_digits) simp
qed (simp add: hex_text_def)

lemma hex_text_chars: "map (\<lambda>b. char_of (unat b)) (hex_pairs (hex_text s)) = s"
proof (induction s)
  case (Cons c s)
  define n where "n = (of_char c :: nat)"
  have n: "n < 256" by (simp add: n_def)
  have h: "is_hex (hex_char (n div 16)) \<and> hex_val (hex_char (n div 16)) = n div 16" "is_hex (hex_char (n mod 16)) \<and> hex_val (hex_char (n mod 16)) = n mod 16"
    using n by (intro hex_char; simp)+
  have "hex_text (c # s) = hex_char (n div 16) # hex_char (n mod 16) # hex_text s"
    using n by (simp add: hex_text_def n_def [symmetric] numeral_2_eq_2)
  moreover have "unat (hex_2_Ascii (hex_char (n div 16)) (hex_char (n mod 16))) = n"
    using hex_2_Ascii_val [of "hex_char (n div 16)" "hex_char (n mod 16)"] h by simp
  ultimately show ?case using Cons by (simp add: n_def)
qed (simp add: hex_text_def)

function padded_words :: "string \<Rightarrow> string list" where
  "padded_words h = (if h = [] then [] else (take 64 h @ replicate (64 - length h) (CHR ''0'')) # padded_words (drop 64 h))"
  by pat_completeness auto
termination by (relation "measure length") auto

declare padded_words.simps [simp del]

fun abi_tail :: "abiparam \<Rightarrow> string list" where
  "abi_tail (PWord v) = []"
| "abi_tail (PBytes h) = hex_digits 64 (length h div 2) # padded_words h"
| "abi_tail (PString s) = hex_digits 64 (length (hex_text s) div 2) # padded_words (hex_text s)"
| "abi_tail (PArray t vs) = hex_digits 64 (length vs) # map abi_word vs"

fun abi_head :: "nat \<Rightarrow> abiparam \<Rightarrow> string" where
  "abi_head loc (PWord v) = abi_word v"
| "abi_head loc _ = hex_digits 64 (32 * loc)"

fun abi_heads :: "nat \<Rightarrow> abiparam list \<Rightarrow> string list" where
  "abi_heads loc [] = []"
| "abi_heads loc (p # ps) = abi_head loc p # abi_heads (loc + length (abi_tail p)) ps"

definition abi_encode :: "abiparam list \<Rightarrow> string list" where
  "abi_encode ps = abi_heads (length ps) ps @ concat (map abi_tail ps)"

lemma length_abi_heads [simp]: "length (abi_heads loc ps) = length ps"
  by (induction ps arbitrary: loc) auto

definition word_64 :: "string \<Rightarrow> bool" where
  "word_64 w \<longleftrightarrow> length w = 64 \<and> list_all is_hex w"

lemma word_64_words: "abi_ok v \<Longrightarrow> word_64 (abi_word v)" "word_64 (hex_digits 64 n)"
  by (simp_all only: word_64_def length_abi_word abi_word_hex length_hex_digits hex_digits_hex simp_thms)

lemma padded_words_words: "w \<in> set (padded_words h) \<Longrightarrow> list_all is_hex h \<Longrightarrow> word_64 w"
proof (induction h rule: padded_words.induct)
  case (1 h)
  have "is_hex (CHR ''0'')" by code_simp
  moreover have "list_all is_hex (take 64 h)" "list_all is_hex (drop 64 h)"
    using 1(3) by (auto simp: list_all_iff dest: in_set_takeD in_set_dropD)
  ultimately have "word_64 (take 64 h @ replicate (64 - length h) (CHR ''0''))" "h \<noteq> [] \<Longrightarrow> w \<in> set (padded_words (drop 64 h)) \<Longrightarrow> word_64 w"
    using 1(1) by (auto simp: word_64_def list_all_iff)
  moreover have "h \<noteq> [] \<and> (w = take 64 h @ replicate (64 - length h) (CHR ''0'') \<or> w \<in> set (padded_words (drop 64 h)))"
    using 1(2) by (subst (asm) padded_words.simps) (auto split: if_splits)
  ultimately show ?case by blast
qed

lemma padded_words_value: "take (length h) (concat (padded_words h) @ r) = h"
proof (induction h arbitrary: r rule: padded_words.induct)
  case (1 h)
  show ?case
  proof (cases "length h \<le> 64")
    case True
    then show ?thesis by (subst padded_words.simps) auto
  next
    case False
    then have "h \<noteq> []" by auto
    with 1 [of r] have "take (length h - 64) (concat (padded_words (drop 64 h)) @ r) = drop 64 h" by simp
    then show ?thesis using False by (subst padded_words.simps) (auto simp: take_append)
  qed
qed

lemma abi_tail_words: "param_ok p \<Longrightarrow> w \<in> set (abi_tail p) \<Longrightarrow> word_64 w"
  using hex_text_hex by (cases p) (auto simp: padded_words_words word_64_words list_all_iff [of "\<lambda>v. abi_ok v \<and> _ v"])

lemma abi_heads_words: "list_all param_ok ps \<Longrightarrow> w \<in> set (abi_heads loc ps) \<Longrightarrow> word_64 w"
proof (induction ps arbitrary: loc)
  case (Cons p ps)
  have "word_64 (abi_head loc p)" using Cons.prems(1) by (cases p) (simp_all add: word_64_words)
  then show ?case using Cons by auto
qed simp

lemma abi_encode_words: "list_all param_ok ps \<Longrightarrow> w \<in> set (abi_encode ps) \<Longrightarrow> word_64 w"
  using abi_heads_words [of ps w "length ps"] abi_tail_words [of _ w] by (auto simp: abi_encode_def list_all_iff [of param_ok])

section \<open>Decoding\<close>

definition empty_at :: "string list \<Rightarrow> nat \<Rightarrow> bool" where
  "empty_at data off \<longleftrightarrow> (\<exists>loc. data ! off = hex_digits 64 (32 * loc) \<and> loc < length data \<and> data ! loc = hex_digits 64 0)"

fun placed :: "string list \<Rightarrow> nat \<Rightarrow> abiparam \<Rightarrow> bool" where
  "placed data off (PWord v) = (abi_ok v \<and> data ! off = abi_word v)"
| "placed data off (PBytes h) = bytes_at data off h"
| "placed data off (PString s) = bytes_at data off (hex_text s)"
| "placed data off (PArray t vs) = (list_all (\<lambda>v. abi_type v = type_name t) vs \<and> (if vs = [] then empty_at data off else array_at data off vs))"

lemma placedI:
  assumes "param_ok p" "data ! off = abi_head loc p" "drop loc data = abi_tail p @ r"
  shows "placed data off p"
proof -
  have l: "loc < length data \<and> data ! loc = w \<and> drop (loc + 1) data = ws @ r" if "abi_tail p = w # ws" for w ws
  proof -
    have "drop loc data = w # ws @ r" using assms(3) that by simp
    then show ?thesis by (metis Suc_eq_plus1 drop_Suc drop_eq_Nil list.distinct(1) list.sel(3) not_le nth_via_drop tl_drop)
  qed
  show ?thesis
  proof (cases p)
    case (PBytes h)
    then show ?thesis using assms(1,2) l [of "hex_digits 64 (length h div 2)"] padded_words_value [of h "concat r"]
      by (auto simp: bytes_at_def intro!: exI [of _ loc])
  next
    case (PString h)
    then show ?thesis using assms(2) l [of "hex_digits 64 (length (hex_text h) div 2)"] padded_words_value [of "hex_text h" "concat r"] hex_text_hex [of h]
      by (auto simp: bytes_at_def intro!: exI [of _ loc])
  next
    case (PArray t vs)
    have all: "list_all (\<lambda>v. abi_ok v \<and> abi_type v = type_name t) vs" using assms(1) PArray by simp
    then have "vs \<noteq> [] \<Longrightarrow> list_all (\<lambda>v. abi_ok v \<and> abi_type v = abi_type (hd vs)) vs" by (simp add: list_all_iff)
    then show ?thesis using assms(2) l [of "hex_digits 64 (length vs)"] PArray all
      by (auto simp: array_at_def empty_at_def list_all_iff intro!: exI [of _ loc])
  qed (use assms in auto)
qed

lemma decode_step_array:
  assumes "words_64 data" "off < length data" "array_at data off vs" "par_type p = abi_type (hd vs) @ ''[]''"
  shows "\<exists>q loc. decode_step p data off = Inr (IntoVariable q loc) \<and>
    (\<exists>q' pos. decodeAnObject [q] data loc = Inr (True, [q'], pos) \<and> par_value q' = ''['' @ spaced (map abi_text vs) @ '']'')"
proof -
  let ?t = "abi_type (hd vs)" and ?n = "length vs"
  obtain loc where loc: "data ! off = hex_digits 64 (32 * loc)" "loc < length data" "data ! loc = hex_digits 64 ?n"
    "take ?n (drop (loc + 1) data) = map abi_word vs" and ok: "vs \<noteq> []" "list_all (\<lambda>v. abi_ok v \<and> abi_type v = ?t) vs"
    using assms(3) by (auto simp: array_at_def)
  have d: "length data < 2 ^ 59" using assms(1) by (simp add: words_64_def)
  have "length (take ?n (drop (loc + 1) data)) = ?n" unfolding loc(4) by simp
  then have le: "loc + 1 + ?n \<le> length data" using loc(2) by (simp add: min_def split: if_splits)
  have sm: "32 * loc < 2 ^ 64" "?n < 2 ^ 64" using le d by simp_all
  let ?w = "str_2_Uint (''0x'' @ hex_digits 64 ?n)"
  have uw: "unat ?w = ?n" by (rule offset_word [OF sm(2)])
  then have w0: "?w \<noteq> 0" using ok(1) by (metis length_0_conv unsigned_0)
  have wt: "uint_2_Str ?w = dec_str ?n" by (simp only: uint_2_Str_def uw)
  define q where "q = new_parameter (?t @ ''['' @ dec_str ?n @ '']'') (internalType p) (components p)"
  have at: "replace_q (replaceReverse (par_type p) ''[]'' (''['' @ dec_str ?n @ '']'')) ''bytes['' ''bytes32['' = ?t @ ''['' @ dec_str ?n @ '']''"
    unfolding assms(4) using ok(1) by (intro array_type_sized abi_type_chars not_ends_bytes) simp
  have "decode_variable p data off = Inr (IntoVariable q (loc + 1))"
    unfolding decode_variable_def using assms(2) loc(1-3) offset_word [OF sm(1)] w0 at wt
    by (simp add: data_word_def Let_def q_def)
  moreover have "\<not> isBaseType (par_type p)"
    unfolding isBaseType_def contains_def find_sub_None assms(4) by (metis append_Cons append_Nil append_assoc)
  moreover have "par_type p \<noteq> ''string''" "par_type p \<noteq> ''bytes''" unfolding assms(4) by (auto dest: arg_cong [of _ _ last])
  moreover have "endsWith (par_type p) ''[]''"
    using abi_type_chars(4) [of "hd vs"] unfolding assms(4) by (simp add: endsWith_def c_str_id extract_q_def)
  ultimately have st: "decode_step p data off = Inr (IntoVariable q (loc + 1))" by (simp add: decode_step_def)
  have "decodeAnObject [q] data (loc + 1) = Inr (True, [set_value (''['' @ spaced (map abi_text vs) @ '']'') q], loc + 1 + ?n)"
    by (rule decode_sized_array [OF ok(1,2) refl le loc(4) d]) (simp add: q_def new_parameter_def)
  then show ?thesis using st by (fastforce simp: q_def new_parameter_def)
qed

lemma array_type:
  assumes "par_type p = type_name t @ ''[]''"
  shows "\<not> isBaseType (par_type p)" "par_type p \<noteq> ''string''" "par_type p \<noteq> ''bytes''" "endsWith (par_type p) ''[]''"
proof -
  obtain v where v: "par_type p = abi_type v @ ''[]''" using type_name_value [of t] assms by metis
  show "\<not> isBaseType (par_type p)"
    unfolding isBaseType_def contains_def find_sub_None v by (metis append_Cons append_Nil append_assoc)
  show "par_type p \<noteq> ''string''" "par_type p \<noteq> ''bytes''" unfolding v by (auto dest: arg_cong [of _ _ last])
  show "endsWith (par_type p) ''[]''"
    using abi_type_chars(4) [of v] unfolding v by (simp add: endsWith_def c_str_id extract_q_def)
qed

lemma decode_step_empty:
  assumes "words_64 data" "off < length data" "empty_at data off" "par_type p = type_name t @ ''[]''"
  shows "decode_step p data off = Inr (Goto p (off + 1))"
proof -
  obtain loc where loc: "data ! off = hex_digits 64 (32 * loc)" "loc < length data" "data ! loc = hex_digits 64 0"
    using assms(3) by (auto simp: empty_at_def)
  have "32 * loc < 2 ^ 64" using loc(2) assms(1) by (simp add: words_64_def)
  note u = offset_word [OF this]
  have "unat (str_2_Uint (''0x'' @ hex_digits 64 0)) = 0" by (rule offset_word) simp
  then have z: "str_2_Uint (''0x'' @ hex_digits 64 0) = 0" by (simp only: unat_eq_0)
  have "decode_variable p data off = Inr (Goto p (off + 1))"
    unfolding decode_variable_def using assms(2) loc u z by (simp add: data_word_def Let_def)
  then show ?thesis using array_type [OF assms(4)] by (simp add: decode_step_def)
qed

lemma decode_param:
  assumes "words_64 data" "off < length data" "placed data off p" "par_type q = param_type p"
  shows "decodeAnObject (q # qs) data off = cons_result (decoded p q) (decodeAnObject qs data (off + 1))"
proof (cases p)
  case (PWord v)
  then show ?thesis using assms(2-4) decode_step_word [of v q off data] by (simp add: decodeAnObject.simps(2))
next
  case (PBytes h)
  then have t: "par_type q = ''bytes''" "bytes_at data off h" using assms(3,4) by simp_all
  have "decode_step q data off = decode_bytes q data off" using t(1) by (simp add: decode_step_def isBaseType_def)
  then show ?thesis using PBytes assms(2) t decode_bytes_value [OF assms(1,2) t(2), of q] by (simp add: decodeAnObject.simps(2))
next
  case (PString h)
  then have t: "par_type q = ''string''" "bytes_at data off (hex_text h)" using assms(3,4) by simp_all
  have "decode_step q data off = decode_bytes q data off" using t(1) by (simp add: decode_step_def isBaseType_def)
  then show ?thesis using PString assms(2) t(1) decode_bytes_value [OF assms(1,2) t(2), of q]
    by (simp add: decodeAnObject.simps(2) hex_text_chars)
next
  case (PArray t vs)
  show ?thesis
  proof (cases "vs = []")
    case True
    then have "decode_step q data off = Inr (Goto q (off + 1))"
      using PArray assms(3,4) by (intro decode_step_empty [OF assms(1,2)]) simp_all
    then show ?thesis using True PArray assms(2) by (simp add: decodeAnObject.simps(2))
  next
    case False
    then obtain x xs where vs: "vs = x # xs" by (cases vs) auto
    have "array_at data off vs" "par_type q = abi_type (hd vs) @ ''[]''" using PArray assms(3,4) vs by simp_all
    with decode_step_array [OF assms(1,2), of vs q] obtain q1 loc q' pos where
      "decode_step q data off = Inr (IntoVariable q1 loc)" "decodeAnObject [q1] data loc = Inr (True, [q'], pos)"
      "par_value q' = param_text p" using PArray by auto
    then show ?thesis using assms(2) PArray vs by (simp add: decodeAnObject.simps(2) Let_def)
  qed
qed

lemma decode_encoded:
  assumes "data = hs @ abi_heads (length hs + length ps + length ts) ps @ ts @ concat (map abi_tail ps)"
    "words_64 data" "list_all param_ok ps" "map par_type qs = map param_type ps"
  shows "decodeAnObject qs data (length hs) = Inr (True, map2 decoded ps qs, length hs + length ps)"
  using assms
proof (induction ps arbitrary: hs ts qs)
  case (Cons p ps)
  let ?loc = "length hs + length (p # ps) + length ts"
  obtain q qs' where q: "qs = q # qs'" "par_type q = param_type p" "map par_type qs' = map param_type ps"
    using Cons.prems(4) by (cases qs) auto
  have split: "data = (hs @ [abi_head ?loc p]) @
      abi_heads (length (hs @ [abi_head ?loc p]) + length ps + length (ts @ abi_tail p)) ps @ (ts @ abi_tail p) @ concat (map abi_tail ps)"
    unfolding Cons.prems(1) by (simp add: add_ac)
  have off: "length hs < length data" "data ! length hs = abi_head ?loc p"
    unfolding split by (simp_all add: nth_append)
  have "drop ?loc data = abi_tail p @ concat (map abi_tail ps)" unfolding Cons.prems(1) by simp
  then have pl: "placed data (length hs) p" using Cons.prems(3) off(2) by (intro placedI) auto
  from Cons.IH [OF split Cons.prems(2) _ q(3)] Cons.prems(3)
  have "decodeAnObject qs' data (length hs + 1) = Inr (True, map2 decoded ps qs', length hs + 1 + length ps)"
    by simp
  then show ?case using decode_param [OF Cons.prems(2) off(1) pl q(2), of qs'] q(1)
    by (simp add: cons_result_def)
qed (simp add: decodeAnObject.simps)

section \<open>The whole decoder\<close>

lemma param_type_chars: "plain (param_type p) \<and> CHR 0x00 \<notin> set (param_type p)"
proof (cases p)
  case (PArray t vs)
  obtain v where "type_name t = abi_type v" by (rule type_name_value)
  then show ?thesis using PArray plain_type [of v] abi_type_chars(4) [of v] by (auto simp: plain_def)
qed (use plain_type abi_type_chars(4) in \<open>auto simp: plain_def\<close>)

lemma type_list_params:
  assumes "list_all param_ok ps" "map par_type params = map param_type ps"
  shows "type_list params = commas (map param_type ps)"
proof -
  have pt: "\<exists>p. p \<in> set ps \<and> par_type q = param_type p" if "q \<in> set params" for q
  proof -
    have "par_type q \<in> set (map par_type params)" using that by simp
    then show ?thesis unfolding assms(2) by auto
  qed
  show ?thesis unfolding assms(2) [symmetric]
  proof (rule type_list_commas)
    show "list_all plain (map par_type params)"
      using param_type_chars assms(1) unfolding assms(2) by (auto simp: list_all_iff)
    show "CHR 0x00 \<notin> set (par_type q)" if "q \<in> set params" for q
      using pt [OF that] param_type_chars assms(1) by (auto simp: list_all_iff)
  qed
qed

lemma word_table_types: "map_of word_table t \<noteq> None \<Longrightarrow> t \<noteq> ''string'' \<and> t \<noteq> ''bytes'' \<and> CHR ''['' \<notin> set t"
  by (auto simp: word_table_def split: if_splits)

lemma parseMap_dynamic:
  assumes "list_all param_ok ps" "list_ex dynamic ps"
  shows "parseMap (commas (map param_type ps)) = None"
proof (rule ccontr)
  let ?ts = "map param_type ps"
  assume "parseMap (commas ?ts) \<noteq> None"
  then obtain f where "(commas ?ts, f) \<in> set parse_table" by (auto simp: parseMap_def dest: map_of_SomeD)
  then have "by_words (commas ?ts, f)" using table_by_words by (auto simp: list_all_iff)
  moreover have "type_fields (commas ?ts) = ?ts"
    using param_type_chars assms(1) by (intro type_fields_commas) (auto simp: list_all_iff)
  ultimately have "list_all (\<lambda>t. map_of word_table t \<noteq> None) ?ts" by (simp add: by_words_def)
  moreover obtain p where "p \<in> set ps" "dynamic p" using assms(2) by (auto simp: list_ex_iff)
  ultimately show False using word_table_types [of "param_type p"] by (cases p) (auto simp: list_all_iff)
qed

fun param_fast :: "abiparam \<Rightarrow> bool" where
  "param_fast (PWord v) = fast_ok v"
| "param_fast _ = True"

text \<open>Values of one word each are encoded by their words.\<close>

lemma static_params:
  assumes "\<not> list_ex dynamic ps"
  obtains vs where "ps = map PWord vs"
proof -
  have "\<exists>v. p = PWord v" if "p \<in> set ps" for p
    using assms that by (cases p) (auto simp: list_ex_iff)
  then have "\<exists>vs. ps = map PWord vs" by (simp only: ex_map_conv)  blast
  then obtain vs where "ps = map PWord vs" ..
  then show ?thesis by (rule that)
qed

lemma encode_static: "abi_encode (map PWord vs) = map abi_word vs"
proof -
  have "abi_heads loc (map PWord vs) = map abi_word vs" for loc by (induction vs arbitrary: loc) auto
  moreover have "concat (map abi_tail (map PWord vs)) = []" by (induction vs) auto
  ultimately show ?thesis by (simp only: abi_encode_def append_Nil2)
qed

lemma concat_words_input:
  assumes "\<And>w. w \<in> set ws \<Longrightarrow> word_64 w" "pre = [] \<or> pre = ''0x''"
  shows "substitute_out (pre @ concat ws) ''0x'' = concat ws" "trim (concat ws) (CHR '' '') = concat ws"
    "split_words (concat ws) = ws" "ws \<noteq> [] \<Longrightarrow> pre @ concat ws \<noteq> ''0x'' \<and> pre @ concat ws \<noteq> []"
proof -
  have hex: "list_all is_hex (concat ws)" using assms(1) by (auto simp: word_64_def list_all_iff)
  show "substitute_out (pre @ concat ws) ''0x'' = concat ws" by (rule substitute_out_input [OF hex assms(2)])
  show "trim (concat ws) (CHR '' '') = concat ws" by (rule trim_hex [OF hex])
  show "split_words (concat ws) = ws" using assms(1) by (intro split_words_concat) (simp add: word_64_def)
  show "pre @ concat ws \<noteq> ''0x'' \<and> pre @ concat ws \<noteq> []" if ne: "ws \<noteq> []"
  proof -
    obtain w us where "ws = w # us" "length w = 64" using ne assms(1) by (cases ws) (auto simp: word_64_def)
    then have l: "length (pre @ concat ws) \<ge> 64" by simp
    have "pre @ concat ws \<noteq> ''0x''"
    proof
      assume "pre @ concat ws = ''0x''"
      then have "length (pre @ concat ws) = length ''0x''" by (rule arg_cong)
      then show False using l by simp
    qed
    moreover have "pre @ concat ws \<noteq> []" using l by (metis list.size(3) not_numeral_le_zero)
    ultimately show ?thesis ..
  qed
qed

lemma slow_decoder:
  assumes "\<And>w. w \<in> set ws \<Longrightarrow> word_64 w" "pre = [] \<or> pre = ''0x''" "find_parser params typeList = None" 
  shows "decodeRLP params typeList (pre @ concat ws) =
    bindR (decodeAnObject (take (length ws) params) ws 0) (\<lambda>(ok, params, off). Inr (ok, params))"
proof (cases "ws = []")
  case True
  then show ?thesis using assms(2,3) by (elim disjE) (simp_all add: decodeRLP_def Let_def)
next
  case False
  have c: "substitute_out (pre @ concat ws) ''0x'' = concat ws" "trim (concat ws) (CHR '' '') = concat ws"
    "split_words (concat ws) = ws" "pre @ concat ws \<noteq> ''0x'' \<and> pre @ concat ws \<noteq> []"
    using concat_words_input [of ws pre] assms(1,2) False by blast+
  have "(if length ws < length params then take (length ws) params else params) = take (length ws) params" by simp
  then show ?thesis using c assms(3)
    by (simp add: decodeRLP_def Let_def del: append_is_Nil_conv if_split)
qed

lemma map2_words: "map2 decoded (map PWord vs) qs = map2 set_value (map abi_text vs) qs"
proof (induction vs arbitrary: qs)
  case (Cons v vs)
  then show ?case by (cases qs) simp_all
qed simp

lemma decodeRLP_encoded:
  assumes "list_all param_ok ps" "list_all param_fast ps \<or> list_ex dynamic ps" "length (abi_encode ps) < 2 ^ 59"
    "map par_type params = map param_type ps" "pre = [] \<or> pre = ''0x''" "typeList = [] \<or> typeList = commas (map param_type ps)"
  shows "decodeRLP params typeList (pre @ concat (abi_encode ps)) = Inr (True, map2 decoded ps params)"
proof (cases "list_ex dynamic ps")
  case False
  obtain vs where vs: "ps = map PWord vs" by (rule static_params [OF False])
  have "list_all abi_ok vs" "list_all fast_ok vs" using assms(1,2) False vs by (auto simp: list_all_iff)
  then show ?thesis using decodeRLP_words [of vs params pre typeList] assms(4-6) unfolding vs encode_static by (simp add: comp_def with_values_def map2_words)
next
  case True
  let ?ws = "abi_encode ps"
  have w: "word_64 w" if "w \<in> set ?ws" for w using abi_encode_words [OF assms(1) that] .
  have "parseMap [] = None" by (simp add: parseMap_def parse_table_def)
  then have fp: "find_parser params typeList = None"
    using type_list_params [OF assms(1,4)] parseMap_dynamic [OF assms(1) True] assms(6) by (auto simp: find_parser_def)
  have len: "length params = length ps" using assms(4) by (metis length_map)
  have "words_64 ?ws" using w assms(3) by (simp add: words_64_def word_64_def)
  from decode_encoded [of ?ws "[]" ps "[]", OF _ this assms(1,4)]
  have "decodeAnObject params ?ws 0 = Inr (True, map2 decoded ps params, length ps)"
    by (simp add: abi_encode_def)
  moreover have "take (length ?ws) params = params" using len by (simp add: abi_encode_def)
  ultimately show ?thesis using slow_decoder [OF w assms(5) fp] by simp
qed

text \<open>An offset to the end of the data passes the test.\<close>

lemma decode_end_offset:
  assumes "param_type p = par_type q" "dynamic p" "param_ok p" "data \<noteq> []" "words_64 data" "hd data = hex_digits 64 (32 * length data)"
  shows "decodeAnObject (q # qs) data 0 = Inl OutOfBounds"
proof -
  have d: "length data < 2 ^ 59" using assms(5) by (simp add: words_64_def)
  then have u: "unat (str_2_Uint (''0x'' @ hex_digits 64 (32 * length data))) = 32 * length data" by (intro offset_word) simp
  have w: "data_word data 0 = Inr (hex_digits 64 (32 * length data))" "data_word data (length data) = Inl OutOfBounds"
    using assms(4,6) by (cases data; simp add: data_word_def)+
  have b: "decode_bytes q data 0 = Inl OutOfBounds" "decode_variable q data 0 = Inl OutOfBounds"
    using w u by (simp_all add: decode_bytes_def decode_variable_def Let_def)
  have "decode_step q data 0 = Inl OutOfBounds"
  proof (cases p)
    case (PArray t vs)
    then have t: "par_type q = type_name t @ ''[]''" using assms(1) by simp
    from array_type [OF t] b show ?thesis by (simp add: decode_step_def)
  qed (use assms(1,2) b in \<open>auto simp: decode_step_def isBaseType_def dest: sym\<close>)
  then show ?thesis using assms(4) by (simp add: decodeAnObject.simps(2))
qed

end
