(* ===== verification/Abi_Properties.thy ===== *)
theory Abi_Properties
  imports AbiEncode
begin

text \<open>
  The properties of the decoder: it inverts the encoding, its fast functions agree with the
  general loop where they do and differ for signed integers, what it makes of data that is
  too short, and the offset its test lets through.
\<close>

text \<open>
  C28: The decoder reads back what the encoding of the contract ABI writes. For any list of
  addresses, truth values, unsigned and signed integers of 8 to 256 bits, words of bytes,
  byte strings, strings and arrays of values of one word, encoded with the offsets and
  contents of what is of variable size behind the words of the parameters, \<^verbatim>\<open>decodeRLP\<close>
  answers true, with and without the prefix 0x and the list of types. Every parameter gets
  the text of its value, with two losses (\<open>decoded\<close>): a string loses its quotation marks,
  and where an array is empty the parameter keeps whatever value it had before. For lists
  without quotation marks and empty arrays (\<open>exact\<close>) the values are exactly the texts
  (\<open>param_text\<close>): numbers in decimal, words and byte strings in hexadecimal, strings as they
  are. Where all parameters have one word, the values are those that the fast functions can
  read (\<open>fast_ok\<close>).
\<close>

theorem abi_roundtrip:
  assumes "list_all param_ok ps" "list_all param_fast ps \<or> list_ex dynamic ps" "length (abi_encode ps) < 2 ^ 59"
    "map par_type params = map param_type ps" "pre = [] \<or> pre = ''0x''" "typeList = [] \<or> typeList = commas (map param_type ps)"
  shows "decodeRLP params typeList (pre @ concat (abi_encode ps)) = Inr (True, map2 decoded ps params) \<and>
    (list_all exact ps \<longrightarrow> map2 decoded ps params = with_values (map param_text ps) params)"
  using decodeRLP_encoded [OF assms] all_decoded_exact by blast

theorem abi_roundtrip_witness:
  "decodeRLP [new_parameter ''int40'' [] [], new_parameter ''string'' [] [], new_parameter ''address[]'' [] []] []
     (''0x'' @ concat (abi_encode [PWord (AInt 5 (- 7)), PString ''hi!'', PArray TAddress [AAddress 1, AAddress 2]])) =
   Inr (True, with_values [''-7'', ''hi!'', ''['' @ spaced [abi_text (AAddress 1), abi_text (AAddress 2)] @ '']'']
     [new_parameter ''int40'' [] [], new_parameter ''string'' [] [], new_parameter ''address[]'' [] []]) \<and>
   decodeRLP [set_value ''old'' (new_parameter ''bool[]'' [] []), new_parameter ''string'' [] []] []
     (concat (abi_encode [PArray TBool [], PString [CHR 0x22, CHR ''q'']])) =
   Inr (True, [set_value ''old'' (new_parameter ''bool[]'' [] []), set_value ''q'' (new_parameter ''string'' [] [])])"
proof (rule conjI, goal_cases)
  case 1
  let ?ps = "[PWord (AInt 5 (- 7)), PString ''hi!'', PArray TAddress [AAddress 1, AAddress 2]]"
  let ?params = "[new_parameter ''int40'' [] [], new_parameter ''string'' [] [], new_parameter ''address[]'' [] []]"
  have d: "dec_str 40 = ''40''" "int_text (- 7) = ''-7''" by code_simp+
  have "list_all param_ok ?ps" by simp
  moreover have "length (abi_encode ?ps) < 2 ^ 59" by (simp add: abi_encode_def padded_words.simps hex_text_def)
  moreover have "map param_text ?ps = [''-7'', ''hi!'', ''['' @ spaced [abi_text (AAddress 1), abi_text (AAddress 2)] @ '']'']"
    using d by simp
  moreover have "map par_type ?params = map param_type ?ps" "list_all exact ?ps" using d by (simp_all add: new_parameter_def)
  ultimately show ?case using abi_roundtrip [of ?ps ?params "''0x''" "[]"] by (simp del: param_text.simps decoded.simps)
next
  case 2
  let ?ps = "[PArray TBool [], PString [CHR 0x22, CHR ''q'']]"
  have "length (abi_encode ?ps) < 2 ^ 59" by (simp add: abi_encode_def padded_words.simps hex_text_def)
  then show ?case
    using abi_roundtrip [of ?ps "[set_value ''old'' (new_parameter ''bool[]'' [] []), new_parameter ''string'' [] []]" "[]" "[]"]
    by (simp add: new_parameter_def)
qed

text \<open>
  C29: For parameters of one word each, a fast function from the table gives what the general
  loop over the parameters gives, for all the values it can read.
\<close>

theorem fast_agrees:
  assumes "list_all abi_ok vs" "list_all fast_ok vs" "map par_type params = map abi_type vs"
  shows "decodeRLP params (commas (map abi_type vs)) (concat (map abi_word vs)) =
    bindR (decodeAnObject params (map abi_word vs) 0) (\<lambda>(ok, params, readOffset). Inr (ok, params))"
  using decodeRLP_words [OF assms, of "[]" "commas (map abi_type vs)"] decode_words [OF assms(1,3), of 0 "map abi_word vs"] by simp

theorem fast_agrees_witness:
  "decodeRLP [new_parameter ''address'' [] [], new_parameter ''uint256'' [] []] ''address,uint256'' (abi_word (AAddress 5) @ abi_word (AUint 32 (2 ^ 70))) =
    bindR (decodeAnObject [new_parameter ''address'' [] [], new_parameter ''uint256'' [] []] [abi_word (AAddress 5), abi_word (AUint 32 (2 ^ 70))] 0)
      (\<lambda>(ok, params, readOffset). Inr (ok, params)) \<and> parseMap ''address,uint256'' = Some parse_addr_u256"
proof -
  have d: "dec_str 256 = ''256''" by code_simp
  have "parseMap ''address,uint256'' = Some parse_addr_u256" by (simp add: parseMap_def parse_table_def)
  then show ?thesis
    using fast_agrees [of "[AAddress 5, AUint 32 (2 ^ 70)]" "[new_parameter ''address'' [] [], new_parameter ''uint256'' [] []]"] d
    by (simp add: new_parameter_def)
qed

text \<open>
  C30: A single signed integer is read wrongly by the fast functions: those for 8, 16 and 32
  bits cast it to a signed character, those for 128 and 256 bits take a number from
  \<open>2 ^ 63\<close> up to \<open>2 ^ 64\<close> for a negative one of 64 bits. The general loop reads all of them
  exactly.
\<close>

theorem fast_signed_ints:
  assumes "abi_ok (AInt k i)" "k \<in> {1, 2, 4, 8, 16, 32}" "par_type p = abi_type (AInt k i)"
  shows "decodeRLP [p] [] (abi_word (AInt k i)) =
      Inr (True, [set_value (int_text (if k \<le> 4 then sint (word_of_int i :: 8 word) else int_wide i)) p]) \<and>
    decodeAnObject [p] [abi_word (AInt k i)] 0 = Inr (True, [set_value (int_text i) p], 1)"
proof
  let ?w = "hex_digits 64 (nat (i mod 2 ^ 256))" and ?r = "if k \<le> 4 then sint (word_of_int i :: 8 word) else int_wide i"
  have pm: "parseMap (abi_type (AInt k i)) = Some (if k = 1 then parse_i8 else if k = 2 then parse_i16 else if k = 4 then parse_i32
      else if k = 8 then parse_i64 else if k = 16 then parse_i128 else parse_i256)"
  proof -
    have d: "dec_str 8 = ''8''" "dec_str 16 = ''16''" "dec_str 32 = ''32''" "dec_str 64 = ''64''" "dec_str 128 = ''128''" "dec_str 256 = ''256''"
      by code_simp+
    show ?thesis using assms(2) by (auto simp: parseMap_def parse_table_def d)
  qed
  have "the (parseMap (abi_type (AInt k i))) ?w = Inr (int_text ?r)"
  proof -
    have wide: "int_wide i = sint (word_of_int i :: 64 word)" if "k = 8"
    proof -
      have "- (2 ^ 63) \<le> i" "i < 2 ^ 63" using assms(1) that by simp_all
      then show ?thesis using sint_word_of_int [where 'a = 64, of i] by (simp add: int_wide_def)
    qed
    have j: "parse_signed_char j ?w = Inr (int_text (sint (word_of_int i :: 8 word)))" if "2 \<le> j" "j \<le> 64" for j
      by (rule parse_signed_char_word [OF that])
    have l: "(if k = 16 then parse_i128 else parse_i256) ?w = Inr (int_text (int_wide i))" if "k = 16 \<or> k = 32"
      using assms(1) by (intro parse_i_wide [OF that]) simp_all
    show ?thesis using assms(2) j l wide parse_i64_word [of i] unfolding pm
      by (auto simp: parse_i8_def parse_i16_def parse_i32_def simp del: abi_word.simps)
  qed
  moreover have "find_parser [p] [] = parseMap (abi_type (AInt k i))"
  proof -
    have "type_list [p] = abi_type (AInt k i)"
      using type_list_params [of "[PWord (AInt k i)]" "[p]"] assms(1,3) by simp
    moreover have "parseMap [] = None" by (simp add: parseMap_def parse_table_def)
    ultimately show ?thesis by (simp only: find_parser_def option.case)
  qed
  moreover have "assign_values [p] (int_text ?r) = [set_value (int_text ?r) p]"
  proof -
    have "CHR '','' \<notin> set (dec_str n) \<and> dec_str n \<noteq> []" for n
      using dec_str_digits [of n] letter_not_dec [of "CHR '',''" n] by (simp add: isdigit_def)
    then have "plain (int_text r)" for r by (simp add: plain_def int_text_def)
    then have "plain (int_text ?r)" .
    then show ?thesis using assign_values_commas [of "[int_text ?r]" "[p]"] by (simp add: with_values_def)
  qed
  moreover have "substitute_out ?w ''0x'' = ?w" "?w \<noteq> ''0x''" "?w \<noteq> []"
    using concat_words_input [of "[?w]" "[]"] word_64_words(2) by simp_all
  ultimately show "decodeRLP [p] [] (abi_word (AInt k i)) = Inr (True, [set_value (int_text ?r) p])"
    using pm by (simp add: decodeRLP_def Let_def)
  show "decodeAnObject [p] [abi_word (AInt k i)] 0 = Inr (True, [set_value (int_text i) p], 1)"
    using decode_words [of "[AInt k i]" "[p]" 0 "[abi_word (AInt k i)]"] assms(1,3) by (simp add: with_values_def)
qed

theorem fast_signed_ints_witness:
  "decodeRLP [new_parameter ''int256'' [] []] [] (abi_word (AInt 32 (2 ^ 63))) = Inr (True, [set_value (int_text (- (2 ^ 63))) (new_parameter ''int256'' [] [])]) \<and>
   decodeRLP [new_parameter ''int16'' [] []] [] (abi_word (AInt 2 300)) = Inr (True, [set_value ''44'' (new_parameter ''int16'' [] [])])"
proof -
  have d: "abi_type (AInt 32 (2 ^ 63)) = ''int256''" "abi_type (AInt 2 300) = ''int16''" "int_text 44 = ''44''"
    by code_simp+
  have w: "sint (word_of_int 300 :: 8 word) = 44" by code_simp
  have i: "int_wide (2 ^ 63) = - (2 ^ 63)" by (simp add: int_wide_def)
  have ok: "abi_ok (AInt 32 (2 ^ 63))" "abi_ok (AInt 2 300)" by simp_all
  have k: "(32 :: nat) \<in> {1, 2, 4, 8, 16, 32}" "(2 :: nat) \<in> {1, 2, 4, 8, 16, 32}" "\<not> (32 :: nat) \<le> 4" "(2 :: nat) \<le> 4" by simp_all
  have t: "par_type (new_parameter t [] []) = t" for t by (simp add: new_parameter_def)
  from fast_signed_ints [OF ok(1) k(1), of "new_parameter ''int256'' [] []", THEN conjunct1]
    fast_signed_ints [OF ok(2) k(2), of "new_parameter ''int16'' [] []", THEN conjunct1]
  show ?thesis by (simp only: t d w i k if_True if_False simp_thms)
qed

text \<open>
  C32: Data with fewer words than there are parameters, for a list of types that has no fast
  function, is accepted: the answer is true, and the parameters behind the last word are
  gone.
\<close>

theorem short_data_drops_parameters:
  assumes "list_all abi_ok (vs @ us)" "map par_type params = map abi_type (vs @ us)" "parseMap (commas (map abi_type (vs @ us))) = None"
    "pre = [] \<or> pre = ''0x''"
  shows "decodeRLP params [] (pre @ concat (map abi_word vs)) = Inr (True, with_values (map abi_text vs) (take (length vs) params))"
proof -
  let ?ps = "map PWord (vs @ us)"
  have w: "word_64 w" if "w \<in> set (map abi_word vs)" for w using that assms(1) word_64_words(1) by (auto simp: list_all_iff)
  have "type_list params = commas (map abi_type (vs @ us))"
    using type_list_params [of ?ps params] assms(1,2) by (simp add: comp_def list.pred_map)
  moreover have "parseMap [] = None" by (simp add: parseMap_def parse_table_def)
  ultimately have fp: "find_parser params [] = None" using assms(3) by (simp add: find_parser_def)
  have "map par_type (take (length vs) params) = map abi_type vs"
    unfolding take_map [symmetric] assms(2) by simp
  then have "decodeAnObject (take (length vs) params) (map abi_word vs) 0 =
      Inr (True, with_values (map abi_text vs) (take (length vs) params), length vs)"
    using decode_words [of vs "take (length vs) params" 0 "map abi_word vs"] assms(1) by simp
  moreover have "decodeRLP params [] (pre @ concat (map abi_word vs)) =
      bindR (decodeAnObject (take (length (map abi_word vs)) params) (map abi_word vs) 0) (\<lambda>(ok, params, off). Inr (ok, params))"
    by (rule slow_decoder [OF _ assms(4) fp], erule w)
  ultimately show ?thesis by simp
qed

theorem short_data_drops_parameters_witness:
  "decodeRLP [new_parameter ''bool'' [] [], new_parameter ''bool'' [] []] [] (''0x'' @ abi_word (ABool True)) =
   Inr (True, [set_value ''true'' (new_parameter ''bool'' [] [])])"
proof -
  have "parseMap ''bool,bool'' = None" by (simp add: parseMap_def parse_table_def)
  then show ?thesis
    using short_data_drops_parameters [of "[ABool True]" "[ABool True]" "[new_parameter ''bool'' [] [], new_parameter ''bool'' [] []]" "''0x''"]
    by (simp add: new_parameter_def with_values_def)
qed

text \<open>
  C31: Where the first parameter is a string, a byte string or an array and its offset is the
  length of the data, the decoder reads a word behind the end of the data: the test of the
  offset lets its length through.
\<close>

theorem end_offset_leaves_data:
  assumes "list_all param_ok (p # ps)" "dynamic p" "map par_type params = map param_type (p # ps)"
    "\<And>w. w \<in> set data \<Longrightarrow> length w = 64 \<and> list_all is_hex w" "data \<noteq> []" "length data < 2 ^ 59"
    "hd data = hex_digits 64 (32 * length data)"
  shows "decodeRLP params [] (concat data) = Inl OutOfBounds"
proof -
  have w: "word_64 w" if "w \<in> set data" for w using assms(4) [OF that] by (simp add: word_64_def)
  have "type_list params = commas (map param_type (p # ps))" by (rule type_list_params [OF assms(1,3)])
  moreover have "parseMap (commas (map param_type (p # ps))) = None" using assms(2) by (intro parseMap_dynamic [OF assms(1)]) simp
  moreover have "parseMap [] = None" by (simp add: parseMap_def parse_table_def)
  ultimately have fp: "find_parser params [] = None" by (simp add: find_parser_def)
  obtain q qs where q: "params = q # qs" "par_type q = param_type p" using assms(3) by auto
  obtain n where n: "length data = Suc n" using assms(5) by (cases data) auto
  have "words_64 data" using assms(4,6) by (simp add: words_64_def)
  with decode_end_offset [of p q data "take n qs"] assms(1,2,5,7) q
  have "decodeAnObject (take (length data) params) data 0 = Inl OutOfBounds" by (simp add: n)
  moreover have "decodeRLP params [] ([] @ concat data) =
      bindR (decodeAnObject (take (length data) params) data 0) (\<lambda>(ok, params, off). Inr (ok, params))"
    by (rule slow_decoder [OF _ _ fp], erule w) simp
  ultimately show ?thesis by simp
qed

theorem end_offset_leaves_data_witness:
  "decodeRLP [new_parameter ''string'' [] []] [] (hex_digits 64 32) = Inl OutOfBounds"
  using end_offset_leaves_data [of "PString []" "[]" "[new_parameter ''string'' [] []]" "[hex_digits 64 32]"]
  by (simp add: new_parameter_def)

end
