(* ===== verification/AcctTree.thy ===== *)
theory AcctTree
  imports Decimal
begin

text \<open>
  The tree of accounts of \<^verbatim>\<open>libs/acctlib\<close> (\<^verbatim>\<open>treeroot\<close>, \<^verbatim>\<open>treenode\<close>, \<^verbatim>\<open>branch\<close>,
  \<^verbatim>\<open>infix\<close>, \<^verbatim>\<open>leaf\<close>): a Patricia tree over hexadecimal keys. Nodes are owned by one
  parent, so that they are values here; \<^verbatim>\<open>NULL\<close> in the sixteen places of a branch is
  \<open>None\<close>. What is only printed under \<^verbatim>\<open>verbose\<close> is left out. Every node has the member
  \<^verbatim>\<open>prefixS\<close>, which a branch never reads.
\<close>

section \<open>Nodes\<close>

datatype tnode =
  CLeaf (prefixS: string) "64 word"
| CInfix (prefixS: string) tnode
| CBranch (prefixS: string) string "tnode option list"

text \<open>
  The place of a character. The remainder of a negative number is negative in C, and the
  array is read before its beginning; keys are read as signed characters.
\<close>

definition nodeIndex :: "char \<Rightarrow> nat result" where
  "nodeIndex c =
     (let l = schar (tolower c); v = (if l < 97 then l - 48 else l - 97 + 10)
      in if v < 0 \<and> v mod 16 \<noteq> 0 then Inl OutOfBounds else Inr (nat (v mod 16)))"

definition idex :: "nat \<Rightarrow> string" where
  "idex n = [''0123456789abcdef'' ! n]"

fun commonPrefix :: "string \<Rightarrow> string \<Rightarrow> nat" where
  "commonPrefix (t # ts) (u # us) = (if t = u then Suc (commonPrefix ts us) else 0)"
| "commonPrefix _ _ = 0"

text \<open>
  \<^verbatim>\<open>memcmp\<close> over the length of one of the texts: it stops at the zero byte that ends the
  other one, keys have none.
\<close>

definition leaf_contains :: "string \<Rightarrow> string \<Rightarrow> bool" where
  "leaf_contains prefix key \<longleftrightarrow> length key = length prefix \<and> key = prefix"

definition infix_contains :: "string \<Rightarrow> string \<Rightarrow> bool" where
  "infix_contains prefix key \<longleftrightarrow> length key \<ge> length prefix \<and> take (length prefix) key = prefix"

definition no_nodes :: "tnode option list" where
  "no_nodes = replicate 16 None"

text \<open>\<^verbatim>\<open>CLeaf(key, value)\<close> does not look at the value.\<close>

definition new_leaf :: "string \<Rightarrow> string \<Rightarrow> tnode" where
  "new_leaf key val = CLeaf key 1"

definition branch_one :: "char \<Rightarrow> tnode \<Rightarrow> string \<Rightarrow> tnode result" where
  "branch_one i1 n1 val = bindR (nodeIndex i1) (\<lambda>i. Inr (CBranch [] val (no_nodes[i := Some n1])))"

definition branch_two :: "char \<Rightarrow> tnode \<Rightarrow> char \<Rightarrow> tnode \<Rightarrow> tnode result" where
  "branch_two i1 n1 i2 n2 =
     bindR (nodeIndex i1) (\<lambda>i. bindR (nodeIndex i2) (\<lambda>j. Inr (CBranch [] [] (no_nodes[i := Some n1, j := Some n2]))))"

text \<open>The characters behind the prefix are read with \<^verbatim>\<open>[]\<close>; at the end of a text that is zero.\<close>

definition char_at :: "string \<Rightarrow> nat \<Rightarrow> char" where
  "char_at s i = (if i < length s then s ! i else CHR 0x00)"

definition newBranch :: "string \<Rightarrow> string \<Rightarrow> string \<Rightarrow> string \<Rightarrow> tnode result" where
  "newBranch k1 v1 k2 v2 =
     (let prefix = commonPrefix k1 k2
      in bindR (if length k1 = prefix then branch_one (char_at k2 prefix) (new_leaf (extract_from k2 (prefix + 1)) v2) v1
                else if length k2 = prefix then branch_one (char_at k1 prefix) (new_leaf (extract_from k1 (prefix + 1)) v1) v2
                else branch_two (char_at k1 prefix) (new_leaf (extract_from k1 (prefix + 1)) v1)
                       (char_at k2 prefix) (new_leaf (extract_from k2 (prefix + 1)) v2)) (\<lambda>ret.
           Inr (if prefix \<noteq> 0 then CInfix (extract_q k1 0 prefix) ret else ret)))"

section \<open>Looking up\<close>

text \<open>The value found at a leaf is its counter.\<close>

definition leaf_at :: "string \<Rightarrow> 64 word \<Rightarrow> string \<Rightarrow> string" where
  [simp]: "leaf_at p counter key = (if leaf_contains p key then uint_2_Str counter else [])"

fun chain :: "tnode \<Rightarrow> nat" where
  "chain (CInfix p nx) = (if p = [] then Suc (chain nx) else 1)"
| "chain _ = 0"

function tree_at :: "tnode \<Rightarrow> string \<Rightarrow> string result" where
  "tree_at (CLeaf p counter) key = Inr (leaf_at p counter key)"
| "tree_at (CInfix p nx) key = (if infix_contains p key then tree_at nx (extract_from key (length p)) else Inr [])"
| "tree_at (CBranch p val nodes) key =
     (if key = [] then Inr val
      else case nodeIndex (hd key) of
             Inl f \<Rightarrow> Inl f
           | Inr idx \<Rightarrow>
               (case nodes ! idx of
                  Some n \<Rightarrow> tree_at n (extract_from key 1)
                | None \<Rightarrow> Inr []))"
  by pat_completeness auto
termination
  by (relation "measures [\<lambda>(n, key). length key, \<lambda>(n, key). chain n]") (auto simp: extract_from_def infix_contains_def)

section \<open>Inserting\<close>

text \<open>A new value for a key that is there only counts; the old value of a leaf that splits is empty.\<close>

definition leaf_insert :: "string \<Rightarrow> 64 word \<Rightarrow> string \<Rightarrow> string \<Rightarrow> tnode result" where
  [simp]: "leaf_insert p counter key val =
     (if leaf_contains p key then Inr (CLeaf p (counter + 1)) else newBranch key val p [])"

text \<open>A branch keeps the first value and the most recent one.\<close>

definition branch_value :: "string \<Rightarrow> string \<Rightarrow> string" where
  "branch_value branchValue val =
     (if branchValue = [] then val else fst (nextTokenClear branchValue (CHR ''|'') True) @ ''|'' @ val)"

function tree_insert :: "tnode \<Rightarrow> string \<Rightarrow> string \<Rightarrow> tnode result" where
  "tree_insert (CLeaf p counter) key val = leaf_insert p counter key val"
| "tree_insert (CInfix p nx) key val =
     (if infix_contains p key
      then bindR (tree_insert nx (extract_from key (length p)) val) (\<lambda>nx'. Inr (CInfix p nx'))
      else
        let prefixA = commonPrefix key p
        in if prefixA \<noteq> 0
           then bindR (tree_insert (CInfix (extract_from p prefixA) nx) (extract_from key prefixA) val)
                  (\<lambda>n. Inr (CInfix (extract_q key 0 prefixA) n))
           else
             bindR (branch_one (char_at p 0) (if extract_from p 1 = [] then nx else CInfix (extract_from p 1) nx) [])
               (\<lambda>ret. tree_insert ret key val))"
| "tree_insert (CBranch p branchValue nodes) key val =
     (if key = []
      then Inr (CBranch p (branch_value branchValue val) nodes)
      else case nodeIndex (hd key) of
             Inl f \<Rightarrow> Inl f
           | Inr idx \<Rightarrow>
               (case nodes ! idx of
                  Some n \<Rightarrow> bindR (tree_insert n (extract_from key 1) val) (\<lambda>n'. Inr (CBranch p branchValue (nodes[idx := Some n'])))
                | None \<Rightarrow> Inr (CBranch p branchValue (nodes[idx := Some (new_leaf (extract_from key 1) val)]))))"
  by pat_completeness auto
termination
proof (relation "measures [\<lambda>(n, key, val). length key, \<lambda>(n, key, val). chain n]", goal_cases)
  case (4 p nx key val prefixA ret)
  then have "chain ret = 0" by (auto simp: branch_one_def bindR_eq_Inr_iff)
  then show ?case by simp
next
  case (3 p nx key val prefixA)
  then have "key \<noteq> []" "p \<noteq> []" by (cases key; auto simp: infix_contains_def)+
  then show ?case using 3 by (simp add: extract_from_def)
qed (auto simp: extract_from_def infix_contains_def)

section \<open>Removing\<close>

datatype active = NO_BRANCHS | ONE_BRANCH nat | MULTI_BRANCH

fun active_loop :: "nat \<Rightarrow> tnode option list \<Rightarrow> active \<Rightarrow> active" where
  "active_loop i [] n = n"
| "active_loop i (x # xs) n =
     (if x \<noteq> None then if n = NO_BRANCHS then active_loop (i + 1) xs (ONE_BRANCH i) else MULTI_BRANCH
      else active_loop (i + 1) xs n)"

definition activeBranch :: "tnode option list \<Rightarrow> active" where
  "activeBranch nodes = active_loop 0 nodes NO_BRANCHS"

fun add_prefix :: "string \<Rightarrow> tnode \<Rightarrow> tnode" where
  "add_prefix x (CLeaf p c) = CLeaf (x @ p) c"
| "add_prefix x (CInfix p nx) = CInfix (x @ p) nx"
| "add_prefix x (CBranch p v nodes) = CBranch (x @ p) v nodes"

text \<open>A branch without children and value would read \<^verbatim>\<open>nodes[-1]\<close>.\<close>

definition rejig :: "string \<Rightarrow> string \<Rightarrow> tnode option list \<Rightarrow> tnode result" where
  "rejig p branchValue nodes =
     (case activeBranch nodes of
        NO_BRANCHS \<Rightarrow> if branchValue \<noteq> [] then Inr (new_leaf [] branchValue) else Inl OutOfBounds
      | ONE_BRANCH n \<Rightarrow>
          if branchValue \<noteq> [] then Inr (CBranch p branchValue nodes)
          else (case nodes ! n of
                  Some (CBranch q v ns) \<Rightarrow> Inr (CInfix (idex n) (CBranch q v ns))
                | Some x \<Rightarrow> Inr (add_prefix (idex n) x)
                | None \<Rightarrow> Inl OutOfBounds)
      | MULTI_BRANCH \<Rightarrow> Inr (CBranch p branchValue nodes))"

definition leaf_remove :: "string \<Rightarrow> 64 word \<Rightarrow> string \<Rightarrow> tnode option" where
  [simp]: "leaf_remove p counter key = (if leaf_contains p key then None else Some (CLeaf p counter))"

function tree_remove :: "tnode \<Rightarrow> string \<Rightarrow> tnode option result" where
  "tree_remove (CLeaf p counter) key = Inr (leaf_remove p counter key)"
| "tree_remove (CInfix p nx) key =
     (if infix_contains p key
      then bindR (tree_remove nx (extract_from key (length p))) (\<lambda>nx'. Inr (map_option (add_prefix p) nx'))
      else Inr (Some (CInfix p nx)))"
| "tree_remove (CBranch p branchValue nodes) key =
     (if key = []
      then if branchValue \<noteq> [] then bindR (rejig p [] nodes) (\<lambda>n. Inr (Some n)) else Inr (Some (CBranch p branchValue nodes))
      else case nodeIndex (hd key) of
             Inl f \<Rightarrow> Inl f
           | Inr idx \<Rightarrow>
               (case nodes ! idx of
                  Some n \<Rightarrow>
                    bindR (tree_remove n (extract_from key 1)) (\<lambda>n'.
                      bindR (rejig p branchValue (nodes[idx := n'])) (\<lambda>r. Inr (Some r)))
                | None \<Rightarrow> Inr (Some (CBranch p branchValue nodes))))"
  by pat_completeness auto
termination
  by (relation "measures [\<lambda>(n, key). length key, \<lambda>(n, key). chain n]") (auto simp: extract_from_def infix_contains_def)

declare tree_at.simps [simp del] tree_insert.simps [simp del] tree_remove.simps [simp del]

section \<open>The root\<close>

type_synonym troot = "tnode option"

definition root_at :: "troot \<Rightarrow> string \<Rightarrow> string result" where
  "root_at root key = (case root of None \<Rightarrow> Inr [] | Some n \<Rightarrow> tree_at n key)"

definition root_remove :: "troot \<Rightarrow> string \<Rightarrow> troot result" where
  "root_remove root key = (case root of None \<Rightarrow> Inr None | Some n \<Rightarrow> tree_remove n key)"

text \<open>After the removal for an empty value the code goes on and inserts.\<close>

definition root_insert :: "troot \<Rightarrow> string \<Rightarrow> string \<Rightarrow> troot result" where
  "root_insert root key val =
     bindR (if val = [] then root_remove root key else Inr root) (\<lambda>root.
       case root of
         Some n \<Rightarrow> bindR (tree_insert n key val) (\<lambda>n'. Inr (Some n'))
       | None \<Rightarrow> Inr (Some (new_leaf key val)))"

section \<open>Visiting\<close>

record CVisitData =
  vtype :: "64 word"
  vlevel :: "64 word"
  vcounter :: "64 word"
  vstrs :: string

text \<open>The colours are settings of the terminal.\<close>

record colours =
  cMagenta :: string
  cBlue :: string
  cOff :: string

definition drop_last_token :: "char \<Rightarrow> 'a CVisitData_scheme \<Rightarrow> 'a CVisitData_scheme" where
  "drop_last_token c vd = vd\<lparr>vstrs := snd (nextTokenClearReverse (vstrs vd) c)\<rparr>"

text \<open>A leaf shows what \<^verbatim>\<open>at\<close> finds for its own prefix.\<close>

definition leaf_visit :: "colours \<Rightarrow> (tnode \<Rightarrow> 'a CVisitData_scheme \<Rightarrow> 'a CVisitData_scheme) \<Rightarrow> string \<Rightarrow> 64 word \<Rightarrow> 'a CVisitData_scheme \<Rightarrow> 'a CVisitData_scheme" where
  "leaf_visit col func p c vd =
     (let save = vtype vd;
          vd1 = vd\<lparr>vcounter := c, vtype := 1,
                   vstrs := vstrs vd @ ''+'' @ cMagenta col @ p @ cOff col @ ''|'' @ cBlue col @ leaf_at p c p @ cOff col\<rparr>
      in (drop_last_token (CHR ''+'') (func (CLeaf p c) vd1))\<lparr>vtype := save\<rparr>)"

fun visit_node :: "colours \<Rightarrow> (tnode \<Rightarrow> 'a CVisitData_scheme \<Rightarrow> 'a CVisitData_scheme) \<Rightarrow> tnode \<Rightarrow> 'a CVisitData_scheme \<Rightarrow> 'a CVisitData_scheme"
  and visit_nodes :: "colours \<Rightarrow> (tnode \<Rightarrow> 'a CVisitData_scheme \<Rightarrow> 'a CVisitData_scheme) \<Rightarrow> nat \<Rightarrow> tnode option list \<Rightarrow> 'a CVisitData_scheme \<Rightarrow> 'a CVisitData_scheme" where
  "visit_node col func (CLeaf p c) vd = leaf_visit col func p c vd"
| "visit_node col func (CInfix p nx) vd =
     (let save = vtype vd;
          vd1 = func (CInfix p nx) (vd\<lparr>vcounter := 0, vtype := 3, vstrs := vstrs vd @ ''+'' @ p\<rparr>);
          vd2 = visit_node col func nx (vd1\<lparr>vlevel := vlevel vd1 + 1\<rparr>);
          vd3 = vd2\<lparr>vlevel := vlevel vd2 - 1\<rparr>
      in (drop_last_token (CHR ''+'') vd3)\<lparr>vtype := save\<rparr>)"
| "visit_node col func (CBranch p v nodes) vd =
     (let save = vtype vd;
          vd1 = func (CBranch p v nodes) (vd\<lparr>vtype := 2, vcounter := 0, vstrs := vstrs vd @ v @ ''+''\<rparr>);
          vd2 = visit_nodes col func 0 nodes vd1
      in (drop_last_token (CHR ''+'') vd2)\<lparr>vtype := save\<rparr>)"
| "visit_nodes col func i [] vd = vd"
| "visit_nodes col func i (x # xs) vd =
     (case x of
        Some n \<Rightarrow>
          (let vd1 = visit_node col func n (vd\<lparr>vlevel := vlevel vd + 1, vstrs := vstrs vd @ ''-'' @ idex i\<rparr>);
               vd2 = drop_last_token (CHR ''-'') vd1
           in visit_nodes col func (i + 1) xs (vd2\<lparr>vlevel := vlevel vd2 - 1\<rparr>))
      | None \<Rightarrow> visit_nodes col func (i + 1) xs vd)"

definition root_visit :: "colours \<Rightarrow> (tnode \<Rightarrow> 'a CVisitData_scheme \<Rightarrow> 'a CVisitData_scheme) \<Rightarrow> troot \<Rightarrow> 'a CVisitData_scheme \<Rightarrow> 'a CVisitData_scheme" where
  "root_visit col func root vd =
     (let vd = vd\<lparr>vlevel := 0\<rparr> in case root of Some n \<Rightarrow> visit_node col func n vd | None \<Rightarrow> vd)"

end
