(* ===== verification/AcctTree_Correct.thy ===== *)
theory AcctTree_Correct
  imports AcctTree
begin

text \<open>
  The tree of accounts over keys of one length: the shape that inserting keeps (\<open>ok\<close>) and
  the set of keys the tree answers for (\<open>found\<close>).
\<close>

section \<open>Places and prefixes\<close>

lemma nodeIndex_hex: "is_hex c \<Longrightarrow> nodeIndex c = Inr (hex_val c)"
proof -
  assume h: "is_hex c"
  define n where "n = (of_char c :: nat)"
  have r: "48 \<le> n \<and> n \<le> 57 \<or> 97 \<le> n \<and> n \<le> 102" using h by (simp add: is_hex_range n_def)
  have "tolower c = c" using r by (auto simp: tolower_def less_eq_char_def n_def)
  moreover have "schar c = int n" using r by (auto simp: schar_def n_def of_nat_of_char)
  moreover have "hex_val c = (if n \<le> 57 then n - 48 else n - 87)" by (simp add: hex_val_def less_eq_char_def n_def)
  ultimately have "(if schar (tolower c) < 97 then schar (tolower c) - 48 else schar (tolower c) - 97 + 10) = int (hex_val c)"
    using r by auto
  moreover have "int (hex_val c) mod 16 = int (hex_val c)" using hex_val_less [OF h] by simp
  ultimately show ?thesis by (simp only: nodeIndex_def Let_def) simp
qed

lemma commonPrefix_spec:
  "commonPrefix k p \<le> length k \<and> commonPrefix k p \<le> length p \<and> take (commonPrefix k p) k = take (commonPrefix k p) p \<and>
   (commonPrefix k p < length k \<longrightarrow> commonPrefix k p < length p \<longrightarrow> k ! commonPrefix k p \<noteq> p ! commonPrefix k p)"
  by (induction k p rule: commonPrefix.induct) auto

lemma commonPrefix_same_length:
  assumes "length k = length p" "k \<noteq> p"
  shows "commonPrefix k p < length k"
  using commonPrefix_spec [of k p] assms by (cases "commonPrefix k p = length k") auto

lemma extract_from_drop: "extract_from s n = drop n s"
  by (simp add: extract_from_def)

lemma extract_q_take: "extract_q s 0 n = take n s"
  by (cases s) (simp_all add: extract_q_def)

section \<open>The shape of the tree\<close>

fun is_branch :: "tnode \<Rightarrow> bool" where
  "is_branch (CBranch p v nodes) = True"
| "is_branch _ = False"

abbreviation hexkey :: "nat \<Rightarrow> string \<Rightarrow> bool" where
  "hexkey L k \<equiv> list_all is_hex k \<and> length k = L"

text \<open>All keys have the length \<open>L\<close>; an infix is followed by a branch; branches hold no values.\<close>

inductive ok :: "nat \<Rightarrow> tnode \<Rightarrow> bool" where
  ok_leafI: "hexkey L p \<Longrightarrow> ok L (CLeaf p c)"
| ok_infixI: "p \<noteq> [] \<Longrightarrow> list_all is_hex p \<Longrightarrow> length p < L \<Longrightarrow> is_branch nx \<Longrightarrow> ok (L - length p) nx \<Longrightarrow> ok L (CInfix p nx)"
| ok_branchI: "0 < L \<Longrightarrow> length nodes = 16 \<Longrightarrow> (\<And>n. Some n \<in> set nodes \<Longrightarrow> ok (L - 1) n) \<Longrightarrow> ok L (CBranch p [] nodes)"

inductive_simps ok_leaf: "ok L (CLeaf p c)"
inductive_simps ok_infix: "ok L (CInfix p nx)"
inductive_simps ok_branch: "ok L (CBranch p v nodes)"

definition found :: "tnode \<Rightarrow> string \<Rightarrow> bool" where
  "found t k \<longleftrightarrow> (\<exists>s. tree_at t k = Inr s \<and> s \<noteq> [])"

lemma found_leaf: "found (CLeaf p c) k \<longleftrightarrow> k = p"
  using dec_str_digits [of "unat c"] by (auto simp: found_def leaf_contains_def uint_2_Str_def tree_at.simps)

lemma infix_contains_iff: "infix_contains p k \<longleftrightarrow> (\<exists>k'. k = p @ k')"
  by (auto simp: infix_contains_def intro: exI [of _ "drop (length p) k"]) (metis append_take_drop_id)

lemma found_infix: "found (CInfix p nx) k \<longleftrightarrow> (\<exists>k'. k = p @ k' \<and> found nx k')"
  by (auto simp: found_def infix_contains_iff extract_from_drop tree_at.simps)

lemma found_branch:
  "is_hex c \<Longrightarrow> found (CBranch p v nodes) (c # k) \<longleftrightarrow> (case nodes ! hex_val c of Some n \<Rightarrow> found n k | None \<Rightarrow> False)"
  by (auto simp: found_def nodeIndex_hex extract_from_drop tree_at.simps split: option.split)

lemma found_update:
  assumes "length nodes = 16" "is_hex c" "is_hex d"
  shows "found (CBranch p v (nodes[hex_val c := Some n])) (d # k) \<longleftrightarrow>
         (if d = c then found n k else found (CBranch p v nodes) (d # k))"
  using assms hex_val_less [of c] hex_val_inj [of c d] by (auto simp: found_branch)

lemma found_no_nodes: "is_hex c \<Longrightarrow> \<not> found (CBranch p v no_nodes) (c # k)"
  using hex_val_less [of c] by (simp add: found_branch no_nodes_def)

lemma length_no_nodes [simp]: "length no_nodes = 16"
  by (simp add: no_nodes_def)

lemma ok_update:
  assumes "ok L (CBranch p v nodes)" "ok (L - 1) n"
  shows "ok L (CBranch p v (nodes[i := Some n]))"
  using assms set_update_subset_insert [of nodes i "Some n"] by (auto simp: ok_branch)

lemma ok_no_nodes: "0 < L \<Longrightarrow> ok L (CBranch p [] no_nodes)"
  by (simp add: ok_branch no_nodes_def)

lemma ok_child: "ok L (CBranch p v nodes) \<Longrightarrow> i < 16 \<Longrightarrow> nodes ! i = Some n \<Longrightarrow> ok (L - 1) n"
  using nth_mem [of i nodes] by (auto simp: ok_branch)

lemma hexkey_Cons:
  assumes "hexkey L k" "0 < L"
  obtains c r where "k = c # r" "is_hex c" "hexkey (L - 1) r"
  using assms by (cases k) auto

lemma tree_at_ok: "ok L t \<Longrightarrow> hexkey L k \<Longrightarrow> \<exists>s. tree_at t k = Inr s"
proof (induction arbitrary: k rule: ok.induct)
  case (ok_infixI p L nx)
  then show ?case
    by (cases "infix_contains p k") (auto simp: tree_at.simps extract_from_drop infix_contains_iff)
next
  case (ok_branchI L nodes p)
  then obtain c r where k: "k = c # r" "is_hex c" "hexkey (L - 1) r" using hexkey_Cons [of k L] by blast
  show ?case
  proof (cases "nodes ! hex_val c")
    case (Some n)
    then have "Some n \<in> set nodes" using hex_val_less [OF k(2)] ok_branchI(2) by (metis nth_mem)
    from ok_branchI(4) [OF this k(3)] show ?thesis
      using k Some by (simp add: tree_at.simps nodeIndex_hex extract_from_drop)
  qed (simp add: tree_at.simps k nodeIndex_hex)
qed (simp add: tree_at.simps)

section \<open>Inserting\<close>

definition inserted :: "nat \<Rightarrow> tnode \<Rightarrow> string \<Rightarrow> tnode \<Rightarrow> bool" where
  "inserted L t k t' \<longleftrightarrow> ok L t' \<and> (\<forall>k'. hexkey L k' \<longrightarrow> (found t' k' \<longleftrightarrow> k' = k \<or> found t k'))"

lemma branch_two_ok:
  assumes "hexkey L (c # k)" "hexkey L (d # p)" "c \<noteq> d"
  obtains nodes where "branch_two c (new_leaf k v) d (new_leaf p w) = Inr (CBranch [] [] nodes)"
    "ok L (CBranch [] [] nodes)"
    "\<And>k'. hexkey L k' \<Longrightarrow> found (CBranch [] [] nodes) k' \<longleftrightarrow> k' = c # k \<or> k' = d # p"
proof -
  let ?ns = "no_nodes[hex_val c := Some (new_leaf k v)]"
  let ?nodes = "?ns[hex_val d := Some (new_leaf p w)]"
  have leaf: "ok (L - 1) (new_leaf k v)" "ok (L - 1) (new_leaf p w)" using assms by (auto simp: new_leaf_def ok_leaf)
  have "ok L (CBranch [] [] ?nodes)" by (intro ok_update leaf ok_no_nodes) (use assms in auto)
  moreover have "found (CBranch [] [] ?nodes) k' \<longleftrightarrow> k' = c # k \<or> k' = d # p" if k': "hexkey L k'" for k'
  proof -
    obtain e r where e: "k' = e # r" "is_hex e" using k' assms(1) by (cases k') auto
    show ?thesis using assms e by (auto simp: found_update found_no_nodes found_leaf new_leaf_def)
  qed
  moreover have "branch_two c (new_leaf k v) d (new_leaf p w) = Inr (CBranch [] [] ?nodes)"
    using assms by (simp add: branch_two_def nodeIndex_hex)
  ultimately show ?thesis by (rule that[rotated])
qed

lemma ok_prefix:
  assumes "ok L t" "is_branch t" "list_all is_hex p"
  shows "ok (L + length p) (if length p \<noteq> 0 then CInfix p t else t)"
  using assms by (cases t) (auto simp: ok_infix ok_branch)

lemma newBranch_inserted:
  assumes "hexkey L k" "hexkey L p" "k \<noteq> p"
  shows "\<exists>t'. newBranch k v p w = Inr t' \<and> inserted L (CLeaf p c) k t'"
proof -
  define n where "n = commonPrefix k p"
  have n: "n < length k" "n < length p" using commonPrefix_same_length [of k p] assms by (auto simp: n_def)
  have sp: "take n k = take n p" "k ! n \<noteq> p ! n" using commonPrefix_spec [of k p] n by (auto simp: n_def)
  have kd: "drop n k = k ! n # drop (n + 1) k" "drop n p = p ! n # drop (n + 1) p"
    using n by (simp_all add: Cons_nth_drop_Suc)
  have hx: "list_all is_hex (take n k)" "hexkey (L - n) (drop n k)" "hexkey (L - n) (drop n p)"
    using assms n by (auto simp: list_all_iff dest: in_set_takeD in_set_dropD)
  obtain nodes where nodes: "branch_two (k ! n) (new_leaf (drop (n + 1) k) v) (p ! n) (new_leaf (drop (n + 1) p) w) = Inr (CBranch [] [] nodes)"
    "ok (L - n) (CBranch [] [] nodes)"
    "\<And>k'. hexkey (L - n) k' \<Longrightarrow> found (CBranch [] [] nodes) k' \<longleftrightarrow> k' = drop n k \<or> k' = drop n p"
    using branch_two_ok [where L = "L - n" and c = "k ! n" and k = "drop (n + 1) k" and d = "p ! n" and p = "drop (n + 1) p"] hx sp(2) unfolding kd by metis
  let ?t = "if n \<noteq> 0 then CInfix (take n k) (CBranch [] [] nodes) else CBranch [] [] nodes"
  have "newBranch k v p w = Inr ?t"
    using n nodes(1) by (simp add: newBranch_def n_def [symmetric] Let_def char_at_def extract_from_drop extract_q_take)
  moreover have "ok L ?t" using ok_prefix [OF nodes(2) _ hx(1)] n assms by simp
  moreover have "found ?t k' \<longleftrightarrow> k' = k \<or> k' = p" if k': "hexkey L k'" for k'
  proof -
    have "found ?t k' \<longleftrightarrow> take n k' = take n k \<and> found (CBranch [] [] nodes) (drop n k')"
      using n assms k' by (auto simp: found_infix) (metis append_take_drop_id)
    also have "\<dots> \<longleftrightarrow> take n k' = take n k \<and> (drop n k' = drop n k \<or> drop n k' = drop n p)"
      using nodes(3) [of "drop n k'"] k' by (auto simp: list_all_iff dest: in_set_dropD)
    also have "\<dots> \<longleftrightarrow> k' = k \<or> k' = p" using sp(1) by (metis append_take_drop_id)
    finally show ?thesis .
  qed
  ultimately show ?thesis by (auto simp: inserted_def found_leaf)
qed


lemma inserted_branch:
  assumes "ok L (CBranch p v nodes)" "hexkey L k"
    and IH: "\<And>c r n. k = c # r \<Longrightarrow> is_hex c \<Longrightarrow> nodes ! hex_val c = Some n \<Longrightarrow> ok (L - 1) n \<Longrightarrow> hexkey (L - 1) r \<Longrightarrow>
              \<exists>n'. tree_insert n r val = Inr n' \<and> inserted (L - 1) n r n'"
  shows "\<exists>nodes'. tree_insert (CBranch p v nodes) k val = Inr (CBranch p v nodes') \<and> inserted L (CBranch p v nodes) k (CBranch p v nodes')"
proof -
  have L: "0 < L" "length nodes = 16" using assms(1) by (simp_all add: ok_branch)
  obtain c r where k: "k = c # r" "is_hex c" "hexkey (L - 1) r" using hexkey_Cons [OF assms(2) L(1)] by blast
  have lift: "inserted L (CBranch p v nodes) k (CBranch p v (nodes[hex_val c := Some n']))"
    if n': "ok (L - 1) n'" "\<And>r'. hexkey (L - 1) r' \<Longrightarrow> found n' r' \<longleftrightarrow> r' = r \<or> found (CBranch p v nodes) (c # r')" for n'
  proof -
    have "found (CBranch p v (nodes[hex_val c := Some n'])) k' \<longleftrightarrow> k' = k \<or> found (CBranch p v nodes) k'" if k': "hexkey L k'" for k'
    proof -
      obtain d s where d: "k' = d # s" "is_hex d" "hexkey (L - 1) s" using hexkey_Cons [OF k' L(1)] by blast
      show ?thesis using n'(2) [OF d(3)] by (simp add: d k found_update L)
    qed
    then show ?thesis using ok_update [OF assms(1) n'(1)] by (simp add: inserted_def)
  qed
  show ?thesis
  proof (cases "nodes ! hex_val c")
    case None
    have "inserted L (CBranch p v nodes) k (CBranch p v (nodes[hex_val c := Some (new_leaf r val)]))"
      by (rule lift) (use k None in \<open>auto simp: new_leaf_def ok_leaf found_leaf found_branch\<close>)
    then show ?thesis using k None by (simp add: tree_insert.simps nodeIndex_hex extract_from_drop)
  next
    case (Some n)
    have "ok (L - 1) n" by (rule ok_child [OF assms(1) hex_val_less [OF k(2)] Some])
    from IH [OF k(1,2) Some this k(3)] obtain n' where n': "tree_insert n r val = Inr n'" "inserted (L - 1) n r n'" by blast
    have "inserted L (CBranch p v nodes) k (CBranch p v (nodes[hex_val c := Some n']))"
      by (rule lift) (use k Some n'(2) in \<open>auto simp: inserted_def found_branch\<close>)
    then show ?thesis using k Some n'(1) by (simp add: tree_insert.simps nodeIndex_hex extract_from_drop)
  qed
qed

lemma inserted_infix:
  assumes "inserted (L - length p) nx k nx'" "p \<noteq> []" "list_all is_hex p" "length p < L" "is_branch nx'"
  shows "inserted L (CInfix p nx) (p @ k) (CInfix p nx')"
  using assms by (auto simp: inserted_def ok_infix found_infix)

text \<open>An infix that shares no character with the key becomes a branch.\<close>

definition splits :: "tnode \<Rightarrow> string \<Rightarrow> bool" where
  "splits t k \<longleftrightarrow> (\<exists>p nx. t = CInfix p nx \<and> commonPrefix k p = 0)"

lemma commonPrefix_drop: "commonPrefix (drop (commonPrefix k p) k) (drop (commonPrefix k p) p) = 0"
proof (induction k arbitrary: p)
  case (Cons c k)
  then show ?case by (cases p) simp_all
qed simp

lemma found_infix_append: "found (CInfix (p @ q) nx) k \<longleftrightarrow> found (CInfix p (CInfix q nx)) k"
  by (auto simp: found_infix)

lemma inserted_found_cong:
  "inserted L t k t' \<Longrightarrow> (\<And>k'. hexkey L k' \<Longrightarrow> found t k' \<longleftrightarrow> found u k') \<Longrightarrow> inserted L u k t'"
  by (simp add: inserted_def)

text \<open>What is left of an infix behind its first character.\<close>

lemma branch_one_infix:
  assumes "ok L (CInfix (c # q) nx)"
  obtains ret where "branch_one c (if q = [] then nx else CInfix q nx) [] = Inr ret" "ok L ret" "is_branch ret"
    "\<And>k. hexkey L k \<Longrightarrow> found ret k \<longleftrightarrow> found (CInfix (c # q) nx) k"
proof -
  let ?n = "if q = [] then nx else CInfix q nx"
  let ?ret = "CBranch [] [] (no_nodes[hex_val c := Some ?n])"
  have c: "is_hex c" "0 < L" using assms by (auto simp: ok_infix)
  have "ok (L - 1) ?n" using assms by (auto simp: ok_infix)
  then have "ok L ?ret" by (intro ok_update ok_no_nodes c)
  moreover have "found ?ret k \<longleftrightarrow> found (CInfix (c # q) nx) k" if k: "hexkey L k" for k
  proof -
    obtain d r where d: "k = d # r" "is_hex d" using hexkey_Cons [OF k c(2)] by blast
    show ?thesis using c d by (auto simp: found_update found_no_nodes found_infix)
  qed
  ultimately show ?thesis using that [of ?ret] c by (simp add: branch_one_def nodeIndex_hex)
qed

lemma tree_insert_inserted:
  assumes "ok L t" "hexkey L k"
  shows "\<exists>t'. tree_insert t k val = Inr t' \<and> inserted L t k t' \<and> (is_branch t \<or> splits t k \<longrightarrow> is_branch t')"
  using assms
proof (induction t k val arbitrary: L rule: tree_insert.induct)
  case (1 p c key val)
  then have p: "hexkey L p" by (simp add: ok_leaf)
  show ?case
  proof (cases "key = p")
    case True
    then show ?thesis using 1 by (auto simp: tree_insert.simps leaf_contains_def inserted_def ok_leaf found_leaf splits_def)
  next
    case False
    then show ?thesis using newBranch_inserted [OF 1(2) p False]
      by (simp add: tree_insert.simps leaf_contains_def splits_def)
  qed
next
  case (2 p nx key val)
  then have p: "p \<noteq> []" "list_all is_hex p" "length p < L" "is_branch nx" "ok (L - length p) nx" by (simp_all add: ok_infix)
  show ?case
  proof (cases "infix_contains p key")
    case True
    then obtain k where k: "key = p @ k" by (auto simp: infix_contains_iff)
    then have hk: "hexkey (L - length p) k" using 2(5) by auto
    with 2(1) [OF True, of "L - length p"] k p obtain nx' where
      nx': "tree_insert nx k val = Inr nx'" "inserted (L - length p) nx k nx'" "is_branch nx'"
      by (auto simp: extract_from_drop)
    moreover have "\<not> splits (CInfix p nx) key" using p(1) k by (cases p) (auto simp: splits_def)
    ultimately show ?thesis using True k inserted_infix [OF nx'(2) p(1-3) nx'(3)]
      by (auto simp: tree_insert.simps extract_from_drop)
  next
    case infx: False
    define a where "a = commonPrefix key p"
    have a: "a \<le> length key" "a \<le> length p" "take a key = take a p"
      using commonPrefix_spec [of key p] by (auto simp: a_def)
    have "a < length p"
    proof (rule ccontr)
      assume "\<not> a < length p"
      then have "take (length p) key = p" using a by auto
      then show False using infx 2(5) p(3) by (simp add: infix_contains_def)
    qed
    note a = a this
    show ?thesis
    proof (cases "a = 0")
      case True
      obtain c q where p': "p = c # q" using p(1) by (cases p) auto
      obtain ret where ret: "branch_one c (if q = [] then nx else CInfix q nx) [] = Inr ret" "ok L ret" "is_branch ret"
        "\<And>k. hexkey L k \<Longrightarrow> found ret k \<longleftrightarrow> found (CInfix p nx) k"
        using branch_one_infix [of L c q nx] 2(4) p' by metis
      have one: "branch_one (char_at p 0) (if extract_from p 1 = [] then nx else CInfix (extract_from p 1) nx) [] = Inr ret"
        using ret(1) by (cases "q = []") (simp_all add: p' char_at_def extract_from_drop)
      obtain t' where "tree_insert ret key val = Inr t'" "inserted L ret key t'" "is_branch t'"
        using 2(3) [OF infx refl _ one ret(2) 2(5)] True ret(3) by (auto simp: a_def)
      then show ?thesis
        using inserted_found_cong [OF _ ret(4), of L key t'] infx True one
        by (auto simp: tree_insert.simps(2) a_def [symmetric] Let_def)
    next
      case False
      have okd: "ok (L - a) (CInfix (drop a p) nx)"
        using p a(4) by (auto simp: ok_infix list_all_iff dest: in_set_dropD)
      have hk: "hexkey (L - a) (drop a key)" using 2(5) by (auto simp: list_all_iff dest: in_set_dropD)
      have hta: "list_all is_hex (take a key)" using 2(5) by (auto simp: list_all_iff dest: in_set_takeD)
      have sp: "splits (CInfix (drop a p) nx) (drop a key)" by (simp add: splits_def a_def commonPrefix_drop)
      obtain t' where t': "tree_insert (CInfix (drop a p) nx) (drop a key) val = Inr t'"
        "inserted (L - a) (CInfix (drop a p) nx) (drop a key) t'" "is_branch t'"
        using 2(2) [OF infx refl, of "L - a"] False okd hk sp by (auto simp: a_def [symmetric] extract_from_drop)
      have "inserted L (CInfix (take a key) (CInfix (drop a p) nx)) (take a key @ drop a key) (CInfix (take a key) t')"
        by (rule inserted_infix) (use t' False a(1,4) hta 2(5) p(3) in auto)
      then have "inserted L (CInfix p nx) key (CInfix (take a key) t')"
        unfolding append_take_drop_id
        by (rule inserted_found_cong) (simp only: a(3) found_infix_append [symmetric] append_take_drop_id)
      then show ?thesis using infx False t'(1)
        by (simp add: tree_insert.simps(2) a_def [symmetric] Let_def extract_from_drop extract_q_take splits_def)
    qed
  qed
next
  case (3 p v nodes key val)
  have v: "v = []" using 3(2) by (simp add: ok_branch)
  obtain nodes' where "tree_insert (CBranch p v nodes) key val = Inr (CBranch p v nodes')" "inserted L (CBranch p v nodes) key (CBranch p v nodes')"
  proof -
    have "\<exists>n'. tree_insert n r val = Inr n' \<and> inserted (L - 1) n r n'"
      if "key = c # r" "is_hex c" "nodes ! hex_val c = Some n" "ok (L - 1) n" "hexkey (L - 1) r" for c r n
      using 3(1) [of "hex_val c" n "L - 1"] that by (simp add: nodeIndex_hex extract_from_drop) blast
    then show thesis using that inserted_branch [OF 3(2,3), of val] by blast
  qed
  then show ?case by simp
qed

section \<open>A common beginning of all keys\<close>

text \<open>
  Addresses begin with \<^verbatim>\<open>0x\<close>, and the place of \<^verbatim>\<open>x\<close> is that of \<^verbatim>\<open>1\<close>: the tree over
  addresses is the tree over their digits with the beginning before its root.
\<close>

fun wrap :: "string \<Rightarrow> tnode \<Rightarrow> tnode" where
  "wrap pre (CLeaf p c) = CLeaf (pre @ p) c"
| "wrap pre (CInfix p nx) = CInfix (pre @ p) nx"
| "wrap pre (CBranch p v nodes) = CInfix pre (CBranch p v nodes)"

lemma wrap_branch: "is_branch t \<Longrightarrow> wrap pre t = CInfix pre t"
  by (cases t) auto

lemma tree_at_wrap: "tree_at (wrap pre t) (pre @ k) = tree_at t k"
  by (cases t) (auto simp: tree_at.simps leaf_contains_def infix_contains_def extract_from_drop)

lemma commonPrefix_append: "commonPrefix (pre @ k) (pre @ p) = length pre + commonPrefix k p"
  by (induction pre) auto

lemma infix_contains_append: "infix_contains (pre @ p) (pre @ k) \<longleftrightarrow> infix_contains p k"
  by (auto simp: infix_contains_iff)

lemma newBranch_wrap:
  assumes "length k = length p" "k \<noteq> p" "pre \<noteq> []" "newBranch k v p w = Inr t'"
  shows "newBranch (pre @ k) v (pre @ p) w = Inr (wrap pre t')"
proof -
  define n where "n = commonPrefix k p"
  have n: "n < length k" "n < length p" using commonPrefix_same_length [of k p] assms by (auto simp: n_def)
  obtain ret where ret: "branch_two (k ! n) (new_leaf (drop (n + 1) k) v) (p ! n) (new_leaf (drop (n + 1) p) w) = Inr ret"
      "t' = (if n \<noteq> 0 then CInfix (take n k) ret else ret)"
    using assms(4) n by (auto simp: newBranch_def Let_def n_def [symmetric] char_at_def extract_from_drop extract_q_take bindR_eq_Inr_iff)
  have "is_branch ret" using ret(1) by (auto simp: branch_two_def bindR_eq_Inr_iff)
  then show ?thesis using ret n assms(3)
    by (simp add: newBranch_def Let_def commonPrefix_append n_def [symmetric] char_at_def nth_append extract_from_drop extract_q_take wrap_branch)
qed

lemma tree_insert_is_branch: "is_branch t \<Longrightarrow> tree_insert t k v = Inr t' \<Longrightarrow> is_branch t'"
  by (cases t) (auto simp: tree_insert.simps bindR_eq_Inr_iff split: if_splits sum.splits option.splits)

lemma tree_insert_wrap:
  assumes "ok L t" "hexkey L k" "pre \<noteq> []" "tree_insert t k v = Inr t'"
  shows "tree_insert (wrap pre t) (pre @ k) v = Inr (wrap pre t')"
proof (cases t)
  case (CLeaf p c)
  then have "hexkey L p" using assms(1) by (simp add: ok_leaf)
  then show ?thesis using assms newBranch_wrap [of k p pre v "[]" t'] CLeaf
    by (cases "k = p") (auto simp: tree_insert.simps leaf_contains_def)
next
  case (CBranch p u nodes)
  then show ?thesis using assms(4) tree_insert_is_branch [of t k v t']
    by (simp add: tree_insert.simps(2) infix_contains_def extract_from_drop wrap_branch)
next
  case (CInfix p nx)
  define a where "a = commonPrefix k p"
  consider "infix_contains p k" | "\<not> infix_contains p k" "a = 0" | "\<not> infix_contains p k" "a \<noteq> 0" by blast
  then show ?thesis
  proof cases
    case 1
    obtain nx' where "tree_insert nx (drop (length p) k) v = Inr nx'" "t' = CInfix p nx'"
      using assms(4) 1 CInfix by (auto simp: tree_insert.simps(2) [of p] extract_from_drop bindR_eq_Inr_iff)
    then show ?thesis using 1 CInfix
      by (simp add: tree_insert.simps(2) [of "pre @ p"] infix_contains_append extract_from_drop)
  next
    case 2
    have "is_branch t'" using tree_insert_inserted [OF assms(1,2), of v] assms(4) 2 CInfix by (auto simp: splits_def a_def)
    moreover have "tree_insert (CInfix p nx) k v = Inr t'" using assms(4) CInfix by simp
    ultimately show ?thesis using 2 CInfix assms(3)
      by (simp add: tree_insert.simps(2) [of "pre @ p"] infix_contains_append commonPrefix_append a_def Let_def extract_from_drop
            extract_q_take wrap_branch)
  next
    case 3
    obtain n where "tree_insert (CInfix (drop a p) nx) (drop a k) v = Inr n" "t' = CInfix (take a k) n"
      using assms(4) 3 CInfix
      by (auto simp: tree_insert.simps(2) [of p] a_def [symmetric] Let_def extract_from_drop extract_q_take bindR_eq_Inr_iff)
    then show ?thesis using 3 CInfix
      by (simp add: tree_insert.simps(2) [of "pre @ p"] infix_contains_append commonPrefix_append a_def [symmetric] Let_def
            extract_from_drop extract_q_take)
  qed
qed

section \<open>Addresses\<close>

text \<open>The tree answers for exactly the addresses of a set.\<close>

definition holds :: "troot \<Rightarrow> string set \<Rightarrow> bool" where
  "holds root A \<longleftrightarrow>
     (case root of
        None \<Rightarrow> A = {}
      | Some n \<Rightarrow> \<exists>t. n = wrap ''0x'' t \<and> ok 40 t \<and> (\<forall>k. hexkey 40 k \<longrightarrow> (found t k \<longleftrightarrow> ''0x'' @ k \<in> A)))"

fun insert_all :: "(string \<times> string) list \<Rightarrow> troot \<Rightarrow> troot result" where
  "insert_all [] root = Inr root"
| "insert_all ((k, v) # kvs) root = bindR (root_insert root k v) (insert_all kvs)"

lemma holds_insert:
  assumes "holds root A" "A \<subseteq> Collect valid_addr" "valid_addr k" "v \<noteq> []"
  shows "\<exists>root'. root_insert root k v = Inr root' \<and> holds root' (insert k A)"
proof -
  obtain r where r: "k = ''0x'' @ r" "hexkey 40 r" using assms(3) by (auto elim: valid_addrE)
  show ?thesis
  proof (cases root)
    case None
    then have "holds (Some (wrap ''0x'' (CLeaf r 1))) (insert k A)"
      using assms(1) r unfolding holds_def by (auto simp: ok_leaf found_leaf simp del: wrap.simps intro!: exI [of _ "CLeaf r 1"])
    then show ?thesis using None assms(4) r by (simp add: root_insert_def new_leaf_def)
  next
    case (Some n)
    then obtain t where t: "n = wrap ''0x'' t" "ok 40 t" "\<And>k. hexkey 40 k \<Longrightarrow> found t k \<longleftrightarrow> ''0x'' @ k \<in> A"
      using assms(1) by (auto simp: holds_def)
    obtain t' where t': "tree_insert t r v = Inr t'" "inserted 40 t r t'" using tree_insert_inserted [OF t(2) r(2), of v] by blast
    have "tree_insert n k v = Inr (wrap ''0x'' t')" unfolding t(1) r(1) by (rule tree_insert_wrap [OF t(2) r(2) _ t'(1)]) simp
    moreover have "holds (Some (wrap ''0x'' t')) (insert k A)"
      using t'(2) t(3) r by (auto simp: holds_def inserted_def intro!: exI [of _ t'])
    ultimately show ?thesis using Some assms(4) by (simp add: root_insert_def)
  qed
qed

lemma insert_all_holds:
  assumes "holds root A" "A \<subseteq> Collect valid_addr" "\<And>k v. (k, v) \<in> set kvs \<Longrightarrow> valid_addr k \<and> v \<noteq> []"
  shows "\<exists>root'. insert_all kvs root = Inr root' \<and> holds root' (A \<union> fst ` set kvs)"
  using assms
proof (induction kvs arbitrary: root A)
  case (Cons kv kvs)
  obtain k v where kv: "kv = (k, v)" by (cases kv)
  then have k: "valid_addr k" "v \<noteq> []" using Cons.prems(3) [of k v] by auto
  obtain root1 where r1: "root_insert root k v = Inr root1" "holds root1 (insert k A)"
    using holds_insert [OF Cons.prems(1,2) k] by blast
  have "insert k A \<subseteq> Collect valid_addr" using Cons.prems(2) k by auto
  from Cons.IH [OF r1(2) this] Cons.prems(3) obtain root' where
    "insert_all kvs root1 = Inr root'" "holds root' (insert k A \<union> fst ` set kvs)" by auto
  then show ?case using r1(1) kv by simp
qed simp

lemma holds_at:
  assumes "holds root A" "valid_addr k"
  shows "\<exists>s. root_at root k = Inr s \<and> (s \<noteq> [] \<longleftrightarrow> k \<in> A)"
proof (cases root)
  case (Some n)
  obtain r where r: "k = ''0x'' @ r" "hexkey 40 r" using assms(2) by (auto elim: valid_addrE)
  obtain t where t: "n = wrap ''0x'' t" "ok 40 t" "\<And>k. hexkey 40 k \<Longrightarrow> found t k \<longleftrightarrow> ''0x'' @ k \<in> A"
    using assms(1) Some by (auto simp: holds_def)
  obtain s where "tree_at t r = Inr s" using tree_at_ok [OF t(2) r(2)] by blast
  then show ?thesis using t(3) [OF r(2)] unfolding Some root_at_def option.case t(1) r(1) tree_at_wrap by (simp add: found_def)
qed (use assms in \<open>simp add: root_at_def holds_def\<close>)

section \<open>Removing\<close>

text \<open>The prefix of an infix goes to the member \<^verbatim>\<open>prefixS\<close> of the branch below.\<close>

lemma tree_remove_infix:
  "tree_remove b k = Inr (Some (CBranch q v nodes)) \<Longrightarrow> tree_remove (CInfix p b) (p @ k) = Inr (Some (CBranch (p @ q) v nodes))"
  by (simp add: tree_remove.simps(2) infix_contains_def extract_from_drop)

lemma tree_at_prefix: "tree_at (CBranch p v nodes) k = tree_at (CBranch q v nodes) k"
  by (simp add: tree_at.simps(3))

lemma addr_places: "valid_addr a \<Longrightarrow> c \<in> set a \<Longrightarrow> \<exists>i < 16. nodeIndex c = Inr i"
proof -
  assume a: "valid_addr a" "c \<in> set a"
  have "c = CHR ''x'' \<or> is_hex c" using a by (auto elim!: valid_addrE simp: list_all_iff is_hex_def)
  moreover have "nodeIndex (CHR ''x'') = Inr 1" by code_simp
  ultimately show ?thesis using nodeIndex_hex [of c] hex_val_less [of c] by fastforce
qed

end
