(* ===== verification/AcctTree_Count.thy ===== *)
theory AcctTree_Count
  imports AcctTree_Correct
begin

text \<open>
  The counters of the tree of accounts: what every insertion does to all of them, and what
  is left of a tree after a removal.
\<close>

section \<open>Counters\<close>

function cnt :: "tnode \<Rightarrow> string \<Rightarrow> 64 word option" where
  "cnt (CLeaf p c) k = (if k = p then Some c else None)"
| "cnt (CInfix p nx) k = (if infix_contains p k then cnt nx (drop (length p) k) else None)"
| "cnt (CBranch p v nodes) k =
     (case k of [] \<Rightarrow> None | c # r \<Rightarrow> (case nodes ! hex_val c of Some n \<Rightarrow> cnt n r | None \<Rightarrow> None))"
  by pat_completeness auto
termination
  by (relation "measures [\<lambda>(n, key). length key, \<lambda>(n, key). chain n]") (auto simp: infix_contains_def neq_Nil_conv)

declare cnt.simps [simp del]

lemma cnt_leaf [simp]: "cnt (CLeaf p c) k = (if k = p then Some c else None)"
  by (simp add: cnt.simps)

lemma cnt_branch [simp]: "cnt (CBranch p v nodes) (c # r) = (case nodes ! hex_val c of Some n \<Rightarrow> cnt n r | None \<Rightarrow> None)"
  by (simp add: cnt.simps)

lemma cnt_infix [simp]: "cnt (CInfix p nx) (p @ k) = cnt nx k"
  by (simp add: cnt.simps infix_contains_iff)

lemma cnt_infix_Some: "cnt (CInfix p nx) k = Some c \<longleftrightarrow> (\<exists>k'. k = p @ k' \<and> cnt nx k' = Some c)"
  by (auto simp: cnt.simps(2) infix_contains_iff)

lemma cnt_infix_None: "\<not> infix_contains p k \<Longrightarrow> cnt (CInfix p nx) k = None"
  by (simp add: cnt.simps)

lemma tree_at_cnt:
  "ok L t \<Longrightarrow> hexkey L k \<Longrightarrow> tree_at t k = Inr (case cnt t k of None \<Rightarrow> [] | Some c \<Rightarrow> uint_2_Str c)"
proof (induction arbitrary: k rule: ok.induct)
  case (ok_leafI L p c)
  then show ?case by (simp add: tree_at.simps leaf_contains_def)
next
  case (ok_infixI p L nx)
  then show ?case
    by (cases "infix_contains p k") (auto simp: tree_at.simps extract_from_drop infix_contains_iff cnt_infix_None)
next
  case (ok_branchI L nodes p)
  then obtain c r where k: "k = c # r" "is_hex c" "hexkey (L - 1) r" using hexkey_Cons [of k L] by blast
  show ?case
  proof (cases "nodes ! hex_val c")
    case (Some n)
    then have "Some n \<in> set nodes" using hex_val_less [OF k(2)] ok_branchI(2) by (metis nth_mem)
    from ok_branchI(4) [OF this k(3)] show ?thesis
      using k Some by (simp add: tree_at.simps nodeIndex_hex extract_from_drop)
  qed (simp add: tree_at.simps k nodeIndex_hex)
qed

definition keys :: "nat \<Rightarrow> tnode \<Rightarrow> string set" where
  "keys L t = {k. hexkey L k \<and> cnt t k \<noteq> None}"

text \<open>Every branch has two children at least.\<close>

inductive rich :: "tnode \<Rightarrow> bool" where
  rich_leafI: "rich (CLeaf p c)"
| rich_infixI: "rich nx \<Longrightarrow> rich (CInfix p nx)"
| rich_branchI: "is_hex c \<Longrightarrow> is_hex d \<Longrightarrow> c \<noteq> d \<Longrightarrow> nodes ! hex_val c \<noteq> None \<Longrightarrow> nodes ! hex_val d \<noteq> None \<Longrightarrow>
    (\<And>n. Some n \<in> set nodes \<Longrightarrow> rich n) \<Longrightarrow> rich (CBranch p v nodes)"

inductive_simps rich_leaf [simp]: "rich (CLeaf p c)"
inductive_simps rich_infix [simp]: "rich (CInfix p nx)"
inductive_cases rich_branchE: "rich (CBranch p v nodes)"

lemma rich_child: "rich (CBranch p v nodes) \<Longrightarrow> length nodes = 16 \<Longrightarrow> is_hex c \<Longrightarrow> nodes ! hex_val c = Some n \<Longrightarrow> rich n"
  using hex_val_less [of c] by (metis nth_mem rich_branchE)

lemma keys_ne: "ok L t \<Longrightarrow> rich t \<Longrightarrow> \<exists>k. k \<in> keys L t"
proof (induction rule: ok.induct)
  case (ok_leafI L p c)
  then show ?case by (auto simp: keys_def)
next
  case (ok_infixI p L nx)
  then obtain k where "k \<in> keys (L - length p) nx" by auto
  then have "p @ k \<in> keys L (CInfix p nx)" using ok_infixI by (auto simp: keys_def)
  then show ?case ..
next
  case (ok_branchI L nodes p)
  from ok_branchI.prems obtain c where c: "is_hex c" "nodes ! hex_val c \<noteq> None" by (auto elim: rich_branchE)
  then obtain n where n: "nodes ! hex_val c = Some n" by blast
  then have "Some n \<in> set nodes" "rich n"
    using hex_val_less [OF c(1)] ok_branchI rich_child [OF ok_branchI.prems ok_branchI(2) c(1) n] by (metis nth_mem)+
  then obtain k where "k \<in> keys (L - 1) n" using ok_branchI by blast
  then have "c # k \<in> keys L (CBranch p [] nodes)" using c n ok_branchI(1) by (auto simp: keys_def)
  then show ?case ..
qed

text \<open>Beside a key of a branch there is another one that differs in the first character.\<close>

lemma branch_other:
  assumes "ok L (CBranch p v nodes)" "rich (CBranch p v nodes)" "is_hex e"
  shows "\<exists>d k. d \<noteq> e \<and> d # k \<in> keys L (CBranch p v nodes)"
proof -
  obtain c d where cd: "is_hex c" "is_hex d" "c \<noteq> d" "nodes ! hex_val c \<noteq> None" "nodes ! hex_val d \<noteq> None"
    using assms(2) by (auto elim: rich_branchE)
  define x where "x = (if c = e then d else c)"
  have x: "is_hex x" "x \<noteq> e" "nodes ! hex_val x \<noteq> None" using cd by (auto simp: x_def)
  then obtain n where n: "nodes ! hex_val x = Some n" by blast
  have L: "0 < L" "length nodes = 16" using assms(1) by (simp_all add: ok_branch)
  have "ok (L - 1) n" by (rule ok_child [OF assms(1) hex_val_less [OF x(1)] n])
  moreover have "rich n" by (rule rich_child [OF assms(2) L(2) x(1) n])
  ultimately obtain k where "k \<in> keys (L - 1) n" using keys_ne by blast
  then have "x # k \<in> keys L (CBranch p v nodes)" using x(1) n L(1) by (auto simp: keys_def)
  then show ?thesis using x(2) by blast
qed

section \<open>Inserting\<close>

text \<open>
  The key of a leaf is split by another key that has a longer beginning in common with it
  than all other keys have.
\<close>

definition split_by :: "string set \<Rightarrow> string \<Rightarrow> string \<Rightarrow> bool" where
  "split_by S p k \<longleftrightarrow> (\<forall>q \<in> S. q \<noteq> p \<longrightarrow> commonPrefix p q < commonPrefix p k)"

definition counted :: "nat \<Rightarrow> tnode \<Rightarrow> string \<Rightarrow> tnode \<Rightarrow> bool" where
  "counted L t k t' \<longleftrightarrow> rich t' \<and> cnt t' k = Some (case cnt t k of None \<Rightarrow> 1 | Some c \<Rightarrow> c + 1) \<and>
     (\<forall>p. hexkey L p \<longrightarrow> p \<noteq> k \<longrightarrow>
        cnt t' p = (case cnt t p of None \<Rightarrow> None | Some c \<Rightarrow> Some (if split_by (keys L t) p k then 1 else c)))"

lemma keys_infix: "length p \<le> L \<Longrightarrow> list_all is_hex p \<Longrightarrow> keys L (CInfix p nx) = (@) p ` keys (L - length p) nx"
  by (auto simp: keys_def cnt_infix_Some image_iff list_all_append)

lemma split_by_append: "split_by ((@) a ` S) (a @ p) (a @ k) \<longleftrightarrow> split_by S p k"
  by (auto simp: split_by_def commonPrefix_append)

lemma counted_infix:
  assumes "counted (L - length p) nx k nx'" "length p \<le> L" "list_all is_hex p" "hexkey (L - length p) k"
  shows "counted L (CInfix p nx) (p @ k) (CInfix p nx')"
proof -
  have "cnt (CInfix p nx') q = (case cnt (CInfix p nx) q of None \<Rightarrow> None
      | Some c \<Rightarrow> Some (if split_by (keys L (CInfix p nx)) q (p @ k) then 1 else c))"
    if q: "hexkey L q" "q \<noteq> p @ k" for q
  proof (cases "infix_contains p q")
    case True
    then obtain r where r: "q = p @ r" by (auto simp: infix_contains_iff)
    then have "hexkey (L - length p) r" "r \<noteq> k" using q by auto
    then show ?thesis using assms(1) unfolding r keys_infix [OF assms(2,3)] split_by_append by (simp add: counted_def)
  qed (simp add: cnt_infix_None)
  then show ?thesis using assms(1) by (simp add: counted_def)
qed

lemma counted_cong:
  assumes "counted L t k t'" "\<And>q. cnt t q = cnt u q"
  shows "counted L u k t'"
proof -
  have c: "cnt t = cnt u" using assms(2) by (rule ext)
  then have k: "keys L t = keys L u" by (simp only: keys_def)
  show ?thesis using assms(1) unfolding counted_def c k .
qed

lemma rich_update:
  assumes "rich (CBranch p v nodes)" "length nodes = 16" "rich n" "is_hex e"
  shows "rich (CBranch p v (nodes[hex_val e := Some n]))"
proof -
  obtain c d where cd: "is_hex c" "is_hex d" "c \<noteq> d" "nodes ! hex_val c \<noteq> None" "nodes ! hex_val d \<noteq> None"
    "\<And>n. Some n \<in> set nodes \<Longrightarrow> rich n" using assms(1) by (auto elim: rich_branchE)
  have "(nodes[hex_val e := Some n]) ! hex_val x \<noteq> None" if "is_hex x" "nodes ! hex_val x \<noteq> None" for x
    using that hex_val_less [of e] assms(2,4) by (cases "hex_val x = hex_val e") auto
  moreover have "rich m" if "Some m \<in> set (nodes[hex_val e := Some n])" for m
    using that assms(3) cd(6) set_update_subset_insert [of nodes "hex_val e" "Some n"] by auto
  ultimately show ?thesis using rich_branchI [OF cd(1-3)] cd(1,2,4,5) by blast
qed

lemma cnt_update:
  assumes "length nodes = 16" "is_hex c" "is_hex d"
  shows "cnt (CBranch p v (nodes[hex_val c := Some n])) (d # k) = (if d = c then cnt n k else cnt (CBranch p v nodes) (d # k))"
  using assms hex_val_less [of c] hex_val_inj [of c d] by auto

lemma cnt_no_nodes: "is_hex c \<Longrightarrow> cnt (CBranch p v no_nodes) (c # k) = None"
  using hex_val_less [of c] by (simp add: no_nodes_def)

text \<open>A branch with two children.\<close>

lemma two_children:
  assumes "is_hex c" "is_hex d" "c \<noteq> d" "rich n" "rich m"
  defines "t \<equiv> CBranch [] [] (no_nodes[hex_val c := Some n, hex_val d := Some m])"
  shows "rich t" "is_hex e \<Longrightarrow> cnt t (e # k) = (if e = d then cnt m k else if e = c then cnt n k else None)"
proof -
  have ne: "hex_val c \<noteq> hex_val d" "hex_val c < 16" "hex_val d < 16"
    using assms(1-3) hex_val_inj [of c d] hex_val_less [of c] hex_val_less [of d] by auto
  have "set (no_nodes[hex_val c := Some n, hex_val d := Some m]) \<subseteq> {Some m, Some n, None}"
    using set_update_subset_insert [of "no_nodes[hex_val c := Some n]" "hex_val d" "Some m"]
      set_update_subset_insert [of no_nodes "hex_val c" "Some n"] by (auto simp: no_nodes_def)
  then show "rich t" unfolding t_def using assms(4,5) ne by (intro rich_branchI [OF assms(1-3)]) auto
  show "cnt t (e # k) = (if e = d then cnt m k else if e = c then cnt n k else None)" if "is_hex e"
    using that assms(1-3) by (simp add: t_def cnt_update cnt_no_nodes del: cnt_branch)
qed

lemma newBranch_counted:
  assumes "hexkey L k" "hexkey L p" "k \<noteq> p" "newBranch k v p w = Inr t'"
  shows "counted L (CLeaf p c) k t'"
proof -
  define n where "n = commonPrefix k p"
  have n: "n < length k" "n < length p" using commonPrefix_same_length [of k p] assms by (auto simp: n_def)
  have sp: "take n k = take n p" "k ! n \<noteq> p ! n" using commonPrefix_spec [of k p] n by (auto simp: n_def)
  have hx: "is_hex (k ! n)" "is_hex (p ! n)" using assms(1,2) n by (simp_all add: list_all_length)
  have kd: "drop n k = k ! n # drop (n + 1) k" "drop n p = p ! n # drop (n + 1) p"
    using n by (simp_all add: Cons_nth_drop_Suc)
  define b where "b = CBranch [] [] (no_nodes[hex_val (k ! n) := Some (CLeaf (drop (n + 1) k) 1), hex_val (p ! n) := Some (CLeaf (drop (n + 1) p) 1)])"
  have t': "t' = (if n \<noteq> 0 then CInfix (take n k) b else b)"
    using assms(4) n hx
    by (auto simp: newBranch_def n_def [symmetric] Let_def char_at_def extract_from_drop extract_q_take branch_two_def nodeIndex_hex
        new_leaf_def b_def)
  note two = two_children [OF hx sp(2), of "CLeaf (drop (n + 1) k) 1" "CLeaf (drop (n + 1) p) 1", folded b_def]
  have cb: "cnt b r = (if r = drop n k \<or> r = drop n p then Some 1 else None)" if h: "hexkey (L - n) r" for r
  proof -
    obtain e s where r: "r = e # s" "is_hex e" using h n assms(1) by (cases r) auto
    show ?thesis unfolding r(1) two(2) [OF rich_leafI rich_leafI r(2)] kd using sp(2) by auto
  qed
  have ct: "cnt t' q = (if q = k \<or> q = p then Some 1 else None)" if q: "hexkey L q" for q
  proof -
    have h: "hexkey (L - n) (drop n q)" using q by (auto simp: list_all_iff dest: in_set_dropD)
    have q': "q = take n q @ drop n q" "k = take n k @ drop n k" "p = take n k @ drop n p"
      by simp_all (simp add: sp(1))
    show ?thesis
    proof (cases "take n q = take n k")
      case True
      then have "q = k \<or> q = p \<longleftrightarrow> drop n q = drop n k \<or> drop n q = drop n p"
        using q' by (metis append_take_drop_id sp(1))
      moreover have "cnt (CInfix (take n k) b) q = cnt b (drop n q)"
        using cnt_infix [of "take n k" b "drop n q"] True by (metis append_take_drop_id)
      then have "cnt t' q = cnt b (drop n q)" by (simp add: t')
      ultimately show ?thesis using cb [OF h] by simp
    next
      case False
      then have "n \<noteq> 0" by (cases n) simp_all
      moreover have "q \<noteq> k" "q \<noteq> p" "\<not> infix_contains (take n k) q"
        using False sp(1) n by (auto simp: infix_contains_def)
      ultimately show ?thesis by (simp add: t' cnt_infix_None)
    qed
  qed
  have "rich t'" using two(1) by (simp add: t')
  then show ?thesis using ct assms(1-3) by (auto simp: counted_def keys_def split_by_def)
qed

lemma branch_counted:
  assumes "ok L (CBranch p v nodes)" "rich (CBranch p v nodes)" "is_hex c" "rich n'"
    and "cnt n' r = Some (case cnt (CBranch p v nodes) (c # r) of None \<Rightarrow> 1 | Some x \<Rightarrow> x + 1)"
    and same: "\<And>q. hexkey (L - 1) q \<Longrightarrow> q \<noteq> r \<Longrightarrow> cnt n' q = (case cnt (CBranch p v nodes) (c # q) of None \<Rightarrow> None
        | Some x \<Rightarrow> Some (if split_by (keys L (CBranch p v nodes)) (c # q) (c # r) then 1 else x))"
  shows "counted L (CBranch p v nodes) (c # r) (CBranch p v (nodes[hex_val c := Some n']))"
proof -
  let ?t = "CBranch p v nodes" and ?t' = "CBranch p v (nodes[hex_val c := Some n'])"
  have L: "0 < L" "length nodes = 16" using assms(1) by (simp_all add: ok_branch)
  have "cnt ?t' q = (case cnt ?t q of None \<Rightarrow> None | Some x \<Rightarrow> Some (if split_by (keys L ?t) q (c # r) then 1 else x))"
    if q: "hexkey L q" "q \<noteq> c # r" for q
  proof -
    obtain d s where d: "q = d # s" "is_hex d" "hexkey (L - 1) s" using hexkey_Cons [OF q(1) L(1)] by blast
    show ?thesis
    proof (cases "d = c")
      case True
      then have "s \<noteq> r" using q(2) d(1) by simp
      from same [OF d(3) this] show ?thesis unfolding d(1) True cnt_update [OF L(2) assms(3,3)] if_P [OF refl] .
    next
      case False
      obtain e k where ek: "e \<noteq> d" "e # k \<in> keys L ?t" using branch_other [OF assms(1,2) d(2)] by blast
      have "\<not> split_by (keys L ?t) q (c # r)" using ek False d(1) unfolding split_by_def by force
      then show ?thesis using False d by (auto simp: cnt_update [OF L(2) assms(3)] simp del: cnt_branch split: option.split)
    qed
  qed
  then show ?thesis using assms(5) rich_update [OF assms(2) L(2) assms(4,3)]
    by (simp add: counted_def cnt_update [OF L(2) assms(3,3)] del: cnt_branch)
qed

lemma tree_insert_counted:
  assumes "ok L t" "rich t" "hexkey L k" "tree_insert t k v = Inr t'"
  shows "counted L t k t'"
  using assms
proof (induction t k v arbitrary: L t' rule: tree_insert.induct)
  case (1 p c k v)
  show ?case
  proof (cases "k = p")
    case True
    then show ?thesis using 1 by (auto simp: tree_insert.simps leaf_contains_def counted_def)
  next
    case False
    then show ?thesis using 1 newBranch_counted [of k L p v "[]" t' c]
      by (simp add: tree_insert.simps leaf_contains_def ok_leaf)
  qed
next
  case (2 p nx k v)
  then have p: "p \<noteq> []" "list_all is_hex p" "length p < L" "is_branch nx" "ok (L - length p) nx" "rich nx" by (simp_all add: ok_infix)
  show ?case
  proof (cases "infix_contains p k")
    case True
    then obtain r where r: "k = p @ r" by (auto simp: infix_contains_iff)
    then obtain nx' where nx': "tree_insert nx r v = Inr nx'" "t' = CInfix p nx'"
      using 2(7) True by (auto simp: tree_insert.simps(2) extract_from_drop bindR_eq_Inr_iff)
    have hr: "hexkey (L - length p) r" using 2(6) r by auto
    then have "counted (L - length p) nx r nx'" using 2(1) [OF True p(5,6)] r nx'(1) by (simp add: extract_from_drop)
    then show ?thesis unfolding r nx'(2) by (rule counted_infix) (use p hr in simp_all)
  next
    case infx: False
    define a where "a = commonPrefix k p"
    have a: "a \<le> length k" "a \<le> length p" "take a k = take a p" "a < length k \<longrightarrow> a < length p \<longrightarrow> k ! a \<noteq> p ! a"
      using commonPrefix_spec [of k p] by (auto simp: a_def)
    have "a < length p"
    proof (rule ccontr)
      assume "\<not> a < length p"
      then have "take (length p) k = p" using a by auto
      then show False using infx 2(6) p(3) by (simp add: infix_contains_def)
    qed
    note a = a this
    show ?thesis
    proof (cases "a = 0")
      case True
      obtain c q where p': "p = c # q" using p(1) by (cases p) auto
      obtain d r where k': "k = d # r" "is_hex d" using 2(6) p(3) by (cases k) auto
      have cd: "is_hex c" "d \<noteq> c" using p(2) p' k' True a(4) by auto
      let ?n = "if q = [] then nx else CInfix q nx"
      have len: "length (no_nodes[hex_val c := Some ?n]) = 16" by simp
      have "t' = CBranch [] [] (no_nodes[hex_val c := Some ?n, hex_val d := Some (CLeaf r 1)])"
        using 2(7) infx True cd k' p' hex_val_less [OF k'(2)] hex_val_inj [of c d]
        by (cases "q = []")
          (simp_all add: tree_insert.simps(2) tree_insert.simps(3) a_def [symmetric] Let_def branch_one_def nodeIndex_hex char_at_def
            extract_from_drop new_leaf_def no_nodes_def)
      then have t': "rich t'" "\<And>e s. is_hex e \<Longrightarrow> cnt t' (e # s) = (if e = d then cnt (CLeaf r 1) s else if e = c then cnt ?n s else None)"
        using two_children [OF cd(1) k'(2), of ?n "CLeaf r 1"] cd(2) p(6) by auto
      obtain P V ns where nx: "nx = CBranch P V ns" using p(4) by (cases nx) auto
      have other: "cnt t' s = (case cnt (CInfix p nx) s of None \<Rightarrow> None
          | Some x \<Rightarrow> Some (if split_by (keys L (CInfix p nx)) s k then 1 else x))" if s: "hexkey L s" "s \<noteq> k" for s
      proof (cases "infix_contains p s")
        case True
        then obtain s' where s': "s = p @ s'" by (auto simp: infix_contains_iff)
        have "hexkey (L - length p) s'" "0 < L - length p" using s(1) s' p(3) by auto
        then obtain e s'' where e: "s' = e # s''" "is_hex e" using hexkey_Cons by blast
        obtain f u where f: "f \<noteq> e" "f # u \<in> keys (L - length p) nx"
          using branch_other [of "L - length p" P V ns e] p(5,6) e(2) unfolding nx by blast
        have "p @ f # u \<in> keys L (CInfix p nx)" using f(2) p(2,3) by (simp add: keys_infix)
        moreover have "p @ f # u \<noteq> s" "\<not> commonPrefix s (p @ f # u) < commonPrefix s k"
          using f(1) cd(2) unfolding s' e(1) k'(1) p' by (simp_all add: commonPrefix_append [of "c # q", simplified])
        ultimately have "\<not> split_by (keys L (CInfix p nx)) s k" unfolding split_by_def by blast
        moreover have "cnt t' s = cnt (CInfix p nx) s"
        proof -
          have "cnt t' s = cnt ?n (q @ s')" using t'(2) [OF cd(1), of "q @ s'"] cd(2) s' p' by simp
          also have "\<dots> = cnt nx s'" by simp
          finally show ?thesis by (simp add: s')
        qed
        ultimately show ?thesis by (simp split: option.split)
      next
        case False
        obtain e s' where e: "s = e # s'" "is_hex e" using s(1) p(3) by (cases s) auto
        have "cnt t' s = None"
        proof (cases "e = c")
          case True
          then have "\<not> infix_contains q s'" using False e(1) p' by (auto simp: infix_contains_iff)
          then show ?thesis using t'(2) [OF e(2)] True cd(2) e(1) False p' by (cases "q = []") (auto simp: cnt_infix_None infix_contains_def)
        qed (use t'(2) [OF e(2)] s(2) e(1) k' in auto)
        then show ?thesis using False by (simp add: cnt_infix_None)
      qed
      have "cnt t' k = Some 1" "cnt (CInfix p nx) k = None"
        using infx by (simp_all add: cnt_infix_None) (simp add: k' t'(2))
      then show ?thesis by (simp add: counted_def t'(1) other)
    next
      case False
      have okd: "ok (L - a) (CInfix (drop a p) nx)"
        using p a(5) by (auto simp: ok_infix list_all_iff dest: in_set_dropD)
      have hk: "hexkey (L - a) (drop a k)" using 2(6) by (auto simp: list_all_iff dest: in_set_dropD)
      have hta: "list_all is_hex (take a k)" using 2(6) by (auto simp: list_all_iff dest: in_set_takeD)
      obtain n where n: "tree_insert (CInfix (drop a p) nx) (drop a k) v = Inr n" "t' = CInfix (take a k) n"
        using 2(7) infx False
        by (auto simp: tree_insert.simps(2) [of p] a_def [symmetric] Let_def extract_from_drop extract_q_take bindR_eq_Inr_iff)
      have "counted (L - a) (CInfix (drop a p) nx) (drop a k) n"
        using 2(2) [OF infx refl, of "L - a" n] False okd hk p(6) n(1) by (simp add: a_def [symmetric] extract_from_drop)
      then have "counted L (CInfix (take a k) (CInfix (drop a p) nx)) (take a k @ drop a k) t'"
        unfolding n(2) by (intro counted_infix) (use a(1) hta hk 2(6) in \<open>auto simp: min_absorb2\<close>)
      then have "counted L (CInfix (take a k) (CInfix (drop a p) nx)) k t'" by simp
      then show ?thesis
      proof (rule counted_cong)
        show "cnt (CInfix (take a k) (CInfix (drop a p) nx)) q = cnt (CInfix p nx) q" for q
        proof (cases "infix_contains p q")
          case True
          then obtain s where "q = p @ s" by (auto simp: infix_contains_iff)
          then have "q = take a k @ drop a p @ s" using a(3) by simp
          then show ?thesis using \<open>q = p @ s\<close> by (metis cnt_infix)
        next
          case nc: False
          have "cnt (CInfix (take a k) (CInfix (drop a p) nx)) q = None"
          proof (rule ccontr)
            assume "cnt (CInfix (take a k) (CInfix (drop a p) nx)) q \<noteq> None"
            then obtain s where "q = take a k @ drop a p @ s" by (auto simp: cnt_infix_Some)
            then have "q = p @ s" using a(3) by (metis append_assoc append_take_drop_id)
            then show False using nc by (simp add: infix_contains_iff)
          qed
          then show ?thesis using nc by (simp add: cnt_infix_None)
        qed
      qed
    qed
  qed
next
  case (3 p u nodes k v)
  have L: "0 < L" "length nodes = 16" using 3(2) by (simp_all add: ok_branch)
  obtain c r where k: "k = c # r" "is_hex c" "hexkey (L - 1) r" using hexkey_Cons [OF 3(4) L(1)] by blast
  let ?t = "CBranch p u nodes"
  show ?case
  proof (cases "nodes ! hex_val c")
    case None
    then have t': "t' = CBranch p u (nodes[hex_val c := Some (CLeaf r 1)])"
      using 3(5) k by (simp add: tree_insert.simps(3) nodeIndex_hex extract_from_drop new_leaf_def)
    show ?thesis unfolding t' k(1) by (rule branch_counted [OF 3(2,3) k(2)]) (use None in auto)
  next
    case (Some n)
    obtain n' where n': "tree_insert n r v = Inr n'" "t' = CBranch p u (nodes[hex_val c := Some n'])"
      using 3(5) k Some by (auto simp: tree_insert.simps(3) nodeIndex_hex extract_from_drop bindR_eq_Inr_iff)
    have "counted (L - 1) n r n'"
      using 3(1) [of "hex_val c" n "L - 1" n'] k Some n'(1) ok_child [OF 3(2) hex_val_less [OF k(2)] Some]
        rich_child [OF 3(3) L(2) k(2) Some] by (simp add: nodeIndex_hex extract_from_drop)
    then have n1: "rich n'" "cnt n' r = Some (case cnt n r of None \<Rightarrow> 1 | Some x \<Rightarrow> x + 1)"
      "\<And>q. hexkey (L - 1) q \<Longrightarrow> q \<noteq> r \<Longrightarrow> cnt n' q = (case cnt n q of None \<Rightarrow> None
        | Some x \<Rightarrow> Some (if split_by (keys (L - 1) n) q r then 1 else x))" unfolding counted_def by blast+
    have sp: "split_by (keys L ?t) (c # q) (c # r) \<longleftrightarrow> split_by (keys (L - 1) n) q r" for q
    proof
      assume s: "split_by (keys L ?t) (c # q) (c # r)"
      show "split_by (keys (L - 1) n) q r"
        unfolding split_by_def
      proof (intro ballI impI)
        fix s assume "s \<in> keys (L - 1) n" "s \<noteq> q"
        then have "c # s \<in> keys L ?t" "c # s \<noteq> c # q" using Some k(2) L(1) by (auto simp: keys_def)
        then show "commonPrefix q s < commonPrefix q r" using \<open>split_by (keys L ?t) (c # q) (c # r)\<close> unfolding split_by_def by force
      qed
    next
      assume s: "split_by (keys (L - 1) n) q r"
      show "split_by (keys L ?t) (c # q) (c # r)"
        unfolding split_by_def
      proof (intro ballI impI)
        fix x assume x: "x \<in> keys L ?t" "x \<noteq> c # q"
        then obtain d y where d: "x = d # y" "is_hex d" "hexkey (L - 1) y" using hexkey_Cons [OF _ L(1), of x] by (auto simp: keys_def)
        show "commonPrefix (c # q) x < commonPrefix (c # q) (c # r)"
        proof (cases "d = c")
          case True
          then have "y \<in> keys (L - 1) n" "y \<noteq> q" using x d Some by (auto simp: keys_def)
          then show ?thesis using s True d(1) by (simp add: split_by_def)
        qed (simp add: d(1))
      qed
    qed
    have ct: "cnt ?t (c # q) = cnt n q" for q by (simp add: Some)
    show ?thesis unfolding n'(2) k(1)
      by (rule branch_counted [OF 3(2,3) k(2) n1(1), unfolded ct, OF n1(2) n1(3) [unfolded sp [symmetric]]])
  qed
qed

section \<open>The counters of addresses\<close>

text \<open>
  How often an address was counted in a history of insertions, the latest first: an
  address that comes closer to it than all others split its leaf, and its counter starts
  again.
\<close>

fun insertions :: "string \<Rightarrow> string list \<Rightarrow> nat" where
  "insertions a [] = 0"
| "insertions a (k # ks) =
     (if k = a then insertions a ks + 1
      else if a \<in> set ks \<and> (\<forall>b \<in> set ks. b \<noteq> a \<longrightarrow> commonPrefix a b < commonPrefix a k) then 1
      else insertions a ks)"

definition counts :: "troot \<Rightarrow> string list \<Rightarrow> bool" where
  "counts root ks \<longleftrightarrow>
     (case root of
        None \<Rightarrow> ks = []
      | Some n \<Rightarrow> \<exists>t. n = wrap ''0x'' t \<and> ok 40 t \<and> rich t \<and>
          (\<forall>r. hexkey 40 r \<longrightarrow> cnt t r = (if ''0x'' @ r \<in> set ks then Some (word_of_nat (insertions (''0x'' @ r) ks)) else None)))"

lemma insertions_absent: "a \<notin> set ks \<Longrightarrow> insertions a ks = 0"
  by (induction ks) auto

lemma counts_insert:
  assumes "counts root ks" "set ks \<subseteq> Collect valid_addr" "valid_addr k" "v \<noteq> []"
  shows "\<exists>root'. root_insert root k v = Inr root' \<and> counts root' (k # ks)"
proof -
  obtain r where r: "k = ''0x'' @ r" "hexkey 40 r" using assms(3) by (auto elim: valid_addrE)
  show ?thesis
  proof (cases root)
    case None
    then have "counts (Some (wrap ''0x'' (CLeaf r 1))) [k]"
      using r unfolding counts_def by (auto simp: ok_leaf simp del: wrap.simps intro!: exI [of _ "CLeaf r 1"])
    then show ?thesis using None assms(1,4) r by (simp add: counts_def root_insert_def new_leaf_def)
  next
    case (Some n)
    then obtain t where t: "n = wrap ''0x'' t" "ok 40 t" "rich t"
      "\<And>q. hexkey 40 q \<Longrightarrow> cnt t q = (if ''0x'' @ q \<in> set ks then Some (word_of_nat (insertions (''0x'' @ q) ks)) else None)"
      using assms(1) by (auto simp: counts_def)
    obtain t' where t': "tree_insert t r v = Inr t'" "inserted 40 t r t'" using tree_insert_inserted [OF t(2) r(2), of v] by blast
    have c: "counted 40 t r t'" by (rule tree_insert_counted [OF t(2,3) r(2) t'(1)])
    have keys: "keys 40 t = {q. hexkey 40 q \<and> ''0x'' @ q \<in> set ks}" using t(4) by (auto simp: keys_def split: if_splits)
    have sp: "split_by (keys 40 t) q r \<longleftrightarrow> (\<forall>b \<in> set ks. b \<noteq> ''0x'' @ q \<longrightarrow> commonPrefix (''0x'' @ q) b < commonPrefix (''0x'' @ q) k)" for q
    proof -
      have "\<exists>s. b = ''0x'' @ s \<and> hexkey 40 s" if "b \<in> set ks" for b
      proof -
        have "valid_addr b" using that assms(2) by auto
        then show ?thesis by (auto elim: valid_addrE)
      qed
      then have ks: "set ks = (@) ''0x'' ` keys 40 t" unfolding keys by auto
      have "split_by (keys 40 t) q r = split_by (set ks) (''0x'' @ q) k"
        unfolding ks r(1) by (rule split_by_append [symmetric])
      then show ?thesis by (simp only: split_by_def)
    qed
    have "cnt t' q = (if ''0x'' @ q \<in> set (k # ks) then Some (word_of_nat (insertions (''0x'' @ q) (k # ks))) else None)"
      if q: "hexkey 40 q" for q
    proof (cases "q = r")
      case True
      then show ?thesis using c t(4) [OF r(2)] insertions_absent [of "''0x'' @ r" ks] r(1) by (auto simp: counted_def)
    next
      case False
      then have "cnt t' q = (case cnt t q of None \<Rightarrow> None | Some x \<Rightarrow> Some (if split_by (keys 40 t) q r then 1 else x))"
        using c q unfolding counted_def by blast
      moreover define a where "a = ''0x'' @ q"
      moreover have "a \<noteq> k" using False r(1) by (simp add: a_def)
      ultimately show ?thesis using t(4) [OF q, folded a_def] sp [of q, folded a_def] unfolding a_def [symmetric]
        by (cases "a \<in> set ks"; cases "split_by (keys 40 t) q r") auto
    qed
    then have "counts (Some (wrap ''0x'' t')) (k # ks)"
      using t'(2) c unfolding counts_def by (auto simp: inserted_def counted_def intro!: exI [of _ t'])
    moreover have "tree_insert n k v = Inr (wrap ''0x'' t')" unfolding t(1) r(1) by (rule tree_insert_wrap [OF t(2) r(2) _ t'(1)]) simp
    ultimately show ?thesis using Some assms(4) by (simp add: root_insert_def)
  qed
qed

lemma insert_all_counts:
  assumes "counts root ks" "set ks \<subseteq> Collect valid_addr" "\<And>k v. (k, v) \<in> set kvs \<Longrightarrow> valid_addr k \<and> v \<noteq> []"
  shows "\<exists>root'. insert_all kvs root = Inr root' \<and> counts root' (rev (map fst kvs) @ ks)"
  using assms
proof (induction kvs arbitrary: root ks)
  case (Cons kv kvs)
  obtain k v where kv: "kv = (k, v)" by (cases kv)
  then have k: "valid_addr k" "v \<noteq> []" using Cons.prems(3) [of k v] by auto
  obtain root1 where r1: "root_insert root k v = Inr root1" "counts root1 (k # ks)"
    using counts_insert [OF Cons.prems(1,2) k] by blast
  have "set (k # ks) \<subseteq> Collect valid_addr" using Cons.prems(2) k by auto
  from Cons.IH [OF r1(2) this] Cons.prems(3) obtain root' where
    "insert_all kvs root1 = Inr root'" "counts root' (rev (map fst kvs) @ k # ks)" by auto
  then show ?case using r1(1) kv by simp
qed simp

lemma counts_at:
  assumes "counts root ks" "valid_addr a"
  shows "root_at root a = Inr (if a \<in> set ks then uint_2_Str (word_of_nat (insertions a ks)) else [])"
proof (cases root)
  case (Some n)
  obtain r where r: "a = ''0x'' @ r" "hexkey 40 r" using assms(2) by (auto elim: valid_addrE)
  obtain t where t: "n = wrap ''0x'' t" "ok 40 t"
      "\<And>q. hexkey 40 q \<Longrightarrow> cnt t q = (if ''0x'' @ q \<in> set ks then Some (word_of_nat (insertions (''0x'' @ q) ks)) else None)"
    using assms(1) Some by (auto simp: counts_def)
  show ?thesis unfolding Some root_at_def option.case t(1) r(1) tree_at_wrap tree_at_cnt [OF t(2) r(2)] t(3) [OF r(2)] by simp
qed (use assms in \<open>simp add: counts_def root_at_def\<close>)

section \<open>Removing\<close>

text \<open>No path of the tree is longer than \<open>L\<close>; infixes may have got lost.\<close>

inductive short :: "nat \<Rightarrow> tnode \<Rightarrow> bool" where
  short_leafI: "length p \<le> L \<Longrightarrow> short L (CLeaf p c)"
| short_infixI: "length p \<le> L \<Longrightarrow> short (L - length p) nx \<Longrightarrow> short L (CInfix p nx)"
| short_branchI: "0 < L \<Longrightarrow> length nodes = 16 \<Longrightarrow> (\<And>n. Some n \<in> set nodes \<Longrightarrow> short (L - 1) n) \<Longrightarrow> short L (CBranch p [] nodes)"

inductive_simps short_leaf: "short L (CLeaf p c)"
inductive_simps short_infix: "short L (CInfix p nx)"
inductive_simps short_branch: "short L (CBranch p v nodes)"

lemma ok_short: "ok L t \<Longrightarrow> short L t"
  by (induction rule: ok.induct) (auto intro: short.intros)

lemma short_mono: "short L t \<Longrightarrow> L \<le> M \<Longrightarrow> short M t"
proof (induction arbitrary: M rule: short.induct)
  case (short_branchI L nodes p)
  have "short (M - 1) n" if "Some n \<in> set nodes" for n by (rule short_branchI(4) [OF that]) (use short_branchI(5) in simp)
  then show ?case using short_branchI by (intro short.intros) auto
qed (auto intro!: short.intros)

lemma short_add_prefix: "short (L - length p) t \<Longrightarrow> length p \<le> L \<Longrightarrow> short L (add_prefix p t)"
proof (cases t)
  case (CBranch q v nodes)
  assume "short (L - length p) t" "length p \<le> L"
  then have "short L t" by (auto intro: short_mono)
  then show ?thesis unfolding CBranch by (simp add: short_branch)
qed (auto simp: short_leaf short_infix)

text \<open>A tree over short keys has no answer for a longer one.\<close>

lemma tree_at_longer:
  assumes "short L t" "L < length k" "\<And>c. c \<in> set k \<Longrightarrow> \<exists>i < 16. nodeIndex c = Inr i"
  shows "tree_at t k = Inr []"
  using assms
proof (induction arbitrary: k rule: short.induct)
  case (short_leafI p L c)
  then show ?case by (auto simp: tree_at.simps leaf_contains_def)
next
  case (short_infixI p L nx)
  have "tree_at nx (drop (length p) k) = Inr []"
    by (rule short_infixI.IH) (use short_infixI in \<open>auto dest: in_set_dropD\<close>)
  then show ?case by (simp add: tree_at.simps extract_from_drop)
next
  case (short_branchI L nodes p)
  obtain c r where cr: "k = c # r" using short_branchI(5) by (cases k) auto
  obtain i where "nodeIndex c = Inr i" "i < 16" using short_branchI(6) [of c] cr by auto
  note k = cr this
  show ?case
  proof (cases "nodes ! i")
    case (Some n)
    then have "Some n \<in> set nodes" using k(3) short_branchI(2) by (metis nth_mem)
    then have "tree_at n r = Inr []" using short_branchI(4) [of n r] short_branchI(1,5,6) k by auto
    then show ?thesis using k Some by (simp add: tree_at.simps extract_from_drop)
  qed (simp add: tree_at.simps k)
qed

lemma active_loop_none: "active_loop i xs n = NO_BRANCHS \<Longrightarrow> n = NO_BRANCHS \<and> (\<forall>x \<in> set xs. x = None)"
proof (induction xs arbitrary: i n)
  case (Cons x xs)
  show ?case
  proof (cases "x = None")
    case True
    then show ?thesis using Cons.IH [of "i + 1" n] Cons.prems by simp
  next
    case False
    then show ?thesis using Cons.IH [of "i + 1" "ONE_BRANCH i"] Cons.prems by (simp split: if_splits)
  qed
qed simp

lemma active_loop_one:
  "active_loop i xs n = ONE_BRANCH j \<Longrightarrow> (n = ONE_BRANCH j \<and> (\<forall>x \<in> set xs. x = None)) \<or>
     (n = NO_BRANCHS \<and> i \<le> j \<and> j - i < length xs \<and> xs ! (j - i) \<noteq> None \<and> (\<forall>m < length xs. xs ! m \<noteq> None \<longrightarrow> m = j - i))"
proof (induction xs arbitrary: i n)
  case (Cons x xs)
  show ?case
  proof (cases "x = None")
    case True
    with Cons.prems have "active_loop (i + 1) xs n = ONE_BRANCH j" by simp
    from Cons.IH [OF this] show ?thesis
    proof
      assume n: "n = NO_BRANCHS \<and> i + 1 \<le> j \<and> j - (i + 1) < length xs \<and> xs ! (j - (i + 1)) \<noteq> None \<and>
        (\<forall>m < length xs. xs ! m \<noteq> None \<longrightarrow> m = j - (i + 1))"
      then have "i + 1 \<le> j" by blast
      then have e: "j - i = Suc (j - (i + 1))" by simp
      have "m = j - i" if "m < length (x # xs)" "(x # xs) ! m \<noteq> None" for m
        using that n True e by (cases m) simp_all
      then show ?thesis using n e by simp
    qed (use True in simp)
  next
    case False
    with Cons.prems have n: "n = NO_BRANCHS" "active_loop (i + 1) xs (ONE_BRANCH i) = ONE_BRANCH j" by (simp_all split: if_splits)
    from Cons.IH [OF n(2)] have ij: "i = j" "\<forall>x \<in> set xs. x = None" by simp_all
    have "m = j - i" if "m < length (x # xs)" "(x # xs) ! m \<noteq> None" for m
      using that ij by (cases m) simp_all
    then show ?thesis using n False ij by simp
  qed
qed simp

lemma activeBranch_none: "activeBranch nodes = NO_BRANCHS \<Longrightarrow> x \<in> set nodes \<Longrightarrow> x = None"
  using active_loop_none [of 0 nodes NO_BRANCHS] by (simp add: activeBranch_def)

lemma activeBranch_one:
  "activeBranch nodes = ONE_BRANCH j \<Longrightarrow> j < length nodes \<and> nodes ! j \<noteq> None \<and> (\<forall>m < length nodes. nodes ! m \<noteq> None \<longrightarrow> m = j)"
  using active_loop_one [of 0 nodes NO_BRANCHS j] by (simp add: activeBranch_def)

lemma rejig_short:
  assumes "0 < L" "length nodes = 16" "\<And>n. Some n \<in> set nodes \<Longrightarrow> short (L - 1) n" "Some m \<in> set nodes"
  shows "\<exists>u. rejig p [] nodes = Inr u \<and> short L u"
proof (cases "activeBranch nodes")
  case NO_BRANCHS
  from activeBranch_none [OF this assms(4)] show ?thesis by simp
next
  case (ONE_BRANCH j)
  from activeBranch_one [OF this] have j: "j < length nodes" "nodes ! j \<noteq> None" by blast+
  then obtain n where n: "nodes ! j = Some n" "j < 16" unfolding assms(2) by blast
  have s: "short (L - 1) n" using nth_mem [of j nodes] n assms(2) by (intro assms(3)) simp
  have l: "length (idex j) = 1" by (simp add: idex_def)
  show ?thesis
  proof (cases n)
    case (CBranch q v ns)
    then show ?thesis using ONE_BRANCH n s l assms(1) by (auto simp: rejig_def short_infix)
  qed (use ONE_BRANCH n(1) s l assms(1) short_add_prefix [of L "idex j" n] in \<open>simp_all add: rejig_def\<close>)
next
  case MULTI_BRANCH
  then show ?thesis using assms by (auto simp: rejig_def intro: short.intros)
qed

text \<open>What is left when a child changes.\<close>

lemma changed_nodes:
  assumes "ok L (CBranch p v nodes)" "\<And>u. n' = Some u \<Longrightarrow> short (L - 1) u" "Some m \<in> set (nodes[i := n'])"
  shows "short (L - 1) m"
  using assms set_update_subset_insert [of nodes i n'] by (auto simp: ok_branch intro: ok_short)

lemma tree_remove_short:
  assumes "ok L t" "rich t" "hexkey L k"
  shows "\<exists>t'. tree_remove t k = Inr t' \<and> (t' = None \<longrightarrow> keys L t \<subseteq> {k}) \<and> (\<forall>u. t' = Some u \<longrightarrow> short L u)"
  using assms
proof (induction t k arbitrary: L rule: tree_remove.induct)
  case (1 p c k)
  then show ?case by (auto simp: tree_remove.simps leaf_contains_def keys_def ok_leaf short_leaf)
next
  case (2 p nx k)
  then have p: "p \<noteq> []" "list_all is_hex p" "length p < L" "ok (L - length p) nx" "rich nx" by (simp_all add: ok_infix)
  show ?case
  proof (cases "infix_contains p k")
    case True
    then obtain r where r: "k = p @ r" by (auto simp: infix_contains_iff)
    have "hexkey (L - length p) r" using 2(4) r by auto
    from 2(1) [OF True p(4,5)] this r obtain nx' where nx': "tree_remove nx r = Inr nx'"
      "nx' = None \<longrightarrow> keys (L - length p) nx \<subseteq> {r}" "\<forall>u. nx' = Some u \<longrightarrow> short (L - length p) u" by (auto simp: extract_from_drop)
    show ?thesis using True nx' p r short_add_prefix
      by (cases nx') (auto simp: tree_remove.simps(2) extract_from_drop keys_infix)
  next
    case False
    then show ?thesis using 2(2) by (simp add: tree_remove.simps ok_short)
  qed
next
  case (3 p v nodes k)
  have L: "0 < L" "length nodes = 16" "v = []" using 3(2) by (simp_all add: ok_branch)
  obtain c r where k: "k = c # r" "is_hex c" "hexkey (L - 1) r" using hexkey_Cons [OF 3(4) L(1)] by blast
  show ?case
  proof (cases "nodes ! hex_val c")
    case None
    then show ?thesis using 3(2) k by (simp add: tree_remove.simps nodeIndex_hex ok_short)
  next
    case (Some n)
    have "ok (L - 1) n" "rich n" using ok_child [OF 3(2) hex_val_less [OF k(2)] Some] rich_child [OF 3(3) L(2) k(2) Some] .
    with 3(1) [of "hex_val c" n "L - 1"] k Some obtain n' where n': "tree_remove n r = Inr n'" "\<forall>u. n' = Some u \<longrightarrow> short (L - 1) u"
      by (auto simp: nodeIndex_hex extract_from_drop)
    obtain d q where d: "d \<noteq> c" "d # q \<in> keys L (CBranch p v nodes)" using branch_other [OF 3(2,3) k(2)] by blast
    then obtain m where m: "is_hex d" "nodes ! hex_val d = Some m" by (auto simp: keys_def split: option.splits)
    then have "(nodes[hex_val c := n']) ! hex_val d = Some m" using d(1) k(2) hex_val_inj [of c d] by auto
    then have "Some m \<in> set (nodes[hex_val c := n'])" using hex_val_less [OF m(1)] L(2) by (metis length_list_update nth_mem)
    with rejig_short [OF L(1), of "nodes[hex_val c := n']" m p] changed_nodes [OF 3(2), of n'] n'(2) L(2)
    obtain u where "rejig p [] (nodes[hex_val c := n']) = Inr u" "short L u" by auto
    then show ?thesis using k Some n'(1) L(3) by (simp add: tree_remove.simps(3) nodeIndex_hex extract_from_drop)
  qed
qed

text \<open>With two other keys that differ in the first character the branch stays one.\<close>

lemma branch_remains:
  assumes "ok L (CBranch p v nodes)" "rich (CBranch p v nodes)" "hexkey L k"
    and "hexkey L k1" "hexkey L k2" "k1 \<noteq> k" "k2 \<noteq> k" "hd k1 \<noteq> hd k2"
    and "cnt (CBranch p v nodes) k1 \<noteq> None" "cnt (CBranch p v nodes) k2 \<noteq> None"
  shows "\<exists>u. tree_remove (CBranch p v nodes) k = Inr (Some (CBranch p v u)) \<and> short L (CBranch p v u)"
proof -
  have L: "0 < L" "length nodes = 16" "v = []" using assms(1) by (simp_all add: ok_branch)
  obtain c r where k: "k = c # r" "is_hex c" "hexkey (L - 1) r" using hexkey_Cons [OF assms(3) L(1)] by blast
  show ?thesis
  proof (cases "nodes ! hex_val c")
    case None
    then show ?thesis using assms(1) k by (simp add: tree_remove.simps nodeIndex_hex ok_short)
  next
    case (Some n)
    have "ok (L - 1) n" "rich n" using ok_child [OF assms(1) hex_val_less [OF k(2)] Some] rich_child [OF assms(2) L(2) k(2) Some] .
    from tree_remove_short [OF this k(3)] obtain n' where n': "tree_remove n r = Inr n'" "n' = None \<longrightarrow> keys (L - 1) n \<subseteq> {r}"
      "\<And>u. n' = Some u \<Longrightarrow> short (L - 1) u" by blast
    let ?nodes = "nodes[hex_val c := n']"
    have full: "?nodes ! hex_val (hd x) \<noteq> None \<and> hex_val (hd x) < 16 \<and> is_hex (hd x)"
      if x: "hexkey L x" "x \<noteq> k" "cnt (CBranch p v nodes) x \<noteq> None" for x
    proof -
      obtain d y where d: "x = d # y" "is_hex d" "hexkey (L - 1) y" using hexkey_Cons [OF x(1) L(1)] by blast
      obtain m where m: "nodes ! hex_val d = Some m" "cnt m y \<noteq> None" using x(3) d(1) by (auto split: option.splits)
      show ?thesis
      proof (cases "d = c")
        case True
        then have "y \<in> keys (L - 1) n" "y \<noteq> r" using m Some d x(2) k by (auto simp: keys_def)
        then have "n' \<noteq> None" using n'(2) by blast
        then show ?thesis using True d hex_val_less [OF d(2)] L(2) by simp
      next
        case False
        then show ?thesis using m d k(2) hex_val_inj [of c d] hex_val_less [OF d(2)] by auto
      qed
    qed
    have f1: "?nodes ! hex_val (hd k1) \<noteq> None" "hex_val (hd k1) < 16" and f2: "?nodes ! hex_val (hd k2) \<noteq> None" "hex_val (hd k2) < 16"
      and ne: "hex_val (hd k1) \<noteq> hex_val (hd k2)"
      using full [OF assms(4,6,9)] full [OF assms(5,7,10)] assms(8) hex_val_inj [of "hd k1" "hd k2"] by blast+
    have "activeBranch ?nodes = MULTI_BRANCH"
    proof (cases "activeBranch ?nodes")
      case NO_BRANCHS
      have "?nodes ! hex_val (hd k1) \<in> set ?nodes" using f1(2) L(2) by (intro nth_mem) simp
      from activeBranch_none [OF NO_BRANCHS this] f1(1) show ?thesis by blast
    next
      case (ONE_BRANCH j)
      from activeBranch_one [OF ONE_BRANCH] have "hex_val (hd k1) = j" "hex_val (hd k2) = j"
        using f1 f2 unfolding length_list_update L(2) by blast+
      then show ?thesis using ne by simp
    qed
    then have "rejig p v ?nodes = Inr (CBranch p v ?nodes)" by (simp add: rejig_def)
    moreover have "short L (CBranch p v ?nodes)"
      unfolding short_branch using changed_nodes [OF assms(1) n'(3)] L by simp
    ultimately show ?thesis using k Some n'(1) by (simp add: tree_remove.simps(3) nodeIndex_hex extract_from_drop)
  qed
qed

lemma addr_below:
  assumes "valid_addr a" "take (length p) a = p" "L + length p = 42" "2 \<le> length p"
  shows "\<exists>r. a = p @ r \<and> hexkey L r"
proof -
  obtain s where s: "a = ''0x'' @ s" "hexkey 40 s" using assms(1) by (auto elim: valid_addrE)
  obtain m where m: "length p = Suc (Suc m)" using assms(4) by (metis add_2_eq_Suc le_Suc_ex)
  have "a = p @ drop (length p) a" using assms(2) by (metis append_take_drop_id)
  moreover have "hexkey L (drop (length p) a)"
    using s assms(3) unfolding m by (auto simp: list_all_iff dest: in_set_dropD)
  ultimately show ?thesis by blast
qed

text \<open>A branch right below the infix at the root.\<close>

lemma branch_below_infix:
  assumes "counts (Some (CInfix p (CBranch q v nodes))) ks"
  shows "set ks \<subseteq> Collect valid_addr \<Longrightarrow> \<exists>L. L + length p = 42 \<and> 2 \<le> length p \<and> ok L (CBranch q v nodes) \<and> rich (CBranch q v nodes) \<and>
    (\<forall>r. hexkey L r \<longrightarrow> p @ r \<in> set ks \<longrightarrow> cnt (CBranch q v nodes) r \<noteq> None) \<and>
    (\<forall>k \<in> set ks. \<exists>r. k = p @ r \<and> hexkey L r)"
proof -
  assume va: "set ks \<subseteq> Collect valid_addr"
  let ?b = "CBranch q v nodes"
  obtain t where t: "CInfix p ?b = wrap ''0x'' t" "ok 40 t" "rich t"
      "\<And>q. hexkey 40 q \<Longrightarrow> cnt t q = (if ''0x'' @ q \<in> set ks then Some (word_of_nat (insertions (''0x'' @ q) ks)) else None)"
    using assms by (auto simp: counts_def)
  obtain p0 where p0: "p = ''0x'' @ p0" "length p0 < 40" "list_all is_hex p0" "ok (40 - length p0) ?b" "rich ?b"
    "\<And>r. cnt t (p0 @ r) = cnt ?b r" "\<And>k. cnt t k \<noteq> None \<Longrightarrow> \<exists>r. k = p0 @ r"
  proof (cases t)
    case (CInfix p0 nx)
    then show thesis using t that [of p0] by (auto simp: ok_infix cnt_infix_Some)
  next
    case (CBranch a b c)
    then show thesis using t that [of "[]"] by auto
  qed (use t in auto)
  have key: "''0x'' @ p0 @ r \<in> set ks \<longleftrightarrow> cnt ?b r \<noteq> None" if "hexkey (40 - length p0) r" for r
    using t(4) [of "p0 @ r"] that p0(2,3,6) by (auto split: if_splits)
  have "\<exists>r. k = p @ r \<and> hexkey (40 - length p0) r" if "k \<in> set ks" for k
  proof -
    have "valid_addr k" using that va by auto
    then obtain s where s: "k = ''0x'' @ s" "hexkey 40 s" by (auto elim: valid_addrE)
    then have "cnt t s \<noteq> None" using t(4) [OF s(2)] that by simp
    then obtain r where "s = p0 @ r" using p0(7) by blast
    then show ?thesis using s p0(1) by (auto simp: list_all_append)
  qed
  then show ?thesis using p0 key by (intro exI [of _ "40 - length p0"]) simp
qed

end
