(* ===== verification/AcctTree_Properties.thy ===== *)
theory AcctTree_Properties
  imports AcctTree_Count
begin

text \<open>
  The properties of the tree of accounts: which addresses it answers for, what a second
  address does to the counter of the first one, and what removing does to an infix.
\<close>

text \<open>
  C33: Inserting addresses with values that are not empty never faults, and the tree answers
  for exactly the addresses that were inserted.
\<close>

theorem tree_membership:
  assumes "\<And>k v. (k, v) \<in> set kvs \<Longrightarrow> valid_addr k \<and> v \<noteq> []" "valid_addr a"
  shows "\<exists>root s. insert_all kvs None = Inr root \<and> root_at root a = Inr s \<and> (s \<noteq> [] \<longleftrightarrow> a \<in> fst ` set kvs)"
proof -
  have "holds None {}" by (simp add: holds_def)
  from insert_all_holds [OF this _ assms(1), of kvs] obtain root where
    "insert_all kvs None = Inr root" "holds root (fst ` set kvs)" by auto
  with holds_at [OF this(2) assms(2)] show ?thesis by blast
qed

theorem tree_membership_witness:
  "\<exists>root s. insert_all [(''0x'' @ replicate 40 (CHR ''a''), ''12''), (''0x1'' @ replicate 39 (CHR ''a''), ''13'')] None = Inr root \<and>
     root_at root (''0x1'' @ replicate 39 (CHR ''a'')) = Inr s \<and> s \<noteq> []"
proof -
  have v: "valid_addr (''0x'' @ replicate 40 (CHR ''a''))" "valid_addr (''0x1'' @ replicate 39 (CHR ''a''))" by code_simp+
  show ?thesis
    using tree_membership [of "[(''0x'' @ replicate 40 (CHR ''a''), ''12''), (''0x1'' @ replicate 39 (CHR ''a''), ''13'')]"
      "''0x1'' @ replicate 39 (CHR ''a'')"] v by auto
qed

text \<open>
  C34: The value of an address is a counter, and after any insertions of values that are not
  empty it is known for every address: it is the number of insertions of the address since
  its leaf was last split, where the split leaves it at one whatever it was. A leaf is split
  by an address that has a longer beginning in common with it than all the other addresses
  in the tree have (\<open>insertions\<close>); all other insertions leave the counter as it is.
\<close>

theorem leaf_counters:
  assumes "\<And>k v. (k, v) \<in> set kvs \<Longrightarrow> valid_addr k \<and> v \<noteq> []" "valid_addr a"
  shows "\<exists>root. insert_all kvs None = Inr root \<and>
    root_at root a = Inr (if a \<in> fst ` set kvs then uint_2_Str (word_of_nat (insertions a (rev (map fst kvs)))) else [])"
proof -
  have "counts None []" by (simp add: counts_def)
  from insert_all_counts [OF this _ assms(1), of kvs] obtain root where
    "insert_all kvs None = Inr root" "counts root (rev (map fst kvs))" by auto
  with counts_at [OF this(2) assms(2)] show ?thesis by simp
qed

theorem leaf_counters_witness:
  "\<exists>root. insert_all [(''0x'' @ replicate 40 (CHR ''a''), ''5''), (''0x1'' @ replicate 39 (CHR ''a''), ''5''), (''0x'' @ replicate 40 (CHR ''a''), ''6''),
      (''0x'' @ replicate 40 (CHR ''a''), ''7''), (''0xa'' @ replicate 39 (CHR ''b''), ''8'')] None = Inr root \<and>
    root_at root (''0x'' @ replicate 40 (CHR ''a'')) = Inr ''1''"
proof -
  let ?kvs = "[(''0x'' @ replicate 40 (CHR ''a''), ''5''), (''0x1'' @ replicate 39 (CHR ''a''), ''5''), (''0x'' @ replicate 40 (CHR ''a''), ''6''),
      (''0x'' @ replicate 40 (CHR ''a''), ''7''), (''0xa'' @ replicate 39 (CHR ''b''), ''8'')]"
  have v: "list_all (\<lambda>(k, v). valid_addr k \<and> v \<noteq> []) ?kvs" "valid_addr (''0x'' @ replicate 40 (CHR ''a''))"
    "insertions (''0x'' @ replicate 40 (CHR ''a'')) (rev (map fst ?kvs)) = 1" "(1 :: 64 word) = word_of_nat 1"
    "uint_2_Str 1 = ''1''" by code_simp+
  show ?thesis using leaf_counters [of ?kvs "''0x'' @ replicate 40 (CHR ''a'')"] v by (auto simp: list_all_iff)
qed

text \<open>
  C35: Removing an address under an infix over a branch loses the infix whenever two
  children of the branch remain: when two other inserted addresses differ right behind the
  infix, whether the removed address was in the tree or not, no address is found afterwards.
\<close>

theorem remove_loses_infix:
  assumes "\<And>k v. (k, v) \<in> set kvs \<Longrightarrow> valid_addr k \<and> v \<noteq> []" "insert_all kvs None = Inr (Some (CInfix p (CBranch q v nodes)))"
    and "valid_addr a" "take (length p) a = p"
    and "b1 \<in> fst ` set kvs - {a}" "b2 \<in> fst ` set kvs - {a}" "b1 ! length p \<noteq> b2 ! length p" "valid_addr b"
  shows "\<exists>root. root_remove (Some (CInfix p (CBranch q v nodes))) a = Inr root \<and> root_at root b = Inr []"
proof -
  have "counts None []" by (simp add: counts_def)
  from insert_all_counts [OF this _ assms(1), of kvs] have "counts (Some (CInfix p (CBranch q v nodes))) (rev (map fst kvs))"
    using assms(2) by auto
  moreover have "set (rev (map fst kvs)) \<subseteq> Collect valid_addr" using assms(1) by auto
  ultimately obtain L where L: "L + length p = 42" "2 \<le> length p" "ok L (CBranch q v nodes)" "rich (CBranch q v nodes)"
    "\<And>r. hexkey L r \<Longrightarrow> p @ r \<in> fst ` set kvs \<Longrightarrow> cnt (CBranch q v nodes) r \<noteq> None"
    "\<And>k. k \<in> fst ` set kvs \<Longrightarrow> \<exists>r. k = p @ r \<and> hexkey L r"
    using branch_below_infix [of p q v nodes "rev (map fst kvs)"] unfolding set_rev set_map by blast
  obtain r where r: "a = p @ r" "hexkey L r" using addr_below [OF assms(3,4) L(1,2)] by blast
  obtain r1 r2 where r12: "b1 = p @ r1" "hexkey L r1" "b2 = p @ r2" "hexkey L r2" using L(6) assms(5,6) by blast
  have "\<exists>u. tree_remove (CBranch q v nodes) r = Inr (Some (CBranch q v u)) \<and> short L (CBranch q v u)"
  proof (rule branch_remains [OF L(3,4) r(2) r12(2,4)])
    have "r1 \<noteq> []" "r2 \<noteq> []" using L(3) r12(2,4) by (auto simp: ok_branch)
    then show "hd r1 \<noteq> hd r2" using assms(7) r12(1,3) by (simp add: hd_conv_nth nth_append)
  qed (use r12 r(1) L(5) assms(5,6) in auto)
  then obtain u where u: "tree_remove (CBranch q v nodes) r = Inr (Some (CBranch q v u))" "short L (CBranch q v u)" by blast
  have "root_remove (Some (CInfix p (CBranch q v nodes))) a = Inr (Some (CBranch (p @ q) v u))"
    using tree_remove_infix [OF u(1), of p] by (simp add: root_remove_def r(1))
  moreover have "tree_at (CBranch (p @ q) v u) b = Inr []"
    unfolding tree_at_prefix [of "p @ q" _ _ _ q]
    by (rule tree_at_longer [OF u(2)]) (use L(1,2) assms(8) addr_places [OF assms(8)] in \<open>auto simp: valid_addr_def\<close>)
  ultimately show ?thesis by (simp add: root_at_def)
qed

theorem remove_loses_infix_witness:
  "\<exists>root. root_remove (Some (CInfix (''0x'' @ replicate 39 (CHR ''a''))
       (CBranch [] [] (no_nodes[1 := Some (CLeaf [] 1), 2 := Some (CLeaf [] 1), 3 := Some (CLeaf [] 1)]))))
       (''0x'' @ replicate 39 (CHR ''a'') @ ''3'') = Inr root \<and>
     root_at root (''0x'' @ replicate 39 (CHR ''a'') @ ''1'') = Inr []"
proof -
  let ?p = "''0x'' @ replicate 39 (CHR ''a'')"
  let ?kvs = "[(?p @ ''1'', ''5''), (?p @ ''2'', ''6''), (''0x'' @ replicate 39 (CHR ''a'') @ ''3'', ''7'')]"
  have v: "list_all (\<lambda>(k, v). valid_addr k \<and> v \<noteq> []) ?kvs" "valid_addr (''0x'' @ replicate 39 (CHR ''a'') @ ''3'')"
    "valid_addr (''0x'' @ replicate 39 (CHR ''a'') @ ''1'')" by code_simp+
  have e: "insert_all ?kvs None =
      Inr (Some (CInfix ?p (CBranch [] [] (no_nodes[1 := Some (CLeaf [] 1), 2 := Some (CLeaf [] 1), 3 := Some (CLeaf [] 1)]))))" by code_simp
  have p: "take (length ?p) (''0x'' @ replicate 39 (CHR ''a'') @ ''3'') = ?p"
    "?p @ ''1'' \<in> fst ` set ?kvs - {''0x'' @ replicate 39 (CHR ''a'') @ ''3''}" "?p @ ''2'' \<in> fst ` set ?kvs - {''0x'' @ replicate 39 (CHR ''a'') @ ''3''}"
    "(?p @ ''1'') ! length ?p \<noteq> (?p @ ''2'') ! length ?p"
    by (simp_all add: nth_append)
  show ?thesis
    by (rule remove_loses_infix [OF _ e v(2) p v(3)]) (use v(1) in \<open>auto simp: list_all_iff\<close>)
qed

end
