(* ===== verification/BigNum_Properties.thy ===== *)
theory BigNum_Properties
  imports BigLib_Correct
begin

text \<open>
  The properties of the big numbers: exact unsigned and signed arithmetic, bits and
  shifts, conversions to machine integers, and the text and number-theory routines of
  \<^verbatim>\<open>biglib.cpp\<close>. Each is stated over the definitions that model the code.
\<close>

lemmas concrete_number = normal_def trimmed_def toNat_def bval_def B_def

section \<open>Unsigned arithmetic\<close>

text \<open>
  C8: \<^verbatim>\<open>biguint_t::add\<close> is exact: for operands without leading zero blocks the
  result has the value of the sum, whatever the object it is computed into, and again has
  no leading zero block and fits its capacity.
\<close>

theorem biguint_add_exact:
  assumes "normal a" "normal b"
  shows "toNat (biguint_add this a b) = toNat a + toNat b \<and> normal (biguint_add this a b)"
  using assms by (simp add: normal_biguint_add)

theorem biguint_add_exact_witness:
  "toNat (biguint_add store_empty \<lparr>capacity = 1, blk = [18446744073709551615]\<rparr> \<lparr>capacity = 1, blk = [1]\<rparr>) = 2 ^ 64"
  using biguint_add_exact [of "\<lparr>capacity = 1, blk = [18446744073709551615]\<rparr>" "\<lparr>capacity = 1, blk = [1]\<rparr>" store_empty]
  by (simp add: concrete_number)

text \<open>
  C9: \<^verbatim>\<open>biguint_t::subtract\<close> returns the difference exactly when it is not negative,
  and otherwise throws, with the message of the source.
\<close>

theorem biguint_subtract_exact:
  assumes "normal a" "normal b"
  shows "if toNat b \<le> toNat a
    then \<exists>r. biguint_subtract this a b = Inr r \<and> toNat r = toNat a - toNat b \<and> normal r
    else biguint_subtract this a b =
      Inl (Thrown ''biguint_t::subtract: Negative result in unsigned calculation'')"
  using biguint_subtract_spec [OF assms] by (simp add: msg_sub_negative_def)

theorem biguint_subtract_exact_witness:
  "\<exists>r. biguint_subtract store_empty \<lparr>capacity = 2, blk = [0, 1]\<rparr> \<lparr>capacity = 1, blk = [1]\<rparr> = Inr r \<and>
     toNat r = 2 ^ 64 - 1 \<and> normal r"
  using biguint_subtract_exact [of "\<lparr>capacity = 2, blk = [0, 1]\<rparr>" "\<lparr>capacity = 1, blk = [1]\<rparr>" store_empty]
  by (simp add: concrete_number)

text \<open>
  C7: \<^verbatim>\<open>biguint_t::multiply\<close> never reads or writes outside its blocks and returns the
  exact product.
\<close>

theorem biguint_multiply_exact:
  assumes "normal a" "normal b"
  shows "\<exists>r. biguint_multiply this a b = Inr r \<and> toNat r = toNat a * toNat b \<and> normal r"
  by (rule bu.mul_ok [OF assms])

theorem biguint_multiply_exact_witness:
  "\<exists>r. biguint_multiply store_empty \<lparr>capacity = 1, blk = [18446744073709551615]\<rparr> \<lparr>capacity = 1, blk = [18446744073709551615]\<rparr> = Inr r \<and>
     toNat r = (2 ^ 64 - 1) * (2 ^ 64 - 1) \<and> normal r"
  using biguint_multiply_exact [of "\<lparr>capacity = 1, blk = [18446744073709551615]\<rparr>" "\<lparr>capacity = 1, blk = [18446744073709551615]\<rparr>" store_empty]
  by (simp add: concrete_number)

text \<open>
  C6: \<^verbatim>\<open>biguint_t::divide\<close> stays inside its blocks and leaves the remainder in
  \<^verbatim>\<open>*this\<close> and the quotient in \<open>q\<close>: the dividend is the quotient times the
  divisor plus a remainder below the divisor. For the divisor zero the remainder is the
  dividend and the quotient zero.
\<close>

theorem biguint_divide_exact:
  assumes "normal a" "normal b" "normal q"
  shows "\<exists>r q'. biguint_divide a b q = Inr (r, q') \<and> normal r \<and> normal q' \<and>
    toNat a = toNat q' * toNat b + toNat r \<and>
    (if toNat b = 0 then toNat q' = 0 else toNat r < toNat b)"
proof (cases "toNat b = 0")
  case True
  then have "len b = 0" using toNat_eq_0_iff assms by simp
  then show ?thesis using True assms
    by (simp add: biguint_divide_def normal_def) (simp add: toNat_def)
next
  case False
  from bu.divm_ok [OF assms(1,2) False, of q] False show ?thesis by auto
qed

theorem biguint_divide_exact_witness:
  "\<exists>r q'. biguint_divide \<lparr>capacity = 2, blk = [5, 1]\<rparr> \<lparr>capacity = 1, blk = [7]\<rparr> store_empty = Inr (r, q') \<and>
     normal r \<and> normal q' \<and> 2 ^ 64 + 5 = toNat q' * 7 + toNat r \<and> toNat r < 7"
  using biguint_divide_exact [of "\<lparr>capacity = 2, blk = [5, 1]\<rparr>" "\<lparr>capacity = 1, blk = [7]\<rparr>" store_empty]
  by (simp add: concrete_number)

text \<open>
  \<^verbatim>\<open>compareTo\<close> is the order of the values and \<^verbatim>\<open>operator==\<close> their
  equality: numbers without leading zero blocks are equal only when their blocks are.
\<close>

theorem biguint_compare_exact:
  assumes "normal a" "normal b"
  shows "biguint_compareTo a b = sgn (int (toNat a) - int (toNat b)) \<and>
    (store_eq a b \<longleftrightarrow> toNat a = toNat b)"
  using bu.cmp_sgn [OF assms] biguint_eq_iff [OF assms] by simp

theorem biguint_compare_exact_witness:
  "biguint_compareTo \<lparr>capacity = 2, blk = [0, 1]\<rparr> \<lparr>capacity = 1, blk = [18446744073709551615]\<rparr> = 1"
  using biguint_compare_exact [of "\<lparr>capacity = 2, blk = [0, 1]\<rparr>" "\<lparr>capacity = 1, blk = [18446744073709551615]\<rparr>"]
  by (simp add: concrete_number)

section \<open>Bits\<close>

lemma shift_amount_cases:
  fixes b :: "32 word"
  obtains (nonneg) "0 \<le> sint b" "unat b = nat (sint b)"
    | (neg) "sint b < 0" "sint b \<noteq> - (2 ^ 31)" "push_bit 1 b \<noteq> 0" "unat (- b) = nat (- sint b)"
    | (min) "sint b = - (2 ^ 31)" "push_bit 1 b = 0"
proof (cases "sint b < 0")
  case False
  then have "int (unat b) = sint b" by (intro unat_nonneg_sint) simp
  then have "unat b = nat (sint b)" by linarith
  then show ?thesis using False nonneg by simp
next
  case True
  then have "int (unat (- b)) = - sint b" by (rule unat_uminus_neg_sint)
  then have "unat (- b) = nat (- sint b)" by linarith
  then show ?thesis using True push_bit_1_eq_0_iff [OF True] neg min by blast
qed

text \<open>
  The shifts multiply by a power of two or divide by it, a negative amount shifts the
  other way, and the one amount whose negation does not exist in 32 bits throws.
\<close>

theorem biguint_shifts_exact:
  "(case shiftLeft this a b of
      Inl e \<Rightarrow> sint b = - (2 ^ 31) \<and>
        e = Thrown ''biguint_t::shiftLeft: Pathological shift amount not implemented''
    | Inr r \<Rightarrow> sint b \<noteq> - (2 ^ 31) \<and> normal r \<and>
        toNat r = (if sint b < 0 then toNat a div 2 ^ nat (- sint b) else toNat a * 2 ^ nat (sint b))) \<and>
   (case shiftRight this a b of
      Inl e \<Rightarrow> sint b = - (2 ^ 31) \<and>
        e = Thrown ''biguint_t::shiftRight: Pathological shift amount not implemented''
    | Inr r \<Rightarrow> sint b \<noteq> - (2 ^ 31) \<and> normal r \<and>
        toNat r = (if sint b < 0 then toNat a * 2 ^ nat (- sint b) else toNat a div 2 ^ nat (sint b)))"
  by (cases b rule: shift_amount_cases)
    (auto simp: shiftLeft_def shiftRight_def toNat_shiftLeft_by toNat_shiftRight_by
      normal_shiftLeft_by normal_shiftRight_by simp del: push_bit_eq_mult push_bit_numeral)

text \<open>
  The bitwise operations are those of the natural numbers, and their results have no
  leading zero block.
\<close>

theorem biguint_bitwise_exact:
  assumes "normal a" "normal b"
  shows "toNat (bitwiseAnd this a b) = toNat a AND toNat b \<and> normal (bitwiseAnd this a b) \<and>
    toNat (bitwiseOr this a b) = toNat a OR toNat b \<and> normal (bitwiseOr this a b) \<and>
    toNat (bitwiseXor this a b) = toNat a XOR toNat b \<and> normal (bitwiseXor this a b)"
  using assms by (simp add: toNat_bitwiseAnd toNat_bitwiseOr toNat_bitwiseXor normal_bitwiseAnd
      normal_bitwiseOr normal_bitwiseXor)

theorem biguint_bitwise_exact_witness:
  "toNat (bitwiseXor store_empty \<lparr>capacity = 1, blk = [12]\<rparr> \<lparr>capacity = 1, blk = [10]\<rparr>) = 6"
  using biguint_bitwise_exact [of "\<lparr>capacity = 1, blk = [12]\<rparr>" "\<lparr>capacity = 1, blk = [10]\<rparr>" store_empty]
  by (simp add: concrete_number)

text \<open>
  \<^verbatim>\<open>setBit\<close> changes the one bit it is given, growing or trimming the number as
  needed: reading any bit afterwards gives the new value there and the old one elsewhere.
\<close>

theorem setBit_getBit:
  assumes "normal s"
  shows "getBit (setBit s i v) j = (if j = i then v else getBit s j) \<and> normal (setBit s i v)"
  using assms by (auto simp: getBit_correct bit_toNat_setBit normal_setBit)

theorem setBit_getBit_witness:
  "getBit (setBit store_empty 200 True) 200 \<and> \<not> getBit (setBit store_empty 200 True) 136"
  using setBit_getBit [of store_empty 200 True 200] setBit_getBit [of store_empty 200 True 136]
  by (simp add: getBit_def getBlock_def)

section \<open>Conversions\<close>

text \<open>
  \<^verbatim>\<open>to_ulong\<close> and \<^verbatim>\<open>to_uint\<close> return the value exactly when it fits
  the type and throw otherwise; converting a machine integer to a \<^verbatim>\<open>biguint_t\<close> and
  back gives it again.
\<close>

theorem biguint_to_unsigned:
  assumes "normal s"
  shows "biguint_to_ulong s = (if toNat s < 2 ^ 64 then Inr (word_of_nat (toNat s)) else Inl (Thrown msg_too_big))
    \<and> biguint_to_uint s = (if toNat s < 2 ^ 32 then Inr (word_of_nat (toNat s)) else Inl (Thrown msg_too_big))
    \<and> biguint_to_ulong (biguint_of_uint64 w) = Inr w"
proof -
  have "unat w < 2 ^ 64" using unsigned_less [of w] by simp
  then show ?thesis
    using convertToPrimitive_unsigned [where 'x = 64, OF assms] convertToPrimitive_unsigned [where 'x = 32, OF assms]
      convertToPrimitive_unsigned [where 'x = 64, of "biguint_of_uint64 w"]
    by (simp add: biguint_to_ulong_def biguint_to_uint_def)
qed

theorem biguint_to_unsigned_witness:
  "biguint_to_uint \<lparr>capacity = 1, blk = [4294967296]\<rparr> = Inl (Thrown msg_too_big)"
  using biguint_to_unsigned [of "\<lparr>capacity = 1, blk = [4294967296]\<rparr>" 0] by (simp add: concrete_number)

lemma toNat_magOf64:
  "toNat (biguint_of_uint64 (magOf64 x)) =
     (if sint x < 0 then nat (- sint x) else nat (sint x) mod 2 ^ 32)"
proof (cases "sint x < 0")
  case True
  then have "unat (- x) = nat (- sint x)" using unat_uminus_neg_sint [OF True] by linarith
  then show ?thesis using True by (simp add: magOf64_def)
next
  case False
  then have "int (unat x) = sint x" by (intro unat_nonneg_sint) simp
  then have "unat x = nat (sint x)" by linarith
  then show ?thesis using False by (simp add: magOf64_def unat_ucast_mod unat_ucast_up)
qed

text \<open>
  The constructor of \<^verbatim>\<open>bigint_t\<close> from an \<^verbatim>\<open>int64_t\<close> keeps negative
  values and nonnegative values below \<open>2^32\<close>, but cuts a larger one to its low 32 bits,
  because \<^verbatim>\<open>magOf\<close> casts it to \<^verbatim>\<open>uint32_t\<close>; where those are zero the
  sign is positive on an empty magnitude.
\<close>

theorem bigint_of_int64_truncates:
  "toInt (bigint_of_int64 x) = (if sint x < 0 then sint x else sint x mod 2 ^ 32) \<and>
   (wf_bigint (bigint_of_int64 x) \<longleftrightarrow> sint x \<le> 0 \<or> sint x mod 2 ^ 32 \<noteq> 0)"
proof -
  define m where "m = biguint_of_uint64 (magOf64 x)"
  have m: "int (toNat m) = (if sint x < 0 then - sint x else sint x mod 2 ^ 32)"
    unfolding m_def toNat_magOf64 by (simp add: zmod_int)
  have s: "bigint_of_int64 x = \<lparr>sign = signOf (sint x), mag = m\<rparr>"
    by (simp add: bigint_of_int64_def m_def)
  have v: "toInt (bigint_of_int64 x) = (if sint x < 0 then sint x else sint x mod 2 ^ 32)"
    unfolding s using m by (auto simp: toInt_def signOf_def)
  have "toNat m = 0 \<longleftrightarrow> (if sint x < 0 then - sint x else sint x mod 2 ^ 32) = 0"
    using m by (metis of_nat_eq_0_iff)
  moreover have "normal m" by (simp add: m_def)
  ultimately have "wf_bigint (bigint_of_int64 x) \<longleftrightarrow> sint x \<le> 0 \<or> sint x mod 2 ^ 32 \<noteq> 0"
    unfolding s by (auto simp: wf_bigint_alt signOf_def)
  with v show ?thesis by blast
qed

theorem bigint_of_int64_truncates_witness:
  "toInt (bigint_of_int64 4294967301) = 5 \<and> \<not> wf_bigint (bigint_of_int64 4294967296)"
  using bigint_of_int64_truncates [of 4294967301] bigint_of_int64_truncates [of 4294967296] by simp

section \<open>Signed arithmetic\<close>

text \<open>
  C11: Addition, subtraction, multiplication, negation, increment and decrement of
  \<^verbatim>\<open>bigint_t\<close> never fault and are those of the integers, and they keep the invariant
  that the sign is zero exactly for an empty magnitude.
\<close>

theorem bigint_ring_exact:
  assumes "wf_bigint a" "wf_bigint b"
  shows "yields (bigint_add this a b) (toInt a + toInt b) \<and>
    yields (bigint_subtract this a b) (toInt a - toInt b) \<and>
    yields (bigint_multiply this a b) (toInt a * toInt b) \<and>
    yields (Inr (bigint_negate this a)) (- toInt a) \<and>
    yields (bigint_inc a) (toInt a + 1) \<and> yields (bigint_dec a) (toInt a - 1)"
  using bigint_add_correct [OF assms] bigint_subtract_correct [OF assms]
    bigint_multiply_correct [OF assms] yieldsI [OF bigint_negate_correct [OF assms(1)]]
    bigint_inc_correct [OF assms(1)] bigint_dec_correct [OF assms(1)] by blast

theorem bigint_ring_exact_witness:
  "yields (bigint_subtract bigint_zero \<lparr>sign = -1, mag = \<lparr>capacity = 1, blk = [3]\<rparr>\<rparr>
     \<lparr>sign = 1, mag = \<lparr>capacity = 1, blk = [4]\<rparr>\<rparr>) (-7)"
  using bigint_ring_exact [of "\<lparr>sign = -1, mag = \<lparr>capacity = 1, blk = [3]\<rparr>\<rparr>"
      "\<lparr>sign = 1, mag = \<lparr>capacity = 1, blk = [4]\<rparr>\<rparr>" bigint_zero]
  by (simp add: wf_bigint_def toInt_def concrete_number)

text \<open>
  C10: \<^verbatim>\<open>bigint_t::divide\<close> rounds the quotient towards minus infinity for every
  combination of signs and leaves a remainder with the sign of the divisor; dividing by
  zero leaves the dividend and the quotient zero.
\<close>

theorem bigint_divide_floor:
  assumes "wf_bigint a" "wf_bigint b"
  shows "\<exists>r q'. bigint_divide a b q = Inr (r, q') \<and> wf_bigint r \<and> wf_bigint q' \<and>
    toInt r = toInt a mod toInt b \<and> toInt q' = toInt a div toInt b"
  by (rule bigint_divide_correct [OF assms])

theorem bigint_divide_floor_witness:
  "\<exists>r q'. bigint_divide \<lparr>sign = -1, mag = \<lparr>capacity = 1, blk = [7]\<rparr>\<rparr>
       \<lparr>sign = 1, mag = \<lparr>capacity = 1, blk = [2]\<rparr>\<rparr> bigint_zero = Inr (r, q') \<and>
     wf_bigint r \<and> wf_bigint q' \<and> toInt r = 1 \<and> toInt q' = -4"
  using bigint_divide_floor [of "\<lparr>sign = -1, mag = \<lparr>capacity = 1, blk = [7]\<rparr>\<rparr>"
      "\<lparr>sign = 1, mag = \<lparr>capacity = 1, blk = [2]\<rparr>\<rparr>" bigint_zero]
  by (simp add: wf_bigint_def toInt_def concrete_number)

text \<open>
  \<^verbatim>\<open>operator/\<close> of \<^verbatim>\<open>bigint_t\<close> tests the dividend where it means the divisor:
  zero divided by anything throws a division by zero, and anything else divided by zero
  gives zero. When both are nonzero the quotient is right.
\<close>

theorem bigint_op_divide_guard:
  assumes "wf_bigint a" "wf_bigint x"
  shows "if toInt a = 0
    then bigint_op_divide a x = Inl (Thrown ''bigint_t::operator /: division by zero'')
    else yields (bigint_op_divide a x) (if toInt x = 0 then 0 else toInt a div toInt x)"
  using sign_toInt [OF assms(1)] bigint_divide_correct [of "bigint_assign bigint_zero a" x bigint_zero] assms
  by (auto simp: bigint_op_divide_def yields_def sgn_0_0)

theorem bigint_op_divide_guard_witness:
  "bigint_op_divide bigint_zero (bigint_of_int32 1) = Inl (Thrown ''bigint_t::operator /: division by zero'') \<and>
   yields (bigint_op_divide (bigint_of_int32 1) bigint_zero) 0"
  using bigint_op_divide_guard [of bigint_zero "bigint_of_int32 1"]
    bigint_op_divide_guard [of "bigint_of_int32 1" bigint_zero] by simp

section \<open>Text\<close>

text \<open>
  C13: Writing a number of less than \<open>2 ^ 32\<close> bits in a base from 2 on stays inside the
  space computed for its digits, although that space is computed with 32-bit signed
  integers, and gives its positional representation: the digits are below the base, the
  first one is not zero, and their value is the number. The bound is sharp: for a number of
  \<open>2 ^ 32\<close> bits (\<open>2 ^ 26\<close> blocks) the computed space is empty and the first digit is written
  out of bounds.
\<close>

theorem inABase_of_biguint_exact:
  assumes "normal x" "2 \<le> bs"
  shows "(len x < 2 ^ 26 \<longrightarrow> (\<exists>d. inABase_of_biguint x bs = Inr d \<and> base d = bs \<and> len d \<le> capacity d \<and>
      trimmed (blk d) \<and> (\<forall>g \<in> set (blk d). g < bs) \<and> dval (unat bs) (map unat (blk d)) = toNat x)) \<and>
    (len x = 2 ^ 26 \<longrightarrow> inABase_of_biguint x bs = Inl OutOfBounds)"
proof (intro conjI impI)
  assume "len x < 2 ^ 26"
  from inABase_of_biguint_correct [OF assms(2,1) this]
  show "\<exists>d. inABase_of_biguint x bs = Inr d \<and> base d = bs \<and> len d \<le> capacity d \<and>
      trimmed (blk d) \<and> (\<forall>g \<in> set (blk d). g < bs) \<and> dval (unat bs) (map unat (blk d)) = toNat x"
    by (metis digits_value_def wf_inABase_def)
next
  assume "len x = 2 ^ 26"
  then show "inABase_of_biguint x bs = Inl OutOfBounds" by (rule inABase_of_biguint_wraps [OF assms(2,1)])
qed

theorem inABase_of_biguint_exact_witness:
  "(\<exists>d. inABase_of_biguint \<lparr>capacity = 1, blk = [255]\<rparr> 16 = Inr d \<and> base d = 16 \<and> len d \<le> capacity d \<and>
    trimmed (blk d) \<and> (\<forall>g \<in> set (blk d). g < 16) \<and> dval 16 (map unat (blk d)) = 255) \<and>
   (\<exists>x. normal x \<and> len x = 2 ^ 26 \<and> inABase_of_biguint x 10 = Inl OutOfBounds)"
proof (rule conjI, goal_cases)
  case 1
  show ?case using inABase_of_biguint_exact [of "\<lparr>capacity = 1, blk = [255]\<rparr>" 16] by (simp add: concrete_number)
next
  case 2
  have x: "normal \<lparr>capacity = n, blk = replicate n 1\<rparr>" "len \<lparr>capacity = n, blk = replicate n (1 :: block)\<rparr> = n" if "0 < n" for n
    using that by (simp_all add: normal_def trimmed_def)
  have p: "(0 :: nat) < 2 ^ 26" by simp
  show ?case using inABase_of_biguint_exact [OF x(1) [OF p], of 10, THEN conjunct2, rule_format, OF _ x(2) [OF p]] x [OF p] by force
qed

text \<open>
  C12: Text round trip: for a base from 2 to 36, the text of a number, read back in the
  same base, gives a number equal to it. The number has less than \<open>2 ^ 32\<close> bits, which is
  where the 32-bit computation of the space for the digits ends.
\<close>

theorem text_roundtrip:
  assumes "normal x" "2 \<le> bs" "bs \<le> 36" "len x < 2 ^ 26"
  shows "\<exists>d d' y. inABase_of_biguint x bs = Inr d \<and>
    inABase_of_string (inABase_to_string d) bs = Inr d' \<and>
    inABase_to_biguint d' = Inr y \<and> store_eq y x"
proof -
  obtain d where d: "inABase_of_biguint x bs = Inr d" "digits_value d = toNat x" "wf_inABase d" "base d = bs"
    using inABase_of_biguint_correct [OF assms(2,1,4)] by blast
  have "0 < base d" using assms(2) d(4) by (auto simp: word_less_nat_alt word_le_nat_alt)
  with d assms(3) obtain d' where d': "inABase_of_string (inABase_to_string d) bs = Inr d'"
    "blk d' = blk d" "base d' = base d" using inABase_string_roundtrip by metis
  obtain y where y: "inABase_to_biguint d' = Inr y" "normal y" "toNat y = digits_value d'"
    using inABase_to_biguint_correct by blast
  have "toNat y = toNat x" using y(3) d(2) d'(2,3) by (simp add: digits_value_def)
  then have "store_eq y x" using biguint_eq_iff [OF y(2) assms(1)] by simp
  then show ?thesis using d(1) d'(1) y(1) by blast
qed

theorem text_roundtrip_witness:
  "\<exists>d d' y. inABase_of_biguint \<lparr>capacity = 1, blk = [255]\<rparr> 10 = Inr d \<and>
    inABase_of_string (inABase_to_string d) 10 = Inr d' \<and>
    inABase_to_biguint d' = Inr y \<and> store_eq y \<lparr>capacity = 1, blk = [255]\<rparr>"
  using text_roundtrip [of "\<lparr>capacity = 1, blk = [255]\<rparr>" 10] by (simp add: concrete_number)

section \<open>Number theory\<close>

text \<open>
  C16: The loop of \<^verbatim>\<open>gcd\<close> ends for every pair of numbers, with their greatest common
  divisor.
\<close>

theorem big_gcd_exact:
  assumes "normal a" "normal b"
  shows "\<exists>g. big_gcd a b = Some (Inr g) \<and> normal g \<and> toNat g = gcd (toNat a) (toNat b)"
  using gcd_loop_correct [of "store_copy a" "store_copy b" store_empty] assms by (simp add: big_gcd_def)

theorem big_gcd_exact_witness:
  "\<exists>g. big_gcd \<lparr>capacity = 1, blk = [18]\<rparr> \<lparr>capacity = 1, blk = [12]\<rparr> = Some (Inr g) \<and>
     normal g \<and> toNat g = gcd 18 12"
  using big_gcd_exact [of "\<lparr>capacity = 1, blk = [18]\<rparr>" "\<lparr>capacity = 1, blk = [12]\<rparr>"]
  by (simp add: concrete_number)



text \<open>
  C15: \<^verbatim>\<open>modinv\<close> returns for every integer and every positive modulus: the inverse,
  reduced, when the two have no common factor, and an exception otherwise.
\<close>

theorem modinv_exact:
  assumes "wf_bigint x" "normal n" "toNat n \<noteq> 0"
  shows "if gcd (toInt x) (int (toNat n)) = 1
    then \<exists>y. modinv x n = Some (Inr y) \<and> toNat y < toNat n \<and>
      (toInt x * int (toNat y)) mod int (toNat n) = 1 mod int (toNat n)
    else modinv x n = Some (Inl (Thrown ''bigint_t modinv: x and n have a common factor''))"
proof -
  define N where "N = int (toNat n)"
  have N: "0 < N" using assms(3) by (simp add: N_def)
  have wn: "wf_bigint (bigint_of_biguint n)" "toInt (bigint_of_biguint n) = N"
    using assms(2) by (simp_all add: N_def)
  from exteuclidean_correct [of "bigint_copy x" "bigint_of_biguint n" bigint_zero bigint_zero bigint_zero] assms wn N
  obtain g r s where g: "exteuclidean (bigint_copy x) (bigint_of_biguint n) bigint_zero bigint_zero bigint_zero = Some (Inr (g, r, s))"
    "wf_bigint g" "wf_bigint r" "toInt r * toInt x + toInt s * N = toInt g"
    "\<bar>toInt g\<bar> = gcd (toInt x) N" "0 < toInt g" by auto
  have is1: "bigint_eq g (bigint_of_int32 1) \<longleftrightarrow> gcd (toInt x) N = 1"
    using bigint_eq_iff [OF g(2) bigint_of_int32_consts(1)] g(5,6) by auto
  show ?thesis
  proof (cases "gcd (toInt x) N = 1")
    case False
    then show ?thesis using g(1) is1 by (simp add: modinv_def N_def)
  next
    case True
    from bigint_op_mod_correct [OF g(3) wn(1)] wn(2) N obtain y where
      y: "bigint_op_mod r (bigint_of_biguint n) = Inr y" "wf_bigint y" "toInt y = toInt r mod N"
      by (auto simp: yields_def)
    have yv: "int (toNat (mag y)) = toInt r mod N" using wf_bigint_nonneg [OF y(2)] y(3) N by simp
    then have lt: "toNat (mag y) < toNat n"
      using pos_mod_bound [OF N, of "toInt r"] unfolding N_def by linarith
    have "(toInt x * (toInt r mod N)) mod N = (toInt r * toInt x + toInt s * N) mod N"
      by (simp add: mod_mult_right_eq mult.commute)
    also have "\<dots> = 1 mod N" using g(4-6) True by simp
    finally show ?thesis using g(1) is1 True y(1) yv lt by (simp add: modinv_def N_def)
  qed
qed

theorem modinv_exact_witness:
  "\<exists>y. modinv \<lparr>sign = -1, mag = \<lparr>capacity = 1, blk = [3]\<rparr>\<rparr> \<lparr>capacity = 1, blk = [7]\<rparr> = Some (Inr y) \<and>
     toNat y < 7 \<and> (-3 * int (toNat y)) mod 7 = 1"
proof -
  have "gcd (-3) (7 :: int) = 1" by (simp add: gcd_non_0_int)
  then show ?thesis
    using modinv_exact [of "\<lparr>sign = -1, mag = \<lparr>capacity = 1, blk = [3]\<rparr>\<rparr>" "\<lparr>capacity = 1, blk = [7]\<rparr>"]
    by (simp add: wf_bigint_def toInt_def concrete_number)
qed

end
