(* ===== verification/Calendar.thy ===== *)
theory Calendar
  imports Decimal
begin

text \<open>
  Dates and times of \<^verbatim>\<open>libs/utillib/sftime.cpp\<close> and \<^verbatim>\<open>sftime.h\<close>. A \<^verbatim>\<open>CDate\<close> is
  its member \<^verbatim>\<open>m_nDays\<close>, a \<^verbatim>\<open>CTimeOfDay\<close> and a \<^verbatim>\<open>time_q\<close> are their members
  \<^verbatim>\<open>m_nSeconds\<close>. Machine integers are integers that are cut to their width where the code
  computes with them: \<open>u32\<close>, \<open>u64\<close>, \<open>s32\<close> and \<open>s64\<close>. The clock (\<^verbatim>\<open>Now()\<close>) is an
  argument. \<^verbatim>\<open>long\<close> has 64 bits, \<^verbatim>\<open>ASSERT\<close> is empty in a release.
\<close>

section \<open>Widths\<close>

definition u32 :: "int \<Rightarrow> int" where "u32 x = x mod 2 ^ 32"

definition u64 :: "int \<Rightarrow> int" where "u64 x = x mod 2 ^ 64"

definition s32 :: "int \<Rightarrow> int" where "s32 x = (x + 2 ^ 31) mod 2 ^ 32 - 2 ^ 31"

definition s64 :: "int \<Rightarrow> int" where "s64 x = (x + 2 ^ 63) mod 2 ^ 64 - 2 ^ 63"

text \<open>The division and the remainder of signed integers round to zero.\<close>

definition cdiv :: "int \<Rightarrow> int \<Rightarrow> int" where
  "cdiv a b = sgn a * sgn b * (\<bar>a\<bar> div \<bar>b\<bar>)"

definition cmod :: "int \<Rightarrow> int \<Rightarrow> int" where
  "cmod a b = a - b * cdiv a b"

section \<open>Days\<close>

type_synonym CDate = int
type_synonym CTimeOfDay = int
type_synonym time_q = int

definition SECS_PER_DAY :: int where "SECS_PER_DAY = 24 * 60 * 60"

definition SECS_PER_HOUR :: int where "SECS_PER_HOUR = 60 * 60"

definition SECS_PER_MIN :: int where "SECS_PER_MIN = 60"

text \<open>\<open>(uint64_t)LONG_MIN\<close>, the value of an invalid date.\<close>

definition bad_date :: CDate where "bad_date = 2 ^ 63"

definition isLeap :: "int \<Rightarrow> bool" where
  "isLeap year \<longleftrightarrow> year mod 400 = 0 \<or> year mod 4 = 0 \<and> year mod 100 \<noteq> 0"

definition DaysPerMonth :: "int list" where
  "DaysPerMonth = [31, 28, 31, 30, 31, 30, 31, 31, 30, 31, 30, 31]"

text \<open>The array is read unchecked; all callers pass a month from 1 to 12.\<close>

definition DaysInMonth :: "int \<Rightarrow> int \<Rightarrow> int" where
  "DaysInMonth year month = (if month = 2 \<and> isLeap year then 29 else DaysPerMonth ! nat (month - 1))"

definition DaysInYear :: "int \<Rightarrow> int" where
  "DaysInYear year = (if isLeap year then 366 else 365)"

text \<open>The template \<^verbatim>\<open>lfloor\<close> for a type whose conversion is \<open>conv\<close>.\<close>

definition lfloor :: "(int \<Rightarrow> int) \<Rightarrow> int \<Rightarrow> int \<Rightarrow> int" where
  "lfloor conv a b = (if a \<ge> 0 then cdiv a b else of_bool (cmod a b = 0) - 1 - cdiv (conv \<bar>a\<bar>) b)"

primrec add_months :: "int \<Rightarrow> nat \<Rightarrow> CDate \<Rightarrow> CDate" where
  "add_months y 0 n = n"
| "add_months y (Suc m) n = add_months y m (u64 (n + DaysInMonth y (int (Suc m))))"

definition setValues :: "int \<Rightarrow> int \<Rightarrow> int \<Rightarrow> CDate" where
  "setValues y m d =
     (if m \<ge> 1 \<and> m \<le> 12 \<and> d \<le> DaysInMonth y m
      then
        let n0 = u64 (u32 (u32 (y - 1) * 365) + u64 (lfloor s32 (s32 (u32 (y - 1))) 4));
            n1 = u64 (n0 + u64 (u64 (lfloor s32 (s32 (u32 (y - 1))) 400) - u64 (lfloor s32 (s32 (u32 (y - 1))) 100)));
            n2 = add_months y (nat (m - 1)) n1
        in u64 (n2 + (d + 1999422264))
      else bad_date)"

text \<open>The members for hour, minute and second of the struct are never set or read.\<close>

record CDateStruct =
  m_Year :: int
  m_Month :: int
  m_Day :: int

function year_loop :: "nat \<Rightarrow> int \<Rightarrow> int \<Rightarrow> int \<times> int" where
  "year_loop i year gdn = (if gdn > 365 \<and> i + 1 < 4 then year_loop (i + 1) (u32 (year + 1)) (gdn - 365) else (year, gdn))"
  by pat_completeness auto
termination by (relation "measure (\<lambda>(i, year, gdn). 4 - i)") auto

function month_loop :: "int \<Rightarrow> int \<Rightarrow> int \<Rightarrow> int \<times> int" where
  "month_loop year month gdn =
     (if month < 13 \<and> gdn > DaysInMonth year month then month_loop year (month + 1) (gdn - DaysInMonth year month)
      else (month, gdn))"
  by pat_completeness auto
termination by (relation "measure (\<lambda>(year, month, gdn). nat (13 - month))") auto

declare year_loop.simps [simp del] month_loop.simps [simp del]

text \<open>The year and the day in it, counted from one, before the search for the month.\<close>

definition year_of_day :: "int \<Rightarrow> int \<times> int" where
  "year_of_day n =
     (let gdn = s64 (n - 1999422265);
          year = u32 (400 * lfloor s64 gdn 146097);
          gdn = gdn - 146097 * lfloor s64 gdn 146097;
          (year, gdn, exception) =
            (if gdn > 0
             then
               let year = u32 (year + 100 * lfloor s64 gdn 36524);
                   gdn = gdn - 36524 * lfloor s64 gdn 36524
               in if gdn > 0
                  then
                    let year = u32 (year + 4 * lfloor s64 gdn 1461);
                        gdn = gdn - 1461 * lfloor s64 gdn 1461;
                        (year, gdn) = (if gdn > 0 then year_loop 0 year gdn else (year, gdn))
                    in (year, gdn, False)
                  else (year, gdn, gdn = 0)
             else (year, gdn, False))
      in if exception then (year, 366) else (u32 (year + 1), gdn + 1))"

definition getDateStruct :: "CDate \<Rightarrow> CDateStruct" where
  "getDateStruct n =
     (case year_of_day n of (year, gdn) \<Rightarrow>
      case month_loop year 1 gdn of (month, gdn) \<Rightarrow>
        (if month = 13 then \<lparr>m_Year = u32 (year + 1), m_Month = 1, m_Day = u32 gdn\<rparr>
         else \<lparr>m_Year = year, m_Month = month, m_Day = u32 gdn\<rparr>))"

definition CDate_GetTotalDays :: "CDate \<Rightarrow> int" where
  "CDate_GetTotalDays n = s64 n"

definition CDate_of_days :: "int \<Rightarrow> CDate" where
  "CDate_of_days days = (if days > 2146905911 then bad_date else u64 (days + 2000000000))"

definition CDate_plus :: "CDate \<Rightarrow> int \<Rightarrow> CDate" where
  "CDate_plus n days = CDate_of_days (s64 n - 2000000000 + days)"

definition CDate_minus :: "CDate \<Rightarrow> int \<Rightarrow> CDate" where
  "CDate_minus n days = CDate_of_days (s64 (n - 2000000000) - days)"

definition getDayOfWeek :: "CDate \<Rightarrow> int" where
  "getDayOfWeek date = u32 (cmod (CDate_GetTotalDays date) 7 + 1)"

definition CDate_of_week :: "int \<Rightarrow> int \<Rightarrow> int \<Rightarrow> int \<Rightarrow> CDate" where
  "CDate_of_week y m weekInMonth dayOfWeek =
     (if (m \<ge> 1 \<and> m \<le> 12) \<and> (weekInMonth \<ge> 1 \<and> weekInMonth \<le> 4) \<and> (dayOfWeek \<ge> 1 \<and> dayOfWeek \<le> 7)
      then
        let dow = getDayOfWeek (setValues y m 1);
            d = u32 (u32 (dayOfWeek - dow + 7) mod 7 + 7 * (weekInMonth - 1) + 1)
        in setValues y m d
      else bad_date)"

section \<open>The time of the day\<close>

definition CTimeOfDay_hms :: "int \<Rightarrow> int \<Rightarrow> int \<Rightarrow> CTimeOfDay" where
  "CTimeOfDay_hms h m s = min SECS_PER_DAY (u32 (h * SECS_PER_HOUR + m * SECS_PER_MIN + s))"

definition CTimeOfDay_secs :: "int \<Rightarrow> CTimeOfDay" where
  "CTimeOfDay_secs secs = min SECS_PER_DAY secs"

definition tod_GetHour :: "CTimeOfDay \<Rightarrow> int" where
  "tod_GetHour s = s div SECS_PER_HOUR"

definition tod_GetMinute :: "CTimeOfDay \<Rightarrow> int" where
  "tod_GetMinute s = u32 (s - u32 (tod_GetHour s * SECS_PER_HOUR)) div SECS_PER_MIN"

definition tod_GetSecond :: "CTimeOfDay \<Rightarrow> int" where
  "tod_GetSecond s = u32 (s - u32 (tod_GetHour s * SECS_PER_HOUR) - u32 (tod_GetMinute s * SECS_PER_MIN))"

section \<open>Points in time\<close>

definition time_q_of_parts :: "CDate \<Rightarrow> CTimeOfDay \<Rightarrow> time_q" where
  "time_q_of_parts datePart timePart = s64 (s64 (CDate_GetTotalDays datePart * SECS_PER_DAY) + timePart)"

definition time_q_of :: "int \<Rightarrow> int \<Rightarrow> int \<Rightarrow> int \<Rightarrow> int \<Rightarrow> int \<Rightarrow> time_q" where
  "time_q_of year month day hour minute sec = time_q_of_parts (setValues year month day) (CTimeOfDay_hms hour minute sec)"

definition time_q_of_week :: "int \<Rightarrow> int \<Rightarrow> int \<Rightarrow> int \<Rightarrow> int \<Rightarrow> int \<Rightarrow> int \<Rightarrow> time_q" where
  "time_q_of_week year month weekInMonth dayOfWeek hour minute sec =
     time_q_of_parts (CDate_of_week year month weekInMonth dayOfWeek) (CTimeOfDay_hms hour minute sec)"

definition time_q_of_days :: "int \<Rightarrow> int \<Rightarrow> int \<Rightarrow> int \<Rightarrow> time_q" where
  "time_q_of_days days hour minute sec = time_q_of_parts (CDate_of_days days) (CTimeOfDay_hms hour minute sec)"

definition earliestDate :: time_q where "earliestDate = time_q_of 1700 1 1 0 0 1"

definition latestDate :: time_q where "latestDate = time_q_of 2200 12 31 23 59 59"

definition time_q_default :: time_q where "time_q_default = 0xdeadbeef"

definition time_IsValid :: "time_q \<Rightarrow> bool" where
  "time_IsValid t \<longleftrightarrow> t \<noteq> 0xdeadbeef"

definition getDatePart :: "time_q \<Rightarrow> CDate" where
  "getDatePart t = CDate_of_days (cdiv t SECS_PER_DAY - 2000000000)"

definition getTimePart :: "time_q \<Rightarrow> CTimeOfDay" where
  "getTimePart t =
     (if t = CDate_GetTotalDays (getDatePart t) then CTimeOfDay_secs 0
      else CTimeOfDay_secs (u32 (t - s64 (CDate_GetTotalDays (getDatePart t) * SECS_PER_DAY))))"

definition GetYear :: "time_q \<Rightarrow> int" where "GetYear t = m_Year (getDateStruct (getDatePart t))"

definition GetMonth :: "time_q \<Rightarrow> int" where "GetMonth t = m_Month (getDateStruct (getDatePart t))"

definition GetDay :: "time_q \<Rightarrow> int" where "GetDay t = m_Day (getDateStruct (getDatePart t))"

definition GetHour :: "time_q \<Rightarrow> int" where "GetHour t = tod_GetHour (getTimePart t)"

definition GetMinute :: "time_q \<Rightarrow> int" where "GetMinute t = tod_GetMinute (getTimePart t)"

definition GetSecond :: "time_q \<Rightarrow> int" where "GetSecond t = tod_GetSecond (getTimePart t)"

definition onTheHour :: "time_q \<Rightarrow> bool" where
  "onTheHour t \<longleftrightarrow> GetMinute t < 5 \<or> GetMinute t > 55"

definition time_plus :: "time_q \<Rightarrow> int \<Rightarrow> time_q" where "time_plus t ts = s64 (t + ts)"

definition time_minus :: "time_q \<Rightarrow> int \<Rightarrow> time_q" where "time_minus t ts = s64 (t - ts)"

text \<open>The members of \<^verbatim>\<open>tm\<close> that the constructors use.\<close>

record tm =
  tm_year :: int
  tm_mon :: int
  tm_mday :: int
  tm_wday :: int
  tm_hour :: int
  tm_min :: int
  tm_sec :: int

definition CDate_of_tm :: "tm \<Rightarrow> CDate" where
  "CDate_of_tm st = setValues (u32 (tm_year st)) (u32 (tm_mon st)) (u32 (tm_mday st))"

definition CTimeOfDay_of_tm :: "tm \<Rightarrow> CTimeOfDay" where
  "CTimeOfDay_of_tm st =
     min SECS_PER_DAY (u32 (u32 (tm_hour st) * SECS_PER_HOUR + u32 (tm_min st) * SECS_PER_MIN + u32 (tm_sec st)))"

text \<open>\<open>nowYear\<close> is \<^verbatim>\<open>Now().GetYear()\<close>, which is asked for when the year is zero.\<close>

definition time_q_of_tm :: "int \<Rightarrow> tm \<Rightarrow> bool \<Rightarrow> time_q" where
  "time_q_of_tm nowYear st useDayOfWeek =
     (let sysTime = (if tm_year st = 0 then st\<lparr>tm_year := s32 nowYear\<rparr> else st)
      in if useDayOfWeek
         then time_q_of_parts (CDate_of_week (u32 (tm_year sysTime)) (u32 (tm_mon sysTime)) (u32 (tm_mday sysTime)) (u32 (tm_wday sysTime + 1)))
                (CTimeOfDay_of_tm sysTime)
         else time_q_of_parts (CDate_of_tm sysTime) (CTimeOfDay_of_tm sysTime))"

text \<open>\<^verbatim>\<open>Now\<close>: \<open>None\<close> is a failure of \<^verbatim>\<open>localtime_r\<close>. The year is not zero after adding 1900.\<close>

definition Now_of :: "tm option \<Rightarrow> time_q" where
  "Now_of loc = (case loc of
       Some st \<Rightarrow> time_q_of_tm 0 (st\<lparr>tm_year := tm_year st + 1900, tm_mon := tm_mon st + 1\<rparr>) False
     | None \<Rightarrow> earliestDate)"

end
