(* ===== verification/DateText.thy ===== *)
theory DateText
  imports Calendar
begin

text \<open>
  Dates as texts and as Unix times: \<^verbatim>\<open>time_q::Format\<close> and the parsing constructors of
  \<^verbatim>\<open>sftime.cpp\<close>, \<^verbatim>\<open>str_2_Date\<close>, \<^verbatim>\<open>date_2_Ts\<close> and \<^verbatim>\<open>ts_2_Date\<close> of
  \<^verbatim>\<open>conversions.cpp\<close>. Warnings that are only printed are left out.
\<close>

section \<open>Formatting\<close>

text \<open>\<^verbatim>\<open>%d\<close> and \<^verbatim>\<open>%.02d\<close> of \<^verbatim>\<open>snprintf\<close> for an unsigned argument of 32 bits.\<close>

definition fmt_d :: "int \<Rightarrow> string" where
  "fmt_d x = (if s32 x < 0 then ''-'' else '''') @ dec_str (nat \<bar>s32 x\<bar>)"

definition fmt_02d :: "int \<Rightarrow> string" where
  "fmt_02d x = (if s32 x < 0 then ''-'' else '''') @ padLeft (dec_str (nat \<bar>s32 x\<bar>)) 2 (CHR ''0'')"

definition getCentury :: "int \<Rightarrow> int" where
  "getCentury year = year div 100 * 100"

definition get2Digit :: "int \<Rightarrow> int" where
  "get2Digit year = u32 (year - getCentury year)"

definition hour12 :: "int \<Rightarrow> int" where
  "hour12 hour = (let h = (if hour > 12 then hour - 12 else hour) in if h = 0 then 12 else h)"

definition format_field :: "time_q \<Rightarrow> char \<Rightarrow> string" where
  "format_field t c =
     (if c = CHR ''Q'' then dec_str (nat (u32 (GetHour t * 60 * 60 + GetMinute t * 60 + GetSecond t)))
      else if c = CHR ''H'' then fmt_02d (GetHour t)
      else if c = CHR ''h'' then fmt_02d (hour12 (GetHour t))
      else if c = CHR ''M'' then fmt_02d (GetMinute t)
      else if c = CHR ''P'' then (if GetHour t \<ge> 12 then ''pm'' else ''am'')
      else if c = CHR ''p'' then (if GetHour t \<ge> 12 then ''p'' else ''a'')
      else if c = CHR ''S'' then fmt_02d (GetSecond t)
      else if c = CHR ''d'' then fmt_02d (GetDay t)
      else if c = CHR ''f'' then ''Gregorian Calendar''
      else if c = CHR ''m'' then fmt_02d (GetMonth t)
      else if c = CHR ''y'' then fmt_02d (get2Digit (GetYear t))
      else if c = CHR ''Y'' then fmt_d (GetYear t)
      else [c])"

definition format_short :: "time_q \<Rightarrow> char \<Rightarrow> string" where
  "format_short t c =
     (if c = CHR ''d'' then fmt_d (GetDay t)
      else if c = CHR ''m'' then fmt_d (GetMonth t)
      else if c = CHR ''y'' then fmt_d (get2Digit (GetYear t))
      else if c = CHR ''H'' then fmt_d (GetHour t)
      else if c = CHR ''h'' then fmt_d (hour12 (GetHour t))
      else if c = CHR ''M'' then fmt_d (GetMinute t)
      else if c = CHR ''S'' then fmt_d (GetSecond t)
      else [c])"

text \<open>
  The test before the character after \<^verbatim>\<open>%#\<close> is read is made before the index is increased:
  a format that ends with \<^verbatim>\<open>%#\<close> makes \<^verbatim>\<open>at\<close> throw.
\<close>

fun format_loop :: "time_q \<Rightarrow> string \<Rightarrow> string result" where
  "format_loop t [] = Inr []"
| "format_loop t [c] = (if c = CHR ''%'' then Inr [] else Inr [c])"
| "format_loop t (c # d # cs) =
     (if c \<noteq> CHR ''%'' then bindR (format_loop t (d # cs)) (\<lambda>r. Inr (c # r))
      else if d = CHR ''#''
      then (case cs of
              [] \<Rightarrow> Inl (Thrown ''out_of_range'')
            | e # cs' \<Rightarrow> bindR (format_loop t cs') (\<lambda>r. Inr (format_short t e @ r)))
      else bindR (format_loop t cs) (\<lambda>r. Inr (format_field t d @ r)))"

definition Format :: "time_q \<Rightarrow> string \<Rightarrow> string result" where
  "Format t sFormat = (if time_IsValid t then format_loop t sFormat else Inr [])"

definition FMT_JSON :: string where "FMT_JSON = ''%Y-%m-%d %H:%M:%S UTC''"

definition FMT_EXPORT :: string where "FMT_EXPORT = ''%Y-%m-%dT%H:%M:%S''"

definition FMT_PARTS :: string where "FMT_PARTS = ''%Y|%m|%d|%H|%M|%S''"

definition FMT_SHORT :: string where "FMT_SHORT = ''%Y%m%d''"

section \<open>Parsing\<close>

text \<open>\<^verbatim>\<open>(uint32_t)str_2_Uint(s)\<close>\<close>

definition str_2_Int32u :: "string \<Rightarrow> int" where
  "str_2_Int32u s = u32 (uint (str_2_Uint s))"

text \<open>The three fields in the order of the format, as long as there is text left.\<close>

primrec tod_fields_loop :: "string \<Rightarrow> char \<Rightarrow> string \<Rightarrow> int \<times> int \<times> int \<Rightarrow> int \<times> int \<times> int" where
  "tod_fields_loop [] sep str f = f"
| "tod_fields_loop (c # cs) sep str f =
     (case f of (hour, minute, secs) \<Rightarrow>
      if str = [] then f
      else
        (case nextTokenClear str sep True of (token, rest) \<Rightarrow>
           if c = CHR ''h'' \<or> c = CHR ''H'' then tod_fields_loop cs sep rest (str_2_Int32u token, minute, secs)
           else if c = CHR ''m'' \<or> c = CHR ''M'' then tod_fields_loop cs sep rest (hour, str_2_Int32u token, secs)
           else if c = CHR ''s'' \<or> c = CHR ''S'' then tod_fields_loop cs sep rest (hour, minute, str_2_Int32u token)
           else tod_fields_loop cs sep str f))"

definition CTimeOfDay_of_str :: "string \<Rightarrow> string \<Rightarrow> CTimeOfDay" where
  "CTimeOfDay_of_str timeStr fmtStr =
     (if length fmtStr \<noteq> 4 then CTimeOfDay_hms 12 0 0
      else
        let (hour, minute, secs) = tod_fields_loop (take 3 fmtStr) (fmtStr ! 3) timeStr (12, 0, 0);
            am = (case find_sub '' '' timeStr of
                    Some f \<Rightarrow> \<not> contains (toLower (extract_from timeStr f)) ''p''
                  | None \<Rightarrow> True);
            hour = (if \<not> am \<and> hour < 12 then hour + 12 else if am \<and> hour = 12 then 0 else hour)
        in CTimeOfDay_hms hour minute secs)"

primrec date_fields_loop :: "string \<Rightarrow> string \<Rightarrow> string \<Rightarrow> int \<times> int \<times> int \<Rightarrow> int \<times> int \<times> int" where
  "date_fields_loop [] fmtStr str f = f"
| "date_fields_loop (c # cs) fmtStr str f =
     (case f of (year, month, day) \<Rightarrow>
      if str = [] then f
      else
        (case nextTokenClear str (fmtStr ! 4) True of (token, rest) \<Rightarrow>
           if c = CHR ''d'' \<or> c = CHR ''D'' then date_fields_loop cs fmtStr rest (year, month, str_2_Int32u token)
           else if c = CHR ''m'' \<or> c = CHR ''M'' then date_fields_loop cs fmtStr rest (year, str_2_Int32u token, day)
           else if c = CHR ''y'' \<or> c = CHR ''Y''
           then
             let y = str_2_Int32u token;
                 y = (if fmtStr ! 3 = CHR ''2'' \<or> y < 100 then u32 (y + (if y \<ge> 50 then 1900 else 2000)) else y)
             in date_fields_loop cs fmtStr rest (y, month, day)
           else date_fields_loop cs fmtStr str f))"

definition clamp :: "int \<Rightarrow> int \<Rightarrow> int \<Rightarrow> int" where
  "clamp v l h = min h (max l v)"

definition CDate_of_str :: "time_q \<Rightarrow> string \<Rightarrow> string \<Rightarrow> CDate" where
  "CDate_of_str now dateStr fmtStr =
     (if length fmtStr \<noteq> 5 then setValues (GetYear now) (GetMonth now) (GetDay now)
      else
        let (year, month, day) = date_fields_loop (take 3 fmtStr) fmtStr dateStr (GetYear now, 1, 1);
            year = clamp year (GetYear earliestDate) (GetYear latestDate);
            month = clamp month 1 12;
            day = clamp day 1 (DaysInMonth year month)
        in setValues year month day)"

definition time_q_of_str :: "time_q \<Rightarrow> string \<Rightarrow> string \<Rightarrow> time_q" where
  "time_q_of_str now dateStr fmtStr =
     (if dateStr = [] \<or> fmtStr = [] then earliestDate
      else time_q_of_parts (CDate_of_str now dateStr fmtStr) (CTimeOfDay_of_str dateStr fmtStr))"

text \<open>The replacing routines need not return in general.\<close>

fun removeAll_each :: "string \<Rightarrow> string \<Rightarrow> string result" where
  "removeAll_each s [] = Inr s"
| "removeAll_each s (c # cs) = bindR (returned (replaceAll s [c] [])) (\<lambda>s'. removeAll_each s' cs)"

definition NP :: int where "NP = 2 ^ 32 - 1"

definition field_or_NP :: "string \<Rightarrow> int" where
  "field_or_NP s = (if isUnsigned s then str_2_Int32u s else NP)"

text \<open>A date of reduced accuracy is completed with its beginning.\<close>

definition complete_date :: "string \<Rightarrow> string" where
  "complete_date s =
     (if length s = 4 then s @ ''0101000000''
      else if length s = 6 then s @ ''01000000''
      else if length s = 8 then s @ ''000000''
      else if length s = 10 then s @ ''0000''
      else if length s = 12 then s @ ''00''
      else s)"

definition date_of_fields :: "int \<Rightarrow> int \<Rightarrow> int \<Rightarrow> int \<Rightarrow> int \<Rightarrow> int \<Rightarrow> time_q" where
  "date_of_fields y m d h mn s =
     (if y = NP \<or> m = NP \<or> d = NP \<or> h = NP \<or> mn = NP \<or> s = NP then earliestDate
      else if m < 1 \<or> m > 12 then earliestDate
      else if d < 1 \<or> d > 31 then earliestDate
      else if h > 23 then earliestDate
      else if mn > 59 then earliestDate
      else if s > 59 then earliestDate
      else time_q_of y m d h mn s)"

definition str_2_Date :: "string \<Rightarrow> time_q result" where
  "str_2_Date strIn =
     (if strIn = [] then Inr earliestDate
      else
        let str = fst (nextTokenClear strIn (CHR ''.'') True)
        in bindR (returned (substitute str ''UTC'' [])) (\<lambda>check0.
           bindR (removeAll_each check0 ''0123456789T:-'') (\<lambda>check.
             if check \<noteq> [] then Inr earliestDate
             else
               bindR (removeAll_each str ''T:-'') (\<lambda>s.
                 let str = complete_date s
                 in Inr (date_of_fields (field_or_NP (extract_q str 0 4)) (field_or_NP (extract_q str 4 2)) (field_or_NP (extract_q str 6 2))
                      (field_or_NP (extract_q str 8 2)) (field_or_NP (extract_q str 10 2)) (field_or_NP (extract_q str 12 2)))))))"

definition isDate :: "string \<Rightarrow> bool" where
  "isDate date \<longleftrightarrow>
     \<not> (str_2_Uint date < 2015 \<or> str_2_Uint date > 2050) \<and> containsAny date '':- '' \<and> countOf date (CHR ''-'') \<noteq> 0"

section \<open>Unix times\<close>

text \<open>
  \<^verbatim>\<open>gmtime_r\<close> of the C library, by counting years and months from 1970. A year that does
  not fit an \<^verbatim>\<open>int\<close> gives the null pointer, \<open>None\<close>.
\<close>

function gm_year :: "int \<Rightarrow> int \<Rightarrow> int \<times> int" where
  "gm_year y n =
     (if n < 0 then gm_year (y - 1) (n + DaysInYear (y - 1))
      else if n \<ge> DaysInYear y then gm_year (y + 1) (n - DaysInYear y)
      else (y, n))"
  by pat_completeness auto
termination
  by (relation "measure (\<lambda>(y, n). if n < 0 then nat (400 - n) else nat n)") (auto simp: DaysInYear_def split: if_splits)

function gm_month :: "int \<Rightarrow> int \<Rightarrow> int \<Rightarrow> int \<times> int" where
  "gm_month y m n = (if m < 12 \<and> n \<ge> DaysInMonth y m then gm_month y (m + 1) (n - DaysInMonth y m) else (m, n))"
  by pat_completeness auto
termination by (relation "measure (\<lambda>(y, m, n). nat (12 - m))") auto

declare gm_year.simps [simp del] gm_month.simps [simp del]

definition gmtime :: "int \<Rightarrow> tm option" where
  "gmtime utc =
     (let (y, n) = gm_year 1970 (utc div 86400); (m, d) = gm_month y 1 n; r = utc mod 86400
      in if y - 1900 < - (2 ^ 31) \<or> y - 1900 \<ge> 2 ^ 31 then None
         else Some \<lparr>tm_year = y - 1900, tm_mon = m - 1, tm_mday = d + 1, tm_wday = (utc div 86400 + 4) mod 7,
                tm_hour = r div 3600, tm_min = r mod 3600 div 60, tm_sec = r mod 60\<rparr>)"

text \<open>\<^verbatim>\<open>strftime\<close> with the format \<^verbatim>\<open>%Y-%m-%d %H:%M:%S UTC\<close>.\<close>

definition two_digits_of :: "int \<Rightarrow> string" where
  "two_digits_of x = padLeft (dec_str (nat x)) 2 (CHR ''0'')"

definition strftime_json :: "tm \<Rightarrow> string" where
  "strftime_json st =
     (if tm_year st + 1900 < 0 then ''-'' else '''') @ dec_str (nat \<bar>tm_year st + 1900\<bar>) @ ''-'' @ two_digits_of (tm_mon st + 1) @ ''-'' @
     two_digits_of (tm_mday st) @ '' '' @ two_digits_of (tm_hour st) @ '':'' @ two_digits_of (tm_min st) @ '':'' @
     two_digits_of (tm_sec st) @ '' UTC''"

text \<open>The code passes the result of \<^verbatim>\<open>gmtime_r\<close> on unchecked; the null pointer is a fault.\<close>

definition ts_2_Date :: "int \<Rightarrow> time_q result" where
  "ts_2_Date tsIn =
     (case gmtime tsIn of
        None \<Rightarrow> Inl OutOfBounds
      | Some ret \<Rightarrow>
          (let (y, s1) = nextTokenClear (strftime_json ret) (CHR ''-'') True; (m, s2) = nextTokenClear s1 (CHR ''-'') True;
               (d, s3) = nextTokenClear s2 (CHR '' '') True; (h, s4) = nextTokenClear s3 (CHR '':'') True;
               (mn, s5) = nextTokenClear s4 (CHR '':'') True; (s, s6) = nextTokenClear s5 (CHR '' '') True
           in Inr (time_q_of (str_2_Int32u y) (str_2_Int32u m) (str_2_Int32u d) (str_2_Int32u h) (str_2_Int32u mn) (str_2_Int32u s))))"

definition date_2_Ts :: "time_q \<Rightarrow> int" where
  "date_2_Ts timeIn =
     (let jan1970 = time_q_of 1970 1 1 0 0 0
      in if timeIn < jan1970 then 0 else s64 (timeIn - jan1970))"

end
