(* ===== verification/Periods.thy ===== *)
theory Periods
  imports Calendar
begin

text \<open>
  Steps over the calendar: the next day, hour, week, month, quarter and year, the beginnings
  and ends of periods, and the lists of periods between two times (\<^verbatim>\<open>sftime.cpp\<close> and
  \<^verbatim>\<open>sftime.h\<close>). Loops over days and periods have no bound in the code: \<open>None\<close> is a call
  that does not return.
\<close>

section \<open>Next and previous\<close>

definition AddOneDay :: "time_q \<Rightarrow> time_q" where
  "AddOneDay date =
     (if date \<ge> latestDate then latestDate
      else
        let day = GetDay date; month = GetMonth date; year = GetYear date;
            minute = GetMinute date; sec = GetSecond date; hour = GetHour date; nDays = DaysInMonth year month
        in if nDays = day
           then if month = 12 then time_q_of (u32 (year + 1)) 1 1 hour minute sec
                else time_q_of year (month + 1) 1 hour minute sec
           else time_q_of year month (u32 (day + 1)) hour minute sec)"

definition SubtractOneDay :: "time_q \<Rightarrow> time_q" where
  "SubtractOneDay date =
     (if date \<le> earliestDate then earliestDate
      else
        let day = GetDay date; month = GetMonth date; year = GetYear date;
            minute = GetMinute date; sec = GetSecond date; hour = GetHour date
        in if day = 1
           then if month = 1 then time_q_of (u32 (year - 1)) 12 (DaysInMonth (u32 (year - 1)) 12) hour minute sec
                else time_q_of year (month - 1) (DaysInMonth year (month - 1)) hour minute sec
           else time_q_of year month (u32 (day - 1)) hour minute sec)"

definition BOH :: "time_q \<Rightarrow> time_q" where
  "BOH date = time_q_of (GetYear date) (GetMonth date) (GetDay date) (GetHour date) 0 0"

definition EOH :: "time_q \<Rightarrow> time_q" where
  "EOH date = time_q_of (GetYear date) (GetMonth date) (GetDay date) (GetHour date) 59 59"

definition BOD :: "time_q \<Rightarrow> time_q" where
  "BOD date = time_q_of (GetYear date) (GetMonth date) (GetDay date) 0 0 0"

definition EOD :: "time_q \<Rightarrow> time_q" where
  "EOD date = time_q_of (GetYear date) (GetMonth date) (GetDay date) 23 59 59"

definition BOM :: "time_q \<Rightarrow> time_q" where
  "BOM date = time_q_of (GetYear date) (GetMonth date) 1 0 0 0"

definition BOQ :: "time_q \<Rightarrow> time_q" where
  "BOQ date = time_q_of (GetYear date) (u32 (u32 (GetMonth date - 1) div 3 * 3 + 1)) 1 0 0 0"

definition BOY :: "time_q \<Rightarrow> time_q" where
  "BOY date = time_q_of (GetYear date) 1 1 0 0 0"

definition MIDDAY :: "time_q \<Rightarrow> time_q" where
  "MIDDAY date = time_q_of (GetYear date) (GetMonth date) (GetDay date) 12 0 0"

definition AddOneHour :: "time_q \<Rightarrow> time_q" where
  "AddOneHour date =
     (if GetHour (BOH date) = 23 then BOD (AddOneDay date)
      else time_q_of (GetYear date) (GetMonth date) (GetDay date) (u32 (GetHour date + 1)) 0 0)"

definition AddOneWeek :: "time_q \<Rightarrow> time_q" where
  "AddOneWeek date = (AddOneDay ^^ 7) date"

definition AddOneMonth :: "time_q \<Rightarrow> time_q" where
  "AddOneMonth date =
     (if GetMonth date = 12 then time_q_of (u32 (GetYear date + 1)) 1 1 0 0 0
      else time_q_of (GetYear date) (u32 (GetMonth date + 1)) 1 0 0 0)"

definition AddOneQuarter :: "time_q \<Rightarrow> time_q" where
  "AddOneQuarter date =
     (if GetMonth date > 9 then time_q_of (u32 (GetYear date + 1)) (u32 (GetMonth date + 3) mod 12 + 1) 1 0 0 0
      else time_q_of (GetYear date) (u32 (GetMonth date + 3)) 1 0 0 0)"

definition AddOneYear :: "time_q \<Rightarrow> time_q" where
  "AddOneYear date = time_q_of (u32 (GetYear date + 1)) 1 1 0 0 0"

definition earlierOf :: "time_q \<Rightarrow> time_q \<Rightarrow> time_q" where
  "earlierOf one two = (if one < two then one else if two < one then two else one)"

definition laterOf :: "time_q \<Rightarrow> time_q \<Rightarrow> time_q" where
  "laterOf one two = (if one > two then one else if two > one then two else one)"

section \<open>Weeks\<close>

partial_function (option) BOW_loop :: "time_q \<Rightarrow> time_q option" where
  "BOW_loop ret = (if getDayOfWeek (getDatePart ret) > 1 then BOW_loop (SubtractOneDay ret) else Some ret)"

definition BOW :: "time_q \<Rightarrow> time_q option" where
  "BOW tm = BOW_loop (BOD tm)"

text \<open>The loop of \<^verbatim>\<open>EOW\<close> tests \<^verbatim>\<open>tm\<close>, which does not change.\<close>

partial_function (option) EOW_loop :: "time_q \<Rightarrow> time_q \<Rightarrow> time_q option" where
  "EOW_loop tm ret = (if getDayOfWeek (getDatePart tm) < 7 then EOW_loop tm (AddOneDay ret) else Some ret)"

definition EOW :: "time_q \<Rightarrow> time_q option" where
  "EOW tm = EOW_loop tm (EOD tm)"

section \<open>The beginning of the next period\<close>

definition BONH :: "time_q \<Rightarrow> time_q" where "BONH date = BOH (earlierOf latestDate (AddOneHour date))"

definition BOND :: "time_q \<Rightarrow> time_q" where "BOND date = BOD (earlierOf latestDate (AddOneDay date))"

definition BONW :: "time_q \<Rightarrow> time_q option" where "BONW date = BOW (earlierOf latestDate (AddOneWeek date))"

definition BONM :: "time_q \<Rightarrow> time_q" where "BONM date = BOM (earlierOf latestDate (AddOneMonth date))"

definition BONQ :: "time_q \<Rightarrow> time_q" where "BONQ date = BOQ (earlierOf latestDate (AddOneQuarter date))"

definition BONY :: "time_q \<Rightarrow> time_q" where "BONY date = BOY (earlierOf latestDate (AddOneYear date))"

section \<open>Lists of periods\<close>

text \<open>
  The loop evaluates \<^verbatim>\<open>BONP(stop)\<close> before every round. \<open>ta\<close> is the array that is
  appended to.
\<close>

partial_function (option) expand_loop ::
    "(time_q \<Rightarrow> time_q option) \<Rightarrow> time_q \<Rightarrow> time_q \<Rightarrow> time_q list \<Rightarrow> time_q list option" where
  "expand_loop BONP stop t ta =
     Option.bind (BONP stop) (\<lambda>s.
       if t \<le> s then Option.bind (BONP t) (\<lambda>t'. expand_loop BONP stop t' (ta @ [t])) else Some ta)"

definition expandTimeArray ::
    "time_q list \<Rightarrow> time_q \<Rightarrow> time_q \<Rightarrow> bool \<Rightarrow> (time_q \<Rightarrow> time_q option) \<Rightarrow> (time_q \<Rightarrow> time_q option) \<Rightarrow> time_q list option" where
  "expandTimeArray ta startIn stop fallback BOP BONP =
     Option.bind (if fallback then Option.bind (BOP startIn) (\<lambda>t. Some (ta @ [t])) else Some ta) (\<lambda>ta.
       Option.bind (BONP startIn) (\<lambda>t. expand_loop BONP stop t ta))"

definition expandHourly :: "time_q list \<Rightarrow> time_q \<Rightarrow> time_q \<Rightarrow> bool \<Rightarrow> time_q list option" where
  "expandHourly ta start stop fallback = expandTimeArray ta start stop fallback (Some \<circ> BOH) (Some \<circ> BONH)"

definition expandDaily :: "time_q list \<Rightarrow> time_q \<Rightarrow> time_q \<Rightarrow> bool \<Rightarrow> time_q list option" where
  "expandDaily ta start stop fallback = expandTimeArray ta start stop fallback (Some \<circ> BOD) (Some \<circ> BOND)"

definition expandWeekly :: "time_q list \<Rightarrow> time_q \<Rightarrow> time_q \<Rightarrow> bool \<Rightarrow> time_q list option" where
  "expandWeekly ta start stop fallback = expandTimeArray ta start stop fallback BOW BONW"

definition expandMonthly :: "time_q list \<Rightarrow> time_q \<Rightarrow> time_q \<Rightarrow> bool \<Rightarrow> time_q list option" where
  "expandMonthly ta start stop fallback = expandTimeArray ta start stop fallback (Some \<circ> BOM) (Some \<circ> BONM)"

definition expandQuarterly :: "time_q list \<Rightarrow> time_q \<Rightarrow> time_q \<Rightarrow> bool \<Rightarrow> time_q list option" where
  "expandQuarterly ta start stop fallback = expandTimeArray ta start stop fallback (Some \<circ> BOQ) (Some \<circ> BONQ)"

definition expandAnnually :: "time_q list \<Rightarrow> time_q \<Rightarrow> time_q \<Rightarrow> bool \<Rightarrow> time_q list option" where
  "expandAnnually ta start stop fallback = expandTimeArray ta start stop fallback (Some \<circ> BOY) (Some \<circ> BONY)"

section \<open>The same period\<close>

datatype period_t =
  BY_NOTHING | BY_YEAR | BY_MONTH | BY_WEEK | BY_DAY | BY_HOUR |
  BY_1 | BY_10 | BY_100 | BY_1000 | BY_10000 | BY_100000 | BY_1000000

definition isSameYear :: "time_q \<Rightarrow> time_q \<Rightarrow> bool" where "isSameYear t1 t2 \<longleftrightarrow> BOY t1 = BOY t2"

definition isSameMonth :: "time_q \<Rightarrow> time_q \<Rightarrow> bool" where "isSameMonth t1 t2 \<longleftrightarrow> BOM t1 = BOM t2"

definition isSameWeek :: "time_q \<Rightarrow> time_q \<Rightarrow> bool option" where
  "isSameWeek t1 t2 = Option.bind (BOW t1) (\<lambda>a. Option.bind (BOW t2) (\<lambda>b. Some (a = b)))"

definition isSameDay :: "time_q \<Rightarrow> time_q \<Rightarrow> bool" where "isSameDay t1 t2 \<longleftrightarrow> BOD t1 = BOD t2"

definition isSameHour :: "time_q \<Rightarrow> time_q \<Rightarrow> bool" where "isSameHour t1 t2 \<longleftrightarrow> BOH t1 = BOH t2"

text \<open>The value of the enumeration for periods of blocks.\<close>

fun period_blocks :: "period_t \<Rightarrow> int option" where
  "period_blocks BY_1 = Some 1"
| "period_blocks BY_10 = Some 10"
| "period_blocks BY_100 = Some 100"
| "period_blocks BY_1000 = Some 1000"
| "period_blocks BY_10000 = Some 10000"
| "period_blocks BY_100000 = Some 100000"
| "period_blocks BY_1000000 = Some 1000000"
| "period_blocks _ = None"

definition isSamePeriod_blocks :: "period_t \<Rightarrow> int \<Rightarrow> int \<Rightarrow> bool" where
  "isSamePeriod_blocks period b1 b2 =
     (case period_blocks period of
        Some p \<Rightarrow> if b1 = 0 \<and> b2 = 1 then False else u64 (b1 - 1) div p = u64 (b2 - 1) div p
      | None \<Rightarrow> b1 = b2)"

fun isSamePeriod :: "period_t \<Rightarrow> time_q \<Rightarrow> time_q \<Rightarrow> bool option" where
  "isSamePeriod BY_YEAR t1 t2 = Some (isSameYear t1 t2)"
| "isSamePeriod BY_MONTH t1 t2 = Some (isSameMonth t1 t2)"
| "isSamePeriod BY_WEEK t1 t2 = isSameWeek t1 t2"
| "isSamePeriod BY_DAY t1 t2 = Some (isSameDay t1 t2)"
| "isSamePeriod BY_HOUR t1 t2 = Some (isSameHour t1 t2)"
| "isSamePeriod _ t1 t2 = Some (t1 = t2)"

fun per_2_Str :: "period_t \<Rightarrow> string" where
  "per_2_Str BY_YEAR = ''[{YEAR}]''"
| "per_2_Str BY_MONTH = ''[{MONTH}]''"
| "per_2_Str BY_WEEK = ''[{WEEK}]''"
| "per_2_Str BY_DAY = ''[{DAY}]''"
| "per_2_Str BY_HOUR = ''[{HOUR}]''"
| "per_2_Str BY_NOTHING = ''[{MONTH}],[{DAY}]''"
| "per_2_Str _ = ''''"

end
