(* ===== verification/Calendar_Correct.thy ===== *)
theory Calendar_Correct
  imports Calendar
begin

text \<open>
  The calendar of \<^verbatim>\<open>sftime.cpp\<close> is the Gregorian one: \<open>day_number\<close> counts the days
  from the first day of the year 1, \<^verbatim>\<open>setValues\<close> computes it and \<^verbatim>\<open>getDateStruct\<close>
  inverts it. From this follow the values of all getters.
\<close>

section \<open>Widths\<close>

named_theorems width

lemma u32_id [width]: "0 \<le> x \<Longrightarrow> x < 4294967296 \<Longrightarrow> u32 x = x"
  by (simp add: u32_def)

lemma u64_id [width]: "0 \<le> x \<Longrightarrow> x < 18446744073709551616 \<Longrightarrow> u64 x = x"
  by (simp add: u64_def)

lemma s32_id [width]: "- 2147483648 \<le> x \<Longrightarrow> x < 2147483648 \<Longrightarrow> s32 x = x"
  by (simp add: s32_def)

lemma s64_id [width]: "- 9223372036854775808 \<le> x \<Longrightarrow> x < 9223372036854775808 \<Longrightarrow> s64 x = x"
  by (simp add: s64_def)

lemma cdiv_nonneg: "0 \<le> a \<Longrightarrow> 0 < b \<Longrightarrow> cdiv a b = a div b"
  by (cases "a = 0") (simp_all add: cdiv_def)

lemma cmod_nonneg: "0 \<le> a \<Longrightarrow> 0 < b \<Longrightarrow> cmod a b = a mod b"
  by (simp add: cmod_def cdiv_nonneg minus_mult_div_eq_mod)

lemma lfloor_div: "0 \<le> a \<Longrightarrow> 0 < b \<Longrightarrow> lfloor conv a b = a div b"
  by (simp add: lfloor_def cdiv_nonneg)

section \<open>The day number\<close>

definition days_before :: "int \<Rightarrow> int" where
  "days_before y = 365 * (y - 1) + (y - 1) div 4 - (y - 1) div 100 + (y - 1) div 400"

primrec month_days :: "int \<Rightarrow> nat \<Rightarrow> int" where
  "month_days y 0 = 0"
| "month_days y (Suc k) = month_days y k + DaysInMonth y (int (Suc k))"

definition valid_date :: "int \<Rightarrow> int \<Rightarrow> int \<Rightarrow> bool" where
  "valid_date y m d \<longleftrightarrow> 1 \<le> y \<and> 1 \<le> m \<and> m \<le> 12 \<and> 1 \<le> d \<and> d \<le> DaysInMonth y m"

definition day_number :: "int \<Rightarrow> int \<Rightarrow> int \<Rightarrow> int" where
  "day_number y m d = days_before y + month_days y (nat (m - 1)) + d - 1"

lemma div_pred: "0 < b \<Longrightarrow> (y::int) div b = (y - 1) div b + of_bool (y mod b = 0)"
proof -
  assume b: "0 < b"
  define q r where "q = y div b" and "r = y mod b"
  have y: "y = b * q + r" "0 \<le> r" "r < b" using b by (simp_all add: q_def r_def)
  have "(y - 1) div b = (if r = 0 then q - 1 else q)"
    using int_div_pos_eq [of "y - 1" b "q - 1" "b - 1"] int_div_pos_eq [of "y - 1" b q "r - 1"] y b by (auto simp: algebra_simps)
  then show ?thesis by (simp add: q_def r_def)
qed

lemma leap_count:
  fixes y p q r :: int
  assumes "c400 \<longrightarrow> c100" "c100 \<longrightarrow> c4"
  shows "365 * y + (p + of_bool c4) - (q + of_bool c100) + (r + of_bool c400) =
    365 * (y - 1) + p - q + r + (if c400 \<or> c4 \<and> \<not> c100 then 366 else 365)"
  using assms by (cases c4; cases c100; cases c400) auto

lemma days_before_next: "days_before (y + 1) = days_before y + DaysInYear y"
proof -
  have imp: "y mod 400 = 0 \<Longrightarrow> y mod 100 = 0" "y mod 100 = 0 \<Longrightarrow> y mod 4 = 0"
    using dvd_trans [of 100 400 y] dvd_trans [of 4 100 y] by (simp_all add: mod_eq_0_iff_dvd)
  have c: "y div 4 = (y - 1) div 4 + of_bool (y mod 4 = 0)" "y div 100 = (y - 1) div 100 + of_bool (y mod 100 = 0)"
    "y div 400 = (y - 1) div 400 + of_bool (y mod 400 = 0)" by (rule div_pred, simp)+
  have "days_before (y + 1) = 365 * y + y div 4 - y div 100 + y div 400" by (simp add: days_before_def)
  also have "\<dots> = 365 * y + ((y - 1) div 4 + of_bool (y mod 4 = 0)) - ((y - 1) div 100 + of_bool (y mod 100 = 0)) +
      ((y - 1) div 400 + of_bool (y mod 400 = 0))"
    by (simp only: c)
  also have "\<dots> = days_before y + DaysInYear y" unfolding days_before_def DaysInYear_def isLeap_def
    by (rule leap_count) (use imp in blast)+
  finally show ?thesis .
qed

lemma days_before_mono: "y < z \<Longrightarrow> days_before y + DaysInYear y \<le> days_before z"
proof (induction "nat (z - y)" arbitrary: z)
  case (Suc n)
  show ?case
  proof (cases "z = y + 1")
    case False
    then have "days_before y + DaysInYear y \<le> days_before (z - 1)" using Suc by (intro Suc.hyps) auto
    moreover have "days_before (z - 1) \<le> days_before z" using days_before_next [of "z - 1"] by (simp add: DaysInYear_def split: if_splits)
    ultimately show ?thesis by simp
  qed (simp add: days_before_next)
qed simp

lemmas month_numbers = DaysInMonth_def DaysPerMonth_def eval_nat_numeral

lemma month_days_year: "month_days y 12 = DaysInYear y"
  by (simp add: month_numbers DaysInYear_def)

lemma month_cases:
  fixes m :: int
  assumes "1 \<le> m" "m \<le> 12"
  obtains "m = 1" | "m = 2" | "m = 3" | "m = 4" | "m = 5" | "m = 6" | "m = 7" | "m = 8" | "m = 9" | "m = 10" | "m = 11" | "m = 12"
proof -
  have "m = 1 \<or> m = 2 \<or> m = 3 \<or> m = 4 \<or> m = 5 \<or> m = 6 \<or> m = 7 \<or> m = 8 \<or> m = 9 \<or> m = 10 \<or> m = 11 \<or> m = 12"
    using assms by presburger
  then show thesis using that by blast
qed

lemma DaysInMonth_range: "1 \<le> m \<Longrightarrow> m \<le> 12 \<Longrightarrow> 28 \<le> DaysInMonth y m \<and> DaysInMonth y m \<le> 31"
  by (erule (1) month_cases) (simp_all add: month_numbers)

lemma month_days_step: "1 \<le> m \<Longrightarrow> month_days y (nat m) = month_days y (nat (m - 1)) + DaysInMonth y m"
proof -
  assume "1 \<le> m"
  then have "nat m = Suc (nat (m - 1))" "int (nat m) = m" by auto
  then show ?thesis by (metis month_days.simps(2))
qed

lemma month_days_mono: "i < j \<Longrightarrow> j \<le> 12 \<Longrightarrow> month_days y i + DaysInMonth y (int (Suc i)) \<le> month_days y j"
proof (induction j)
  case (Suc j)
  then show ?case using DaysInMonth_range [of "int (Suc j)" y] by (cases "i = j") auto
qed simp

lemma valid_day_of_year:
  assumes "valid_date y m d"
  shows "0 \<le> month_days y (nat (m - 1)) + d - 1" "month_days y (nat (m - 1)) + d \<le> DaysInYear y"
proof -
  have r: "1 \<le> m" "m \<le> 12" "1 \<le> d" "d \<le> DaysInMonth y m" using assms by (auto simp: valid_date_def)
  have "0 \<le> month_days y k" if "k \<le> 12" for k using month_days_mono [of 0 k y] DaysInMonth_range [of 1 y] that by (cases k) auto
  from this [of "nat (m - 1)"] show "0 \<le> month_days y (nat (m - 1)) + d - 1" using r by (simp add: nat_le_iff)
  have "month_days y (nat (m - 1)) + DaysInMonth y m \<le> month_days y 12"
    using month_days_mono [of "nat (m - 1)" 12 y] r by (simp add: nat_less_iff)
  then show "month_days y (nat (m - 1)) + d \<le> DaysInYear y" using r by (simp add: month_days_year)
qed

lemma valid_day_of_month:
  assumes "valid_date y m d" "valid_date y k f" "month_days y (nat (m - 1)) + d = month_days y (nat (k - 1)) + f"
  shows "m = k \<and> d = f"
proof -
  have no: False if "a < b" "valid_date y a p" "valid_date y b q" "month_days y (nat (a - 1)) + p = month_days y (nat (b - 1)) + q" for a b p q
  proof -
    have "month_days y (nat (a - 1)) + DaysInMonth y a \<le> month_days y (nat (b - 1))"
      using month_days_mono [of "nat (a - 1)" "nat (b - 1)" y] that by (auto simp: valid_date_def nat_le_iff)
    then show False using that by (auto simp: valid_date_def)
  qed
  show ?thesis using no [of m k d f] no [of k m f d] assms by (cases m k rule: linorder_cases) auto
qed

text \<open>Different dates have different numbers, in the order of the dates.\<close>

lemma day_number_inj:
  assumes "valid_date y m d" "valid_date z k f" "day_number y m d = day_number z k f"
  shows "y = z \<and> m = k \<and> d = f"
proof -
  have no: False if "a < b" "valid_date a p q" "valid_date b r s" "day_number a p q = day_number b r s" for a b p q r s
    using days_before_mono [OF that(1)] valid_day_of_year [OF that(2)] valid_day_of_year [OF that(3)] that(4)
    by (simp add: day_number_def)
  have "y = z" using no [of y z m d k f] no [of z y k f m d] assms by (cases y z rule: linorder_cases) auto
  then show ?thesis using valid_day_of_month [of y m d k f] assms by (simp add: day_number_def)
qed

lemma days_before_bounds: "1 \<le> y \<Longrightarrow> 365 * (y - 1) \<le> days_before y \<and> days_before y \<le> 366 * (y - 1)"
proof -
  assume y: "1 \<le> y"
  have "(y - 1) div 100 \<le> (y - 1) div 4" using y by (intro zdiv_mono2) auto
  moreover have "(y - 1) div 400 \<le> (y - 1) div 100" using y by (intro zdiv_mono2) auto
  moreover have "(y - 1) div 4 \<le> y - 1" "0 \<le> (y - 1) div 400" using y by (simp_all add: div_le_dividend pos_imp_zdiv_nonneg_iff)
  moreover have "365 * (y - 1) \<le> 365 * (y - 1) + p - q + r \<and> 365 * (y - 1) + p - q + r \<le> 366 * (y - 1)"
    if "q \<le> p" "r \<le> q" "p \<le> y - 1" "0 \<le> r" for p q r :: int using that by auto
  ultimately show ?thesis unfolding days_before_def by blast
qed

lemma add_months_days:
  "0 \<le> n \<Longrightarrow> n < 9223372036854775808 \<Longrightarrow> k \<le> 12 \<Longrightarrow> add_months y k n = n + month_days y k"
proof -
  have "add_months y k n = n + month_days y k" if "0 \<le> n" "n + 31 * int k < 18446744073709551616" "k \<le> 12" for n
    using that
  proof (induction k arbitrary: n)
    case (Suc k)
    have r: "28 \<le> DaysInMonth y (int (Suc k))" "DaysInMonth y (int (Suc k)) \<le> 31"
      using DaysInMonth_range [of "int (Suc k)" y] Suc.prems by auto
    then have "u64 (n + DaysInMonth y (int (Suc k))) = n + DaysInMonth y (int (Suc k))"
      using Suc.prems by (intro u64_id) auto
    then show ?case using Suc.IH [of "n + DaysInMonth y (int (Suc k))"] Suc.prems r by simp
  qed simp
  then show "0 \<le> n \<Longrightarrow> n < 9223372036854775808 \<Longrightarrow> k \<le> 12 \<Longrightarrow> ?thesis" by simp
qed

text \<open>The range of the dates that \<^verbatim>\<open>CDate(int64_t)\<close> lets pass.\<close>

abbreviation last_day :: int where "last_day \<equiv> 2147483646"

lemma valid_year_bound:
  assumes "valid_date y m d" "day_number y m d \<le> last_day"
  shows "1 \<le> y" "y < 5883519"
proof -
  show y: "1 \<le> y" using assms(1) by (simp add: valid_date_def)
  have "365 * (y - 1) \<le> last_day"
    using assms(2) valid_day_of_year(1) [OF assms(1)] days_before_bounds [OF y] by (simp add: day_number_def)
  then show "y < 5883519" by simp
qed

lemma setValues_day_number:
  assumes "valid_date y m d" "day_number y m d \<le> last_day"
  shows "setValues y m d = day_number y m d + 1999422265"
proof -
  note y = valid_year_bound [OF assms]
  have m: "1 \<le> m" "m \<le> 12" "1 \<le> d" "d \<le> DaysInMonth y m" using assms(1) by (auto simp: valid_date_def)
  have w: "u32 (y - 1) = y - 1" "s32 (y - 1) = y - 1" "u32 ((y - 1) * 365) = (y - 1) * 365"
    using y by (simp_all add: width)
  have f: "lfloor s32 (y - 1) b = (y - 1) div b" if "0 < b" for b using y that by (simp add: lfloor_div)
  define p q r where "p = (y - 1) div 4" and "q = (y - 1) div 100" and "r = (y - 1) div 400"
  have b: "0 \<le> r" "r \<le> q" "q \<le> p" "p \<le> y - 1"
    using y by (simp_all add: p_def q_def r_def zdiv_mono2 div_le_dividend pos_imp_zdiv_nonneg_iff)
  have s0: "u64 p = p" "u64 q = q" "u64 r = r" using b y by (simp_all add: width)
  have s1: "u64 ((y - 1) * 365 + p) = (y - 1) * 365 + p" using b y by (intro u64_id) auto
  have s2: "u64 ((y - 1) * 365 + p + u64 (r - q)) = (y - 1) * 365 + p + r - q"
  proof -
    have "u64 ((y - 1) * 365 + p + u64 (r - q)) = u64 ((y - 1) * 365 + p + r - q)"
      by (simp add: u64_def mod_add_right_eq add_diff_eq)
    then show ?thesis using b y by (simp add: u64_id)
  qed
  have db: "days_before y = (y - 1) * 365 + p + r - q" by (simp add: days_before_def p_def q_def r_def)
  have am: "add_months y (nat (m - 1)) (days_before y) = days_before y + month_days y (nat (m - 1))"
    using days_before_bounds [OF y(1)] y m by (intro add_months_days) auto
  have "setValues y m d = u64 (add_months y (nat (m - 1)) (days_before y) + (d + 1999422264))"
  proof -
    have g: "m \<ge> 1 \<and> m \<le> 12 \<and> d \<le> DaysInMonth y m" using m by simp
    have "lfloor s32 (y - 1) 4 = p" "lfloor s32 (y - 1) 100 = q" "lfloor s32 (y - 1) 400 = r"
      by (simp_all add: f p_def q_def r_def)
    then show ?thesis unfolding setValues_def Let_def if_P [OF g] by (simp only: w s0 s1 s2 db)
  qed
  also have "\<dots> = day_number y m d + 1999422265"
    using assms(2) valid_day_of_year(1) [OF assms(1)] days_before_bounds [OF y(1)] y
    unfolding am day_number_def by (subst u64_id) auto
  finally show ?thesis .
qed

section \<open>From the number to the date\<close>

lemma days_before_parts:
  assumes "0 \<le> b" "b \<le> 3" "0 \<le> c" "c \<le> 24" "0 \<le> e" "e \<le> 3"
  shows "days_before (400 * a + 100 * b + 4 * c + e + 1) = 146097 * a + 36524 * b + 1461 * c + 365 * e"
proof -
  let ?z = "400 * a + 100 * b + 4 * c + e"
  have "?z div 4 = 100 * a + 25 * b + c" using assms by (intro int_div_pos_eq [of _ _ _ e]) auto
  moreover have "?z div 100 = 4 * a + b" using assms by (intro int_div_pos_eq [of _ _ _ "4 * c + e"]) auto
  moreover have "?z div 400 = a" using assms by (intro int_div_pos_eq [of _ _ _ "100 * b + 4 * c + e"]) auto
  ultimately show ?thesis by (simp add: days_before_def)
qed

lemma year_loop_effect:
  assumes "0 \<le> y" "y < 4294967290" "0 < g" "g < 1461"
  obtains e where "year_loop 0 y g = (y + e, g - 365 * e)" "0 \<le> e" "e \<le> 3" "0 \<le> g - 365 * e" "g - 365 * e \<le> 365"
proof -
  have u: "u32 (y + 1) = y + 1" "u32 (y + 1 + 1) = y + 1 + 1" "u32 (y + 1 + 1 + 1) = y + 1 + 1 + 1" using assms by (simp_all add: width)
  note st = year_loop.simps
  consider "g \<le> 365" | "365 < g" "g \<le> 730" | "730 < g" "g \<le> 1095" | "1095 < g" by linarith
  then show thesis
  proof cases
    case 1
    then have "year_loop 0 y g = (y, g)" by (simp add: st [of 0])
    then show thesis using assms 1 that [of 0] by simp
  next
    case 2
    then have "year_loop 0 y g = (y + 1, g - 365)" by (simp add: st [of 0] st [of "Suc 0"] u)
    then show thesis using assms 2 that [of 1] by simp
  next
    case 3
    then have "year_loop 0 y g = (y + 2, g - 730)" using u by (simp add: st [of 0] st [of "Suc 0"] st [of "Suc (Suc 0)"])
    then show thesis using assms 3 that [of 2] by simp
  next
    case 4
    then have "year_loop 0 y g = (y + 3, g - 1095)"
      using u by (simp add: st [of 0] st [of "Suc 0"] st [of "Suc (Suc 0)"] st [of "Suc (Suc (Suc 0))"])
    then show thesis using assms 4 that [of 3] by simp
  qed
qed

lemma year_of_day_effect:
  assumes "0 \<le> g" "g \<le> last_day"
  obtains Y G where "year_of_day (g + 1999422265) = (Y, G)" "1 \<le> Y" "Y < 5883600" "1 \<le> G" "G \<le> 366" "days_before Y + G - 1 = g"
proof -
  define a g1 where "a = g div 146097" and "g1 = g mod 146097"
  have g: "g = 146097 * a + g1" "0 \<le> g1" "g1 < 146097" "0 \<le> a" "a \<le> 14700"
    using assms by (auto simp: a_def g1_def pos_imp_zdiv_nonneg_iff)
  have s: "s64 g = g" using assms by (simp add: width)
  have n: "g + 1999422265 - 1999422265 = g" by simp
  have r1: "lfloor s64 g 146097 = a" "g - 146097 * a = g1" using assms(1) by (simp_all add: lfloor_div a_def g1_def minus_mult_div_eq_mod)
  have ua: "u32 (400 * a) = 400 * a" using g by (simp add: width)
  show thesis
  proof (cases "g1 = 0")
    case True
    have "u32 (400 * a + 1) = 400 * a + 1" using g by (simp add: width)
    then have "year_of_day (g + 1999422265) = (400 * a + 1, 1)"
      unfolding year_of_day_def Let_def by (simp only: n s r1 ua True) simp
    then show thesis using that [of "400 * a + 1" 1] days_before_parts [of 0 0 0 a] g True by simp
  next
    case g1: False
    define b g2 where "b = g1 div 36524" and "g2 = g1 mod 36524"
    have b: "g1 = 36524 * b + g2" "0 \<le> g2" "g2 < 36524" "0 \<le> b" "b \<le> 4"
      using g by (auto simp: b_def g2_def pos_imp_zdiv_nonneg_iff)
    have r2: "lfloor s64 g1 36524 = b" "g1 - 36524 * b = g2" "g1 > 0" using g(2) g1 by (simp_all add: lfloor_div b_def g2_def minus_mult_div_eq_mod)
    have b4: "b = 4 \<Longrightarrow> g2 = 0" using b g by linarith
    have ub: "u32 (400 * a + 100 * b) = 400 * a + 100 * b" using g b by (simp add: width)
    show thesis
    proof (cases "g2 = 0")
      case True
      have "year_of_day (g + 1999422265) = (400 * a + 100 * b, 366)"
        unfolding year_of_day_def Let_def by (simp only: n s r1 r2 ua ub True) simp
      moreover have "400 * a + 100 * b = 400 * a + 100 * (b - 1) + 4 * 24 + 3 + 1" by simp
      ultimately show thesis
        using that [of "400 * a + 100 * b" 366] days_before_parts [of "b - 1" 24 3 a] g g1 b True by (auto simp: algebra_simps)
    next
      case g2: False
      then have b3: "b \<le> 3" using b b4 by linarith
      define c g3 where "c = g2 div 1461" and "g3 = g2 mod 1461"
      have c: "g2 = 1461 * c + g3" "0 \<le> g3" "g3 < 1461" "0 \<le> c" "c \<le> 24"
        using b by (auto simp: c_def g3_def pos_imp_zdiv_nonneg_iff)
      have r3: "lfloor s64 g2 1461 = c" "g2 - 1461 * c = g3" "g2 > 0" using b(2) g2 by (simp_all add: lfloor_div c_def g3_def minus_mult_div_eq_mod)
      have uc: "u32 (400 * a + 100 * b + 4 * c) = 400 * a + 100 * b + 4 * c" using g b c by (simp add: width)
      obtain e where e: "(if g3 > 0 then year_loop 0 (400 * a + 100 * b + 4 * c) g3 else (400 * a + 100 * b + 4 * c, g3)) =
          (400 * a + 100 * b + 4 * c + e, g3 - 365 * e)" "0 \<le> e" "e \<le> 3" "0 \<le> g3 - 365 * e" "g3 - 365 * e \<le> 365"
      proof (cases "g3 > 0")
        case True
        then show thesis using year_loop_effect [of "400 * a + 100 * b + 4 * c" g3] g b c that by auto
      next
        case False
        then show thesis using that [of 0] c by simp
      qed
      have ue: "u32 (400 * a + 100 * b + 4 * c + e + 1) = 400 * a + 100 * b + 4 * c + e + 1" using g b c e by (simp add: width)
      have "year_of_day (g + 1999422265) = (400 * a + 100 * b + 4 * c + e + 1, g3 - 365 * e + 1)"
        unfolding year_of_day_def Let_def by (simp only: n s r1 r2 r3 ua ub uc if_True e(1) prod.case ue) simp
      then show thesis
        using that [of "400 * a + 100 * b + 4 * c + e + 1" "g3 - 365 * e + 1"] days_before_parts [of b c e a] g b b3 c e by auto
    qed
  qed
qed

lemma month_loop_effect:
  assumes "1 \<le> m" "m \<le> 13" "1 \<le> g" "month_loop y m g = (m', g')"
  shows "m \<le> m'" "m' \<le> 13" "1 \<le> g'" "month_days y (nat (m' - 1)) + g' = month_days y (nat (m - 1)) + g"
    "m' < 13 \<Longrightarrow> g' \<le> DaysInMonth y m'"
proof -
  have "m \<le> m' \<and> m' \<le> 13 \<and> 1 \<le> g' \<and> month_days y (nat (m' - 1)) + g' = month_days y (nat (m - 1)) + g \<and>
      (m' < 13 \<longrightarrow> g' \<le> DaysInMonth y m')"
    using assms
  proof (induction y m g rule: month_loop.induct)
    case (1 y m g)
    show ?case
    proof (cases "m < 13 \<and> g > DaysInMonth y m")
      case True
      then have "month_loop y (m + 1) (g - DaysInMonth y m) = (m', g')" using "1.prems"(4) by (simp add: month_loop.simps [of y m])
      moreover have "month_days y (nat m) = month_days y (nat (m - 1)) + DaysInMonth y m" using "1.prems"(1) by (rule month_days_step)
      ultimately show ?thesis using "1.IH" [OF True] "1.prems" True by auto
    next
      case False
      then show ?thesis using "1.prems" by (auto simp: month_loop.simps [of y m])
    qed
  qed
  then show "m \<le> m'" "m' \<le> 13" "1 \<le> g'" "month_days y (nat (m' - 1)) + g' = month_days y (nat (m - 1)) + g"
    "m' < 13 \<Longrightarrow> g' \<le> DaysInMonth y m'" by auto
qed

lemma getDateStruct_effect:
  assumes "0 \<le> g" "g \<le> last_day"
  obtains y m d where "getDateStruct (g + 1999422265) = \<lparr>m_Year = y, m_Month = m, m_Day = d\<rparr>" "valid_date y m d" "day_number y m d = g"
proof -
  obtain Y G where Y: "year_of_day (g + 1999422265) = (Y, G)" "1 \<le> Y" "Y < 5883600" "1 \<le> G" "G \<le> 366" "days_before Y + G - 1 = g"
    by (rule year_of_day_effect [OF assms])
  obtain m g' where ml: "month_loop Y 1 G = (m, g')" by (cases "month_loop Y 1 G")
  note e = month_loop_effect [OF _ _ Y(4) ml, simplified]
  show thesis
  proof (cases "m = 13")
    case True
    then have "month_days Y 12 + g' = G" using e(4) by simp
    then have g': "g' = 1" "G = DaysInYear Y + 1" using e(3) Y(5) by (auto simp: month_days_year DaysInYear_def split: if_splits)
    have "getDateStruct (g + 1999422265) = \<lparr>m_Year = Y + 1, m_Month = 1, m_Day = 1\<rparr>"
      using Y ml True g' by (simp add: getDateStruct_def width)
    moreover have "valid_date (Y + 1) 1 1" using Y DaysInMonth_range [of 1] by (simp add: valid_date_def order_trans [of 1 28])
    moreover have "day_number (Y + 1) 1 1 = g" using Y(6) g' days_before_next [of Y] by (simp add: day_number_def)
    ultimately show thesis by (rule that)
  next
    case False
    then have m: "m < 13" "g' \<le> DaysInMonth Y m" using e by auto
    have "g' \<le> 31" using m e DaysInMonth_range [of m Y] by simp
    then have "getDateStruct (g + 1999422265) = \<lparr>m_Year = Y, m_Month = m, m_Day = g'\<rparr>"
      using Y ml False e by (simp add: getDateStruct_def width)
    moreover have "valid_date Y m g'" using Y m e by (simp add: valid_date_def)
    moreover have "day_number Y m g' = g" using Y(6) e(4) by (simp add: day_number_def)
    ultimately show thesis by (rule that)
  qed
qed

lemma getDateStruct_day_number:
  assumes "valid_date y m d" "day_number y m d \<le> last_day"
  shows "getDateStruct (day_number y m d + 1999422265) = \<lparr>m_Year = y, m_Month = m, m_Day = d\<rparr>"
proof -
  have "0 \<le> day_number y m d"
    using valid_day_of_year(1) [OF assms(1)] days_before_bounds [of y] assms(1) by (simp add: day_number_def valid_date_def)
  then obtain y' m' d' where r: "getDateStruct (day_number y m d + 1999422265) = \<lparr>m_Year = y', m_Month = m', m_Day = d'\<rparr>"
    "valid_date y' m' d'" "day_number y' m' d' = day_number y m d"
    by (rule getDateStruct_effect [OF _ assms(2)])
  from day_number_inj [OF r(2) assms(1) r(3)] r(1) show ?thesis by simp
qed

section \<open>Points in time\<close>

text \<open>Midnight at the beginning of the first day of the year 1.\<close>

definition first_time :: time_q where
  "first_time = 1999422265 * SECS_PER_DAY"

definition valid_time :: "int \<Rightarrow> int \<Rightarrow> int \<Rightarrow> int \<Rightarrow> int \<Rightarrow> int \<Rightarrow> bool" where
  "valid_time y m d h mi s \<longleftrightarrow> valid_date y m d \<and> day_number y m d \<le> last_day \<and>
     0 \<le> h \<and> h < 24 \<and> 0 \<le> mi \<and> mi < 60 \<and> 0 \<le> s \<and> s < 60"

lemma day_number_nonneg: "valid_date y m d \<Longrightarrow> 0 \<le> day_number y m d"
  using valid_day_of_year(1) [of y m d] days_before_bounds [of y] by (simp add: day_number_def valid_date_def)

lemma time_q_of_value:
  assumes "valid_time y m d h mi s"
  shows "time_q_of y m d h mi s = first_time + day_number y m d * 86400 + (h * 3600 + mi * 60 + s)"
proof -
  have v: "valid_date y m d" "day_number y m d \<le> last_day" and hms: "0 \<le> h" "h < 24" "0 \<le> mi" "mi < 60" "0 \<le> s" "s < 60"
    using assms by (auto simp: valid_time_def)
  note n = day_number_nonneg [OF v(1)]
  have "CTimeOfDay_hms h mi s = h * 3600 + mi * 60 + s"
    using hms by (simp add: CTimeOfDay_hms_def SECS_PER_DAY_def SECS_PER_HOUR_def SECS_PER_MIN_def width)
  then show ?thesis using setValues_day_number [OF v] n v hms
    by (simp add: time_q_of_def time_q_of_parts_def CDate_GetTotalDays_def SECS_PER_DAY_def first_time_def width algebra_simps)
qed

lemma parts_of_value:
  assumes "0 \<le> g" "g \<le> last_day" "0 \<le> r" "r < 86400" "t = first_time + g * 86400 + r"
  shows "getDatePart t = g + 1999422265" "getTimePart t = r"
proof -
  have d: "t div 86400 = g + 1999422265"
    using assms by (intro int_div_pos_eq [of _ _ _ r]) (auto simp: first_time_def SECS_PER_DAY_def)
  have "0 \<le> t" using assms by (simp add: first_time_def SECS_PER_DAY_def)
  then have "cdiv t SECS_PER_DAY = g + 1999422265" using d by (simp add: cdiv_nonneg SECS_PER_DAY_def)
  then show dp: "getDatePart t = g + 1999422265" using assms by (simp add: getDatePart_def CDate_of_days_def width)
  have td: "CDate_GetTotalDays (g + 1999422265) = g + 1999422265" using assms by (simp add: CDate_GetTotalDays_def width)
  have ne: "t \<noteq> g + 1999422265" using assms by (simp add: first_time_def SECS_PER_DAY_def)
  have "t - s64 ((g + 1999422265) * SECS_PER_DAY) = r" using assms by (simp add: first_time_def SECS_PER_DAY_def width algebra_simps)
  then have "getTimePart t = CTimeOfDay_secs (u32 r)" unfolding getTimePart_def dp td using ne by simp
  then show "getTimePart t = r" using assms(3,4) by (simp add: CTimeOfDay_secs_def SECS_PER_DAY_def width)
qed

lemma tod_fields:
  assumes "0 \<le> h" "h < 24" "0 \<le> mi" "mi < 60" "0 \<le> s" "s < 60"
  shows "tod_GetHour (h * 3600 + mi * 60 + s) = h" "tod_GetMinute (h * 3600 + mi * 60 + s) = mi" "tod_GetSecond (h * 3600 + mi * 60 + s) = s"
proof -
  have "(h * 3600 + mi * 60 + s) div 3600 = h" using assms by (intro int_div_pos_eq [of _ _ _ "mi * 60 + s"]) auto
  then show h: "tod_GetHour (h * 3600 + mi * 60 + s) = h" by (simp add: tod_GetHour_def SECS_PER_HOUR_def)
  have "(mi * 60 + s) div 60 = mi" using assms by (intro int_div_pos_eq [of _ _ _ s]) auto
  then show m: "tod_GetMinute (h * 3600 + mi * 60 + s) = mi"
    using assms by (simp add: tod_GetMinute_def h SECS_PER_HOUR_def SECS_PER_MIN_def width)
  show "tod_GetSecond (h * 3600 + mi * 60 + s) = s"
    using assms by (simp add: tod_GetSecond_def h m SECS_PER_HOUR_def SECS_PER_MIN_def width)
qed

lemma time_fields:
  assumes "valid_time y m d h mi s"
  defines "t \<equiv> time_q_of y m d h mi s"
  shows "GetYear t = y" "GetMonth t = m" "GetDay t = d" "GetHour t = h" "GetMinute t = mi" "GetSecond t = s"
proof -
  have v: "valid_date y m d" "day_number y m d \<le> last_day" and hms: "0 \<le> h" "h < 24" "0 \<le> mi" "mi < 60" "0 \<le> s" "s < 60"
    using assms(1) by (auto simp: valid_time_def)
  have r: "0 \<le> h * 3600 + mi * 60 + s" "h * 3600 + mi * 60 + s < 86400" using hms by auto
  note p = parts_of_value [OF day_number_nonneg [OF v(1)] v(2) r time_q_of_value [OF assms(1)]]
  note ds = getDateStruct_day_number [OF v] and tf = tod_fields [OF hms]
  show "GetYear t = y" "GetMonth t = m" "GetDay t = d" by (simp_all add: t_def GetYear_def GetMonth_def GetDay_def p ds)
  show "GetHour t = h" "GetMinute t = mi" "GetSecond t = s" by (simp_all add: t_def GetHour_def GetMinute_def GetSecond_def p tf)
qed

text \<open>Every second of the range is the time of one date.\<close>

lemma time_q_of_cases:
  assumes "first_time \<le> t" "t < first_time + (last_day + 1) * 86400"
  obtains y m d h mi s where "valid_time y m d h mi s" "t = time_q_of y m d h mi s"
proof -
  define g r where "g = (t - first_time) div 86400" and "r = (t - first_time) mod 86400"
  have g: "t = first_time + g * 86400 + r" "0 \<le> r" "r < 86400" "0 \<le> g" "g \<le> last_day"
    using assms by (auto simp: g_def r_def pos_imp_zdiv_nonneg_iff)
  obtain y m d where d: "valid_date y m d" "day_number y m d = g" by (rule getDateStruct_effect [OF g(4,5)])
  define h mi s where "h = r div 3600" and "mi = r mod 3600 div 60" and "s = r mod 3600 mod 60"
  have hms: "r = h * 3600 + mi * 60 + s" "0 \<le> h" "h < 24" "0 \<le> mi" "mi < 60" "0 \<le> s" "s < 60"
    using g by (auto simp: h_def mi_def s_def pos_imp_zdiv_nonneg_iff)
  have "valid_time y m d h mi s" using d g hms by (simp add: valid_time_def)
  then show thesis using time_q_of_value [of y m d h mi s] g d hms by (intro that) auto
qed

end
