(* ===== verification/Periods_Correct.thy ===== *)
theory Periods_Correct
  imports Periods Calendar_Correct
begin

text \<open>
  Steps over the calendar in seconds: a day forth or back is 86400 seconds, the beginning
  of a day is the last multiple of a day, the beginning of a week is the last Sunday. What
  the lists of periods need is the locale \<open>periods\<close>; hours, days, months, quarters and
  years are its instances.
\<close>

section \<open>Numbers of days\<close>

lemmas day_numbers = day_number_def days_before_def month_days.simps month_numbers isLeap_def

lemma valid_time_of_day:
  assumes "valid_date y m d" "day_number y m d \<le> last_day" "0 \<le> h" "h < 24" "0 \<le> mi" "mi < 60" "0 \<le> s" "s < 60"
  shows "valid_time y m d h mi s"
  using assms by (simp add: valid_time_def)

lemma earliest_valid: "valid_time 1700 1 1 0 0 1"
  by (simp add: valid_time_def valid_date_def day_numbers)

lemma latest_valid: "valid_time 2200 12 31 23 59 59"
  by (simp add: valid_time_def valid_date_def day_numbers)

lemma earliest_value: "earliestDate = first_time + 620547 * 86400 + 1"
  using time_q_of_value [OF earliest_valid] by (simp add: earliestDate_def day_numbers)

lemma latest_value: "latestDate = first_time + 803533 * 86400 - 1"
  using time_q_of_value [OF latest_valid] by (simp add: latestDate_def day_numbers)

text \<open>The date after and the date before.\<close>

lemma DaysInMonth_ends: "DaysInMonth y 12 = 31" "DaysInMonth y 1 = 31"
  by (simp_all add: month_numbers)

lemma day_number_next_year: "day_number (y + 1) 1 1 = day_number y 12 31 + 1"
proof -
  have "month_days y 12 = month_days y 11 + 31" using month_days_step [of 12 y] by (simp add: DaysInMonth_ends)
  then show ?thesis by (simp add: day_number_def days_before_next flip: month_days_year)
qed

lemma day_number_next_month:
  assumes "1 \<le> m"
  shows "day_number y (m + 1) 1 = day_number y m (DaysInMonth y m) + 1"
  using month_days_step [OF assms, of y] by (simp add: day_number_def)

lemma valid_first: "1 \<le> y \<Longrightarrow> 1 \<le> m \<Longrightarrow> m \<le> 12 \<Longrightarrow> valid_date y m 1"
  using DaysInMonth_range [of m y] by (simp add: valid_date_def)

lemma valid_last: "1 \<le> y \<Longrightarrow> 1 \<le> m \<Longrightarrow> m \<le> 12 \<Longrightarrow> valid_date y m (DaysInMonth y m)"
  using DaysInMonth_range [of m y] by (simp add: valid_date_def)

text \<open>A time of the range of the program, with its fields.\<close>

definition in_range :: "time_q \<Rightarrow> bool" where
  "in_range t \<longleftrightarrow> first_time \<le> t \<and> t \<le> latestDate"

lemma in_range_cases:
  assumes "in_range t"
  obtains y m d h mi s where "valid_time y m d h mi s" "t = time_q_of y m d h mi s"
    "GetYear t = y" "GetMonth t = m" "GetDay t = d" "GetHour t = h" "GetMinute t = mi" "GetSecond t = s"
    "t = first_time + day_number y m d * 86400 + (h * 3600 + mi * 60 + s)" "day_number y m d \<le> 803532"
    "1 \<le> y" "y < 3000" "1 \<le> m" "m \<le> 12" "1 \<le> d" "d \<le> DaysInMonth y m" "d \<le> 31"
    "0 \<le> h" "h < 24" "0 \<le> mi" "mi < 60" "0 \<le> s" "s < 60"
proof -
  have b: "first_time \<le> t" "t < first_time + (last_day + 1) * 86400" "t < first_time + 803533 * 86400"
    using assms by (simp_all add: in_range_def latest_value)
  obtain y m d h mi s where v: "valid_time y m d h mi s" and t: "t = time_q_of y m d h mi s"
    by (rule time_q_of_cases [OF b(1,2)])
  note f = time_fields [OF v, folded t] and val = time_q_of_value [OF v, folded t]
  have p: "valid_date y m d" "0 \<le> h" "h < 24" "0 \<le> mi" "mi < 60" "0 \<le> s" "s < 60" using v by (auto simp: valid_time_def)
  then have vd: "1 \<le> y" "1 \<le> m" "m \<le> 12" "1 \<le> d" "d \<le> DaysInMonth y m" by (auto simp: valid_date_def)
  have n: "day_number y m d \<le> 803532" using val b(3) p by simp
  have "365 * (y - 1) \<le> 803532"
    using n valid_day_of_year(1) [OF p(1)] days_before_bounds [OF vd(1)] by (simp add: day_number_def)
  then have "y < 3000" by simp
  moreover have "d \<le> 31" using vd DaysInMonth_range [of m y] by simp
  ultimately show thesis using that [OF v t f val n] vd p by blast
qed

lemma AddOneDay_value:
  assumes "in_range t" "t < latestDate"
  shows "AddOneDay t = t + 86400"
proof -
  obtain y m d h mi s where f: "valid_time y m d h mi s" "t = time_q_of y m d h mi s"
    "GetYear t = y" "GetMonth t = m" "GetDay t = d" "GetHour t = h" "GetMinute t = mi" "GetSecond t = s"
    "t = first_time + day_number y m d * 86400 + (h * 3600 + mi * 60 + s)" "day_number y m d \<le> 803532"
    "1 \<le> y" "y < 3000" "1 \<le> m" "m \<le> 12" "1 \<le> d" "d \<le> DaysInMonth y m" "d \<le> 31"
    "0 \<le> h" "h < 24" "0 \<le> mi" "mi < 60" "0 \<le> s" "s < 60"
    by (rule in_range_cases [OF assms(1)])
  have u: "u32 (y + 1) = y + 1" "u32 (d + 1) = d + 1" using f by (simp_all add: width)
  have go: "time_q_of y' m' d' h mi s = t + 86400" if "valid_date y' m' d'" "day_number y' m' d' = day_number y m d + 1" for y' m' d'
  proof -
    have "valid_time y' m' d' h mi s" using that f by (intro valid_time_of_day) auto
    then show ?thesis using time_q_of_value [of y' m' d' h mi s] that f(9) by simp
  qed
  show ?thesis
  proof (cases "DaysInMonth y m = d")
    case last: True
    show ?thesis
    proof (cases "m = 12")
      case True
      then show ?thesis using assms(2) last f go [of "y + 1" 1 1] valid_first [of "y + 1" 1] day_number_next_year [of y]
        by (simp add: AddOneDay_def u DaysInMonth_ends)
    next
      case False
      then show ?thesis using assms(2) last f go [of y "m + 1" 1] valid_first [of y "m + 1"] day_number_next_month [of m y]
        by (simp add: AddOneDay_def)
    qed
  next
    case False
    then have "valid_date y m (d + 1)" "day_number y m (d + 1) = day_number y m d + 1"
      using f by (auto simp: valid_date_def day_number_def)
    from go [OF this] show ?thesis using assms(2) False f(3-8) by (simp add: AddOneDay_def u)
  qed
qed

lemma SubtractOneDay_value:
  assumes "in_range t" "earliestDate < t"
  shows "SubtractOneDay t = t - 86400"
proof -
  obtain y m d h mi s where f: "valid_time y m d h mi s" "t = time_q_of y m d h mi s"
    "GetYear t = y" "GetMonth t = m" "GetDay t = d" "GetHour t = h" "GetMinute t = mi" "GetSecond t = s"
    "t = first_time + day_number y m d * 86400 + (h * 3600 + mi * 60 + s)" "day_number y m d \<le> 803532"
    "1 \<le> y" "y < 3000" "1 \<le> m" "m \<le> 12" "1 \<le> d" "d \<le> DaysInMonth y m" "d \<le> 31"
    "0 \<le> h" "h < 24" "0 \<le> mi" "mi < 60" "0 \<le> s" "s < 60"
    by (rule in_range_cases [OF assms(1)])
  have n: "620547 \<le> day_number y m d" using assms(2) f(9,18-23) by (simp add: earliest_value)
  have y: "2 \<le> y"
  proof (rule ccontr)
    assume "\<not> 2 \<le> y"
    then have "y = 1" using f by simp
    then show False using n valid_day_of_year(2) [of y m d] f by (simp add: valid_date_def day_number_def days_before_def DaysInYear_def split: if_splits)
  qed
  have u: "u32 (y - 1) = y - 1" "u32 (d - 1) = d - 1" using f by (simp_all add: width)
  have go: "time_q_of y' m' d' h mi s = t - 86400" if "valid_date y' m' d'" "day_number y' m' d' + 1 = day_number y m d" for y' m' d'
  proof -
    have "valid_time y' m' d' h mi s" using that f by (intro valid_time_of_day) auto
    then show ?thesis using time_q_of_value [of y' m' d' h mi s] that(2) [symmetric] f(9) by simp
  qed
  show ?thesis
  proof (cases "d = 1")
    case first: True
    show ?thesis
    proof (cases "m = 1")
      case True
      then show ?thesis
        using assms(2) first f(3-8) y go [of "y - 1" 12 31] valid_last [of "y - 1" 12] day_number_next_year [of "y - 1"]
        by (simp add: SubtractOneDay_def u DaysInMonth_ends)
    next
      case False
      then show ?thesis
        using assms(2) first f(3-8,11,13,14) go [of y "m - 1" "DaysInMonth y (m - 1)"] valid_last [of y "m - 1"] day_number_next_month [of "m - 1" y]
        by (simp add: SubtractOneDay_def)
    qed
  next
    case False
    then have "valid_date y m (d - 1)" "day_number y m (d - 1) + 1 = day_number y m d"
      using f by (auto simp: valid_date_def day_number_def)
    from go [OF this] show ?thesis using assms(2) False f(3-8) by (simp add: SubtractOneDay_def u)
  qed
qed

section \<open>Beginnings\<close>

text \<open>The beginning of a period has the fields of the time and zeros behind them.\<close>

lemma beginnings:
  assumes "valid_time y m d h mi s"
  defines "t \<equiv> time_q_of y m d h mi s"
  shows "BOH t = time_q_of y m d h 0 0" "BOD t = time_q_of y m d 0 0 0" "BOM t = time_q_of y m 1 0 0 0"
    "BOQ t = time_q_of y ((m - 1) div 3 * 3 + 1) 1 0 0 0" "BOY t = time_q_of y 1 1 0 0 0" "EOD t = time_q_of y m d 23 59 59"
proof -
  note f = time_fields [OF assms(1), folded t_def]
  have m: "1 \<le> m" "m \<le> 12" using assms(1) by (auto simp: valid_time_def valid_date_def)
  have "(m - 1) div 3 * 3 \<le> m - 1" "0 \<le> (m - 1) div 3" using m by (simp_all add: pos_imp_zdiv_nonneg_iff)
  then have "u32 (u32 (m - 1) div 3 * 3 + 1) = (m - 1) div 3 * 3 + 1" using m by (simp add: width)
  then show "BOQ t = time_q_of y ((m - 1) div 3 * 3 + 1) 1 0 0 0" by (simp add: BOQ_def f)
  show "BOH t = time_q_of y m d h 0 0" "BOD t = time_q_of y m d 0 0 0" "BOM t = time_q_of y m 1 0 0 0"
    "BOY t = time_q_of y 1 1 0 0 0" "EOD t = time_q_of y m d 23 59 59"
    by (simp_all add: BOH_def BOD_def BOM_def BOY_def EOD_def f)
qed

lemma BOD_value:
  assumes "valid_time y m d h mi s"
  shows "BOD (time_q_of y m d h mi s) = first_time + day_number y m d * 86400"
proof -
  have "valid_time y m d 0 0 0" using assms by (simp add: valid_time_def)
  then show ?thesis using beginnings(2) [OF assms] time_q_of_value [of y m d 0 0 0] by simp
qed

text \<open>The day of a time, counted from the first day of the year 1.\<close>

definition day_of :: "time_q \<Rightarrow> int" where
  "day_of t = (t - first_time) div 86400"

lemma day_of_value: "0 \<le> r \<Longrightarrow> r < 86400 \<Longrightarrow> day_of (first_time + n * 86400 + r) = n"
  unfolding day_of_def by (rule int_div_pos_eq [of _ _ _ r]) auto

lemma BOD_day_of:
  assumes "in_range t"
  shows "BOD t = first_time + day_of t * 86400"
proof -
  obtain y m d h mi s where f: "valid_time y m d h mi s" "t = time_q_of y m d h mi s"
    "t = first_time + day_number y m d * 86400 + (h * 3600 + mi * 60 + s)" "0 \<le> h * 3600 + mi * 60 + s" "h * 3600 + mi * 60 + s < 86400"
    by (rule in_range_cases [OF assms]) auto
  have "day_of t = day_number y m d" unfolding f(3) by (rule day_of_value [OF f(4,5)])
  then show ?thesis using BOD_value [OF f(1)] f(2) by simp
qed

lemma day_of_bounds: "first_time + day_of t * 86400 \<le> t \<and> t < first_time + day_of t * 86400 + 86400"
  using pos_mod_bound [of 86400 "t - first_time"] div_mult_mod_eq [of "t - first_time" 86400] by (auto simp: day_of_def simp del: pos_mod_bound)

lemma day_of_range: "in_range t \<Longrightarrow> 0 \<le> day_of t \<and> day_of t \<le> 803532"
  using day_of_bounds [of t] by (auto simp: in_range_def latest_value)

section \<open>Weeks\<close>

lemma dow_value:
  assumes "0 \<le> day_of t" "day_of t \<le> last_day"
  shows "getDayOfWeek (getDatePart t) = (day_of t + 1) mod 7 + 1"
proof -
  have "getDatePart t = day_of t + 1999422265"
    using parts_of_value(1) [of "day_of t" "t - first_time - day_of t * 86400" t] assms day_of_bounds [of t] by simp
  moreover have "(day_of t + 1999422265) mod 7 = (day_of t + 1) mod 7"
    using mod_mult_self2 [of "day_of t + 1" 7 285631752] by (simp add: add.commute)
  moreover have "0 \<le> (day_of t + 1) mod 7" "(day_of t + 1) mod 7 < 7" by simp_all
  ultimately show ?thesis using assms by (simp add: getDayOfWeek_def CDate_GetTotalDays_def width cmod_nonneg)
qed

definition sunday :: "int \<Rightarrow> int" where
  "sunday n = n - (n + 1) mod 7"

lemma BOW_loop_effect:
  "0 \<le> k \<Longrightarrow> k \<le> 6 \<Longrightarrow> (n + 1) mod 7 = k \<Longrightarrow> 620549 \<le> n \<Longrightarrow> n \<le> 803532 \<Longrightarrow>
   BOW_loop (first_time + n * 86400) = Some (first_time + (n - k) * 86400)"
proof (induction "nat k" arbitrary: k n)
  case 0
  have "day_of (first_time + n * 86400) = n" using day_of_value [of 0 n] by simp
  then have "getDayOfWeek (getDatePart (first_time + n * 86400)) = 1" using 0 by (simp add: dow_value)
  then show ?case using 0 by (simp add: BOW_loop.simps [of "first_time + n * 86400"])
next
  case (Suc j)
  then have k: "1 \<le> k" "j = nat (k - 1)" by auto
  have "day_of (first_time + n * 86400) = n" using day_of_value [of 0 n] by simp
  then have dow: "getDayOfWeek (getDatePart (first_time + n * 86400)) = k + 1" using Suc.prems by (simp add: dow_value)
  have n: "n \<noteq> 620549" using Suc.prems k by auto
  have "SubtractOneDay (first_time + n * 86400) = first_time + n * 86400 - 86400"
    using Suc.prems by (intro SubtractOneDay_value) (auto simp: in_range_def latest_value earliest_value)
  then have sub: "SubtractOneDay (first_time + n * 86400) = first_time + (n - 1) * 86400" by simp
  have "n mod 7 = k - 1" using Suc.prems(3) k(1) Suc.prems(2) by presburger
  then have "BOW_loop (first_time + (n - 1) * 86400) = Some (first_time + (n - 1 - (k - 1)) * 86400)"
    using Suc.prems n k by (intro Suc.hyps(1)) auto
  then show ?case using k by (simp add: BOW_loop.simps [of "first_time + n * 86400"] dow sub)
qed

text \<open>The second day of January 1700 is the last Saturday before the loop can end.\<close>

lemma BOW_value:
  assumes "in_range t" "620549 \<le> day_of t"
  shows "BOW t = Some (first_time + sunday (day_of t) * 86400)"
  using BOW_loop_effect [of "(day_of t + 1) mod 7" "day_of t"] BOD_day_of [OF assms(1)] day_of_range [OF assms(1)] assms(2)
  by (simp add: BOW_def sunday_def)

lemma EOW_loop_never: "EOW_loop tm ret = Some x \<Longrightarrow> getDayOfWeek (getDatePart tm) \<ge> 7"
proof (rule EOW_loop.raw_induct [of "\<lambda>tm ret x. getDayOfWeek (getDatePart tm) \<ge> 7"], goal_cases)
  case (1 loop tm ret y)
  show ?case using 1(2,3) by (cases "getDayOfWeek (getDatePart tm) < 7") auto
qed simp

section \<open>Lists of periods\<close>

text \<open>
  What \<^verbatim>\<open>expandTimeArray\<close> needs of the beginning of the next period: it lies behind the
  time, as long as the time is before the last period that begins in the range of the
  program; after that it stays where it is.
\<close>

locale periods =
  fixes next_begin :: "time_q \<Rightarrow> time_q option"
    and least latest :: time_q
  assumes next_up: "least \<le> t \<Longrightarrow> t < latest \<Longrightarrow> \<exists>u. next_begin t = Some u \<and> t < u \<and> u \<le> latest"
    and next_top: "latest \<le> t \<Longrightarrow> t < latestDate \<Longrightarrow> next_begin t = Some latest"
    and latest_lt: "least \<le> latest" "latest < latestDate"
begin

definition iter :: "nat \<Rightarrow> time_q \<Rightarrow> time_q" where
  "iter n t = ((\<lambda>t. the (next_begin t)) ^^ n) t"

lemma iter_0 [simp]: "iter 0 t = t"
  by (simp add: iter_def)

lemma iter_step: "iter (Suc n) t = the (next_begin (iter n t))"
  by (simp add: iter_def)

lemma iter_Suc: "next_begin t = Some u \<Longrightarrow> iter (Suc n) t = iter n u"
  by (simp add: iter_def funpow_Suc_right del: funpow.simps)

lemma expand_ends:
  assumes "next_begin stop = Some b" "b < latest" "least \<le> t" "t \<le> latest"
  obtains n where "expand_loop next_begin stop t ta = Some (ta @ map (\<lambda>i. iter i t) [0..<n])"
    "\<forall>i<n. iter i t \<le> b" "b < iter n t"
proof -
  have "\<exists>n. expand_loop next_begin stop t ta = Some (ta @ map (\<lambda>i. iter i t) [0..<n]) \<and> (\<forall>i<n. iter i t \<le> b) \<and> b < iter n t"
    using assms(3,4)
  proof (induction "nat (latest - t)" arbitrary: t ta rule: less_induct)
    case less
    show ?case
    proof (cases "t \<le> b")
      case False
      then show ?thesis using assms(1) by (intro exI [of _ 0]) (simp add: expand_loop.simps [of next_begin stop t])
    next
      case True
      then obtain u where u: "next_begin t = Some u" "t < u" "u \<le> latest" using next_up [of t] less.prems assms(2) by auto
      then obtain n where n: "expand_loop next_begin stop u (ta @ [t]) = Some ((ta @ [t]) @ map (\<lambda>i. iter i u) [0..<n])"
        "\<forall>i<n. iter i u \<le> b" "b < iter n u"
        using less.hyps [of u "ta @ [t]"] less.prems by auto
      have "map (\<lambda>i. iter i t) [0..<Suc n] = t # map (\<lambda>i. iter i u) [0..<n]"
        by (simp add: upt_conv_Cons map_Suc_upt [symmetric] iter_Suc [OF u(1)] del: upt_Suc)
      then have "expand_loop next_begin stop t ta = Some (ta @ map (\<lambda>i. iter i t) [0..<Suc n])"
        using n(1) True u assms(1) by (simp add: expand_loop.simps [of next_begin stop t] del: upt_Suc)
      moreover have "\<forall>i<Suc n. iter i t \<le> b" using n(2) True by (auto simp: less_Suc_eq_0_disj iter_Suc [OF u(1)])
      moreover have "b < iter (Suc n) t" using n(3) by (simp add: iter_Suc [OF u(1)])
      ultimately show ?thesis by blast
    qed
  qed
  then show thesis using that by blast
qed

lemma expand_never_step:
  assumes "next_begin stop = Some latest"
  shows "expand_loop nb st t ta = Some r \<Longrightarrow> nb = next_begin \<longrightarrow> st = stop \<longrightarrow> \<not> (least \<le> t \<and> t \<le> latest)"
proof (rule expand_loop.raw_induct [of "\<lambda>nb st t ta r. nb = next_begin \<longrightarrow> st = stop \<longrightarrow> \<not> (least \<le> t \<and> t \<le> latest)"], goal_cases)
  case (1 loop nb st t ta y)
  show ?case
  proof (intro impI notI)
    assume p: "nb = next_begin" "st = stop" "least \<le> t \<and> t \<le> latest"
    then have "Option.bind (next_begin t) (\<lambda>t'. loop nb st t' (ta @ [t])) = Some y" using 1(3) assms by simp
    then obtain t' where t': "next_begin t = Some t'" "loop nb st t' (ta @ [t]) = Some y" by (cases "next_begin t") auto
    have "least \<le> t' \<and> t' \<le> latest"
      using next_up [of t] next_top [of t] t'(1) p latest_lt by (cases "t < latest") auto
    then show False using 1(2) [OF t'(2)] p by blast
  qed
qed simp

lemma expand_never: "next_begin stop = Some latest \<Longrightarrow> least \<le> t \<Longrightarrow> t \<le> latest \<Longrightarrow> expand_loop next_begin stop t ta = None"
  using expand_never_step [of stop next_begin stop t ta] by (cases "expand_loop next_begin stop t ta") auto

lemma expand_array_ends:
  assumes "BOP startIn = Some s" "next_begin stop = Some b" "b < latest" "least \<le> startIn" "startIn < latest"
  obtains n t where "next_begin startIn = Some t"
    "expandTimeArray ta startIn stop True BOP next_begin = Some (ta @ s # map (\<lambda>i. iter i t) [0..<n])"
    "\<forall>i<n. iter i t \<le> b" "b < iter n t"
proof -
  obtain t where t: "next_begin startIn = Some t" "startIn < t" "t \<le> latest" using next_up [OF assms(4,5)] by blast
  obtain n where "expand_loop next_begin stop t (ta @ [s]) = Some ((ta @ [s]) @ map (\<lambda>i. iter i t) [0..<n])"
    "\<forall>i<n. iter i t \<le> b" "b < iter n t"
  proof -
    have "least \<le> t" using t assms(4) by simp
    from expand_ends [OF assms(2,3) this t(3)] show thesis using that by blast
  qed
  then show thesis using that t assms(1) by (simp add: expandTimeArray_def)
qed

lemma expand_array_never:
  assumes "latest \<le> stop" "stop < latestDate" "least \<le> startIn" "startIn < latestDate"
  shows "expandTimeArray ta startIn stop fallback BOP next_begin = None"
proof (rule ccontr)
  assume "expandTimeArray ta startIn stop fallback BOP next_begin \<noteq> None"
  then obtain r t ta' where r: "expand_loop next_begin stop t ta' = Some r" "next_begin startIn = Some t"
    by (auto simp: expandTimeArray_def bind_eq_Some_conv split: if_splits)
  have "least \<le> t \<and> t \<le> latest"
    using next_up [OF assms(3)] next_top [of startIn] assms(3,4) r(2) latest_lt by (cases "startIn < latest") auto
  then show False using expand_never [OF next_top [OF assms(1,2)], of t ta'] r(1) by simp
qed

end

section \<open>Hours, days, weeks, months, quarters and years\<close>

lemma earlierOf_min: "earlierOf a b = min a b"
  by (simp add: earlierOf_def)

lemma day_number_less:
  assumes "valid_date y m d" "valid_date z k f" "y < z \<or> y = z \<and> (m < k \<or> m = k \<and> d < f)"
  shows "day_number y m d < day_number z k f"
proof (cases "y < z")
  case True
  then show ?thesis using days_before_mono [OF True] valid_day_of_year [OF assms(1)] valid_day_of_year [OF assms(2)]
    by (simp add: day_number_def)
next
  case False
  then have yz: "y = z" using assms(3) by blast
  show ?thesis
  proof (cases "m < k")
    case True
    then have "month_days y (nat (m - 1)) + DaysInMonth y m \<le> month_days y (nat (k - 1))"
      using month_days_mono [of "nat (m - 1)" "nat (k - 1)" y] assms(1,2) by (auto simp: valid_date_def nat_le_iff)
    then show ?thesis using assms(1,2) yz by (simp add: day_number_def valid_date_def)
  next
    case False
    then show ?thesis using assms(3) yz by (simp add: day_number_def)
  qed
qed

lemma day_number_less_iff:
  assumes "valid_date y m d" "valid_date z k f"
  shows "day_number y m d < day_number z k f \<longleftrightarrow> y < z \<or> y = z \<and> (m < k \<or> m = k \<and> d < f)"
proof -
  have "(y < z \<or> y = z \<and> (m < k \<or> m = k \<and> d < f)) \<or> y = z \<and> m = k \<and> d = f \<or> (z < y \<or> z = y \<and> (k < m \<or> k = m \<and> f < d))"
    by (cases y z rule: linorder_cases; cases m k rule: linorder_cases; cases d f rule: linorder_cases) simp_all
  then show ?thesis using day_number_less [OF assms] day_number_less [OF assms(2,1)] by fastforce
qed

lemma hour_value:
  assumes "in_range t"
  shows "BOH t = t - (t - first_time) mod 3600"
proof -
  obtain y m d h mi s where f: "valid_time y m d h mi s" "t = time_q_of y m d h mi s"
    "t = first_time + day_number y m d * 86400 + (h * 3600 + mi * 60 + s)" "0 \<le> h" "h < 24" "0 \<le> mi" "mi < 60" "0 \<le> s" "s < 60"
    by (rule in_range_cases [OF assms])
  have "valid_time y m d h 0 0" using f(1) by (simp add: valid_time_def)
  then have "BOH t = first_time + day_number y m d * 86400 + h * 3600"
    using beginnings(1) [OF f(1)] f(2) time_q_of_value [of y m d h 0 0] by simp
  moreover have "(t - first_time) mod 3600 = mi * 60 + s"
    using f(3-9) by (intro int_mod_pos_eq [of _ _ "day_number y m d * 24 + h"]) auto
  ultimately show ?thesis using f(3) by simp
qed

lemma AddOneHour_value:
  assumes "in_range t" "t < latestDate"
  shows "AddOneHour t = BOH t + 3600"
proof -
  obtain y m d h mi s where f: "valid_time y m d h mi s" "t = time_q_of y m d h mi s"
    "GetYear t = y" "GetMonth t = m" "GetDay t = d" "GetHour t = h"
    "t = first_time + day_number y m d * 86400 + (h * 3600 + mi * 60 + s)" "day_number y m d \<le> 803532" "0 \<le> h" "h < 24" "0 \<le> mi" "mi < 60" "0 \<le> s" "s < 60"
    by (rule in_range_cases [OF assms(1)])
  have v: "valid_time y m d h 0 0" using f(1) by (simp add: valid_time_def)
  have b: "BOH t = first_time + day_number y m d * 86400 + h * 3600"
    using beginnings(1) [OF f(1)] f(2) time_q_of_value [OF v] by simp
  have gh: "GetHour (BOH t) = h" using beginnings(1) [OF f(1)] f(2) time_fields(4) [OF v] by simp
  show ?thesis
  proof (cases "h = 23")
    case True
    have t': "AddOneDay t = t + 86400" by (rule AddOneDay_value [OF assms])
    have "t + 86400 < first_time + (last_day + 1) * 86400" "first_time \<le> t + 86400"
      using f day_number_nonneg [of y m d] by (auto simp: valid_time_def)
    then obtain y2 m2 d2 h2 mi2 s2 where v2: "valid_time y2 m2 d2 h2 mi2 s2" "t + 86400 = time_q_of y2 m2 d2 h2 mi2 s2"
      using time_q_of_cases by blast
    have "first_time + day_number y2 m2 d2 * 86400 + (h2 * 3600 + mi2 * 60 + s2) = first_time + (day_number y m d + 1) * 86400 + (h * 3600 + mi * 60 + s)"
      using time_q_of_value [OF v2(1)] v2(2) f(7) by simp
    moreover have "0 \<le> h2 * 3600 + mi2 * 60 + s2" "h2 * 3600 + mi2 * 60 + s2 < 86400" using v2(1) by (auto simp: valid_time_def)
    ultimately have "day_number y2 m2 d2 = day_number y m d + 1" using f(9-14) by simp
    then have "BOD (t + 86400) = first_time + (day_number y m d + 1) * 86400" using BOD_value [OF v2(1)] v2(2) by simp
    then show ?thesis using True gh b by (simp add: AddOneHour_def t')
  next
    case False
    then have "valid_time y m d (h + 1) 0 0" using f(1,10) by (simp add: valid_time_def)
    from time_q_of_value [OF this] show ?thesis using False gh b f(3-6,9,10) by (simp add: AddOneHour_def width)
  qed
qed

abbreviation last_hour :: time_q where "last_hour \<equiv> first_time + 803532 * 86400 + 23 * 3600"

interpretation hours: periods "Some \<circ> BONH" first_time last_hour
proof
  fix t
  assume t: "first_time \<le> t" "t < last_hour"
  have r: "in_range t" "t < latestDate" using t by (auto simp: in_range_def latest_value)
  define q where "q = (t - first_time) div 3600"
  have q: "BOH t = first_time + q * 3600" using hour_value [OF r(1)] minus_mod_eq_div_mult [of "t - first_time" 3600] unfolding q_def by linarith
  have "0 \<le> q" "q < 803532 * 24 + 23" using t by (auto simp: q_def pos_imp_zdiv_nonneg_iff)
  then have "in_range (first_time + (q + 1) * 3600)" by (auto simp: in_range_def latest_value)
  from hour_value [OF this] have "BONH t = first_time + (q + 1) * 3600"
    using AddOneHour_value [OF r] q \<open>q < 803532 * 24 + 23\<close> by (simp add: BONH_def earlierOf_min latest_value min_def algebra_simps)
  moreover have "t < first_time + (q + 1) * 3600" by (simp add: q_def)
  ultimately show "\<exists>u. (Some \<circ> BONH) t = Some u \<and> t < u \<and> u \<le> last_hour" using \<open>q < 803532 * 24 + 23\<close> by simp
next
  fix t
  assume t: "last_hour \<le> t" "t < latestDate"
  then have r: "in_range t" by (simp add: in_range_def first_time_def SECS_PER_DAY_def)
  have "(t - first_time) mod 3600 = t - last_hour"
    using t by (intro int_mod_pos_eq [of _ _ "803532 * 24 + 23"]) (auto simp: latest_value)
  then have "AddOneHour t = last_hour + 3600" using AddOneHour_value [OF r t(2)] hour_value [OF r] by simp
  then have "earlierOf latestDate (AddOneHour t) = latestDate" by (simp add: earlierOf_min latest_value)
  moreover have "in_range latestDate" by (simp add: in_range_def latest_value)
  then have "BOH latestDate = last_hour" using hour_value [of latestDate] by (simp add: latest_value)
  ultimately show "(Some \<circ> BONH) t = Some last_hour" by (simp add: BONH_def)
qed (simp_all add: latest_value)

lemma BOND_value:
  assumes "in_range t" "t < first_time + 803532 * 86400"
  shows "BOND t = first_time + (day_of t + 1) * 86400"
proof -
  have a: "AddOneDay t = t + 86400" using assms by (intro AddOneDay_value) (auto simp: latest_value)
  have "day_of (t + 86400) = day_of t + 1"
    using day_of_value [of "t - first_time - day_of t * 86400" "day_of t + 1"] day_of_bounds [of t] by (simp add: algebra_simps)
  moreover have "in_range (t + 86400)" "t + 86400 \<le> latestDate" using assms by (auto simp: in_range_def latest_value)
  ultimately show ?thesis using BOD_day_of [of "t + 86400"] by (simp only: BOND_def earlierOf_min a min_absorb2)
qed

lemma BOD_latest: "BOD latestDate = first_time + 803532 * 86400"
  using BOD_value [OF latest_valid] by (simp add: latestDate_def day_numbers)

interpretation days: periods "Some \<circ> BOND" first_time "first_time + 803532 * 86400"
proof
  fix t
  assume t: "first_time \<le> t" "t < first_time + 803532 * 86400"
  have r: "in_range t" using t by (auto simp: in_range_def latest_value)
  have "day_of t < 803532" using day_of_bounds [of t] t by simp
  then show "\<exists>u. (Some \<circ> BOND) t = Some u \<and> t < u \<and> u \<le> first_time + 803532 * 86400"
    using BOND_value [OF r t(2)] day_of_bounds [of t] by (simp add: algebra_simps)
next
  fix t
  assume t: "first_time + 803532 * 86400 \<le> t" "t < latestDate"
  then have "AddOneDay t = t + 86400" by (intro AddOneDay_value) (auto simp: in_range_def)
  then show "(Some \<circ> BOND) t = Some (first_time + 803532 * 86400)"
    using t BOD_latest by (simp add: BOND_def earlierOf_min latest_value min_def)
qed (simp_all add: latest_value)

text \<open>A week is seven days; behind the end of the range the step stays at the last second.\<close>

lemma AddOneDay_latest: "latestDate \<le> t \<Longrightarrow> AddOneDay t = latestDate"
  by (simp add: AddOneDay_def)

lemma AddOneDays:
  assumes "in_range t"
  shows "min latestDate ((AddOneDay ^^ k) t) = min latestDate (t + int k * 86400) \<and> in_range (min latestDate ((AddOneDay ^^ k) t))"
proof (induction k)
  case 0
  then show ?case using assms by (simp add: in_range_def latest_value)
next
  case (Suc k)
  let ?u = "(AddOneDay ^^ k) t"
  show ?case
  proof (cases "?u < latestDate")
    case True
    then have u: "?u = t + int k * 86400" "in_range ?u" using Suc by (auto simp: min_def split: if_splits)
    then have "AddOneDay ?u = t + int (Suc k) * 86400" using AddOneDay_value [OF u(2) True] by simp
    then show ?thesis using assms by (auto simp: in_range_def latest_value min_def)
  next
    case False
    then have "latestDate \<le> t + int k * 86400" using Suc by (auto simp: min_def split: if_splits)
    then show ?thesis using False AddOneDay_latest [of ?u] by (auto simp: in_range_def latest_value min_def)
  qed
qed

abbreviation last_week :: time_q where "last_week \<equiv> first_time + 803529 * 86400"

lemma sunday_props: "sunday n \<le> n" "n \<le> sunday n + 6" "n \<le> k \<Longrightarrow> sunday n \<le> sunday k" "sunday (n + 7) = sunday n + 7"
proof -
  have d: "sunday n = 7 * ((n + 1) div 7) - 1" for n
    using div_mult_mod_eq [of "n + 1" 7] unfolding sunday_def by linarith
  show "sunday n \<le> n" "n \<le> sunday n + 6" by (simp_all add: sunday_def)
  show "n \<le> k \<Longrightarrow> sunday n \<le> sunday k" unfolding d using zdiv_mono1 [of "n + 1" "k + 1" 7] by simp
  show "sunday (n + 7) = sunday n + 7" unfolding sunday_def by presburger
qed

lemma BONW_value:
  assumes "in_range t" "620549 \<le> day_of t"
  shows "BONW t = Some (first_time + sunday (min 803532 (day_of t + 7)) * 86400)"
proof -
  let ?x = "min latestDate (t + 7 * 86400)"
  have x: "earlierOf latestDate (AddOneWeek t) = ?x" "in_range ?x"
    using AddOneDays [OF assms(1), of 7] unfolding earlierOf_min AddOneWeek_def by (auto simp del: funpow.simps)
  have "day_of ?x = min 803532 (day_of t + 7)"
  proof (cases "day_of t + 7 \<le> 803532")
    case True
    then have "?x = t + 7 * 86400" using day_of_bounds [of t] by (simp add: latest_value)
    then show ?thesis
      using True day_of_value [of "t - first_time - day_of t * 86400" "day_of t + 7"] day_of_bounds [of t] by (simp add: algebra_simps)
  next
    case False
    then have "?x = first_time + 803532 * 86400 + 86399" using day_of_bounds [of t] by (simp add: latest_value)
    then show ?thesis using False day_of_value [of 86399 803532] by simp
  qed
  then show ?thesis using BOW_value [OF x(2)] x(1) assms(2) by (simp add: BONW_def)
qed

interpretation weeks: periods BONW "first_time + 620549 * 86400" last_week
proof
  fix t
  assume t: "first_time + 620549 * 86400 \<le> t" "t < last_week"
  have r: "in_range t" "620549 \<le> day_of t" "day_of t < 803529" using t day_of_bounds [of t] by (auto simp: in_range_def latest_value)
  have "day_of t < sunday (min 803532 (day_of t + 7))"
  proof (cases "day_of t + 7 \<le> 803532")
    case True
    then show ?thesis using sunday_props(2) [of "day_of t + 7"] by simp
  next
    case False
    then show ?thesis using r by (simp add: sunday_def)
  qed
  moreover have "sunday (min 803532 (day_of t + 7)) \<le> 803529"
    using sunday_props(3) [of "min 803532 (day_of t + 7)" 803532] by (simp add: sunday_def)
  ultimately show "\<exists>u. BONW t = Some u \<and> t < u \<and> u \<le> last_week"
    using BONW_value [OF r(1,2)] day_of_bounds [of t] by auto
next
  fix t
  assume t: "last_week \<le> t" "t < latestDate"
  have "in_range t" "620549 \<le> day_of t" "803529 \<le> day_of t"
    using t day_of_bounds [of t] by (auto simp: in_range_def first_time_def SECS_PER_DAY_def)
  then show "BONW t = Some last_week" using BONW_value [of t] by (simp add: sunday_def)
qed (simp_all add: latest_value)

text \<open>The first second of a month, and the order of months.\<close>

abbreviation month_time :: "int \<Rightarrow> int \<Rightarrow> time_q" where
  "month_time y m \<equiv> time_q_of y m 1 0 0 0"

lemma month_time_valid:
  assumes "1 \<le> y" "y < 3000" "1 \<le> m" "m \<le> 12"
  shows "valid_time y m 1 0 0 0"
proof -
  have v: "valid_date y m 1" using valid_first assms by simp
  then have "day_number y m 1 < day_number 3000 1 1" using assms by (intro day_number_less) (auto simp: valid_first)
  then have "day_number y m 1 \<le> last_day" by (simp add: day_numbers)
  then show ?thesis using v by (simp add: valid_time_def)
qed

lemma month_time_less:
  assumes "1 \<le> y" "y < 3000" "1 \<le> m" "m \<le> 12" "1 \<le> z" "z < 3000" "1 \<le> k" "k \<le> 12"
  shows "month_time y m < month_time z k \<longleftrightarrow> y < z \<or> y = z \<and> m < k"
  using time_q_of_value [OF month_time_valid [OF assms(1-4)]] time_q_of_value [OF month_time_valid [OF assms(5-8)]]
    day_number_less_iff [OF valid_first valid_first, of y m z k] assms by auto

definition next_month :: "int \<Rightarrow> int \<Rightarrow> int \<times> int" where
  "next_month y m = (if m = 12 then (y + 1, 1) else (y, m + 1))"

lemma in_month_cases:
  assumes "in_range t"
  obtains y m y' m' where "GetYear t = y" "GetMonth t = m" "1 \<le> y" "y \<le> 2200" "1 \<le> m" "m \<le> 12" "next_month y m = (y', m')"
    "month_time y m \<le> t" "t < month_time y' m'"
proof -
  obtain y m d h mi s where f: "valid_time y m d h mi s" "t = time_q_of y m d h mi s"
    "GetYear t = y" "GetMonth t = m" "GetDay t = d" "GetHour t = h" "GetMinute t = mi" "GetSecond t = s"
    "t = first_time + day_number y m d * 86400 + (h * 3600 + mi * 60 + s)" "day_number y m d \<le> 803532"
    "1 \<le> y" "y < 3000" "1 \<le> m" "m \<le> 12" "1 \<le> d" "d \<le> DaysInMonth y m" "d \<le> 31"
    "0 \<le> h" "h < 24" "0 \<le> mi" "mi < 60" "0 \<le> s" "s < 60"
    by (rule in_range_cases [OF assms])
  obtain y' m' where n: "next_month y m = (y', m')" by fastforce
  have n': "day_number y' m' 1 = day_number y m (DaysInMonth y m) + 1" "1 \<le> y'" "y' \<le> y + 1" "1 \<le> m'" "m' \<le> 12"
    using n f(11-14) day_number_next_year [of y] day_number_next_month [of m y]
    by (auto simp: next_month_def DaysInMonth_ends split: if_splits)
  have y: "y \<le> 2200"
  proof (rule ccontr)
    assume "\<not> y \<le> 2200"
    then have "day_number 2200 12 31 < day_number y m d"
      using f(11-16) by (intro day_number_less) (auto simp: valid_date_def DaysInMonth_ends)
    then show False using f(10) by (simp add: day_numbers)
  qed
  have "day_number y m 1 \<le> day_number y m d" "day_number y m d \<le> day_number y m (DaysInMonth y m)"
    using f(15,16) by (simp_all add: day_number_def)
  moreover have "month_time y m = first_time + day_number y m 1 * 86400" "month_time y' m' = first_time + day_number y' m' 1 * 86400"
    using time_q_of_value [OF month_time_valid] f n' y by simp_all
  ultimately have "month_time y m \<le> t" "t < month_time y' m'" using f(9,18-23) n'(1) by auto
  then show thesis using that f(3,4,11,13,14) y n by blast
qed

lemma month_time_latest: "1 \<le> y \<Longrightarrow> y < 3000 \<Longrightarrow> 1 \<le> m \<Longrightarrow> m \<le> 12 \<Longrightarrow> month_time y m \<le> latestDate \<longleftrightarrow> y \<le> 2200"
proof -
  assume a: "1 \<le> y" "y < 3000" "1 \<le> m" "m \<le> 12"
  have "month_time 2201 1 = latestDate + 1"
    using time_q_of_value [OF month_time_valid [of 2201 1]] by (simp add: latest_value day_numbers)
  then have "month_time y m \<le> latestDate \<longleftrightarrow> month_time y m < month_time 2201 1" by auto
  then show ?thesis using month_time_less [of y m 2201 1] a by auto
qed

lemma latest_beginnings: "BOM latestDate = month_time 2200 12" "BOQ latestDate = month_time 2200 10" "BOY latestDate = month_time 2200 1"
  using beginnings(3-5) [OF latest_valid] by (simp_all add: latestDate_def)

lemma beginning_of_month_time:
  assumes "1 \<le> y" "y < 3000" "1 \<le> m" "m \<le> 12"
  shows "BOM (month_time y m) = month_time y m" "BOQ (month_time y m) = month_time y ((m - 1) div 3 * 3 + 1)" "BOY (month_time y m) = month_time y 1"
  using beginnings(3-5) [OF month_time_valid [OF assms]] by simp_all

lemma month_time_range: "1 \<le> y \<Longrightarrow> y \<le> 2200 \<Longrightarrow> 1 \<le> m \<Longrightarrow> m \<le> 12 \<Longrightarrow> first_time \<le> month_time y m \<and> month_time y m < latestDate"
  using time_q_of_value [OF month_time_valid [of y m]] day_number_nonneg [OF valid_first [of y m]] month_time_latest [of y m]
    time_q_of_value [OF month_time_valid [of 2200 12]] month_time_less [of 2200 12 y m]
  by (auto simp: day_numbers latest_value)

lemma AddOneMonth_value:
  assumes "GetYear t = y" "GetMonth t = m" "1 \<le> y" "y \<le> 2200" "1 \<le> m" "m \<le> 12" "next_month y m = (y', m')"
  shows "AddOneMonth t = month_time y' m'" "AddOneYear t = month_time (y + 1) 1"
    "AddOneQuarter t = (if m > 9 then month_time (y + 1) (m - 8) else month_time y (m + 3))"
proof -
  have "m > 9 \<Longrightarrow> (m + 3) mod 12 = m - 9" using assms(6) by presburger
  then show "AddOneQuarter t = (if m > 9 then month_time (y + 1) (m - 8) else month_time y (m + 3))"
    using assms by (simp add: AddOneQuarter_def width)
  show "AddOneMonth t = month_time y' m'" "AddOneYear t = month_time (y + 1) 1"
    using assms by (auto simp: AddOneMonth_def AddOneYear_def next_month_def width split: if_splits)
qed

lemma bonx_month_time:
  assumes "1 \<le> y" "y < 3000" "1 \<le> m" "m \<le> 12"
  shows "earlierOf latestDate (month_time y m) = (if y \<le> 2200 then month_time y m else latestDate)"
  using month_time_latest [OF assms] by (auto simp: earlierOf_min)

interpretation months: periods "Some \<circ> BONM" first_time "month_time 2200 12"
proof
  fix t
  assume t: "first_time \<le> t" "t < month_time 2200 12"
  have "in_range t" using t month_time_range [of 2200 12] by (simp add: in_range_def)
  then obtain y m y' m' where f: "GetYear t = y" "GetMonth t = m" "1 \<le> y" "y \<le> 2200" "1 \<le> m" "m \<le> 12" "next_month y m = (y', m')"
    "month_time y m \<le> t" "t < month_time y' m'" by (rule in_month_cases)
  have "month_time y m < month_time 2200 12" using f(8) t(2) by simp
  then have lt: "y < 2200 \<or> m < 12" using month_time_less [of y m 2200 12] f by auto
  then have n: "1 \<le> y'" "y' \<le> 2200" "1 \<le> m'" "m' \<le> 12" using f(3-7) by (auto simp: next_month_def split: if_splits)
  then have "BONM t = month_time y' m'"
    using AddOneMonth_value(1) [OF f(1-7)] by (simp add: BONM_def bonx_month_time beginning_of_month_time)
  moreover have "month_time y' m' \<le> month_time 2200 12" using month_time_less [of 2200 12 y' m'] n by (auto simp: not_less [symmetric])
  ultimately show "\<exists>u. (Some \<circ> BONM) t = Some u \<and> t < u \<and> u \<le> month_time 2200 12" using f(9) by simp
next
  fix t
  assume t: "month_time 2200 12 \<le> t" "t < latestDate"
  then have "in_range t" using month_time_range [of 2200 12] by (simp add: in_range_def)
  then obtain y m y' m' where f: "GetYear t = y" "GetMonth t = m" "1 \<le> y" "y \<le> 2200" "1 \<le> m" "m \<le> 12" "next_month y m = (y', m')"
    "month_time y m \<le> t" "t < month_time y' m'" by (rule in_month_cases)
  have "month_time 2200 12 < month_time y' m'" using f(9) t(1) by simp
  then have "y' = 2201" "m' = 1" using month_time_less [of 2200 12 y' m'] f(3-7) by (auto simp: next_month_def split: if_splits)
  then show "(Some \<circ> BONM) t = Some (month_time 2200 12)"
    using AddOneMonth_value(1) [OF f(1-7)] by (simp add: BONM_def bonx_month_time latest_beginnings)
qed (use month_time_range [of 2200 12] in simp_all)

interpretation quarters: periods "Some \<circ> BONQ" first_time "month_time 2200 10"
proof
  fix t
  assume t: "first_time \<le> t" "t < month_time 2200 10"
  have "in_range t" using t month_time_range [of 2200 10] by (simp add: in_range_def)
  then obtain y m y' m' where f: "GetYear t = y" "GetMonth t = m" "1 \<le> y" "y \<le> 2200" "1 \<le> m" "m \<le> 12" "next_month y m = (y', m')"
    "month_time y m \<le> t" "t < month_time y' m'" by (rule in_month_cases)
  have "month_time y m < month_time 2200 10" using f(8) t(2) by simp
  then have lt: "y < 2200 \<or> m < 10" using month_time_less [of y m 2200 10] f by auto
  define Y M where "Y = (if m > 9 then y + 1 else y)" and "M = (if m > 9 then m - 8 else m + 3)"
  define Q where "Q = (M - 1) div 3 * 3 + 1"
  have YM: "1 \<le> Y" "Y \<le> 2200" "1 \<le> M" "M \<le> 12" using lt f by (auto simp: Y_def M_def)
  have Q: "1 \<le> Q" "Q \<le> 10" "m \<le> 9 \<Longrightarrow> m + 1 \<le> Q" using YM unfolding Q_def M_def by presburger+
  have "AddOneQuarter t = month_time Y M" using AddOneMonth_value(3) [OF f(1-7)] by (simp add: Y_def M_def)
  then have b: "BONQ t = month_time Y Q" using YM by (simp add: BONQ_def bonx_month_time beginning_of_month_time Q_def)
  have "1 \<le> y' \<and> y' < 3000 \<and> 1 \<le> m' \<and> m' \<le> 12 \<and> \<not> (Y < y' \<or> Y = y' \<and> Q < m')"
    using f(3-7) Q by (auto simp: next_month_def Y_def split: if_splits)
  then have "month_time y' m' \<le> month_time Y Q" using month_time_less [of Y Q y' m'] YM Q by (auto simp: not_less [symmetric])
  moreover have "month_time Y Q \<le> month_time 2200 10"
    using month_time_less [of 2200 10 Y Q] YM Q by (auto simp: not_less [symmetric])
  ultimately show "\<exists>u. (Some \<circ> BONQ) t = Some u \<and> t < u \<and> u \<le> month_time 2200 10" using b f(9) by simp
next
  fix t
  assume t: "month_time 2200 10 \<le> t" "t < latestDate"
  then have "in_range t" using month_time_range [of 2200 10] by (simp add: in_range_def)
  then obtain y m y' m' where f: "GetYear t = y" "GetMonth t = m" "1 \<le> y" "y \<le> 2200" "1 \<le> m" "m \<le> 12" "next_month y m = (y', m')"
    "month_time y m \<le> t" "t < month_time y' m'" by (rule in_month_cases)
  have "month_time 2200 10 < month_time y' m'" using f(9) t(1) by simp
  then have "y = 2200" "9 < m" using month_time_less [of 2200 10 y' m'] f(3-7) by (auto simp: next_month_def split: if_splits)
  then show "(Some \<circ> BONQ) t = Some (month_time 2200 10)"
    using AddOneMonth_value(3) [OF f(1-7)] f(6) by (simp add: BONQ_def bonx_month_time latest_beginnings)
qed (use month_time_range [of 2200 10] in simp_all)

interpretation years: periods "Some \<circ> BONY" first_time "month_time 2200 1"
proof
  fix t
  assume t: "first_time \<le> t" "t < month_time 2200 1"
  have "in_range t" using t month_time_range [of 2200 1] by (simp add: in_range_def)
  then obtain y m y' m' where f: "GetYear t = y" "GetMonth t = m" "1 \<le> y" "y \<le> 2200" "1 \<le> m" "m \<le> 12" "next_month y m = (y', m')"
    "month_time y m \<le> t" "t < month_time y' m'" by (rule in_month_cases)
  have "month_time y m < month_time 2200 1" using f(8) t(2) by simp
  then have lt: "y < 2200" using month_time_less [of y m 2200 1] f by auto
  have b: "BONY t = month_time (y + 1) 1"
    using AddOneMonth_value(2) [OF f(1-7)] lt f by (simp add: BONY_def bonx_month_time beginning_of_month_time)
  have "1 \<le> y' \<and> y' < 3000 \<and> 1 \<le> m' \<and> m' \<le> 12 \<and> \<not> (y + 1 < y' \<or> y + 1 = y' \<and> 1 < m')"
    using f(3-7) by (auto simp: next_month_def split: if_splits)
  then have "month_time y' m' \<le> month_time (y + 1) 1"
    using month_time_less [of "y + 1" 1 y' m'] f by (auto simp: not_less [symmetric])
  moreover have "month_time (y + 1) 1 \<le> month_time 2200 1"
    using month_time_less [of 2200 1 "y + 1" 1] f lt by (auto simp: not_less [symmetric])
  ultimately show "\<exists>u. (Some \<circ> BONY) t = Some u \<and> t < u \<and> u \<le> month_time 2200 1" using b f(9) by simp
next
  fix t
  assume t: "month_time 2200 1 \<le> t" "t < latestDate"
  then have "in_range t" using month_time_range [of 2200 1] by (simp add: in_range_def)
  then obtain y m y' m' where f: "GetYear t = y" "GetMonth t = m" "1 \<le> y" "y \<le> 2200" "1 \<le> m" "m \<le> 12" "next_month y m = (y', m')"
    "month_time y m \<le> t" "t < month_time y' m'" by (rule in_month_cases)
  have "month_time 2200 1 < month_time y' m'" using f(9) t(1) by simp
  then have "y = 2200" using month_time_less [of 2200 1 y' m'] f(3-7) by (auto simp: next_month_def split: if_splits)
  then show "(Some \<circ> BONY) t = Some (month_time 2200 1)"
    using AddOneMonth_value(2) [OF f(1-7)] by (simp add: BONY_def bonx_month_time latest_beginnings)
qed (use month_time_range [of 2200 1] in simp_all)

section \<open>The lists\<close>

text \<open>The instances write \<^verbatim>\<open>BONP\<close> as the function that the code passes.\<close>

lemma days_iter:
  assumes "first_time \<le> first_time + k * 86400" "\<forall>i<n. days.iter i (first_time + k * 86400) < first_time + 803532 * 86400"
  shows "j \<le> n \<Longrightarrow> days.iter j (first_time + k * 86400) = first_time + (k + int j) * 86400"
proof (induction j)
  case (Suc j)
  let ?u = "first_time + (k + int j) * 86400"
  have u: "days.iter j (first_time + k * 86400) = ?u" by (rule Suc.IH) (use Suc.prems in simp)
  have lt: "?u < first_time + 803532 * 86400" using assms(2) Suc.prems u by (metis Suc_le_lessD)
  have "0 \<le> k" using assms(1) by simp
  then have "in_range ?u" using lt by (simp add: in_range_def latest_value)
  from BOND_value [OF this lt] have e: "BOND ?u = first_time + (k + int (Suc j)) * 86400"
    using day_of_value [of 0 "k + int j"] by (simp add: algebra_simps)
  have "days.iter (Suc j) (first_time + k * 86400) = the ((Some \<circ> BOND) (days.iter j (first_time + k * 86400)))"
    by (rule days.iter_step)
  also have "\<dots> = the ((Some \<circ> BOND) ?u)" by (rule arg_cong [OF u])
  also have "\<dots> = first_time + (k + int (Suc j)) * 86400" unfolding o_apply option.sel by (rule e)
  finally show ?case .
qed simp

lemma expandDaily_value:
  assumes "first_time \<le> start" "day_of start \<le> day_of stop" "day_of stop \<le> 803530"
  shows "expandDaily [] start stop True = Some (map (\<lambda>i. BOD start + int i * 86400) [0..<nat (day_of stop - day_of start) + 2])"
proof -
  have d0: "0 \<le> day_of start" using assms(1) by (simp add: day_of_def pos_imp_zdiv_nonneg_iff)
  have r: "in_range start" "in_range stop" "start < first_time + 803532 * 86400" "stop < first_time + 803532 * 86400"
    using assms d0 day_of_bounds [of start] day_of_bounds [of stop] by (auto simp: in_range_def latest_value)
  have b: "(Some \<circ> BOND) stop = Some (first_time + (day_of stop + 1) * 86400)" using BOND_value [OF r(2,4)] by simp
  have s: "(Some \<circ> BOD) start = Some (first_time + day_of start * 86400)" using BOD_day_of [OF r(1)] by simp
  have lt: "first_time + (day_of stop + 1) * 86400 < first_time + 803532 * 86400" using assms(3) by simp
  obtain n t where n: "(Some \<circ> BOND) start = Some t"
      "expandTimeArray [] start stop True (Some \<circ> BOD) (Some \<circ> BOND) = Some ([] @ (first_time + day_of start * 86400) # map (\<lambda>i. days.iter i t) [0..<n])"
      "\<forall>i<n. days.iter i t \<le> first_time + (day_of stop + 1) * 86400" "first_time + (day_of stop + 1) * 86400 < days.iter n t"
    by (rule days.expand_array_ends [where BOP = "Some \<circ> BOD" and startIn = start and stop = stop and ta = "[]", OF s b lt assms(1) r(3)])
  let ?k = "day_of start + 1"
  have t: "t = first_time + ?k * 86400" using n(1) BOND_value [OF r(1,3)] by simp
  have it: "days.iter j t = first_time + (?k + int j) * 86400" if "j \<le> n" for j
  proof -
    have "\<forall>i<n. days.iter i (first_time + ?k * 86400) < first_time + 803532 * 86400" using n(3) lt t by fastforce
    from days_iter [OF _ this that] show ?thesis using t d0 by simp
  qed
  have "day_of stop + 1 < ?k + int n" using n(4) it [of n] by simp
  moreover have "?k + int (n - 1) \<le> day_of stop + 1" if "n \<noteq> 0" using n(3) it [of "n - 1"] that by (cases n) auto
  ultimately have "n = nat (day_of stop - day_of start) + 1" using assms(2) by (cases "n = 0") auto
  then have len: "Suc n = nat (day_of stop - day_of start) + 2" by simp
  have "(first_time + day_of start * 86400) # map (\<lambda>i. days.iter i t) [0..<n] =
      map (\<lambda>i. first_time + day_of start * 86400 + int i * 86400) [0..<Suc n]"
  proof -
    have "map (\<lambda>i. days.iter i t) [0..<n] = map (\<lambda>i. first_time + day_of start * 86400 + int (Suc i) * 86400) [0..<n]"
      by (rule map_cong) (auto simp: it algebra_simps)
    then show ?thesis by (simp add: upt_conv_Cons map_Suc_upt [symmetric] comp_def del: upt_Suc)
  qed
  then show ?thesis using n(2) BOD_day_of [OF r(1)] len by (simp only: expandDaily_def append_Nil)
qed

text \<open>The quarter after a December.\<close>

lemma BONQ_december:
  assumes "valid_time y 12 d h mi s" "y < 2200"
  shows "BONQ (time_q_of y 12 d h mi s) = month_time (y + 1) 4"
proof -
  note f = time_fields [OF assms(1)]
  have y: "1 \<le> y" using assms(1) by (simp add: valid_time_def valid_date_def)
  have "AddOneQuarter (time_q_of y 12 d h mi s) = month_time (y + 1) 4"
    using AddOneMonth_value(3) [OF f(1,2), of "y + 1" 1] y assms(2) by (simp add: next_month_def)
  then show ?thesis using y assms(2) by (simp add: BONQ_def bonx_month_time beginning_of_month_time)
qed

end
