(* ===== verification/DateText_Correct.thy ===== *)
theory DateText_Correct
  imports DateText Periods_Correct
begin

text \<open>
  Unix times and texts: \<open>gmtime\<close> counts the days as \<open>day_number\<close> does, so that
  \<^verbatim>\<open>ts_2_Date\<close> is a shift; what \<^verbatim>\<open>Format\<close> prints in the export format is read back by
  \<^verbatim>\<open>str_2_Date\<close>.
\<close>

section \<open>Digits\<close>

lemma padded_two:
  assumes "0 \<le> x" "x < 100"
  shows "padLeft (dec_str (nat x)) 2 (CHR ''0'') = [char_of (48 + nat x div 10), char_of (48 + nat x mod 10)]"
proof (cases "x < 10")
  case True
  then have "nat x < 10" using assms by simp
  then have "dec_str (nat x) = [char_of (48 + nat x)]" "nat x div 10 = 0" "nat x mod 10 = nat x"
    by (simp_all add: dec_str.simps [of "nat x"])
  moreover have "CHR ''0'' = char_of (48 :: nat)" by (simp add: char_of_def bit_0)
  ultimately show ?thesis by (simp add: padLeft_def)
next
  case False
  have "nat x < 100" using assms by simp
  then have d: "nat x div 10 < 10" by (simp add: div_less_iff_less_mult)
  have "\<not> nat x < 10" using False by simp
  then have "dec_str (nat x) = dec_str (nat x div 10) @ [char_of (48 + nat x mod 10)]" by (simp add: dec_str.simps [of "nat x"])
  then show ?thesis using dec_str.simps [of "nat x div 10"] d by (simp add: padLeft_def)
qed

lemma padded_two_value:
  assumes "0 \<le> x" "x < 100"
  shows "list_all isdigit (padLeft (dec_str (nat x)) 2 (CHR ''0''))" "dec_value (padLeft (dec_str (nat x)) 2 (CHR ''0'')) = nat x"
proof -
  have "nat x < 100" using assms by simp
  then have d: "nat x div 10 < 10" by (simp add: div_less_iff_less_mult)
  have c: "isdigit (char_of (48 + k))" "of_char (char_of (48 + k)) - 48 = k" if "k < 10" for k :: nat
    using that by (simp_all add: isdigit_range)
  show "list_all isdigit (padLeft (dec_str (nat x)) 2 (CHR ''0''))" using c(1) [OF d] c(1) [of "nat x mod 10"] by (simp add: padded_two [OF assms])
  show "dec_value (padLeft (dec_str (nat x)) 2 (CHR ''0'')) = nat x"
    using c(2) [OF d] c(2) [of "nat x mod 10"] by (simp add: padded_two [OF assms] dec_value_def)
qed

lemma str_2_Int32u_digits:
  assumes "list_all isdigit ds" "length ds \<le> 19" "dec_value ds < 4294967296"
  shows "str_2_Int32u ds = int (dec_value ds)"
proof -
  have "uint (word_of_nat (dec_value ds) :: 64 word) = int (dec_value ds) mod 2 ^ 64" by (simp add: unsigned_of_nat take_bit_eq_mod zmod_int)
  then show ?thesis using assms by (simp add: str_2_Int32u_def str_2_Uint_digits u32_def)
qed

lemma str_2_Int32u_two: "0 \<le> x \<Longrightarrow> x < 100 \<Longrightarrow> str_2_Int32u (padLeft (dec_str (nat x)) 2 (CHR ''0'')) = x"
proof -
  assume x: "0 \<le> x" "x < 100"
  have "nat x < 100" using x by simp
  then show ?thesis using str_2_Int32u_digits [OF padded_two_value(1) [OF x]] padded_two [OF x] padded_two_value(2) [OF x] x by simp
qed

lemma str_2_Int32u_dec: "0 \<le> x \<Longrightarrow> x < 4294967296 \<Longrightarrow> str_2_Int32u (dec_str (nat x)) = x"
proof -
  assume x: "0 \<le> x" "x < 4294967296"
  then have "length (dec_str (nat x)) \<le> 9 + 1" using dec_str_length [of "nat x" 9] by simp
  then show ?thesis using str_2_Int32u_digits [of "dec_str (nat x)"] dec_str_digits [of "nat x"] dec_value_dec_str [of "nat x"] x by simp
qed

section \<open>The C library's calendar\<close>

lemma gm_year_effect: "gm_year y n = (Y, k) \<Longrightarrow> days_before Y + k = days_before y + n \<and> 0 \<le> k \<and> k < DaysInYear Y"
proof (induction y n rule: gm_year.induct)
  case (1 y n)
  consider "n < 0" | "0 \<le> n" "n \<ge> DaysInYear y" | "0 \<le> n" "n < DaysInYear y" by linarith
  then show ?case
  proof cases
    case 1
    then show ?thesis using "1.IH"(1) "1.prems" days_before_next [of "y - 1"] by (simp add: gm_year.simps [of y])
  next
    case 2
    then show ?thesis using "1.IH"(2) "1.prems" days_before_next [of y] by (simp add: gm_year.simps [of y])
  next
    case 3
    then show ?thesis using "1.prems" by (simp add: gm_year.simps [of y])
  qed
qed

lemma gm_month_effect:
  assumes "1 \<le> m" "m \<le> 12" "0 \<le> n" "month_days y (nat (m - 1)) + n < DaysInYear y" "gm_month y m n = (m', k)"
  shows "1 \<le> m'" "m' \<le> 12" "month_days y (nat (m' - 1)) + k = month_days y (nat (m - 1)) + n" "0 \<le> k" "k < DaysInMonth y m'"
proof -
  have "1 \<le> m' \<and> m' \<le> 12 \<and> month_days y (nat (m' - 1)) + k = month_days y (nat (m - 1)) + n \<and> 0 \<le> k \<and> k < DaysInMonth y m'"
    using assms
  proof (induction y m n rule: gm_month.induct)
    case (1 y m n)
    have s: "month_days y (nat m) = month_days y (nat (m - 1)) + DaysInMonth y m" using "1.prems"(1) by (rule month_days_step)
    show ?case
    proof (cases "m < 12 \<and> n \<ge> DaysInMonth y m")
      case True
      then show ?thesis using "1.IH" [OF True] "1.prems" s by (simp add: gm_month.simps [of y m])
    next
      case False
      then have e: "m' = m" "k = n" using "1.prems"(5) by (auto simp: gm_month.simps [of y m])
      have "n < DaysInMonth y m"
      proof (cases "m = 12")
        case True
        then have "month_days y 11 + DaysInMonth y 12 = DaysInYear y" using s month_days_year [of y] by simp
        then show ?thesis using "1.prems"(4) True by simp
      qed (use False "1.prems" in auto)
      then show ?thesis using e "1.prems" by simp
    qed
  qed
  then show "1 \<le> m'" "m' \<le> 12" "month_days y (nat (m' - 1)) + k = month_days y (nat (m - 1)) + n" "0 \<le> k" "k < DaysInMonth y m'" by auto
qed

text \<open>The first day of 1970 in the count of the days.\<close>

abbreviation day_1970 :: int where "day_1970 \<equiv> 719162"

lemma time_1970: "time_q_of 1970 1 1 0 0 0 = first_time + day_1970 * 86400"
  using time_q_of_value [of 1970 1 1 0 0 0] by (simp add: valid_time_def valid_date_def day_numbers)

lemma gmtime_effect:
  assumes "- day_1970 \<le> ts div 86400" "ts div 86400 + day_1970 \<le> last_day"
  obtains y m d h mi s where "gmtime ts = Some \<lparr>tm_year = y - 1900, tm_mon = m - 1, tm_mday = d, tm_wday = (ts div 86400 + 4) mod 7,
      tm_hour = h, tm_min = mi, tm_sec = s\<rparr>" "valid_time y m d h mi s" "time_q_of y m d h mi s = first_time + day_1970 * 86400 + ts" "y < 5883519"
proof -
  define n r where "n = ts div 86400" and "r = ts mod 86400"
  have n: "ts = n * 86400 + r" "0 \<le> r" "r < 86400" by (simp_all add: n_def r_def)
  obtain y k where y: "gm_year 1970 n = (y, k)" by fastforce
  have yk: "days_before y + k = day_1970 + n" "0 \<le> k" "k < DaysInYear y"
    using gm_year_effect [OF y] by (auto simp: days_before_def)
  obtain m d where m: "gm_month y 1 k = (m, d)" by fastforce
  note md = gm_month_effect [OF _ _ yk(2) _ m, simplified, OF yk(3)]
  have "1 \<le> y"
  proof (rule ccontr)
    assume "\<not> 1 \<le> y"
    then have "days_before y + DaysInYear y \<le> days_before 1" using days_before_mono [of y 1] by simp
    then show False using yk assms(1) by (simp add: n_def days_before_def)
  qed
  then have vd: "valid_date y m (d + 1)" using md by (simp add: valid_date_def)
  have dn: "day_number y m (d + 1) = day_1970 + n" using md(3) yk(1) by (simp add: day_number_def)
  then have dl: "day_number y m (d + 1) \<le> last_day" using assms(2) by (simp add: n_def)
  define h mi s where "h = r div 3600" and "mi = r mod 3600 div 60" and "s = r mod 60"
  have r3: "r = h * 3600 + mi * 60 + s" "0 \<le> h" "h < 24" "0 \<le> mi" "mi < 60" "0 \<le> s" "s < 60"
  proof -
    have "r mod 3600 mod 60 = r mod 60" by (rule mod_mod_cancel) simp
    then have "r mod 3600 = mi * 60 + s" using div_mult_mod_eq [of "r mod 3600" 60] by (simp add: mi_def s_def)
    then show "r = h * 3600 + mi * 60 + s" using div_mult_mod_eq [of r 3600] by (simp add: h_def)
    show "0 \<le> h" "h < 24" "0 \<le> mi" "mi < 60" "0 \<le> s" "s < 60"
      using n by (auto simp: h_def mi_def s_def pos_imp_zdiv_nonneg_iff)
  qed
  have v: "valid_time y m (d + 1) h mi s" using vd dl r3 by (simp add: valid_time_def)
  moreover have "time_q_of y m (d + 1) h mi s = first_time + day_1970 * 86400 + ts"
    using time_q_of_value [OF v] dn n(1) r3(1) by simp
  moreover note yb = valid_year_bound [OF vd dl]
  moreover have "gmtime ts = Some \<lparr>tm_year = y - 1900, tm_mon = m - 1, tm_mday = d + 1, tm_wday = (ts div 86400 + 4) mod 7,
      tm_hour = h, tm_min = mi, tm_sec = s\<rparr>"
    using y m yb by (simp add: gmtime_def n_def r_def h_def mi_def s_def Let_def)
  ultimately show thesis using that by blast
qed

lemma digits_no:
  assumes "list_all isdigit ds" "\<not> isdigit c"
  shows "c \<notin> set ds"
  using assms by (auto simp: list_all_iff)

lemma separators: "\<not> isdigit (CHR ''-'')" "\<not> isdigit (CHR '' '')" "\<not> isdigit (CHR '':'')" "\<not> isdigit (CHR ''.'')" "\<not> isdigit (CHR ''T'')"
  by (simp_all add: isdigit_def)

lemma ts_2_Date_value:
  assumes "- day_1970 \<le> ts div 86400" "ts div 86400 + day_1970 \<le> last_day"
  shows "ts_2_Date ts = Inr (first_time + day_1970 * 86400 + ts)"
proof -
  obtain y m d h mi s where g: "gmtime ts = Some \<lparr>tm_year = y - 1900, tm_mon = m - 1, tm_mday = d, tm_wday = (ts div 86400 + 4) mod 7,
      tm_hour = h, tm_min = mi, tm_sec = s\<rparr>" "valid_time y m d h mi s" "time_q_of y m d h mi s = first_time + day_1970 * 86400 + ts" "y < 5883519"
    by (rule gmtime_effect [OF assms])
  have r: "1 \<le> y" "1 \<le> m" "m \<le> 12" "1 \<le> d" "d \<le> DaysInMonth y m" "0 \<le> h" "h < 24" "0 \<le> mi" "mi < 60" "0 \<le> s" "s < 60"
    using g(2) by (auto simp: valid_time_def valid_date_def)
  have d: "d \<le> 31" using r DaysInMonth_range [of m y] by simp
  let ?two = two_digits_of
  have dg: "list_all isdigit (?two x)" "str_2_Int32u (?two x) = x" if "0 \<le> x" "x < 100" for x
    using padded_two_value(1) [OF that] str_2_Int32u_two [OF that] by (simp_all add: two_digits_of_def)
  have ydg: "list_all isdigit (dec_str (nat y))" using dec_str_digits by blast
  have str: "strftime_json \<lparr>tm_year = y - 1900, tm_mon = m - 1, tm_mday = d, tm_wday = (ts div 86400 + 4) mod 7, tm_hour = h, tm_min = mi, tm_sec = s\<rparr> =
      dec_str (nat y) @ CHR ''-'' # ?two m @ CHR ''-'' # ?two d @ CHR '' '' # ?two h @ CHR '':'' # ?two mi @ CHR '':'' # ?two s @ CHR '' '' # ''UTC''"
    using r(1) by (simp add: strftime_json_def)
  have tok: "nextTokenClear (ds @ c # rest) c True = (ds, rest)" if "list_all isdigit ds" "\<not> isdigit c" "rest \<noteq> []" for ds c rest
    by (rule nextTokenClear_at [OF digits_no [OF that(1,2)] that(3)])
  note tok2 = tok [OF dg(1)]
  have "ts_2_Date ts = Inr (time_q_of (str_2_Int32u (dec_str (nat y))) (str_2_Int32u (?two m)) (str_2_Int32u (?two d))
      (str_2_Int32u (?two h)) (str_2_Int32u (?two mi)) (str_2_Int32u (?two s)))"
    unfolding ts_2_Date_def g(1) option.case str Let_def
    using r d by (simp add: tok [OF ydg] tok2 separators)
  also have "\<dots> = Inr (time_q_of y m d h mi s)" using r d g(4) by (simp add: dg(2) str_2_Int32u_dec)
  finally show ?thesis using g(3) by simp
qed

lemma date_2_Ts_value:
  assumes "first_time \<le> t" "t < first_time + (last_day + 1) * 86400"
  shows "date_2_Ts t = max 0 (t - (first_time + day_1970 * 86400))"
  using assms by (simp add: date_2_Ts_def time_1970 width first_time_def SECS_PER_DAY_def max_def)

section \<open>Removing characters\<close>

lemma replaceAll_loop_char: "replaceAll_loop s [c] [] = Some (filter (\<lambda>x. x \<noteq> c) s)"
proof (induction "length s" arbitrary: s rule: less_induct)
  case less
  show ?case
  proof (cases "c \<in> set s")
    case False
    then have "filter (\<lambda>x. x \<noteq> c) s = s" by (metis (mono_tags, lifting) filter_True)
    then show ?thesis using False by (simp add: replaceAll_loop.simps [of s] find_sub_char)
  next
    case True
    then obtain a b where s: "s = a @ c # b" "c \<notin> set a" by (meson split_list_first)
    have f: "find_sub [c] s = Some (length a)" using s find_sub_unique [of "[c]" a b] by (simp add: find_sub_char)
    have "replace_q s [c] [] = a @ b" using f s by (simp add: replace_q_def extract_q_def extract_from_def c_str_def)
    then have "replaceAll_loop s [c] [] = replaceAll_loop (a @ b) [c] []" using f by (simp add: replaceAll_loop.simps [of s])
    also have "\<dots> = Some (filter (\<lambda>x. x \<noteq> c) (a @ b))" using s by (intro less) simp
    finally show ?thesis using s by simp
  qed
qed

lemma removeAll_each_filter: "removeAll_each s cs = Inr (filter (\<lambda>c. c \<notin> set cs) s)"
proof (induction cs arbitrary: s)
  case (Cons c cs)
  have "replaceAll s [c] [] = replaceAll_loop s [c] []" by (simp add: replaceAll.simps [of s])
  then show ?case using Cons by (simp add: replaceAll_loop_char)
qed simp

section \<open>The export format\<close>

lemma fmt_two: "0 \<le> x \<Longrightarrow> x < 100 \<Longrightarrow> fmt_02d x = two_digits_of x"
  by (simp add: fmt_02d_def two_digits_of_def width)

lemma fmt_year: "0 \<le> y \<Longrightarrow> y < 2147483648 \<Longrightarrow> fmt_d y = dec_str (nat y)"
  by (simp add: fmt_d_def width)

definition export_text :: "int \<Rightarrow> int \<Rightarrow> int \<Rightarrow> int \<Rightarrow> int \<Rightarrow> int \<Rightarrow> string" where
  "export_text y m d h mi s = dec_str (nat y) @ CHR ''-'' # two_digits_of m @ CHR ''-'' # two_digits_of d @ CHR ''T'' #
     two_digits_of h @ CHR '':'' # two_digits_of mi @ CHR '':'' # two_digits_of s"

lemma time_is_valid: "valid_time y m d h mi s \<Longrightarrow> time_IsValid (time_q_of y m d h mi s)"
  using time_q_of_value [of y m d h mi s] day_number_nonneg [of y m d]
  by (auto simp: time_IsValid_def valid_time_def first_time_def SECS_PER_DAY_def)

lemma valid_time_fields:
  assumes "valid_time y m d h mi s"
  shows "1 \<le> y" "y < 2147483648" "0 \<le> m" "m < 100" "0 \<le> d" "d < 100" "0 \<le> h" "h < 100" "0 \<le> mi" "mi < 100" "0 \<le> s" "s < 100"
proof -
  have v: "valid_date y m d" "day_number y m d \<le> last_day" using assms by (auto simp: valid_time_def)
  have "d \<le> 31" using v(1) DaysInMonth_range [of m y] by (simp add: valid_date_def)
  then show "1 \<le> y" "y < 2147483648" "0 \<le> m" "m < 100" "0 \<le> d" "d < 100" "0 \<le> h" "h < 100" "0 \<le> mi" "mi < 100" "0 \<le> s" "s < 100"
    using valid_year_bound [OF v] assms by (auto simp: valid_time_def valid_date_def)
qed

lemma Format_export:
  assumes "valid_time y m d h mi s"
  shows "Format (time_q_of y m d h mi s) FMT_EXPORT = Inr (export_text y m d h mi s)"
    "Format (time_q_of y m d h mi s) FMT_JSON =
       Inr (dec_str (nat y) @ CHR ''-'' # two_digits_of m @ CHR ''-'' # two_digits_of d @ CHR '' '' #
         two_digits_of h @ CHR '':'' # two_digits_of mi @ CHR '':'' # two_digits_of s @ '' UTC'')"
  using valid_time_fields [OF assms]
  by (simp_all add: Format_def time_is_valid [OF assms] FMT_EXPORT_def FMT_JSON_def export_text_def format_field_def
      time_fields [OF assms] fmt_two fmt_year)

lemma dec_str_four: "1000 \<le> y \<Longrightarrow> y \<le> 9999 \<Longrightarrow> length (dec_str (nat y)) = 4"
proof -
  assume "1000 \<le> y" "y \<le> 9999"
  then have "nat y < 10000" "\<not> nat y < 1000" by simp_all
  then show ?thesis using dec_str_length [of "nat y" 3] dec_str_length [of "nat y" 2] by simp
qed

lemma filter_outside: "set s \<subseteq> A \<Longrightarrow> filter (\<lambda>c. c \<notin> A) s = []"
  by (auto simp: filter_empty_conv)

lemma str_2_Date_text:
  assumes "str \<noteq> []" "CHR ''.'' \<notin> set str" "CHR ''U'' \<notin> set str" "set str \<subseteq> set ''0123456789T:-''"
    "filter (\<lambda>c. c \<notin> set ''T:-'') str = a @ b @ c @ d @ e @ f"
    "length a = 4" "length b = 2" "length c = 2" "length d = 2" "length e = 2" "length f = 2"
    "field_or_NP a = y" "field_or_NP b = m" "field_or_NP c = dd" "field_or_NP d = h" "field_or_NP e = mi" "field_or_NP f = s"
    "y < 10000" "1 \<le> m" "m \<le> 12" "1 \<le> dd" "dd \<le> 31" "h < 24" "mi < 60" "s < 60"
  shows "str_2_Date str = Inr (time_q_of y m dd h mi s)"
proof -
  let ?t = "a @ b @ c @ d @ e @ f"
  have tok: "fst (nextTokenClear str (CHR ''.'') True) = str" using assms(1) find_sub_char [of "CHR ''.''" str] assms(2) by (simp add: nextTokenClear_def)
  have sub: "substitute str ''UTC'' [] = Some str"
    using assms(3) by (intro substitute_absent) (auto intro: find_sub_absent [of "CHR ''U''"])
  have chk: "filter (\<lambda>c. c \<notin> set ''0123456789T:-'') str = []" by (rule filter_outside [OF assms(4)])
  have len: "length ?t = 14" using assms(6-11) by simp
  have ex: "extract_q ?t 0 4 = a" "extract_q ?t 4 2 = b" "extract_q ?t 6 2 = c" "extract_q ?t 8 2 = d" "extract_q ?t 10 2 = e" "extract_q ?t 12 2 = f"
    using assms(6-11) by (simp_all add: extract_q_def)
  have np: "y \<noteq> NP" "m \<noteq> NP" "dd \<noteq> NP" "h \<noteq> NP" "mi \<noteq> NP" "s \<noteq> NP" using assms(18-25) by (simp_all add: NP_def)
  have cd: "complete_date ?t = ?t" unfolding complete_date_def len by simp
  have "str_2_Date str = Inr (date_of_fields y m dd h mi s)"
    unfolding str_2_Date_def Let_def tok sub removeAll_each_filter returned.simps bindR.simps chk assms(5) cd ex assms(12-17)
    using assms(1) by simp
  then show ?thesis using assms(18-25) np by (simp add: date_of_fields_def)
qed

lemma field_digits:
  assumes "list_all isdigit ds" "ds \<noteq> []"
  shows "field_or_NP ds = str_2_Int32u ds"
proof -
  have d: "isdigit c" if "c \<in> set ds" for c using assms(1) that by (simp add: list_all_iff)
  have "c_str ds = ds" using d [of "CHR 0x00"] by (intro c_str_id) (auto simp: isdigit_def)
  moreover have "CHR ''x'' \<notin> set ds" using d [of "CHR ''x''"] by (auto simp: isdigit_def)
  then have "take 2 ds \<noteq> ''0x''" using in_set_takeD [of "CHR ''x''" 2 ds] by auto
  ultimately have "\<not> startsWith ds ''0x''" by (simp add: startsWith_def extract_q_def numeral_2_eq_2)
  then show ?thesis using d [of "hd ds"] assms(2) by (cases ds) (simp_all add: field_or_NP_def isUnsigned_def)
qed

lemma digit_chars: "isdigit c \<Longrightarrow> c \<in> set ''0123456789T:-'' \<and> c \<notin> set ''T:-'' \<and> c \<noteq> CHR ''.'' \<and> c \<noteq> CHR ''U''"
proof -
  assume "isdigit c"
  then have "(of_char c :: nat) \<in> set [48..<58]" unfolding set_upt by (simp add: isdigit_range)
  then have "char_of (of_char c :: nat) \<in> set (map char_of [48::nat..<58])" by (metis list.set_map imageI)
  then have "c \<in> set (map char_of [48::nat..<58])" by simp
  then show ?thesis by (auto simp: upt_rec char_of_def bit_0 bit_simps)
qed

lemma export_text_filter:
  assumes "valid_time y m d h mi s"
  shows "filter (\<lambda>c. c \<notin> set ''T:-'') (export_text y m d h mi s) =
      dec_str (nat y) @ two_digits_of m @ two_digits_of d @ two_digits_of h @ two_digits_of mi @ two_digits_of s"
    "set (export_text y m d h mi s) \<subseteq> set ''0123456789T:-''" "CHR ''.'' \<notin> set (export_text y m d h mi s)"
    "CHR ''U'' \<notin> set (export_text y m d h mi s)"
proof -
  have dg: "list_all isdigit (two_digits_of x)" if "0 \<le> x" "x < 100" for x
    using padded_two_value(1) [OF that] by (simp add: two_digits_of_def)
  have yd: "list_all isdigit (dec_str (nat y))" using dec_str_digits by blast
  note r = valid_time_fields [OF assms]
  have keep: "filter (\<lambda>c. c \<notin> set ''T:-'') ds = ds" if "list_all isdigit ds" for ds
    using that digit_chars by (intro filter_True) (auto simp: list_all_iff)
  have chars: "set ds \<subseteq> set ''0123456789T:-''" "CHR ''.'' \<notin> set ds" "CHR ''U'' \<notin> set ds" if "list_all isdigit ds" for ds
    using that digit_chars unfolding list_all_iff by blast+
  note ds = yd dg [OF r(3,4)] dg [OF r(5,6)] dg [OF r(7,8)] dg [OF r(9,10)] dg [OF r(11,12)]
  show "filter (\<lambda>c. c \<notin> set ''T:-'') (export_text y m d h mi s) =
      dec_str (nat y) @ two_digits_of m @ two_digits_of d @ two_digits_of h @ two_digits_of mi @ two_digits_of s"
    unfolding export_text_def filter_append filter.simps ds [THEN keep] by simp
  have sub: "set (dec_str (nat y)) \<subseteq> A" "set (two_digits_of m) \<subseteq> A" "set (two_digits_of d) \<subseteq> A" "set (two_digits_of h) \<subseteq> A"
      "set (two_digits_of mi) \<subseteq> A" "set (two_digits_of s) \<subseteq> A" "CHR ''-'' \<in> A" "CHR ''T'' \<in> A" "CHR '':'' \<in> A"
    if "A = set ''0123456789T:-''" for A
    unfolding that by (rule ds [THEN chars(1)] | simp)+
  have "set (export_text y m d h mi s) \<subseteq> A" if "A = set ''0123456789T:-''" for A
    using sub [OF that] by (simp add: export_text_def)
  then show "set (export_text y m d h mi s) \<subseteq> set ''0123456789T:-''" by blast
  show "CHR ''.'' \<notin> set (export_text y m d h mi s)" "CHR ''U'' \<notin> set (export_text y m d h mi s)"
    using ds [THEN chars(2)] ds [THEN chars(3)] by (simp_all add: export_text_def)
qed

lemma str_2_Date_export:
  assumes "valid_time y m d h mi s" "1000 \<le> y" "y \<le> 9999"
  shows "str_2_Date (export_text y m d h mi s) = Inr (time_q_of y m d h mi s)"
proof -
  note r = valid_time_fields [OF assms(1)]
  have two: "length (two_digits_of x) = 2" "field_or_NP (two_digits_of x) = x" if "0 \<le> x" "x < 100" for x
  proof -
    show l: "length (two_digits_of x) = 2" using padded_two [OF that] by (simp add: two_digits_of_def)
    have "two_digits_of x \<noteq> []" using l by auto
    then show "field_or_NP (two_digits_of x) = x"
      using field_digits [of "two_digits_of x"] padded_two_value(1) [OF that] str_2_Int32u_two [OF that] by (simp add: two_digits_of_def)
  qed
  have yr: "field_or_NP (dec_str (nat y)) = y" using field_digits dec_str_digits [of "nat y"] str_2_Int32u_dec [of y] assms(2,3) by simp
  have v: "1 \<le> m" "m \<le> 12" "1 \<le> d" "d \<le> 31" "h < 24" "mi < 60" "s < 60"
    using assms(1) DaysInMonth_range [of m y] by (auto simp: valid_time_def valid_date_def)
  have ne: "export_text y m d h mi s \<noteq> []" by (simp add: export_text_def)
  note e = export_text_filter [OF assms(1)]
  show ?thesis
    by (rule str_2_Date_text [OF ne e(3,4,2,1) dec_str_four [OF assms(2,3)] two(1) [OF r(3,4)] two(1) [OF r(5,6)] two(1) [OF r(7,8)]
        two(1) [OF r(9,10)] two(1) [OF r(11,12)] yr two(2) [OF r(3,4)] two(2) [OF r(5,6)] two(2) [OF r(7,8)] two(2) [OF r(9,10)] two(2) [OF r(11,12)] _ v])
      (use assms(3) in simp)
qed

text \<open>A text with a blank is rejected, and so is what the program prints by default.\<close>

lemma str_2_Date_blank:
  assumes "str \<noteq> []" "CHR ''.'' \<notin> set str" "CHR '' '' \<in> set s" "substitute str ''UTC'' [] = Some s"
  shows "str_2_Date str = Inr earliestDate"
proof -
  have tok: "fst (nextTokenClear str (CHR ''.'') True) = str"
    using assms(1) find_sub_char [of "CHR ''.''" str] assms(2) by (simp add: nextTokenClear_def)
  have "CHR '' '' \<in> set (filter (\<lambda>c. c \<notin> set ''0123456789T:-'') s)" using assms(3) by simp
  then have "filter (\<lambda>c. c \<notin> set ''0123456789T:-'') s \<noteq> []" by (metis empty_iff list.set(1))
  then show ?thesis
    unfolding str_2_Date_def Let_def tok assms(4) removeAll_each_filter returned.simps bindR.simps using assms(1) by simp
qed

lemma json_not_read:
  assumes "valid_time y m d h mi s"
  obtains json where "Format (time_q_of y m d h mi s) FMT_JSON = Inr json" "str_2_Date json = Inr earliestDate"
proof -
  let ?a = "dec_str (nat y) @ CHR ''-'' # two_digits_of m @ CHR ''-'' # two_digits_of d @ CHR '' '' #
         two_digits_of h @ CHR '':'' # two_digits_of mi @ CHR '':'' # two_digits_of s @ '' ''"
  have dg: "list_all isdigit (two_digits_of x)" if "0 \<le> x" "x < 100" for x
    using padded_two_value(1) [OF that] by (simp add: two_digits_of_def)
  note r = valid_time_fields [OF assms]
  have yd: "list_all isdigit (dec_str (nat y))" using dec_str_digits by blast
  note ds = yd dg [OF r(3,4)] dg [OF r(5,6)] dg [OF r(7,8)] dg [OF r(9,10)] dg [OF r(11,12)]
  have no: "CHR ''.'' \<notin> set ds" "CHR ''U'' \<notin> set ds" if "list_all isdigit ds" for ds
    using that digit_chars unfolding list_all_iff by blast+
  have a: "CHR ''.'' \<notin> set ?a" "CHR ''U'' \<notin> set ?a" "CHR '' '' \<in> set ?a" "?a \<noteq> []"
    using ds [THEN no(1)] ds [THEN no(2)] by simp_all
  have none: "find_sub ''UTC'' ?a = None" by (rule find_sub_absent [of "CHR ''U''"]) (use a(2) in auto)
  have f: "find_sub ''UTC'' (?a @ ''UTC'' @ []) = Some (length ?a)" by (rule find_sub_unique [OF none]) simp_all
  have "substitute (?a @ ''UTC'') ''UTC'' [] = Some (?a @ [] @ [])"
    by (rule substitute_once [OF f [simplified append_Nil2]]) (use none in simp_all)
  then have "str_2_Date (?a @ ''UTC'') = Inr earliestDate" using a by (intro str_2_Date_blank) auto
  then show thesis using that [of "?a @ ''UTC''"] Format_export(2) [OF assms] by simp
qed

end
