(* ===== verification/Calendar_Properties.thy ===== *)
theory Calendar_Properties
  imports DateText_Correct
begin

text \<open>
  The properties of dates and times: fields and times determine each other, Unix times and
  texts are read back, steps and lists of periods, and the loops that do not end.
\<close>

section \<open>Fields\<close>

text \<open>
  C21: Dates are those of the Gregorian calendar. The getters return the fields a time was
  made of, and every second from the beginning of the year 1 on, for \<open>last_day + 1\<close> days
  (up to the year 5879610), is the time of its own fields, which are valid.
\<close>

theorem calendar_roundtrip:
  assumes "valid_time y m d h mi s" "first_time \<le> t" "t < first_time + (last_day + 1) * 86400"
  shows "GetYear (time_q_of y m d h mi s) = y \<and> GetMonth (time_q_of y m d h mi s) = m \<and> GetDay (time_q_of y m d h mi s) = d \<and>
    GetHour (time_q_of y m d h mi s) = h \<and> GetMinute (time_q_of y m d h mi s) = mi \<and> GetSecond (time_q_of y m d h mi s) = s \<and>
    valid_time (GetYear t) (GetMonth t) (GetDay t) (GetHour t) (GetMinute t) (GetSecond t) \<and>
    time_q_of (GetYear t) (GetMonth t) (GetDay t) (GetHour t) (GetMinute t) (GetSecond t) = t"
proof -
  obtain y' m' d' h' mi' s' where v: "valid_time y' m' d' h' mi' s'" "t = time_q_of y' m' d' h' mi' s'"
    by (rule time_q_of_cases [OF assms(2,3)])
  show ?thesis using time_fields [OF assms(1)] time_fields [OF v(1)] v by simp
qed

theorem calendar_roundtrip_witness:
  "GetDay (time_q_of 2020 2 29 12 30 45) = 29 \<and> GetMonth (time_q_of 2020 2 29 12 30 45) = 2 \<and>
   time_q_of (GetYear (first_time + 10)) (GetMonth (first_time + 10)) (GetDay (first_time + 10))
     (GetHour (first_time + 10)) (GetMinute (first_time + 10)) (GetSecond (first_time + 10)) = first_time + 10"
proof -
  have "valid_time 2020 2 29 12 30 45" by (simp add: valid_time_def valid_date_def day_numbers)
  from calendar_roundtrip [OF this, of "first_time + 10"] show ?thesis by simp
qed

section \<open>Unix times and texts\<close>

text \<open>
  C22: \<^verbatim>\<open>ts_2_Date\<close>, which goes through \<^verbatim>\<open>gmtime_r\<close>, \<^verbatim>\<open>strftime\<close> and the reading of
  the digits, shifts a Unix time by the seconds up to 1970; \<^verbatim>\<open>date_2_Ts\<close> shifts it back,
  and answers zero for dates before 1970.
\<close>

theorem unix_times_exact:
  assumes "- (day_1970 * 86400) \<le> ts" "ts < (last_day + 1 - day_1970) * 86400"
  shows "ts_2_Date ts = Inr (time_q_of 1970 1 1 0 0 0 + ts) \<and> date_2_Ts (time_q_of 1970 1 1 0 0 0 + ts) = max 0 ts"
proof -
  have "- day_1970 \<le> ts div 86400" "ts div 86400 + day_1970 \<le> last_day" using assms by auto
  then show ?thesis using ts_2_Date_value [of ts] date_2_Ts_value [of "first_time + day_1970 * 86400 + ts"] assms
    by (simp add: time_1970)
qed

theorem unix_times_exact_witness:
  "ts_2_Date 1618000000 = Inr (time_q_of 1970 1 1 0 0 0 + 1618000000) \<and> date_2_Ts (time_q_of 1970 1 1 0 0 0 + 1618000000) = 1618000000"
  using unix_times_exact [of 1618000000] by simp

text \<open>
  C26: What \<^verbatim>\<open>Format\<close> prints with the export format, \<^verbatim>\<open>str_2_Date\<close> reads back as the same
  time, for years of four digits. What it prints with the default format \<^verbatim>\<open>FMT_JSON\<close> has a
  blank, which \<^verbatim>\<open>str_2_Date\<close> rejects: it is read as the earliest date.
\<close>

theorem date_text_roundtrip:
  assumes "valid_time y m d h mi s" "1000 \<le> y" "y \<le> 9999"
  shows "\<exists>str json. Format (time_q_of y m d h mi s) FMT_EXPORT = Inr str \<and> str_2_Date str = Inr (time_q_of y m d h mi s) \<and>
    Format (time_q_of y m d h mi s) FMT_JSON = Inr json \<and> str_2_Date json = Inr earliestDate"
proof -
  obtain json where j: "Format (time_q_of y m d h mi s) FMT_JSON = Inr json" "str_2_Date json = Inr earliestDate"
    using json_not_read [OF assms(1)] by blast
  then show ?thesis using Format_export(1) [OF assms(1)] str_2_Date_export [OF assms] by blast
qed

theorem date_text_roundtrip_witness:
  "\<exists>str. Format (time_q_of 2020 2 29 12 30 45) FMT_EXPORT = Inr str \<and> str_2_Date str = Inr (time_q_of 2020 2 29 12 30 45)"
proof -
  have "valid_time 2020 2 29 12 30 45" by (simp add: valid_time_def valid_date_def day_numbers)
  from date_text_roundtrip [OF this] show ?thesis by auto
qed

section \<open>Steps\<close>

text \<open>
  C25: A day forth and a day back are 86400 seconds between the two ends of the range of the
  program; the beginning of the day is the last midnight, and the beginning of the week the
  last Sunday (from the third day of 1700 on, before that the loop need not end).
\<close>

theorem day_and_week_steps:
  assumes "earliestDate < t" "t < latestDate" "first_time + 620549 * 86400 \<le> u" "u \<le> latestDate"
  shows "AddOneDay t = t + 86400 \<and> SubtractOneDay t = t - 86400 \<and> BOD t \<le> t \<and> t < BOD t + 86400 \<and>
    (BOD t - first_time) mod 86400 = 0 \<and>
    (\<exists>b. BOW u = Some b \<and> b \<le> u \<and> u < b + 7 * 86400 \<and> BOD b = b \<and> getDayOfWeek (getDatePart b) = 1)"
proof -
  have t: "in_range t" using assms(1,2) by (simp add: in_range_def earliest_value)
  have u: "in_range u" "620549 \<le> day_of u" using assms(3,4) day_of_bounds [of u] by (auto simp: in_range_def)
  have ru: "day_of u \<le> 803532" using day_of_range [OF u(1)] by simp
  let ?b = "first_time + sunday (day_of u) * 86400"
  have b: "day_of ?b = sunday (day_of u)" using day_of_value [of 0 "sunday (day_of u)"] by simp
  have s: "sunday (day_of u) \<le> day_of u" "day_of u \<le> sunday (day_of u) + 6" by (rule sunday_props)+
  have "in_range ?b" using s u(2) ru by (simp add: in_range_def latest_value)
  moreover have "(sunday (day_of u) + 1) mod 7 = 0" unfolding sunday_def by presburger
  ultimately have "BOD ?b = ?b" "getDayOfWeek (getDatePart ?b) = 1"
    using BOD_day_of [of ?b] dow_value [of ?b] b s u(2) ru by simp_all
  then show ?thesis
    using AddOneDay_value [OF t assms(2)] SubtractOneDay_value [OF t assms(1)] BOD_day_of [OF t] BOW_value [OF u] day_of_bounds [of t] day_of_bounds [of u] s
    by simp
qed

theorem day_and_week_steps_witness:
  "AddOneDay (earliestDate + 5) = earliestDate + 5 + 86400 \<and> (\<exists>b. BOW latestDate = Some b)"
  using day_and_week_steps [of "earliestDate + 5" latestDate] by (auto simp: earliest_value latest_value)

section \<open>Lists of periods\<close>

text \<open>
  C23: \<^verbatim>\<open>expandDaily\<close> lists the beginnings of all days from the one of the start up to and
  including the one after the stop, each once, if the stop is before the 30th of December
  of the year 2200.
\<close>

theorem expand_daily_exact:
  assumes "first_time \<le> start" "day_of start \<le> day_of stop" "stop < time_q_of 2200 12 30 0 0 0"
  shows "expandDaily [] start stop True = Some (map (\<lambda>i. BOD start + int i * 86400) [0..<nat (day_of stop - day_of start) + 2])"
proof -
  have "time_q_of 2200 12 30 0 0 0 = first_time + 803531 * 86400"
    using time_q_of_value [of 2200 12 30 0 0 0] by (simp add: valid_time_def valid_date_def day_numbers)
  then have "day_of stop \<le> 803530" using assms(3) day_of_bounds [of stop] by simp
  from expandDaily_value [OF assms(1,2) this] show ?thesis .
qed

theorem expand_daily_exact_witness:
  "expandDaily [] (first_time + 5) (first_time + 86405) True = Some [first_time, first_time + 86400, first_time + 172800]"
proof -
  have "day_of (first_time + 5) = 0" "day_of (first_time + 86405) = 1" by (simp_all add: day_of_def)
  moreover have "BOD (first_time + 5) = first_time"
    using BOD_day_of [of "first_time + 5"] by (simp add: in_range_def latest_value day_of_def)
  moreover have "first_time + 86405 < time_q_of 2200 12 30 0 0 0"
    using time_q_of_value [of 2200 12 30 0 0 0] by (simp add: valid_time_def valid_date_def day_numbers)
  ultimately show ?thesis using expand_daily_exact [of "first_time + 5" "first_time + 86405"] by (simp add: upt_rec)
qed

text \<open>
  C24: The lists of periods do not end when the stop lies in the last period that begins
  before the end of the year 2200: the beginning of the next period is then kept back at
  \<^verbatim>\<open>latestDate\<close>, so that the loop never passes its bound. This holds for every kind of
  period.
\<close>

theorem expand_never_ends:
  assumes "first_time + 620549 * 86400 \<le> start" "start < latestDate" "stop < latestDate"
  shows "(BOH latestDate \<le> stop \<longrightarrow> expandHourly ta start stop fallback = None) \<and>
    (BOD latestDate \<le> stop \<longrightarrow> expandDaily ta start stop fallback = None) \<and>
    (\<forall>w. BOW latestDate = Some w \<and> w \<le> stop \<longrightarrow> expandWeekly ta start stop fallback = None) \<and>
    (BOM latestDate \<le> stop \<longrightarrow> expandMonthly ta start stop fallback = None) \<and>
    (BOQ latestDate \<le> stop \<longrightarrow> expandQuarterly ta start stop fallback = None) \<and>
    (BOY latestDate \<le> stop \<longrightarrow> expandAnnually ta start stop fallback = None)"
proof -
  have s: "first_time \<le> start" using assms(1) by simp
  have lr: "in_range latestDate" by (simp add: in_range_def latest_value)
  have h: "BOH latestDate = last_hour" using hour_value [OF lr] by (simp add: latest_value)
  have "day_of latestDate = 803532" using day_of_value [of 86399 803532] by (simp add: latest_value)
  then have w: "BOW latestDate = Some last_week" using BOW_value [OF lr] by (simp add: sunday_def)
  show ?thesis
    unfolding expandHourly_def expandDaily_def expandWeekly_def expandMonthly_def expandQuarterly_def expandAnnually_def h BOD_latest w latest_beginnings
    using hours.expand_array_never [OF _ assms(3) s assms(2)] days.expand_array_never [OF _ assms(3) s assms(2)]
      weeks.expand_array_never [OF _ assms(3,1,2)] months.expand_array_never [OF _ assms(3) s assms(2)]
      quarters.expand_array_never [OF _ assms(3) s assms(2)] years.expand_array_never [OF _ assms(3) s assms(2)]
    by simp
qed

theorem expand_never_ends_witness:
  "expandHourly [] (time_q_of 2021 1 1 0 0 0) (latestDate - 1) True = None \<and> expandAnnually [] (time_q_of 2021 1 1 0 0 0) (latestDate - 1) True = None"
proof -
  have v: "time_q_of 2021 1 1 0 0 0 = first_time + 737790 * 86400"
    using time_q_of_value [of 2021 1 1 0 0 0] by (simp add: valid_time_def valid_date_def day_numbers)
  have "BOH latestDate \<le> latestDate - 1" using hour_value [of latestDate] by (simp add: in_range_def latest_value)
  moreover have "BOY latestDate \<le> latestDate - 1" using month_time_range [of 2200 1] by (simp add: latest_beginnings)
  ultimately show ?thesis
    using expand_never_ends [of "time_q_of 2021 1 1 0 0 0" "latestDate - 1" "[]" True] by (simp add: v latest_value)
qed

text \<open>
  \<^verbatim>\<open>EOW\<close>, the end of the week, returns for Saturdays only: its loop tests the
  argument, not the date that it advances.
\<close>

theorem end_of_week_loops:
  "EOW tm = (if getDayOfWeek (getDatePart tm) < 7 then None else Some (EOD tm))"
proof (cases "getDayOfWeek (getDatePart tm) < 7")
  case True
  then have "EOW_loop tm (EOD tm) = None" using EOW_loop_never [of tm "EOD tm"] by (cases "EOW_loop tm (EOD tm)") auto
  then show ?thesis using True by (simp add: EOW_def)
next
  case False
  then show ?thesis by (simp add: EOW_def EOW_loop.simps [of tm])
qed

text \<open>
  C27: The quarter that begins after a time in December is, for the code, the second quarter
  of the next year: \<^verbatim>\<open>AddOneQuarter\<close> makes month 12 to month 4, and the first quarter is
  skipped.
\<close>

theorem december_skips_quarter:
  assumes "valid_time y 12 d h mi s" "y < 2200"
  shows "BONQ (time_q_of y 12 d h mi s) = time_q_of (y + 1) 4 1 0 0 0"
  using BONQ_december [OF assms] .

theorem december_skips_quarter_witness:
  "BONQ (time_q_of 2020 12 5 0 0 0) = time_q_of 2021 4 1 0 0 0"
proof -
  have "valid_time 2020 12 5 0 0 0" by (simp add: valid_time_def valid_date_def day_numbers)
  from december_skips_quarter [OF this] show ?thesis by simp
qed

end
