(* ===== verification/Files.thy ===== *)
theory Files
  imports Conversions "HOL-Library.AList" "HOL-Library.List_Lexorder"
begin

text \<open>
  The file layer of \<^verbatim>\<open>libs/utillib\<close>: text files (\<^verbatim>\<open>sfarchive.cpp\<close>), lock files
  (\<^verbatim>\<open>CSharedResource\<close> of \<^verbatim>\<open>database.cpp\<close>), folders (\<^verbatim>\<open>filenames.cpp\<close>,
  \<^verbatim>\<open>sfos.cpp\<close>), and the handling of control+C: locked sections and the list of files
  to remove on exit (\<^verbatim>\<open>database.cpp\<close>). A disk is an association list from path names to
  contents, one character per byte; folders exist implicitly. What other processes do while
  this one sleeps, which files can be created and when the user asks to quit are parameters
  (the record \<open>env\<close>).
\<close>

section \<open>The world\<close>

record world =
  disk :: "(string \<times> string) list"
  sectionLocks :: "32 word"
  removeList :: string
  polls :: nat

record env =
  creatable :: "string \<Rightarrow> bool"
  elapse :: "world \<Rightarrow> world"
  quitAsked :: "nat \<Rightarrow> bool"

definition file_at :: "world \<Rightarrow> string \<Rightarrow> string option" where
  "file_at w fn = map_of (disk w) fn"

definition put_file :: "string \<Rightarrow> string \<Rightarrow> world \<Rightarrow> world" where
  "put_file fn s w = w\<lparr>disk := AList.update fn s (disk w)\<rparr>"

definition remove_file :: "string \<Rightarrow> world \<Rightarrow> world" where
  "remove_file fn w = w\<lparr>disk := AList.delete fn (disk w)\<rparr>"

definition fileExists :: "world \<Rightarrow> string \<Rightarrow> bool" where
  "fileExists w fn \<longleftrightarrow> fn \<noteq> [] \<and> file_at w fn \<noteq> None"

definition fileSize :: "world \<Rightarrow> string \<Rightarrow> nat" where
  "fileSize w fn = (if \<not> fileExists w fn then 0 else length (the (file_at w fn)))"

definition contents_of :: "world \<Rightarrow> string \<Rightarrow> string" where
  "contents_of w fn = (case file_at w fn of None \<Rightarrow> [] | Some s \<Rightarrow> s)"

text \<open>\<^verbatim>\<open>::rename\<close> of the C library: nothing happens when the file does not exist.\<close>

definition rename_file :: "string \<Rightarrow> string \<Rightarrow> world \<Rightarrow> world" where
  "rename_file fromFn toFn w =
     (case file_at w fromFn of
        None \<Rightarrow> w
      | Some s \<Rightarrow> if fromFn = toFn then w else put_file toFn s (remove_file fromFn w))"

section \<open>Control+C\<close>

definition lockSection :: "world \<Rightarrow> world" where
  "lockSection w = w\<lparr>sectionLocks := sectionLocks w + 1\<rparr>"

definition unlockSection :: "world \<Rightarrow> world" where
  "unlockSection w = (if sectionLocks w > 0 then w\<lparr>sectionLocks := sectionLocks w - 1\<rparr> else w)"

definition isSectionLocked :: "world \<Rightarrow> bool" where
  "isSectionLocked w \<longleftrightarrow> sectionLocks w > 0"

definition manageRemoveList :: "string \<Rightarrow> world \<Rightarrow> (string \<times> world) result" where
  "manageRemoveList filename w =
     (if filename = ''clear'' then Inr ([], w\<lparr>removeList := []\<rparr>)
      else
        bindR (returned (substitute filename ''r:'' [])) (\<lambda>fn.
          let theList =
            (if fn \<noteq> [] then
               (if startsWith filename ''r:'' then replace_q (removeList w) (fn @ ''|'') []
                else if \<not> contains (removeList w) (fn @ ''|'') then removeList w @ filename @ ''|''
                else removeList w)
             else removeList w)
          in Inr (theList, w\<lparr>removeList := theList\<rparr>)))"

definition cleanFileLocks :: "world \<Rightarrow> world result" where
  "cleanFileLocks w =
     bindR (manageRemoveList [] w) (\<lambda>(theList, w1).
       let w2 = fold remove_file (explode_into [] theList (CHR ''|'') True) w1
       in bindR (manageRemoveList ''clear'' w2) (\<lambda>(_, w3). Inr w3))"

text \<open>
  \<^verbatim>\<open>shouldQuit\<close> polls the counter of quit requests, which reads as zero in a locked
  section; a request makes it remove the files of the list.
\<close>

definition shouldQuit :: "env \<Rightarrow> world \<Rightarrow> (bool \<times> world) result" where
  "shouldQuit e w =
     (let w1 = w\<lparr>polls := Suc (polls w)\<rparr>
      in if \<not> quitAsked e (polls w) \<or> isSectionLocked w then Inr (False, w1)
         else bindR (cleanFileLocks w1) (\<lambda>w2. Inr (True, w2)))"

section \<open>Lock files\<close>

definition modeReadOnly :: string where "modeReadOnly = ''r''"

definition modeReadWrite :: string where "modeReadWrite = ''r+''"

definition modeWriteCreate :: string where "modeWriteCreate = ''w''"

definition modeWriteAppend :: string where "modeWriteAppend = ''a+''"

datatype lock_type = LOCK_NOWAIT | LOCK_WAIT | LOCK_CREATE

record shared_resource =
  m_mode :: string
  m_error :: nat
  m_ownsLock :: bool
  m_lockingUser :: string
  m_filename :: string
  m_isOpen :: bool

definition resource_new :: shared_resource where
  "resource_new = \<lparr>m_mode = [], m_error = 0, m_ownsLock = False, m_lockingUser = [], m_filename = [], m_isOpen = False\<rparr>"

definition lck :: "string \<Rightarrow> string" where
  "lck fn = fn @ ''.lck''"

definition maxSecondsLock :: nat where
  "maxSecondsLock = 3"

definition createLockFile :: "env \<Rightarrow> string \<Rightarrow> shared_resource \<times> world \<Rightarrow> (bool \<times> shared_resource \<times> world) result" where
  "createLockFile e lockfilename = (\<lambda>(r, w).
     if creatable e lockfilename
     then (let w1 = put_file lockfilename (c_str (m_lockingUser r) @ [CHR 0x0A]) w
           in bindR (manageRemoveList lockfilename w1) (\<lambda>(_, w2). Inr (True, r\<lparr>m_ownsLock := True\<rparr>, w2)))
     else Inr (False, r\<lparr>m_ownsLock := False, m_error := 1\<rparr>, w))"

definition Close_resource :: "shared_resource \<Rightarrow> shared_resource" where
  "Close_resource r = r\<lparr>m_isOpen := False\<rparr>"

definition Release :: "shared_resource \<times> world \<Rightarrow> (shared_resource \<times> world) result" where
  "Release = (\<lambda>(r, w).
     let r1 = Close_resource r
     in if m_ownsLock r1
        then (let w1 = remove_file (lck (m_filename r1)) w;
                  r2 = (if file_at w (lck (m_filename r1)) = None then r1\<lparr>m_error := 4\<rparr> else r1)
              in bindR (manageRemoveList (''r:'' @ lck (m_filename r1)) w1) (\<lambda>(_, w2). Inr (r2\<lparr>m_ownsLock := False\<rparr>, w2)))
        else Inr (r1\<lparr>m_ownsLock := False\<rparr>, w))"

text \<open>The loop that waits for another owner: \<open>True\<close> as soon as the lock file is gone.\<close>

fun await_lock :: "env \<Rightarrow> nat \<Rightarrow> string \<Rightarrow> world \<Rightarrow> bool \<times> world" where
  "await_lock e 0 lockFilename w = (False, w)"
| "await_lock e (Suc n) lockFilename w =
     (if \<not> fileExists w lockFilename then (True, w) else await_lock e n lockFilename (elapse e w))"

definition createLock :: "env \<Rightarrow> bool \<Rightarrow> shared_resource \<times> world \<Rightarrow> (bool \<times> shared_resource \<times> world) result" where
  "createLock e createOnFail = (\<lambda>(r, w).
     case await_lock e maxSecondsLock (lck (m_filename r)) w of
       (True, w1) \<Rightarrow> createLockFile e (lck (m_filename r)) (r, w1)
     | (False, w1) \<Rightarrow>
         if createOnFail
         then bindR (Release (r\<lparr>m_ownsLock := True\<rparr>, w1)) (createLockFile e (lck (m_filename r)))
         else Inr (False, r, w1))"

definition waitOnLock :: "env \<Rightarrow> bool \<Rightarrow> shared_resource \<times> world \<Rightarrow> (bool \<times> shared_resource \<times> world) result" where
  "waitOnLock e deleteOnFail = (\<lambda>(r, w).
     case await_lock e maxSecondsLock (lck (m_filename r)) w of
       (True, w1) \<Rightarrow> Inr (True, r, w1)
     | (False, w1) \<Rightarrow>
         if deleteOnFail
         then bindR (Release (r\<lparr>m_ownsLock := True\<rparr>, w1)) (\<lambda>(r2, w2). Inr (True, r2\<lparr>m_ownsLock := m_ownsLock r\<rparr>, w2))
         else Inr (False, r, w1))"

text \<open>\<^verbatim>\<open>fopen\<close>: the mode \<open>w\<close> empties the file, \<open>a+\<close> creates a missing one.\<close>

definition open_file :: "env \<Rightarrow> shared_resource \<times> world \<Rightarrow> bool \<times> shared_resource \<times> world" where
  "open_file e = (\<lambda>(r, w).
     let fn = m_filename r
     in if m_mode r = modeWriteCreate \<or> m_mode r = modeWriteAppend
        then (if creatable e fn
              then (True, r\<lparr>m_isOpen := True\<rparr>,
                    if m_mode r = modeWriteCreate then put_file fn [] w
                    else if file_at w fn = None then put_file fn [] w else w)
              else (False, r\<lparr>m_isOpen := False\<rparr>, w))
        else (file_at w fn \<noteq> None, r\<lparr>m_isOpen := file_at w fn \<noteq> None\<rparr>, w))"

definition Lock :: "env \<Rightarrow> string \<Rightarrow> string \<Rightarrow> lock_type \<Rightarrow> shared_resource \<times> world \<Rightarrow>
    (bool \<times> shared_resource \<times> world) result" where
  "Lock e fn mode lockType = (\<lambda>(r0, w).
     let r = r0\<lparr>m_filename := fn, m_mode := mode, m_isOpen := False\<rparr>
     in if \<not> fileExists w fn \<and> mode \<noteq> modeWriteCreate \<and> mode \<noteq> modeWriteAppend
        then Inr (False, r\<lparr>m_error := 2\<rparr>, w)
        else if mode = modeReadOnly
        then bindR (if lockType = LOCK_WAIT then waitOnLock e True (r, w) else Inr (True, r, w))
               (\<lambda>(_, r1, w1). Inr (open_file e (r1, w1)))
        else if mode = modeReadWrite \<or> mode = modeWriteAppend \<or> mode = modeWriteCreate
        then bindR (createLock e (lockType \<noteq> LOCK_WAIT) (r, w)) (\<lambda>(openIt, r1, w1).
               if openIt then Inr (open_file e (r1, w1)) else Inr (False, r1\<lparr>m_error := 1\<rparr>, w1))
        else Inr (False, r\<lparr>m_error := 3\<rparr>, w))"

section \<open>Text files\<close>

definition append_to :: "string \<Rightarrow> string \<Rightarrow> world \<Rightarrow> world" where
  "append_to fn s w = put_file fn (contents_of w fn @ s) w"

definition asciiFileToString :: "world \<Rightarrow> string \<Rightarrow> string" where
  "asciiFileToString w fn = (if fileExists w fn then c_str (contents_of w fn @ [CHR 0x00]) else [])"

definition asciiFileToLines :: "world \<Rightarrow> string \<Rightarrow> string list" where
  "asciiFileToLines w fn = explode_into [] (asciiFileToString w fn) (CHR 0x0A) True"

definition stringToAsciiFile :: "env \<Rightarrow> string \<Rightarrow> string \<Rightarrow> world \<Rightarrow> (bool \<times> world) result" where
  "stringToAsciiFile e fn contents w =
     bindR (Lock e fn modeWriteCreate LOCK_WAIT (resource_new, w)) (\<lambda>(ok, r, w1).
       if ok then bindR (Release (r, append_to fn (c_str contents) w1)) (\<lambda>(_, w2). Inr (True, w2))
       else bindR (Release (r, w1)) (\<lambda>(_, w2). Inr (False, w2)))"

definition appendToAsciiFile :: "env \<Rightarrow> string \<Rightarrow> string \<Rightarrow> world \<Rightarrow> (nat \<times> world) result" where
  "appendToAsciiFile e fn addContents w =
     bindR (Lock e fn modeWriteAppend LOCK_WAIT (resource_new, w)) (\<lambda>(ok, r, w1).
       bindR (Release (r, if ok then append_to fn (c_str addContents) w1 else w1)) (\<lambda>(_, w2).
         Inr (fileSize w2 fn, w2)))"

definition linesToString :: "string list \<Rightarrow> char \<Rightarrow> string" where
  "linesToString lines sep = concat (map (\<lambda>line. line @ (if sep \<noteq> CHR 0x00 then [sep] else [])) lines)"

definition linesToAsciiFile :: "env \<Rightarrow> string \<Rightarrow> string list \<Rightarrow> char \<Rightarrow> world \<Rightarrow> (nat \<times> world) result" where
  "linesToAsciiFile e fn lines sep w =
     bindR (Lock e fn modeWriteAppend LOCK_WAIT (resource_new, w)) (\<lambda>(ok, r, w1).
       let w2 = (if ok then fold (\<lambda>line. append_to fn (c_str (line @ (if sep \<noteq> CHR 0x00 then [sep] else [])))) lines w1
                 else w1)
       in bindR (Release (r, w2)) (\<lambda>(_, w3). Inr (fileSize w3 fn, w3)))"

section \<open>Folders\<close>

text \<open>
  Below a folder, whose name ends in a slash, \<^verbatim>\<open>glob\<close> sees the entries that do not
  start with a dot; a folder among them is listed with its slash.
\<close>

definition below :: "string \<Rightarrow> string \<Rightarrow> bool" where
  "below folder fn \<longleftrightarrow> take (length folder) fn = folder \<and> length folder < length fn \<and>
     fn ! length folder \<noteq> CHR ''.''"

definition dir_entry :: "string \<Rightarrow> string \<Rightarrow> string" where
  "dir_entry folder fn =
     (let rest = drop (length folder) fn
      in folder @ (case find_sub ''/'' rest of None \<Rightarrow> rest | Some i \<Rightarrow> take (Suc i) rest))"

definition listFilesInFolder :: "world \<Rightarrow> string \<Rightarrow> bool \<Rightarrow> string list" where
  "listFilesInFolder w folder recurse =
     (if recurse
      then filter (\<lambda>fn. below folder fn \<and> \<not> contains (drop (length folder) fn) ''/.'') (remdups (map fst (disk w)))
      else sort (remdups (map (dir_entry folder) (filter (below folder) (map fst (disk w))))))"

definition getFirstFileInFolder :: "world \<Rightarrow> string \<Rightarrow> bool \<Rightarrow> string" where
  "getFirstFileInFolder w folder recurse =
     (let files = sort (listFilesInFolder w folder recurse) in if length files > 0 then files ! 0 else [])"

definition getLastFileInFolder :: "world \<Rightarrow> string \<Rightarrow> bool \<Rightarrow> string" where
  "getLastFileInFolder w folder recurse =
     (let files = sort (listFilesInFolder w folder recurse) in if length files > 0 then files ! (length files - 1) else [])"

definition cleanFolder :: "string \<Rightarrow> world \<Rightarrow> world" where
  "cleanFolder path w = fold remove_file (listFilesInFolder w path True) w"

text \<open>\<^verbatim>\<open>forAllFiles\<close> visits until a visitor returns false.\<close>

fun forAllFiles :: "(string \<Rightarrow> 's \<Rightarrow> (bool \<times> 's) result) \<Rightarrow> string list \<Rightarrow> 's \<Rightarrow> (bool \<times> 's) result" where
  "forAllFiles func [] s = Inr (True, s)"
| "forAllFiles func (fn # fns) s =
     bindR (func fn s) (\<lambda>(ok, s'). if ok then forAllFiles func fns s' else Inr (False, s'))"

definition escapePath :: "string \<Rightarrow> string result" where
  "escapePath name =
     bindR (returned (replaceAll name ''&'' [CHR 0x5C, CHR ''&''])) (\<lambda>n1.
       bindR (returned (replaceAll n1 ''('' [CHR 0x5C, CHR ''('']) ) (\<lambda>n2.
         bindR (returned (replaceAll n2 '')'' [CHR 0x5C, CHR '')'']) ) (\<lambda>n3.
           returned (replaceAll n3 [CHR 0x27] [CHR 0x5C, CHR 0x27]))))"

definition copyFile :: "string \<Rightarrow> string \<Rightarrow> world \<Rightarrow> (bool \<times> world) result" where
  "copyFile fromIn toIn w =
     bindR (escapePath fromIn) (\<lambda>f. bindR (escapePath toIn) (\<lambda>t.
       let w1 = put_file t (if f = t then [] else contents_of w f) w in Inr (fileExists w1 toIn, w1)))"

definition moveFile :: "string \<Rightarrow> string \<Rightarrow> world \<Rightarrow> (bool \<times> world) result" where
  "moveFile fromFn toFn w =
     (if toLower fromFn = toLower toFn then Inr (True, w)
      else bindR (copyFile fromFn toFn w) (\<lambda>(ok, w1).
             if ok then Inr (file_at w1 fromFn \<noteq> None, remove_file fromFn w1) else Inr (False, w1)))"

end
