(* ===== verification/Bloom.thy ===== *)
theory Bloom
  imports Conversions
begin

text \<open>
  The bloom filters of \<^verbatim>\<open>libs/etherlib/bloom.cpp\<close>: one bit array of fixed width per
  \<^verbatim>\<open>bloom_t\<close>, sets of addresses kept in a list of them, and their file format. Bit
  \<open>0\<close> is the lowest bit of the last byte. A bit number past the width would index far
  outside of the array and is \<open>OutOfBounds\<close>.
\<close>

definition BLOOM_WIDTH_IN_BYTES :: nat where
  "BLOOM_WIDTH_IN_BYTES = 1048576 div 8"

definition BLOOM_WIDTH_IN_BITS :: nat where
  "BLOOM_WIDTH_IN_BITS = BLOOM_WIDTH_IN_BYTES * 8"

definition MAX_ADDRS_IN_BLOOM :: nat where
  "MAX_ADDRS_IN_BLOOM = 50000"

definition NIBBLE_WID :: nat where
  "NIBBLE_WID = 8"

definition K :: nat where
  "K = 5"

record bloom_t =
  nInserted :: "32 word"
  bits :: "8 word list"

definition bloom_init :: bloom_t where
  "bloom_init = \<lparr>nInserted = 0, bits = replicate BLOOM_WIDTH_IN_BYTES 0\<rparr>"

definition bloom_eq :: "bloom_t \<Rightarrow> bloom_t \<Rightarrow> bool" where
  "bloom_eq b test = (if nInserted b \<noteq> nInserted test then False else list_all2 (=) (bits b) (bits test))"

section \<open>Single bits\<close>

definition bit_mask :: "nat \<Rightarrow> 8 word" where
  "bit_mask whence = push_bit whence 1"

definition byte_index :: "nat \<Rightarrow> nat result" where
  "byte_index which =
     (if which < BLOOM_WIDTH_IN_BYTES then Inr (BLOOM_WIDTH_IN_BYTES - which - 1) else Inl OutOfBounds)"

definition lightBit :: "nat \<Rightarrow> bloom_t \<Rightarrow> bloom_t result" where
  "lightBit b s =
     (let which = b div 8; whence = b mod 8
      in bindR (byte_index which) (\<lambda>index.
           bindR (read_at (bits s) index) (\<lambda>x.
             bindR (write_at (bits s) index (x OR bit_mask whence)) (\<lambda>bs. Inr (s\<lparr>bits := bs\<rparr>)))))"

definition unlightBit :: "nat \<Rightarrow> bloom_t \<Rightarrow> bloom_t result" where
  "unlightBit b s =
     (let which = b div 8; whence = b mod 8
      in bindR (byte_index which) (\<lambda>index.
           bindR (read_at (bits s) index) (\<lambda>x.
             bindR (write_at (bits s) index (x AND NOT (bit_mask whence))) (\<lambda>bs. Inr (s\<lparr>bits := bs\<rparr>)))))"

definition isBitLit :: "nat \<Rightarrow> bloom_t \<Rightarrow> bool result" where
  "isBitLit b s =
     (let which = b div 8; whence = b mod 8
      in bindR (byte_index which) (\<lambda>index.
           bindR (read_at (bits s) index) (\<lambda>x. Inr (x AND bit_mask whence \<noteq> 0))))"

definition toggleBit :: "nat \<Rightarrow> bloom_t \<Rightarrow> bloom_t result" where
  "toggleBit b s = bindR (isBitLit b s) (\<lambda>lit. if lit then unlightBit b s else lightBit b s)"

text \<open>\<^verbatim>\<open>byte_2_Bits\<close> prints a byte from its highest bit to its lowest.\<close>

definition byte_2_Bits :: "8 word \<Rightarrow> string" where
  "byte_2_Bits ch = map (\<lambda>i. if bit ch i then CHR ''1'' else CHR ''0'') (rev [0..<8])"

definition nBitsHit :: "bloom_t \<Rightarrow> nat" where
  "nBitsHit s = (\<Sum>x \<leftarrow> bits s. length (filter (\<lambda>ch. ch = CHR ''1'') (byte_2_Bits x)))"

fun isInBloom_loop :: "nat \<Rightarrow> nat \<Rightarrow> bloom_t \<Rightarrow> bloom_t \<Rightarrow> bool result" where
  "isInBloom_loop 0 b s test = Inr True"
| "isInBloom_loop (Suc n) b s test =
     bindR (isBitLit b test) (\<lambda>t.
       if t then bindR (isBitLit b s) (\<lambda>l. if \<not> l then Inr False else isInBloom_loop n (Suc b) s test)
       else isInBloom_loop n (Suc b) s test)"

definition isInBloom :: "bloom_t \<Rightarrow> bloom_t \<Rightarrow> bool result" where
  "isInBloom s test = isInBloom_loop BLOOM_WIDTH_IN_BITS 0 s test"

section \<open>Addresses\<close>

definition addr_bit :: "string \<Rightarrow> nat \<Rightarrow> nat" where
  "addr_bit sha k =
     unat (str_2_Uint (''0x'' @ extract_q sha (2 + k * NIBBLE_WID) NIBBLE_WID)) mod BLOOM_WIDTH_IN_BITS"

fun light_all :: "nat list \<Rightarrow> bloom_t \<Rightarrow> bloom_t result" where
  "light_all [] s = Inr s"
| "light_all (b # bs) s = bindR (lightBit b s) (\<lambda>s'. light_all bs s')"

text \<open>\<open>addr_2_Bloom\<close> returns the filter and the bits pushed onto \<^verbatim>\<open>litBits\<close>.\<close>

definition addr_2_Bloom :: "string \<Rightarrow> nat list \<Rightarrow> (bloom_t \<times> nat list) result" where
  "addr_2_Bloom addrIn litBits =
     (if isAddress addrIn
      then (let bs = map (addr_bit addrIn) [0..<K]
            in bindR (light_all bs bloom_init) (\<lambda>ret. Inr (ret, litBits @ bs)))
      else Inr (bloom_init, litBits))"

definition addToSet :: "bloom_t list \<Rightarrow> string \<Rightarrow> bloom_t list result" where
  "addToSet blooms addr =
     bindR (addr_2_Bloom ''0x0'' []) (\<lambda>(zeroBloom, litBits).
       let blooms = (if length blooms = 0 then [zeroBloom] else blooms)
       in bindR (addr_2_Bloom addr litBits) (\<lambda>(_, litBits).
            bindR (light_all litBits (last blooms)) (\<lambda>b.
              let b' = b\<lparr>nInserted := nInserted b + 1\<rparr>; blooms' = butlast blooms @ [b']
              in Inr (if unat (nInserted b') > MAX_ADDRS_IN_BLOOM then blooms' @ [zeroBloom] else blooms'))))"

fun isMember :: "bloom_t list \<Rightarrow> bloom_t \<Rightarrow> bool result" where
  "isMember [] bloomIn = Inr False"
| "isMember (b # blooms) bloomIn =
     bindR (isInBloom b bloomIn) (\<lambda>hit. if hit then Inr True else isMember blooms bloomIn)"

section \<open>Files\<close>

definition put_bloom :: "bloom_t \<Rightarrow> bytes" where
  "put_bloom b = put_word (nInserted b) @ bits b"

definition get_bloom :: "bloom_t reader" where
  "get_bloom bs =
     bindR (get_word bs) (\<lambda>(n :: 32 word, rest).
       bindR (read_raw BLOOM_WIDTH_IN_BYTES rest) (\<lambda>(b, rest'). Inr (\<lparr>nInserted = n, bits = b\<rparr>, rest')))"

definition writeBloomToBinary :: "bloom_t list \<Rightarrow> bytes" where
  "writeBloomToBinary blooms =
     put_word (word_of_nat (length blooms) :: 32 word) @ concat (map put_bloom blooms)"

definition readBloomFromBinary :: "bytes \<Rightarrow> bloom_t list result" where
  "readBloomFromBinary bs =
     bindR (get_word bs) (\<lambda>(nBlooms :: 32 word, rest).
       bindR (get_n get_bloom (unat nBlooms) rest) (\<lambda>(blooms, _). Inr blooms))"

section \<open>What the filters guarantee\<close>

definition wf_bloom :: "bloom_t \<Rightarrow> bool" where
  "wf_bloom s \<longleftrightarrow> length (bits s) = BLOOM_WIDTH_IN_BYTES"

definition lit :: "bloom_t \<Rightarrow> nat \<Rightarrow> bool" where
  "lit s b \<longleftrightarrow> bit (bits s ! (BLOOM_WIDTH_IN_BYTES - b div 8 - 1)) (b mod 8)"

lemma width_pos: "0 < BLOOM_WIDTH_IN_BYTES"
  by (simp add: BLOOM_WIDTH_IN_BYTES_def)

lemma byte_in_width: "b < BLOOM_WIDTH_IN_BITS \<Longrightarrow> b div 8 < BLOOM_WIDTH_IN_BYTES"
  by (simp add: BLOOM_WIDTH_IN_BITS_def less_mult_imp_div_less)

lemma isBitLit_lit:
  assumes "wf_bloom s" "b < BLOOM_WIDTH_IN_BITS"
  shows "isBitLit b s = Inr (lit s b)"
proof -
  have "b mod 8 < LENGTH(8)" by simp
  then have m: "(x AND bit_mask (b mod 8) \<noteq> 0) = bit x (b mod 8)" for x :: "8 word"
    by (simp only: bit_mask_def bit_iff_and_push_bit_not_eq_0)
  show ?thesis using assms byte_in_width [OF assms(2)] width_pos
    by (simp add: isBitLit_def byte_index_def lit_def wf_bloom_def m)
qed

lemma byte_index_inj:
  assumes "b < BLOOM_WIDTH_IN_BITS" "c < BLOOM_WIDTH_IN_BITS"
  shows "BLOOM_WIDTH_IN_BYTES - b div 8 - 1 = BLOOM_WIDTH_IN_BYTES - c div 8 - 1 \<and> b mod 8 = c mod 8 \<longleftrightarrow> b = c"
proof -
  have "b div 8 = c div 8" if "BLOOM_WIDTH_IN_BYTES - b div 8 - 1 = BLOOM_WIDTH_IN_BYTES - c div 8 - 1"
    using byte_in_width [OF assms(1)] byte_in_width [OF assms(2)] that by linarith
  then show ?thesis by (metis div_mult_mod_eq)
qed

lemma lit_update:
  assumes "wf_bloom s" "b < BLOOM_WIDTH_IN_BITS" "c < BLOOM_WIDTH_IN_BITS"
    and f: "\<And>i. i < 8 \<Longrightarrow> bit (f (bits s ! (BLOOM_WIDTH_IN_BYTES - b div 8 - 1))) i =
      (if i = b mod 8 then v else bit (bits s ! (BLOOM_WIDTH_IN_BYTES - b div 8 - 1)) i)"
  shows "lit (s\<lparr>bits := (bits s)[BLOOM_WIDTH_IN_BYTES - b div 8 - 1 :=
      f (bits s ! (BLOOM_WIDTH_IN_BYTES - b div 8 - 1))]\<rparr>) c = (if c = b then v else lit s c)"
  using assms byte_index_inj [OF assms(2,3)] width_pos f [of "c mod 8"]
  by (auto simp: lit_def wf_bloom_def nth_list_update)

lemma bit_or_mask: "i < 8 \<Longrightarrow> w < 8 \<Longrightarrow> bit (x OR bit_mask w) i = (if i = w then True else bit x i)"
  by (auto simp: bit_mask_def bit_or_iff bit_exp_iff)

lemma bit_and_not_mask: "i < 8 \<Longrightarrow> w < 8 \<Longrightarrow> bit (x AND NOT (bit_mask w)) i = (if i = w then False else bit x i)"
  by (auto simp: bit_mask_def bit_and_iff bit_not_iff bit_exp_iff)

lemma lightBit_correct:
  assumes "wf_bloom s" "b < BLOOM_WIDTH_IN_BITS"
  shows "\<exists>s'. lightBit b s = Inr s' \<and> wf_bloom s' \<and> nInserted s' = nInserted s \<and>
    (\<forall>c < BLOOM_WIDTH_IN_BITS. lit s' c = (c = b \<or> lit s c))"
proof -
  let ?i = "BLOOM_WIDTH_IN_BYTES - b div 8 - 1"
  have run: "lightBit b s = Inr (s\<lparr>bits := (bits s)[?i := bits s ! ?i OR bit_mask (b mod 8)]\<rparr>)"
    using assms byte_in_width [OF assms(2)] width_pos by (simp add: lightBit_def byte_index_def wf_bloom_def Let_def)
  have "lit (s\<lparr>bits := (bits s)[?i := bits s ! ?i OR bit_mask (b mod 8)]\<rparr>) c = (if c = b then True else lit s c)"
    if "c < BLOOM_WIDTH_IN_BITS" for c
    by (rule lit_update [OF assms that]) (simp add: bit_or_mask)
  with run assms(1) show ?thesis by (auto simp: wf_bloom_def)
qed

lemma unlightBit_correct:
  assumes "wf_bloom s" "b < BLOOM_WIDTH_IN_BITS"
  shows "\<exists>s'. unlightBit b s = Inr s' \<and> wf_bloom s' \<and> nInserted s' = nInserted s \<and>
    (\<forall>c < BLOOM_WIDTH_IN_BITS. lit s' c = (c \<noteq> b \<and> lit s c))"
proof -
  let ?i = "BLOOM_WIDTH_IN_BYTES - b div 8 - 1"
  have run: "unlightBit b s = Inr (s\<lparr>bits := (bits s)[?i := bits s ! ?i AND NOT (bit_mask (b mod 8))]\<rparr>)"
    using assms byte_in_width [OF assms(2)] width_pos by (simp add: unlightBit_def byte_index_def wf_bloom_def Let_def)
  have "lit (s\<lparr>bits := (bits s)[?i := bits s ! ?i AND NOT (bit_mask (b mod 8))]\<rparr>) c = (if c = b then False else lit s c)"
    if "c < BLOOM_WIDTH_IN_BITS" for c
    by (rule lit_update [OF assms that]) (simp add: bit_and_not_mask)
  with run assms(1) show ?thesis by (auto simp: wf_bloom_def)
qed

lemma light_all_correct:
  assumes "wf_bloom s" "\<forall>b \<in> set bs. b < BLOOM_WIDTH_IN_BITS"
  shows "\<exists>s'. light_all bs s = Inr s' \<and> wf_bloom s' \<and> nInserted s' = nInserted s \<and>
    (\<forall>c < BLOOM_WIDTH_IN_BITS. lit s' c = (c \<in> set bs \<or> lit s c))"
  using assms
proof (induction bs arbitrary: s)
  case (Cons b bs)
  from lightBit_correct [of s b] Cons.prems obtain s1 where s1: "lightBit b s = Inr s1" "wf_bloom s1"
    "nInserted s1 = nInserted s" "\<forall>c < BLOOM_WIDTH_IN_BITS. lit s1 c = (c = b \<or> lit s c)" by auto
  from Cons.IH [OF s1(2)] Cons.prems s1 show ?case by auto
qed simp

lemma isInBloom_loop_correct:
  assumes "wf_bloom s" "wf_bloom test"
  shows "b + n \<le> BLOOM_WIDTH_IN_BITS \<Longrightarrow>
    isInBloom_loop n b s test = Inr (\<forall>c. b \<le> c \<and> c < b + n \<and> lit test c \<longrightarrow> lit s c)"
proof (induction n arbitrary: b)
  case (Suc n)
  have range: "b \<le> c \<and> c < b + Suc n \<and> P \<longleftrightarrow> c = b \<and> P \<or> Suc b \<le> c \<and> c < Suc b + n \<and> P" for c P
    by auto
  have split: "(\<forall>c. b \<le> c \<and> c < b + Suc n \<and> lit test c \<longrightarrow> lit s c) \<longleftrightarrow>
      (lit test b \<longrightarrow> lit s b) \<and> (\<forall>c. Suc b \<le> c \<and> c < Suc b + n \<and> lit test c \<longrightarrow> lit s c)"
    unfolding range by blast
  have "isBitLit b test = Inr (lit test b)" "isBitLit b s = Inr (lit s b)"
    using assms Suc.prems by (simp_all add: isBitLit_lit)
  moreover have "isInBloom_loop n (Suc b) s test =
      Inr (\<forall>c. Suc b \<le> c \<and> c < Suc b + n \<and> lit test c \<longrightarrow> lit s c)"
    using Suc by simp
  ultimately show ?case unfolding split by simp
qed auto

lemma isInBloom_correct:
  assumes "wf_bloom s" "wf_bloom test"
  shows "isInBloom s test = Inr (\<forall>c < BLOOM_WIDTH_IN_BITS. lit test c \<longrightarrow> lit s c)"
  using isInBloom_loop_correct [OF assms, of 0 BLOOM_WIDTH_IN_BITS]
  by (simp add: isInBloom_def) blast

lemma bloom_init_correct [simp]: "wf_bloom bloom_init" "c < BLOOM_WIDTH_IN_BITS \<Longrightarrow> \<not> lit bloom_init c"
  using byte_in_width [of c] width_pos by (simp_all add: wf_bloom_def bloom_init_def lit_def)

definition addr_bits :: "string \<Rightarrow> nat set" where
  "addr_bits a = (if isAddress a then set (map (addr_bit a) [0..<K]) else {})"

lemma addr_bits_width: "b \<in> addr_bits a \<Longrightarrow> b < BLOOM_WIDTH_IN_BITS"
  by (auto simp: addr_bits_def addr_bit_def BLOOM_WIDTH_IN_BITS_def width_pos split: if_splits)

lemma addr_2_Bloom_correct:
  "\<exists>b bs. addr_2_Bloom a litBits = Inr (b, litBits @ bs) \<and> set bs = addr_bits a \<and> wf_bloom b \<and>
     nInserted b = 0 \<and> (\<forall>c < BLOOM_WIDTH_IN_BITS. lit b c = (c \<in> addr_bits a))"
proof (cases "isAddress a")
  case True
  then have "\<forall>b \<in> set (map (addr_bit a) [0..<K]). b < BLOOM_WIDTH_IN_BITS"
    using addr_bits_width [of _ a] by (simp add: addr_bits_def)
  from light_all_correct [OF bloom_init_correct(1) this] obtain b where
    b: "light_all (map (addr_bit a) [0..<K]) bloom_init = Inr b" "wf_bloom b" "nInserted b = nInserted bloom_init"
    "\<forall>c < BLOOM_WIDTH_IN_BITS. lit b c = (c \<in> set (map (addr_bit a) [0..<K]))" by auto
  then show ?thesis using True by (auto simp: addr_2_Bloom_def addr_bits_def Let_def bloom_init_def)
next
  case False
  then show ?thesis by (auto simp: addr_2_Bloom_def addr_bits_def) (simp add: bloom_init_def)
qed

lemma not_address_0x0: "\<not> isAddress ''0x0''"
  by (simp add: isAddress_def)

text \<open>An address is covered when all of its bits are lit in one filter of the set.\<close>

definition covered :: "bloom_t list \<Rightarrow> string \<Rightarrow> bool" where
  "covered blooms a \<longleftrightarrow> (\<exists>b \<in> set blooms. \<forall>c \<in> addr_bits a. lit b c)"

lemma isMember_correct:
  assumes "\<forall>b \<in> set blooms. wf_bloom b" "wf_bloom test"
  shows "isMember blooms test = Inr (\<exists>b \<in> set blooms. \<forall>c < BLOOM_WIDTH_IN_BITS. lit test c \<longrightarrow> lit b c)"
  using assms by (induction blooms) (auto simp: isInBloom_correct)

lemma isMember_covered:
  assumes "\<forall>b \<in> set blooms. wf_bloom b" "addr_2_Bloom a l = Inr (t, l')"
  shows "isMember blooms t = Inr (covered blooms a)"
proof -
  from addr_2_Bloom_correct [of a l] assms(2) have t: "wf_bloom t"
    "\<forall>c < BLOOM_WIDTH_IN_BITS. lit t c = (c \<in> addr_bits a)" by auto
  have "(\<forall>c < BLOOM_WIDTH_IN_BITS. lit t c \<longrightarrow> lit b c) \<longleftrightarrow> (\<forall>c \<in> addr_bits a. lit b c)" for b
    using t(2) addr_bits_width by blast
  then show ?thesis using isMember_correct [OF assms(1) t(1)] by (simp add: covered_def)
qed

definition wf_set :: "bloom_t list \<Rightarrow> bool" where
  "wf_set blooms \<longleftrightarrow> (\<forall>b \<in> set blooms. wf_bloom b) \<and>
     (\<forall>b \<in> set (butlast blooms). unat (nInserted b) = MAX_ADDRS_IN_BLOOM + 1) \<and>
     (blooms \<noteq> [] \<longrightarrow> unat (nInserted (last blooms)) \<le> MAX_ADDRS_IN_BLOOM)"

lemma addToSet_correct:
  assumes "wf_set blooms"
  shows "\<exists>bl'. addToSet blooms a = Inr bl' \<and> wf_set bl' \<and> covered bl' a \<and> (\<forall>x. covered blooms x \<longrightarrow> covered bl' x) \<and>
    length bl' \<le> length blooms + 2"
proof -
  define bl where "bl = (if length blooms = 0 then [bloom_init] else blooms)"
  have bl: "wf_set bl" "bl \<noteq> []" using assms by (auto simp: bl_def wf_set_def bloom_init_def wf_bloom_def)
  have zero: "addr_2_Bloom ''0x0'' [] = Inr (bloom_init, [])" by (simp add: addr_2_Bloom_def not_address_0x0)
  from addr_2_Bloom_correct [of a "[]"] obtain t bs where t: "addr_2_Bloom a [] = Inr (t, bs)" "set bs = addr_bits a"
    by auto
  have wl: "wf_bloom (last bl)" using bl by (simp add: wf_set_def)
  have "\<forall>b \<in> set bs. b < BLOOM_WIDTH_IN_BITS" using t(2) addr_bits_width by blast
  from light_all_correct [OF wl this] obtain b where b: "light_all bs (last bl) = Inr b" "wf_bloom b"
    "nInserted b = nInserted (last bl)"
    "\<forall>c < BLOOM_WIDTH_IN_BITS. lit b c = (c \<in> addr_bits a \<or> lit (last bl) c)" using t(2) by auto
  define b' where "b' = b\<lparr>nInserted := nInserted b + 1\<rparr>"
  have lit': "lit b' c = lit b c" for c by (simp add: b'_def lit_def)
  have le: "unat (nInserted (last bl)) \<le> 50000" using bl by (simp add: wf_set_def MAX_ADDRS_IN_BLOOM_def)
  have n': "unat (nInserted b') = unat (nInserted (last bl)) + 1"
    using le b(3) by (simp add: b'_def unat_word_ariths)
  define r where "r = (if unat (nInserted b') > MAX_ADDRS_IN_BLOOM then (butlast bl @ [b']) @ [bloom_init] else butlast bl @ [b'])"
  have run: "addToSet blooms a = Inr r"
    unfolding addToSet_def zero bindR.simps prod.case Let_def bl_def [symmetric] t(1) b(1)
    by (simp add: r_def b'_def)
  have "wf_bloom b'" using b(2) by (simp add: b'_def wf_bloom_def)
  then have "wf_set r" using bl n' le
    by (auto simp: r_def wf_set_def MAX_ADDRS_IN_BLOOM_def bloom_init_def wf_bloom_def butlast_append
        dest: in_set_butlastD)
  moreover have "covered r a" using b(4) lit' addr_bits_width by (auto simp: covered_def r_def)
  moreover have "covered r x" if "covered blooms x" for x
  proof -
    from that obtain d where d: "d \<in> set blooms" "\<forall>c \<in> addr_bits x. lit d c" by (auto simp: covered_def)
    then have "blooms \<noteq> []" by auto
    then have "d \<in> set (butlast bl) \<or> d = last bl"
      using d(1) by (simp add: bl_def) (metis append_butlast_last_id rotate1.simps(2) set_ConsD set_rotate1)
    moreover have "lit b' c" if "lit (last bl) c" "c \<in> addr_bits x" for c
      using that b(4) lit' addr_bits_width by blast
    ultimately show ?thesis using d(2) by (auto simp: covered_def r_def)
  qed
  moreover have "length r \<le> length blooms + 2" by (auto simp: r_def bl_def)
  ultimately show ?thesis using run by blast
qed

fun addAll :: "string list \<Rightarrow> bloom_t list \<Rightarrow> bloom_t list result" where
  "addAll [] blooms = Inr blooms"
| "addAll (a # as) blooms = bindR (addToSet blooms a) (addAll as)"

lemma addAll_correct:
  assumes "wf_set blooms"
  shows "\<exists>bl'. addAll as blooms = Inr bl' \<and> wf_set bl' \<and> (\<forall>x. covered blooms x \<or> x \<in> set as \<longrightarrow> covered bl' x)"
  using assms
proof (induction as arbitrary: blooms)
  case (Cons a as)
  from addToSet_correct [OF Cons.prems, of a] obtain b1 where b1: "addToSet blooms a = Inr b1" "wf_set b1"
    "covered b1 a" "\<forall>x. covered blooms x \<longrightarrow> covered b1 x" by blast
  from Cons.IH [OF b1(2)] b1 show ?case by auto
qed simp

interpretation cbloom: codec put_bloom get_bloom wf_bloom
  by unfold_locales (simp add: put_bloom_def get_bloom_def read_raw_def wf_bloom_def)

lemma readBloom_writeBloom:
  assumes "\<forall>b \<in> set blooms. wf_bloom b" "length blooms < 2 ^ 32"
  shows "readBloomFromBinary (writeBloomToBinary blooms) = Inr blooms"
  using cbloom.get_n_put [OF assms(1), of "[]"] assms(2)
  by (simp add: readBloomFromBinary_def writeBloomToBinary_def unat_of_nat)

end
