(* ===== verification/IndexChunk.thy ===== *)
theory IndexChunk
  imports Bloom Decimal "HOL-Library.List_Lexorder"
begin

text \<open>
  The chunks of the address index: \<^verbatim>\<open>writeIndexAsBinary\<close> and
  \<^verbatim>\<open>writeIndexAsAscii\<close> of \<^verbatim>\<open>libs/acctlib/indexing.cpp\<close>, which turn the sorted
  appearance records of some blocks into a table of addresses, a table of appearances and
  a set of bloom filters; \<^verbatim>\<open>CIndexArchive\<close> of \<^verbatim>\<open>libs/etherlib/indexarchive.cpp\<close>,
  which gives access to them; and the search of \<^verbatim>\<open>apps/acctExport/query_final.cpp\<close> for
  the appearances of one address. A file is the list of its bytes. Log messages are left
  out; the division that decides when to write one is not.
\<close>

section \<open>The records\<close>

abbreviation TAB :: char where
  "TAB \<equiv> CHR 0x09"

abbreviation NL :: char where
  "NL \<equiv> CHR 0x0A"

record CIndexHeader =
  magic :: "32 word"
  hhash :: "8 word list"
  hnAddrs :: "32 word"
  hnRows :: "32 word"

record CIndexedAddress =
  abytes :: "8 word list"
  aoffset :: "32 word"
  acnt :: "32 word"

record CIndexedAppearance =
  appblk :: "32 word"
  txid :: "32 word"

definition appearance_of :: "string \<Rightarrow> string \<Rightarrow> CIndexedAppearance" where
  "appearance_of b t = \<lparr>appblk = ucast (str_2_Uint b), txid = ucast (str_2_Uint t)\<rparr>"

definition MAGIC_NUMBER :: "32 word" where
  "MAGIC_NUMBER = ucast (str_2_Uint ''0xdeadbeef'')"

definition versionHash :: string where
  "versionHash = ''0x'' @ padLeft [] 64 (CHR ''0'')"

definition put_index_header :: "32 word \<Rightarrow> 32 word \<Rightarrow> bytes" where
  "put_index_header nAddrs nRows =
     put_word MAGIC_NUMBER @ hash_2_Bytes versionHash @ put_word nAddrs @ put_word nRows"

definition put_appearance :: "CIndexedAppearance \<Rightarrow> bytes" where
  "put_appearance r = put_word (appblk r) @ put_word (txid r)"

section \<open>Writing a chunk\<close>

record index_state =
  prev :: string
  offset :: "32 word"
  nAddrs :: "32 word"
  cnt :: "32 word"
  blockTable :: "CIndexedAppearance list"
  blooms :: "bloom_t list"
  out :: bytes

definition index_init :: index_state where
  "index_init = \<lparr>prev = [], offset = 0, nAddrs = 0, cnt = 0, blockTable = [], blooms = [],
     out = put_index_header 0 0\<rparr>"

text \<open>The record of the address \<open>prev\<close>, which the loop writes when the address changes and once
  more after the loop.\<close>

definition write_address :: "index_state \<Rightarrow> index_state result" where
  "write_address st =
     bindR (addToSet (blooms st) (prev st)) (\<lambda>bl.
       Inr (st\<lparr>blooms := bl,
               out := out st @ addr_2_Bytes (prev st) @ put_word (offset st) @ put_word (cnt st),
               nAddrs := nAddrs st + 1\<rparr>))"

text \<open>
  The body of the loop over the lines: the remainder of the progress counter by
  \<^verbatim>\<open>notifyCnt\<close> traps when that is zero; the fields of the vector are read without a
  check.
\<close>

definition index_line :: "nat \<Rightarrow> string \<Rightarrow> index_state \<Rightarrow> index_state result" where
  "index_line notifyCnt line st =
     (if notifyCnt = 0 then Inl ArithTrap
      else
        let parts = explode_into [] line TAB True
        in bindR (read_at parts 1) (\<lambda>p1. bindR (read_at parts 2) (\<lambda>p2.
             let st1 = st\<lparr>blockTable := blockTable st @ [appearance_of p1 p2]\<rparr>
             in bindR (read_at parts 0) (\<lambda>p0.
                  bindR (if prev st1 \<noteq> [] \<and> p0 \<noteq> prev st1
                         then bindR (write_address st1) (\<lambda>st2. Inr (st2\<lparr>offset := offset st2 + cnt st2, cnt := 0\<rparr>))
                         else Inr st1) (\<lambda>st3.
                    Inr (st3\<lparr>cnt := cnt st3 + 1, prev := p0\<rparr>))))))"

fun index_loop :: "nat \<Rightarrow> string list \<Rightarrow> index_state \<Rightarrow> index_state result" where
  "index_loop notifyCnt [] st = Inr st"
| "index_loop notifyCnt (line # lines) st = bindR (index_line notifyCnt line st) (index_loop notifyCnt lines)"

text \<open>\<^verbatim>\<open>Seek(0, SEEK_SET)\<close> followed by writes.\<close>

definition overwrite :: "bytes \<Rightarrow> bytes \<Rightarrow> bytes" where
  "overwrite b file = b @ drop (length b) file"

text \<open>The contents of the chunk and of its bloom file.\<close>

definition writeIndexAsBinary :: "string list \<Rightarrow> (bytes \<times> bytes) result" where
  "writeIndexAsBinary lines =
     bindR (index_loop (length lines div 12) lines index_init) (\<lambda>st.
       bindR (write_address st) (\<lambda>st'.
         let body = out st' @ concat (map put_appearance (blockTable st'));
             file = overwrite (put_index_header (nAddrs st') (word_of_nat (length (blockTable st')))) body
         in Inr (file, writeBloomToBinary (blooms st'))))"

section \<open>Reading a chunk\<close>

definition sizeof_header :: nat where
  "sizeof_header = 44"

definition sizeof_address :: nat where
  "sizeof_address = 28"

definition sizeof_appearance :: nat where
  "sizeof_appearance = 8"

text \<open>
  The file is loaded into a buffer with \<^verbatim>\<open>2 * 59\<close> zero bytes after it; the records are
  then accessed in place.
\<close>

definition load_chunk :: "bytes \<Rightarrow> bytes" where
  "load_chunk file = file @ replicate (2 * 59) 0"

definition slice :: "nat \<Rightarrow> nat \<Rightarrow> bytes \<Rightarrow> bytes result" where
  "slice pos n raw = (if pos + n \<le> length raw then Inr (take n (drop pos raw)) else Inl OutOfBounds)"

definition le_word :: "bytes \<Rightarrow> 'a::len word" where
  "le_word b = word_of_nat (dval 256 (map unat b))"

definition header_of :: "bytes \<Rightarrow> CIndexHeader result" where
  "header_of raw = bindR (slice 0 sizeof_header raw) (\<lambda>b.
     Inr \<lparr>magic = le_word (take 4 b), hhash = take 32 (drop 4 b),
          hnAddrs = le_word (take 4 (drop 36 b)), hnRows = le_word (drop 40 b)\<rparr>)"

definition address_at :: "bytes \<Rightarrow> nat \<Rightarrow> CIndexedAddress result" where
  "address_at raw i = bindR (slice (sizeof_header + i * sizeof_address) sizeof_address raw) (\<lambda>b.
     Inr \<lparr>abytes = take 20 b, aoffset = le_word (take 4 (drop 20 b)), acnt = le_word (drop 24 b)\<rparr>)"

definition appearance_at :: "bytes \<Rightarrow> nat \<Rightarrow> nat \<Rightarrow> CIndexedAppearance result" where
  "appearance_at raw n i =
     bindR (slice (sizeof_header + n * sizeof_address + i * sizeof_appearance) sizeof_appearance raw) (\<lambda>b.
       Inr \<lparr>appblk = le_word (take 4 b), txid = le_word (drop 4 b)\<rparr>)"

section \<open>Searching a chunk\<close>

fun findAddresses :: "8 word list \<Rightarrow> 8 word list \<Rightarrow> int" where
  "findAddresses (x # xs) (y # ys) =
     (let ret = int (unat x) - int (unat y) in if ret \<noteq> 0 then ret else findAddresses xs ys)"
| "findAddresses _ _ = 0"

text \<open>\<^verbatim>\<open>bsearch\<close> of the C library over the records \<open>l\<close> to \<open>u\<close>.\<close>

function bsearch :: "bytes \<Rightarrow> 8 word list \<Rightarrow> nat \<Rightarrow> nat \<Rightarrow> CIndexedAddress option result" where
  "bsearch raw key l u =
     (if l < u then
        (let idx = (l + u) div 2
         in bindR (address_at raw idx) (\<lambda>rec.
              let c = findAddresses key (abytes rec)
              in if c < 0 then bsearch raw key l idx
                 else if c > 0 then bsearch raw key (idx + 1) u
                 else Inr (Some rec)))
      else Inr None)"
  by pat_completeness auto
termination by (relation "measure (\<lambda>(raw, key, l, u). u - l)") auto

declare bsearch.simps [simp del]

fun copy_appearances :: "bytes \<Rightarrow> nat \<Rightarrow> nat \<Rightarrow> nat \<Rightarrow> CIndexedAppearance list result" where
  "copy_appearances raw n i 0 = Inr []"
| "copy_appearances raw n i (Suc k) =
     bindR (appearance_at raw n i) (\<lambda>r. bindR (copy_appearances raw n (Suc i) k) (\<lambda>rs. Inr (r # rs)))"

text \<open>
  What the monitor of \<open>addr\<close> receives from a chunk. The loop runs from
  \<^verbatim>\<open>found->offset\<close> to the 32-bit sum \<^verbatim>\<open>found->offset + found->cnt\<close>.
\<close>

definition chunk_query :: "bytes \<Rightarrow> string \<Rightarrow> CIndexedAppearance list option result" where
  "chunk_query file addr =
     (let raw = load_chunk file
      in bindR (header_of raw) (\<lambda>h.
           bindR (bsearch raw (take 20 (addr_2_Bytes addr)) 0 (unat (hnAddrs h))) (\<lambda>found.
             case found of
               None \<Rightarrow> Inr None
             | Some rec \<Rightarrow>
                 bindR (copy_appearances raw (unat (hnAddrs h)) (unat (aoffset rec))
                          (unat (aoffset rec + acnt rec) - unat (aoffset rec))) (\<lambda>items.
                   Inr (Some items)))))"

section \<open>Visiting the addresses of a chunk\<close>

text \<open>
  The loop of \<^verbatim>\<open>addressVisitFunc\<close> over one chunk, from record \<open>i\<close> on, with the
  callback and its data as parameters; it ends early when the callback returns false.
\<close>

fun visit_loop :: "(string \<Rightarrow> 's \<Rightarrow> bool \<times> 's) \<Rightarrow> bytes \<Rightarrow> nat \<Rightarrow> nat \<Rightarrow> 's \<Rightarrow> (bool \<times> 's) result" where
  "visit_loop addrFunc raw i 0 data = Inr (True, data)"
| "visit_loop addrFunc raw i (Suc n) data =
     bindR (address_at raw i) (\<lambda>rec.
       bindR (bytes_2_Addr (abytes rec)) (\<lambda>addr.
         case addrFunc addr data of (ret, data') \<Rightarrow>
           if \<not> ret then Inr (False, data') else visit_loop addrFunc raw (Suc i) n data'))"

definition addressVisit :: "(string \<Rightarrow> 's \<Rightarrow> bool \<times> 's) option \<Rightarrow> bytes \<Rightarrow> 's \<Rightarrow> (bool \<times> 's) result" where
  "addressVisit visitor file data =
     (case visitor of
        None \<Rightarrow> Inr (False, data)
      | Some addrFunc \<Rightarrow>
          (let raw = load_chunk file
           in bindR (header_of raw) (\<lambda>h. visit_loop addrFunc raw 0 (unat (hnAddrs h)) data)))"

section \<open>The text form of a chunk\<close>

definition padNum :: "nat \<Rightarrow> 32 word \<Rightarrow> string" where
  "padNum w n = padLeft (uint_2_Str (ucast n)) w (CHR ''0'')"

record ascii_state =
  aprev :: string
  aoff :: "32 word"
  annum :: "32 word"
  ancnt :: "32 word"
  ablocks :: "CIndexedAppearance list"
  addrStream :: string

definition ascii_address :: "ascii_state \<Rightarrow> ascii_state" where
  "ascii_address st =
     st\<lparr>addrStream := addrStream st @ aprev st @ [TAB] @ padNum 6 (aoff st) @ [TAB] @ padNum 6 (ancnt st) @ [NL],
        annum := annum st + 1\<rparr>"

definition ascii_line :: "nat \<Rightarrow> string \<Rightarrow> ascii_state \<Rightarrow> ascii_state result" where
  "ascii_line notifyCnt line st =
     (if notifyCnt = 0 then Inl ArithTrap
      else
        let parts = explode_into [] line TAB True
        in bindR (read_at parts 1) (\<lambda>p1. bindR (read_at parts 2) (\<lambda>p2.
             let st1 = st\<lparr>ablocks := ablocks st @ [appearance_of p1 p2]\<rparr>
             in bindR (read_at parts 0) (\<lambda>p0.
                  let st3 = (if aprev st1 \<noteq> [] \<and> p0 \<noteq> aprev st1
                             then (let st2 = ascii_address st1 in st2\<lparr>aoff := aoff st2 + ancnt st2, ancnt := 0\<rparr>)
                             else st1)
                  in Inr (st3\<lparr>ancnt := ancnt st3 + 1, aprev := p0\<rparr>)))))"

fun ascii_loop :: "nat \<Rightarrow> string list \<Rightarrow> ascii_state \<Rightarrow> ascii_state result" where
  "ascii_loop notifyCnt [] st = Inr st"
| "ascii_loop notifyCnt (line # lines) st = bindR (ascii_line notifyCnt line st) (ascii_loop notifyCnt lines)"

definition writeIndexAsAscii :: "string list \<Rightarrow> string result" where
  "writeIndexAsAscii lines =
     bindR (ascii_loop (length lines div 12) lines
              \<lparr>aprev = [], aoff = 0, annum = 0, ancnt = 0, ablocks = [], addrStream = []\<rparr>) (\<lambda>st.
       let st' = ascii_address st;
           blockStream = concat (map (\<lambda>r. padNum 9 (appblk r) @ [TAB] @ padNum 5 (txid r) @ [NL]) (ablocks st'));
           headerStream = padNum 7 MAGIC_NUMBER @ [TAB] @ versionHash @ [TAB] @ padNum 7 (annum st') @ [TAB] @
             padNum 7 (word_of_nat (length (ablocks st'))) @ [NL]
       in Inr (headerStream @ addrStream st' @ blockStream))"

end
