(* ===== verification/Consolidator.thy ===== *)
theory Consolidator
  imports Files IndexChunk
begin

text \<open>
  The block scraper (\<^verbatim>\<open>apps/blockScrape\<close>): which blocks to scan next
  (\<^verbatim>\<open>scrape_blocks\<close>), moving the records of ripe blocks to the stage
  (\<^verbatim>\<open>copyRipeToStage\<close>, \<^verbatim>\<open>stage_chunks\<close>), and cutting the stage into index chunks
  (\<^verbatim>\<open>consolidate_chunks\<close>, \<^verbatim>\<open>write_chunks\<close>); with the progress of the index as
  \<^verbatim>\<open>libs/etherlib/node.cpp\<close> reads it off the folders, and the run state of the scraper
  (\<^verbatim>\<open>options.cpp\<close>). The external scanner \<^verbatim>\<open>blaze\<close>, the node and pinning are
  parameters. Arguments of log calls are evaluated, as in the source, where they index
  vectors; the log itself is left out, and the verbosity is at most two.
\<close>

abbreviation NOPOS :: "64 word" where
  "NOPOS \<equiv> - 1"

definition padNum9 :: "64 word \<Rightarrow> string" where
  "padNum9 n = padLeft (uint_2_Str n) 9 (CHR ''0'')"

section \<open>Progress\<close>

definition bnFromPath :: "string \<Rightarrow> (64 word \<times> 64 word) result" where
  "bnFromPath path =
     (let parts = explode_into [] path (CHR ''/'') True
      in bindR (if parts = [] then Inl OutOfBounds else Inr (last parts)) (\<lambda>p.
           let e = (if contains path ''_ts'' then fst (nextTokenClear p (CHR ''_'') True)
                    else fst (nextTokenClear p (CHR ''.'') True));
               (b, e') = nextTokenClear e (CHR ''-'') True
           in Inr (if b = [] \<or> \<not> isNumeral b then NOPOS else str_2_Uint b,
                   if e' = [] \<or> \<not> isNumeral e' then NOPOS else str_2_Uint e')))"

record scrape_env =
  os :: env
  indexPath :: string
  liveTest :: bool
  docker :: bool
  pinChunk :: "string \<Rightarrow> world \<Rightarrow> (bool \<times> world) result"

abbreviation indexFolder_staging :: "scrape_env \<Rightarrow> string" where
  "indexFolder_staging e \<equiv> indexPath e @ ''staging/''"

abbreviation indexFolder_unripe :: "scrape_env \<Rightarrow> string" where
  "indexFolder_unripe e \<equiv> indexPath e @ ''unripe/''"

abbreviation indexFolder_ripe :: "scrape_env \<Rightarrow> string" where
  "indexFolder_ripe e \<equiv> indexPath e @ ''ripe/''"

abbreviation indexFolder_finalized :: "scrape_env \<Rightarrow> string" where
  "indexFolder_finalized e \<equiv> indexPath e @ ''finalized/''"

abbreviation indexFolder_blooms :: "scrape_env \<Rightarrow> string" where
  "indexFolder_blooms e \<equiv> indexPath e @ ''blooms/''"

definition getLatestBlock_cache_final :: "scrape_env \<Rightarrow> world \<Rightarrow> 64 word result" where
  "getLatestBlock_cache_final e w =
     (let finLast = getLastFileInFolder w (indexFolder_blooms e) False
      in if finLast \<noteq> [] then bindR (bnFromPath finLast) (\<lambda>(_, end). Inr end) else Inr 0)"

definition getLatestBlock_cache_staging :: "scrape_env \<Rightarrow> world \<Rightarrow> 64 word result" where
  "getLatestBlock_cache_staging e w =
     (let stageLast = getLastFileInFolder w (indexFolder_staging e) False
      in if stageLast \<noteq> [] then bindR (bnFromPath stageLast) (\<lambda>(b, _). Inr b) else getLatestBlock_cache_final e w)"

definition getLatestBlock_cache_ripe :: "scrape_env \<Rightarrow> world \<Rightarrow> 64 word result" where
  "getLatestBlock_cache_ripe e w =
     (let ripeLast = getLastFileInFolder w (indexFolder_ripe e) False
      in if ripeLast \<noteq> [] then bindR (bnFromPath ripeLast) (\<lambda>(b, _). Inr b) else getLatestBlock_cache_staging e w)"

definition getLatestBlock_cache_unripe :: "scrape_env \<Rightarrow> world \<Rightarrow> 64 word result" where
  "getLatestBlock_cache_unripe e w =
     (let unripeLast = getLastFileInFolder w (indexFolder_unripe e) False
      in if unripeLast \<noteq> [] then bindR (bnFromPath unripeLast) (\<lambda>(b, _). Inr b) else getLatestBlock_cache_ripe e w)"

section \<open>The consolidator\<close>

record consolidator =
  unripe :: "64 word"
  ripe :: "64 word"
  staging :: "64 word"
  finalized :: "64 word"
  client :: "64 word"
  pin :: bool
  distFromHead :: "64 word"
  prevBlock :: "64 word"
  blazeStart :: "64 word"
  blazeRipe :: "64 word"
  blazeCnt :: "64 word"
  oldStage :: string
  newStage :: string
  tmpFile :: string
  tmp_fn :: string
  tmp_fails :: bool

definition MAX_ROWS :: "scrape_env \<Rightarrow> nat" where
  "MAX_ROWS e = (if liveTest e then 6000 else 2000000)"

definition SNAP_TO_GRID_BLKS :: "scrape_env \<Rightarrow> 64 word" where
  "SNAP_TO_GRID_BLKS e = (if liveTest e then 30 else 100000)"

definition FIRST_SNAP_TO_GRID :: "scrape_env \<Rightarrow> 64 word" where
  "FIRST_SNAP_TO_GRID e = (if liveTest e then 0 else 2250000)"

text \<open>The constructor reads the progress, the node's block being an argument, and opens
  the temporary stage, which empties it.\<close>

definition CConsolidator :: "scrape_env \<Rightarrow> 64 word \<Rightarrow> world \<Rightarrow> (consolidator \<times> world) result" where
  "CConsolidator e latest w =
     bindR (getLatestBlock_cache_final e w) (\<lambda>fin.
     bindR (getLatestBlock_cache_staging e w) (\<lambda>stg.
     bindR (getLatestBlock_cache_ripe e w) (\<lambda>rip.
     bindR (getLatestBlock_cache_unripe e w) (\<lambda>unr.
       let tmp = indexFolder_staging e @ ''000000000-temp.txt''
       in Inr (\<lparr>unripe = unr, ripe = rip, staging = stg, finalized = fin, client = latest, pin = False,
                distFromHead = 0,
                prevBlock = (if stg = NOPOS then if fin = NOPOS then 0 else fin else stg),
                blazeStart = 0, blazeRipe = 0, blazeCnt = 0, oldStage = [], newStage = [], tmpFile = [],
                tmp_fn = tmp, tmp_fails = False\<rparr>,
               if creatable (os e) tmp then put_file tmp [] w else w)))))"

definition appendFile :: "scrape_env \<Rightarrow> string \<Rightarrow> string \<Rightarrow> world \<Rightarrow> bool \<times> world" where
  "appendFile e toFile fromFile w =
     (if \<not> creatable (os e) toFile then (False, w)
      else let w1 = append_to toFile [] w
           in case file_at w1 fromFile of
                None \<Rightarrow> (False, w1)
              | Some s \<Rightarrow> (True, append_to toFile s w1))"

definition stage_chunks :: "scrape_env \<Rightarrow> consolidator \<Rightarrow> world \<Rightarrow> bool \<times> consolidator \<times> world" where
  "stage_chunks e con0 w =
     (let con = con0\<lparr>oldStage := getLastFileInFolder w (indexFolder_staging e) False,
                     newStage := indexFolder_staging e @ padNum9 (prevBlock con0) @ ''.txt''\<rparr>
      in if oldStage con = newStage con then (True, con, w)
         else
           let con = con\<lparr>tmpFile := indexPath e @ ''temp.txt''\<rparr>;
               (ok1, w1) = (if oldStage con \<noteq> tmp_fn con then appendFile e (tmpFile con) (oldStage con) w else (True, w))
           in if \<not> ok1 then (False, con, w1)
              else case appendFile e (tmpFile con) (tmp_fn con) w1 of
                (False, w2) \<Rightarrow> (False, con, remove_file (tmpFile con) w2)
              | (True, w2) \<Rightarrow>
                  let w3 = rename_file (tmpFile con) (newStage con) (lockSection w2);
                      w4 = (if oldStage con \<noteq> tmp_fn con \<and> oldStage con \<noteq> newStage con
                            then remove_file (oldStage con) w3 else w3)
                  in (True, con, unlockSection (remove_file (tmp_fn con) w4)))"

section \<open>Writing chunks\<close>

definition text_of :: "bytes \<Rightarrow> string" where
  "text_of b = map char_of_byte b"

definition writeBloomFile :: "scrape_env \<Rightarrow> string \<Rightarrow> bytes \<Rightarrow> world \<Rightarrow> (bool \<times> world) result" where
  "writeBloomFile e fn bloomBytes w =
     bindR (Lock (os e) fn modeWriteCreate LOCK_NOWAIT (resource_new, lockSection w)) (\<lambda>(ok, r, w1).
       bindR (Release (r, if ok then append_to fn (text_of bloomBytes) w1 else w1)) (\<lambda>(_, w2).
         Inr (ok, unlockSection w2)))"

text \<open>
  \<^verbatim>\<open>writeIndexAsBinary\<close> with its files: the chunk is built in a temporary file and copied
  to its place together with the bloom filters in a locked section. Writing to an archive
  that could not be opened goes through a null pointer.
\<close>

definition writeIndexFile :: "scrape_env \<Rightarrow> string \<Rightarrow> string list \<Rightarrow> bool \<Rightarrow> world \<Rightarrow> (bool \<times> world) result" where
  "writeIndexFile e outFn lines withPin w =
     bindR (returned (substitute outFn ''.bin'' ''.tmp'')) (\<lambda>tmp.
     bindR (Lock (os e) tmp modeWriteCreate LOCK_NOWAIT (resource_new, w)) (\<lambda>(ok, r, w1).
     if \<not> ok then Inl OutOfBounds
     else
       bindR (writeIndexAsBinary lines) (\<lambda>(chunk, bloomBytes).
       bindR (Release (r, append_to tmp (text_of chunk) w1)) (\<lambda>(_, w2).
       bindR (returned (substitute outFn ''/finalized/'' ''/blooms/'')) (\<lambda>b1.
       bindR (returned (substitute b1 ''.bin'' ''.bloom'')) (\<lambda>bloomFile.
       bindR (writeBloomFile e bloomFile bloomBytes (lockSection w2)) (\<lambda>(_, w3).
       bindR (copyFile tmp outFn w3) (\<lambda>(_, w4).
         let w5 = unlockSection (remove_file tmp w4)
         in if withPin then pinChunk e outFn w5 else Inr (True, w5)))))))))"

text \<open>The search for the record after which the block changes, from the record number
  \<open>record\<close> on.\<close>

fun break_loop :: "string list \<Rightarrow> nat \<Rightarrow> string \<Rightarrow> nat option result" where
  "break_loop [] record prvBlock = Inr None"
| "break_loop (line # lines) record prvBlock =
     bindR (read_at (explode_into [] line TAB True) 1) (\<lambda>p1.
       if prvBlock \<noteq> p1 \<and> prvBlock \<noteq> [] then Inr (Some (record - 1))
       else break_loop lines (Suc record) p1)"

text \<open>One pass of the loop; \<open>False\<close> is the early return in the middle of the locked section.\<close>

definition write_pass :: "scrape_env \<Rightarrow> consolidator \<Rightarrow> nat \<Rightarrow> world \<Rightarrow> (bool \<times> world) result" where
  "write_pass e con chunkSize w =
     (let w1 = lockSection w; lines = asciiFileToLines w1 (newStage con)
      in bindR (if chunkSize = 0 then Inl OutOfBounds else read_at lines (chunkSize - 1)) (\<lambda>_.
         bindR (break_loop (drop (chunkSize - 1) lines) (chunkSize - 1) []) (\<lambda>found.
         let loc = (case found of Some i \<Rightarrow> i | None \<Rightarrow> if length lines \<noteq> 0 then length lines - 1 else 0)
         in bindR (read_at lines 0) (\<lambda>_. bindR (read_at lines 1) (\<lambda>_. bindR (read_at lines loc) (\<lambda>_.
            let consolidatedLines = take (loc + 1) lines
            in if list_ex (\<lambda>l. countOf l TAB \<noteq> 2) consolidatedLines then Inr (False, w1)
               else
                 bindR (read_at (explode_into [] (hd consolidatedLines) TAB True) 1) (\<lambda>b1.
                 bindR (read_at (explode_into [] (last consolidatedLines) TAB True) 1) (\<lambda>b2.
                 bindR (writeIndexFile e (indexFolder_finalized e @ (b1 @ ''-'' @ b2) @ ''.bin'')
                          (sort consolidatedLines) (pin con) w1) (\<lambda>(_, w2).
                   let remainingLines = drop (loc + 1) lines; w3 = remove_file (newStage con) w2
                   in bindR (if remainingLines \<noteq> []
                             then linesToAsciiFile (os e) (newStage con) remainingLines NL w3 else Inr (0, w3)) (\<lambda>(_, w4).
                        Inr (True, unlockSection w4)))))))))))"

definition nRecords :: "consolidator \<Rightarrow> world \<Rightarrow> nat" where
  "nRecords con w = fileSize w (newStage con) div 59"

text \<open>The loop itself has no bound: no value is a run that never ends.\<close>

partial_function (option) write_chunks_loop ::
    "scrape_env \<Rightarrow> consolidator \<Rightarrow> nat \<Rightarrow> bool \<Rightarrow> nat \<Rightarrow> world \<Rightarrow> (bool \<times> world) result option" where
  "write_chunks_loop e con chunkSize once n w =
     (if \<not> (once \<or> n > chunkSize) then Some (Inr (True, w))
      else case shouldQuit (os e) w of
        Inl f \<Rightarrow> Some (Inl f)
      | Inr (quit, w1) \<Rightarrow>
          if quit then Some (Inr (True, w1))
          else (case write_pass e con chunkSize w1 of
             Inl f \<Rightarrow> Some (Inl f)
           | Inr (ok, w2) \<Rightarrow>
               if \<not> ok then Some (Inr (False, w2))
               else write_chunks_loop e con (min (MAX_ROWS e) (nRecords con w2)) (once \<and> nRecords con w2 > 0)
                      (nRecords con w2) w2))"

definition write_chunks :: "scrape_env \<Rightarrow> consolidator \<Rightarrow> nat \<Rightarrow> bool \<Rightarrow> world \<Rightarrow> (bool \<times> world) result option" where
  "write_chunks e con chunkSize once w = write_chunks_loop e con chunkSize once (nRecords con w) w"

definition consolidate_chunks :: "scrape_env \<Rightarrow> consolidator \<Rightarrow> world \<Rightarrow> (bool \<times> world) result option" where
  "consolidate_chunks e con w =
     (if nRecords con w \<le> MAX_ROWS e then Some (Inr (True, w)) else write_chunks e con (MAX_ROWS e) False w)"

section \<open>From ripe to staged\<close>

text \<open>
  Output to the temporary stage, which is lost once the file has been removed. Copying an
  empty file sets the failbit of the stream (\<open>tmp_fails\<close>), and all later output is lost.
\<close>

definition stream_out :: "consolidator \<Rightarrow> string \<Rightarrow> world \<Rightarrow> world" where
  "stream_out con s w = (if tmp_fails con \<or> file_at w (tmp_fn con) = None then w else append_to (tmp_fn con) s w)"

text \<open>The first value tells whether the visit of the folder goes on.\<close>

type_synonym visit = "(bool \<times> consolidator \<times> world) result option"

definition snap_to_grid :: "scrape_env \<Rightarrow> consolidator \<Rightarrow> world \<Rightarrow> visit" where
  "snap_to_grid e con w =
     (case stage_chunks e con w of
        (False, con1, w1) \<Rightarrow>
          Some (Inr (False, con1, remove_file (tmp_fn con1) (cleanFolder (indexFolder_ripe e) (cleanFolder (indexFolder_unripe e) w1))))
      | (True, con1, w1) \<Rightarrow>
          (case shouldQuit (os e) w1 of
             Inl f \<Rightarrow> Some (Inl f)
           | Inr (True, w2) \<Rightarrow> Some (Inr (True, con1, w2))
           | Inr (False, w2) \<Rightarrow>
               (case write_chunks e con1 (min (nRecords con1 w2) (MAX_ROWS e)) True w2 of
                  None \<Rightarrow> None
                | Some (Inl f) \<Rightarrow> Some (Inl f)
                | Some (Inr (_, w3)) \<Rightarrow> Some (Inr (False, con1, w3)))))"

definition copyRipeToStage :: "scrape_env \<Rightarrow> string \<Rightarrow> consolidator \<Rightarrow> world \<Rightarrow> visit" where
  "copyRipeToStage e path con w =
     (case bnFromPath path of
        Inl f \<Rightarrow> Some (Inl f)
      | Inr (bn, _) \<Rightarrow>
          if prevBlock con + 1 \<noteq> bn then Some (Inr (False, con, w))
          else case file_at w path of
            None \<Rightarrow> Some (Inr (False, con, w))
          | Some s \<Rightarrow>
              let w1 = unlockSection (remove_file path (stream_out con s (lockSection w)));
                  con1 = con\<lparr>prevBlock := bn, tmp_fails := tmp_fails con \<or> s = []\<rparr>
              in if bn > FIRST_SNAP_TO_GRID e \<and> bn mod SNAP_TO_GRID_BLKS e = 0
                 then snap_to_grid e con1 w1
                 else case shouldQuit (os e) w1 of
                        Inl f \<Rightarrow> Some (Inl f)
                      | Inr (quit, w2) \<Rightarrow> Some (Inr (\<not> quit, con1, w2)))"

text \<open>The visit of the ripe folder, in the order of the names.\<close>

fun visit_ripe :: "scrape_env \<Rightarrow> string list \<Rightarrow> consolidator \<Rightarrow> world \<Rightarrow> visit" where
  "visit_ripe e [] con w = Some (Inr (True, con, w))"
| "visit_ripe e (path # paths) con w =
     (case copyRipeToStage e path con w of
        None \<Rightarrow> None
      | Some (Inl f) \<Rightarrow> Some (Inl f)
      | Some (Inr (ok, con1, w1)) \<Rightarrow> if ok then visit_ripe e paths con1 w1 else Some (Inr (False, con1, w1)))"

section \<open>One scrape\<close>

definition ddosRange :: "64 word \<Rightarrow> bool" where
  "ddosRange bn \<longleftrightarrow> bn \<ge> 2283440 \<and> bn \<le> 2718436"

text \<open>
  Where the scanner starts, how many blocks it scans and from where on blocks are unripe.
  \<open>fallback\<close> is the configuration value \<^verbatim>\<open>n_blocks_fallback\<close>.
\<close>

definition scrape_plan :: "scrape_env \<Rightarrow> 64 word \<Rightarrow> 64 word \<Rightarrow> consolidator \<Rightarrow> consolidator" where
  "scrape_plan e n_blocks fallback con =
     (let start = max (ripe con) (max (staging con) (finalized con)) + 1;
          cnt = (if \<not> docker e then
                   (if start < 450000 then max 4000 n_blocks else if ddosRange start then fallback else n_blocks)
                 else n_blocks);
          ripeBlk = (if client con < 28 then 0 else client con - 28);
          cnt' = (if start + cnt > client con then client con - start else cnt);
          dist = (if client con > start then client con - start else 0)
      in con\<lparr>blazeStart := start, blazeCnt := cnt', blazeRipe := ripeBlk, distFromHead := dist\<rparr>)"

record scrape_opts =
  n_blocks :: "64 word"
  n_blocks_fallback :: "64 word"
  opt_pin :: bool

text \<open>
  \<^verbatim>\<open>scrape_blocks\<close>. The scanner is a parameter: given start, count and ripe block it
  writes its files and tells whether it finished; so is whether \<^verbatim>\<open>acctExport\<close> runs by
  then. Not modelled are the sleep time and the run counter of the live tests; a failure of
  the scanner also counts as a request to quit.
\<close>

definition scrape_blocks ::
    "scrape_env \<Rightarrow> (64 word \<Rightarrow> 64 word \<Rightarrow> 64 word \<Rightarrow> world \<Rightarrow> bool \<times> world) \<Rightarrow> (world \<Rightarrow> bool) \<Rightarrow>
     scrape_opts \<Rightarrow> 64 word \<Rightarrow> world \<Rightarrow> (bool \<times> world) result option" where
  "scrape_blocks e blaze acctExport opts latest w =
     (case CConsolidator e latest w of
        Inl f \<Rightarrow> Some (Inl f)
      | Inr (con0, w0) \<Rightarrow>
          let con = scrape_plan e (n_blocks opts) (n_blocks_fallback opts) (con0\<lparr>pin := opt_pin opts\<rparr>)
          in if blazeStart con > client con then Some (Inr (False, w0))
             else case shouldQuit (os e) w0 of
               Inl f \<Rightarrow> Some (Inl f)
             | Inr (True, w1) \<Rightarrow> Some (Inr (False, w1))
             | Inr (False, w1) \<Rightarrow>
                 (case blaze (blazeStart con) (blazeCnt con) (blazeRipe con) w1 of
                    (False, w2) \<Rightarrow> Some (Inr (False, cleanFolder (indexFolder_ripe e) w2))
                  | (True, w2) \<Rightarrow>
                      if acctExport w2 then Some (Inr (False, w2))
                      else if \<not> creatable (os e) (tmp_fn con) then Some (Inr (False, w2))
                      else case visit_ripe e (sort (listFilesInFolder w2 (indexFolder_ripe e) True)) con w2 of
                        None \<Rightarrow> None
                      | Some (Inl f) \<Rightarrow> Some (Inl f)
                      | Some (Inr (False, con1, w3)) \<Rightarrow>
                          Some (Inr (False, remove_file (tmp_fn con1)
                            (cleanFolder (indexFolder_ripe e) (cleanFolder (indexFolder_unripe e) w3))))
                      | Some (Inr (True, con1, w3)) \<Rightarrow>
                          (case stage_chunks e con1 w3 of
                             (staged, con2, w4) \<Rightarrow>
                               let w5 = (if staged then w4
                                         else remove_file (tmp_fn con2)
                                           (cleanFolder (indexFolder_ripe e) (cleanFolder (indexFolder_unripe e) w4)))
                               in case shouldQuit (os e) w5 of
                                    Inl f \<Rightarrow> Some (Inl f)
                                  | Inr (True, w6) \<Rightarrow> Some (Inr (False, w6))
                                  | Inr (False, w6) \<Rightarrow> consolidate_chunks e con2 w6)))"

section \<open>The run state\<close>

datatype ScrapeState = STATE_STOPPED | STATE_RUNNING | STATE_PAUSED

definition getCurrentState :: "string \<Rightarrow> world \<Rightarrow> ScrapeState \<times> string" where
  "getCurrentState controlFile w =
     (let current = asciiFileToString w controlFile
      in if current = ''running'' then (STATE_RUNNING, current)
         else if current = ''paused'' then (STATE_PAUSED, current)
         else (STATE_STOPPED, ''stopped''))"

text \<open>\<open>changeState\<close> returns its value, the new state and its text.\<close>

definition changeState :: "env \<Rightarrow> string \<Rightarrow> string \<Rightarrow> world \<Rightarrow> (bool \<times> ScrapeState \<times> string \<times> world) result" where
  "changeState e controlFile mode w =
     (case getCurrentState controlFile w of
        (STATE_STOPPED, stateStr) \<Rightarrow>
          if mode = ''run'' \<or> mode = [] then
            bindR (manageRemoveList controlFile w) (\<lambda>(_, w1).
              bindR (stringToAsciiFile e controlFile ''running'' w1) (\<lambda>(_, w2). Inr (False, STATE_RUNNING, stateStr, w2)))
          else Inr (True, STATE_STOPPED, stateStr, w)
      | (STATE_RUNNING, stateStr) \<Rightarrow>
          if mode = ''pause'' then
            bindR (stringToAsciiFile e controlFile ''paused'' w) (\<lambda>(_, w1). Inr (True, STATE_PAUSED, ''paused'', w1))
          else if mode = ''quit'' then Inr (True, STATE_STOPPED, ''stopped'', remove_file controlFile w)
          else Inr (True, STATE_RUNNING, stateStr, w)
      | (STATE_PAUSED, stateStr) \<Rightarrow>
          if mode = ''restart'' \<or> mode = ''run'' then
            bindR (stringToAsciiFile e controlFile ''running'' w) (\<lambda>(_, w1). Inr (True, STATE_RUNNING, ''running'', w1))
          else if mode = ''quit'' then Inr (True, STATE_STOPPED, ''stopped'', remove_file controlFile w)
          else Inr (True, STATE_PAUSED, stateStr, w))"

end
