(* ===== verification/Monitor.thy ===== *)
theory Monitor
  imports Consolidator
begin

text \<open>
  Monitors: the per-address caches of appearances (\<^verbatim>\<open>libs/acctlib/monitor.cpp\<close>) and the
  part of \<^verbatim>\<open>apps/acctExport\<close> that keeps them: freshening from the finalized chunks
  (\<^verbatim>\<open>query_final.cpp\<close>, \<^verbatim>\<open>query_freshen.cpp\<close>), querying the stage
  (\<^verbatim>\<open>query_flatfile.cpp\<close>, \<^verbatim>\<open>query_staging.cpp\<close>, \<^verbatim>\<open>query_unripe.cpp\<close>), loading,
  cleaning and removing (\<^verbatim>\<open>query_loadapps.cpp\<close>, \<^verbatim>\<open>process_clean.cpp\<close>,
  \<^verbatim>\<open>process_rm.cpp\<close>). Fetching a missing chunk from the network is a parameter; the
  test mode and what is only printed are left out.
\<close>

section \<open>Monitors and their files\<close>

record CMonitoredAppearance =
  mablk :: "32 word"
  matxid :: "32 word"

record CMonitor =
  maddress :: string
  isStaging :: bool
  lastVisitedBlock :: "64 word"
  mbloom :: bloom_t
  tx_cache :: "shared_resource option"

record export_env =
  xos :: env
  xindexPath :: string
  cachePath :: string
  fetchChunk :: "string \<Rightarrow> world \<Rightarrow> world"

definition monitor_new :: "string \<Rightarrow> CMonitor" where
  "monitor_new addr = \<lparr>maddress = addr, isStaging = False, lastVisitedBlock = NOPOS, mbloom = bloom_init, tx_cache = None\<rparr>"

definition duplicate :: "CMonitor \<Rightarrow> CMonitor" where
  "duplicate mo = mo\<lparr>tx_cache := None\<rparr>"

definition clear_monitor :: "CMonitor \<Rightarrow> world \<Rightarrow> world result" where
  "clear_monitor mo w =
     (case tx_cache mo of None \<Rightarrow> Inr w | Some r \<Rightarrow> bindR (Release (r, w)) (\<lambda>(_, w'). Inr w'))"

definition getMonitorPath :: "export_env \<Rightarrow> string \<Rightarrow> bool \<Rightarrow> string" where
  "getMonitorPath e addr onStage =
     (let fn = (if isAddress addr then addr @ ''.acct.bin'' else addr);
          base = (cachePath e @ ''monitors/'') @ (if onStage then ''staging/'' else [])
      in base @ fn)"

definition getMonitorPathLast :: "export_env \<Rightarrow> string \<Rightarrow> bool \<Rightarrow> string result" where
  "getMonitorPathLast e addr onStage = returned (substitute (getMonitorPath e addr onStage) ''.acct.bin'' ''.last.txt'')"

definition getMonitorPathDels :: "export_env \<Rightarrow> string \<Rightarrow> string" where
  "getMonitorPathDels e addr = getMonitorPath e addr False @ ''.deleted''"

definition sizeof_monitored :: nat where
  "sizeof_monitored = 8"

definition getRecordCnt :: "world \<Rightarrow> string \<Rightarrow> nat" where
  "getRecordCnt w path = fileSize w path div sizeof_monitored"

definition openForWriting :: "export_env \<Rightarrow> bool \<Rightarrow> CMonitor \<times> world \<Rightarrow> (bool \<times> CMonitor \<times> world) result" where
  "openForWriting e onStage = (\<lambda>(mo, w).
     if tx_cache mo \<noteq> None then Inr (True, mo, w)
     else bindR (Lock (xos e) (getMonitorPath e (maddress mo) onStage) modeWriteAppend LOCK_WAIT (resource_new, w))
            (\<lambda>(ok, r, w1). Inr (ok, mo\<lparr>tx_cache := Some r\<rparr>, w1)))"

definition put_monitored :: "CMonitoredAppearance \<Rightarrow> bytes" where
  "put_monitored item = put_word (mablk item) @ put_word (matxid item)"

definition writeMonitorArray :: "CMonitor \<Rightarrow> CMonitoredAppearance list \<Rightarrow> world \<Rightarrow> world" where
  "writeMonitorArray mo items w =
     (case tx_cache mo of
        None \<Rightarrow> w
      | Some r \<Rightarrow> append_to (m_filename r) (text_of (concat (map put_monitored items))) w)"

definition writeMonitorLastBlock :: "export_env \<Rightarrow> 64 word \<Rightarrow> bool \<Rightarrow> CMonitor \<times> world \<Rightarrow> (CMonitor \<times> world) result" where
  "writeMonitorLastBlock e bn onStage = (\<lambda>(mo, w).
     bindR (getMonitorPathLast e (maddress mo) onStage) (\<lambda>fn.
       bindR (stringToAsciiFile (xos e) fn (uint_2_Str bn @ [NL]) w) (\<lambda>(_, w').
         Inr (mo\<lparr>lastVisitedBlock := bn\<rparr>, w'))))"

definition getLastBlockInMonitor :: "export_env \<Rightarrow> CMonitor \<Rightarrow> world \<Rightarrow> 64 word result" where
  "getLastBlockInMonitor e mo w =
     bindR (getMonitorPathLast e (maddress mo) False) (\<lambda>fn. Inr (str_2_Uint (asciiFileToString w fn)))"

text \<open>The deploy block comes from the node and \<open>startWhenDeployed\<close> from the configuration.\<close>

definition getLastVisited :: "export_env \<Rightarrow> bool \<Rightarrow> (string \<Rightarrow> 64 word) \<Rightarrow> bool \<Rightarrow> CMonitor \<Rightarrow> world \<Rightarrow> (64 word \<times> CMonitor) result" where
  "getLastVisited e startWhenDeployed getDeployBlock fresh mo w =
     (if lastVisitedBlock mo = NOPOS \<or> fresh
      then bindR (getMonitorPathLast e (maddress mo) False) (\<lambda>fn.
             let mo' =
               (if fileExists w fn then mo\<lparr>lastVisitedBlock := str_2_Uint (asciiFileToString w fn)\<rparr>
                else if startWhenDeployed
                then (let deployed = getDeployBlock (maddress mo)
                      in mo\<lparr>lastVisitedBlock := (if deployed = NOPOS then 0 else deployed)\<rparr>)
                else mo)
             in Inr (lastVisitedBlock mo', mo'))
      else Inr (lastVisitedBlock mo, mo))"

definition monitorExists :: "export_env \<Rightarrow> CMonitor \<Rightarrow> world \<Rightarrow> bool result" where
  "monitorExists e mo w =
     (if fileExists w (getMonitorPath e (maddress mo) False) then Inr True
      else bindR (getMonitorPathLast e (maddress mo) False) (\<lambda>fn.
             if fileExists w fn then Inr True
             else Inr (fileExists w (getMonitorPathDels e (maddress mo)))))"

definition isMonitorLocked :: "export_env \<Rightarrow> CMonitor \<Rightarrow> world \<Rightarrow> bool result" where
  "isMonitorLocked e mo w =
     (if fileExists w (lck (getMonitorPath e (maddress mo) False)) then Inr True
      else bindR (getMonitorPathLast e (maddress mo) False) (\<lambda>fn.
             if fileExists w (lck fn) then Inr True
             else Inr (fileExists w (lck (getMonitorPathDels e (maddress mo))))))"

definition clearMonitorLocks :: "export_env \<Rightarrow> CMonitor \<Rightarrow> world \<Rightarrow> world result" where
  "clearMonitorLocks e mo w =
     bindR (getMonitorPathLast e (maddress mo) False) (\<lambda>fn.
       Inr (remove_file (lck (getMonitorPathDels e (maddress mo)))
             (remove_file (lck fn) (remove_file (lck (getMonitorPath e (maddress mo) False)) w))))"

definition doMoveFile :: "string \<Rightarrow> string \<Rightarrow> world \<Rightarrow> world result" where
  "doMoveFile fromFn toFn w =
     (if fileExists w fromFn then bindR (moveFile fromFn toFn w) (\<lambda>(_, w'). Inr w') else Inr w)"

definition moveToProduction :: "export_env \<Rightarrow> bool \<Rightarrow> CMonitor \<times> world \<Rightarrow> (CMonitor \<times> world) result" where
  "moveToProduction e onStage = (\<lambda>(mo, w).
     if \<not> onStage then Inr (mo, w)
     else
       let addr = maddress mo; mo' = mo\<lparr>isStaging := False, tx_cache := None\<rparr>
       in bindR (clear_monitor mo w) (\<lambda>w1.
          bindR (getMonitorPathLast e addr True) (\<lambda>lastS.
          bindR (getMonitorPathLast e addr False) (\<lambda>lastP.
            let binExists = fileExists w1 (getMonitorPath e addr True); lastExists = fileExists w1 lastS; w2 = lockSection w1
            in if binExists \<or> lastExists
               then bindR (doMoveFile (getMonitorPath e addr True) (getMonitorPath e addr False) w2) (\<lambda>w3.
                    bindR (doMoveFile lastS lastP w3) (\<lambda>w4. Inr (mo', unlockSection w4)))
               else Inr (mo', unlockSection (remove_file lastS (remove_file (getMonitorPath e addr True) w2)))))))"

definition isDeleted :: "export_env \<Rightarrow> CMonitor \<Rightarrow> world \<Rightarrow> bool" where
  "isDeleted e mo w = fileExists w (getMonitorPathDels e (maddress mo))"

text \<open>\<open>now\<close> is the formatted time.\<close>

definition deleteMonitor :: "export_env \<Rightarrow> string \<Rightarrow> CMonitor \<Rightarrow> world \<Rightarrow> world result" where
  "deleteMonitor e now mo w =
     bindR (stringToAsciiFile (xos e) (getMonitorPathDels e (maddress mo)) now w) (\<lambda>(_, w'). Inr w')"

definition undeleteMonitor :: "export_env \<Rightarrow> CMonitor \<Rightarrow> world \<Rightarrow> world" where
  "undeleteMonitor e mo w = remove_file (getMonitorPathDels e (maddress mo)) w"

definition removeFile :: "string \<Rightarrow> world \<Rightarrow> world" where
  "removeFile fn w = remove_file (lck fn) (remove_file fn w)"

definition removeMonitor :: "export_env \<Rightarrow> CMonitor \<Rightarrow> world \<Rightarrow> world result" where
  "removeMonitor e mo w =
     bindR (getMonitorPathLast e (maddress mo) False) (\<lambda>fn.
       Inr (removeFile (getMonitorPathDels e (maddress mo)) (removeFile fn (removeFile (getMonitorPath e (maddress mo) False) w))))"

definition getBloom :: "CMonitor \<Rightarrow> (bloom_t \<times> CMonitor) result" where
  "getBloom mo =
     (if bloom_eq (mbloom mo) bloom_init
      then bindR (addr_2_Bloom (maddress mo) []) (\<lambda>(b, _). Inr (b, mo\<lparr>mbloom := b\<rparr>))
      else Inr (mbloom mo, mo))"

text \<open>The records of a monitor file as \<^verbatim>\<open>loadAppsFromPath\<close> reads them into its buffer.\<close>

fun get_monitored :: "nat \<Rightarrow> bytes \<Rightarrow> CMonitoredAppearance list" where
  "get_monitored 0 b = []"
| "get_monitored (Suc n) b =
     \<lparr>mablk = le_word (take 4 b), matxid = le_word (take 4 (drop 4 b))\<rparr> # get_monitored n (drop 8 b)"

fun load_loop :: "(CMonitoredAppearance \<Rightarrow> 's \<Rightarrow> bool \<times> 's) option \<Rightarrow> CMonitoredAppearance list \<Rightarrow>
    CMonitoredAppearance list \<Rightarrow> 's \<Rightarrow> bool \<times> CMonitoredAppearance list \<times> 's" where
  "load_loop func [] apps data = (True, apps, data)"
| "load_loop func (b # buffer) apps data =
     (case func of
        None \<Rightarrow> load_loop func buffer (apps @ [b]) data
      | Some f \<Rightarrow> (case f b data of (ok, data') \<Rightarrow>
          if ok then load_loop func buffer (apps @ [b]) data' else (False, apps @ [b], data')))"

definition loadAppsFromPath :: "export_env \<Rightarrow> CMonitor \<Rightarrow> string \<Rightarrow> (CMonitoredAppearance \<Rightarrow> 's \<Rightarrow> bool \<times> 's) option \<Rightarrow>
    world \<Rightarrow> CMonitoredAppearance list \<Rightarrow> 's \<Rightarrow> bool \<times> CMonitoredAppearance list \<times> 's" where
  "loadAppsFromPath e mo pathIn func w apps data =
     (let path = (if pathIn = [] then getMonitorPath e (maddress mo) False else pathIn); nRecs = getRecordCnt w path
      in if nRecs = 0 then (False, apps, data)
         else load_loop func (get_monitored nRecs (map byte_of (contents_of w path))) apps data)"

definition cleanMonitorStage :: "export_env \<Rightarrow> world \<Rightarrow> world" where
  "cleanMonitorStage e w = cleanFolder (getMonitorPath e [] True) w"

section \<open>Freshening\<close>

record CScrapeStatistics =
  nFiles :: "64 word"
  nSkipped :: "64 word"
  nChecked :: "64 word"
  nBloomMisses :: "64 word"
  nBloomHits :: "64 word"
  nFalsePositive :: "64 word"
  nPositive :: "64 word"
  nStageChecked :: "64 word"
  nStageHits :: "64 word"
  nTotalHits :: "64 word"
  nFileRecords :: "64 word"

record export_state =
  allMonitors :: "CMonitor list"
  possibles :: "CMonitor list"
  fileRange :: "64 word \<times> 64 word"
  listRange :: "64 word \<times> 64 word"
  stats :: CScrapeStatistics
  tmp :: "CMonitoredAppearance list"

abbreviation xindexFolder_blooms :: "export_env \<Rightarrow> string" where
  "xindexFolder_blooms e \<equiv> xindexPath e @ ''blooms/''"

abbreviation xindexFolder_finalized :: "export_env \<Rightarrow> string" where
  "xindexFolder_finalized e \<equiv> xindexPath e @ ''finalized/''"

definition establishIndexChunk :: "export_env \<Rightarrow> string \<Rightarrow> world \<Rightarrow> bool \<times> world" where
  "establishIndexChunk e fullPathToChunk w =
     (if fileExists w fullPathToChunk then (True, w)
      else let w' = fetchChunk e fullPathToChunk w in (fileExists w' fullPathToChunk, w'))"

text \<open>The monitors whose bloom hits: their addresses, and the monitors with the cached blooms.\<close>

fun bloom_hits :: "bloom_t list \<Rightarrow> CMonitor list \<Rightarrow> (string list \<times> CMonitor list) result" where
  "bloom_hits bloomArray [] = Inr ([], [])"
| "bloom_hits bloomArray (mo # mos) =
     bindR (getBloom mo) (\<lambda>(b, mo').
     bindR (isMember bloomArray b) (\<lambda>isHit.
     bindR (bloom_hits bloomArray mos) (\<lambda>(hits, mos').
       Inr (if isHit then maddress mo # hits else hits, mo' # mos'))))"

text \<open>\<^verbatim>\<open>for (auto monitor : possibles)\<close> works on copies.\<close>

fun write_last_all :: "export_env \<Rightarrow> 64 word \<Rightarrow> CMonitor list \<Rightarrow> world \<Rightarrow> world result" where
  "write_last_all e bn [] w = Inr w"
| "write_last_all e bn (mo # mos) w =
     bindR (writeMonitorLastBlock e bn (isStaging mo) (duplicate mo, w)) (\<lambda>(_, w'). write_last_all e bn mos w')"

definition chunk_found :: "bytes \<Rightarrow> string \<Rightarrow> CIndexedAddress option result" where
  "chunk_found file addr =
     (let raw = load_chunk file
      in bindR (header_of raw) (\<lambda>h. bsearch raw (take 20 (addr_2_Bytes addr)) 0 (unat (hnAddrs h))))"

definition monitored :: "CIndexedAppearance \<Rightarrow> CMonitoredAppearance" where
  "monitored a = \<lparr>mablk = appblk a, matxid = txid a\<rparr>"

text \<open>
  The search for one monitor with a bloom hit. The chunk is read when the first monitor
  needs it. \<open>False\<close> is a failure to open a file.
\<close>

definition scan_monitor :: "export_env \<Rightarrow> string \<Rightarrow> bytes option \<Rightarrow> CMonitor \<Rightarrow> CScrapeStatistics \<Rightarrow> world \<Rightarrow>
    (bool \<times> bytes option \<times> CMonitor \<times> CScrapeStatistics \<times> world) result" where
  "scan_monitor e chunkPath chunk mo st w =
     bindR (openForWriting e (isStaging mo) (mo, w)) (\<lambda>(ok, mo1, w1).
       if \<not> ok then Inr (False, chunk, mo1, st, w1)
       else
         let opened = (case chunk of Some c \<Rightarrow> chunk
                       | None \<Rightarrow> if fileExists w1 chunkPath then Some (map byte_of (contents_of w1 chunkPath)) else None)
         in case opened of
              None \<Rightarrow> Inr (False, None, mo1, st, w1)
            | Some file \<Rightarrow>
                bindR (chunk_found file (maddress mo1)) (\<lambda>found.
                  case found of
                    None \<Rightarrow> Inr (True, opened, mo1, st\<lparr>nFalsePositive := nFalsePositive st + 1\<rparr>, w1)
                  | Some rec \<Rightarrow>
                      bindR (chunk_query file (maddress mo1)) (\<lambda>q.
                        let items = map monitored (case q of None \<Rightarrow> [] | Some l \<Rightarrow> l);
                            st1 = st\<lparr>nPositive := nPositive st + 1, nTotalHits := nTotalHits st + ucast (acnt rec)\<rparr>;
                            w2 = (if items \<noteq> [] then unlockSection (writeMonitorArray mo1 items (lockSection w1)) else w1)
                        in Inr (True, opened, mo1, st1, w2))))"

fun scan_possibles :: "export_env \<Rightarrow> string \<Rightarrow> string list \<Rightarrow> bytes option \<Rightarrow> CMonitor list \<Rightarrow> CScrapeStatistics \<Rightarrow> world \<Rightarrow>
    (bool \<times> CMonitor list \<times> CScrapeStatistics \<times> world) result" where
  "scan_possibles e chunkPath hits chunk [] st w = Inr (True, [], st, w)"
| "scan_possibles e chunkPath hits chunk (mo # mos) st w =
     bindR (shouldQuit (xos e) w) (\<lambda>(quit, w1).
       if quit then Inr (True, mo # mos, st, w1)
       else if maddress mo \<notin> set hits
       then bindR (scan_possibles e chunkPath hits chunk mos st w1) (\<lambda>(ok, mos', st', w'). Inr (ok, mo # mos', st', w'))
       else bindR (scan_monitor e chunkPath chunk mo st w1) (\<lambda>(ok, chunk', mo', st', w2).
              if \<not> ok then Inr (False, mo' # mos, st', w2)
              else bindR (scan_possibles e chunkPath hits chunk' mos st' w2) (\<lambda>(ok', mos', st'', w').
                     Inr (ok', mo' # mos', st'', w'))))"

definition visitBinaryFile :: "export_env \<Rightarrow> string \<Rightarrow> export_state \<times> world \<Rightarrow> (bool \<times> export_state \<times> world) result" where
  "visitBinaryFile e path = (\<lambda>(o0, w).
     let o1 = o0\<lparr>stats := (stats o0)\<lparr>nChecked := nChecked (stats o0) + 1\<rparr>\<rparr>
     in bindR (returned (substitute path (xindexFolder_blooms e) (xindexFolder_finalized e))) (\<lambda>p1.
        bindR (returned (substitute p1 ''.bloom'' ''.bin'')) (\<lambda>chunkPath.
        bindR (if fileExists w path
               then bindR (readBloomFromBinary (map byte_of (contents_of w path))) (\<lambda>bloomArray. bloom_hits bloomArray (possibles o1))
               else Inr ([], possibles o1)) (\<lambda>(hits, mos).
          let o2 = o1\<lparr>possibles := mos\<rparr>
          in if fileExists w path \<and> hits = []
             then bindR (write_last_all e (snd (fileRange o2) + 1) (possibles o2) w) (\<lambda>w1.
                    Inr (True, o2\<lparr>stats := (stats o2)\<lparr>nBloomMisses := nBloomMisses (stats o2) + 1\<rparr>\<rparr>, w1))
             else
               (case establishIndexChunk e chunkPath w of
                  (False, w1) \<Rightarrow> Inr (False, o2, w1)
                | (True, w1) \<Rightarrow>
                    let o3 = o2\<lparr>stats := (stats o2)\<lparr>nBloomHits := nBloomHits (stats o2) + 1\<rparr>\<rparr>
                    in bindR (scan_possibles e chunkPath hits None (possibles o3) (stats o3) w1) (\<lambda>(ok, mos', st', w2).
                         let o4 = o3\<lparr>possibles := mos', stats := st'\<rparr>
                         in if \<not> ok then Inr (False, o4, w2)
                            else bindR (write_last_all e (snd (fileRange o4) + 1) (possibles o4) w2) (\<lambda>w3.
                                   bindR (shouldQuit (xos e) w3) (\<lambda>(quit, w4). Inr (\<not> quit, o4, w4)))))))))"

text \<open>Emptying \<^verbatim>\<open>possibles\<close> runs the destructors, which release the monitors' files.\<close>

fun clear_all :: "CMonitor list \<Rightarrow> world \<Rightarrow> world result" where
  "clear_all [] w = Inr w"
| "clear_all (mo # mos) w = bindR (clear_monitor mo w) (clear_all mos)"

fun choose_possibles :: "export_env \<Rightarrow> 64 word \<Rightarrow> CMonitor list \<Rightarrow> world \<Rightarrow> CMonitor list result" where
  "choose_possibles e first [] w = Inr []"
| "choose_possibles e first (mo # mos) w =
     bindR (getLastBlockInMonitor e mo w) (\<lambda>bn.
     bindR (choose_possibles e first mos w) (\<lambda>rest.
       Inr (if bn = 0 \<or> bn < first then duplicate mo # rest else rest)))"

definition skip_file :: "export_env \<Rightarrow> export_state \<times> world \<Rightarrow> (bool \<times> export_state \<times> world) result" where
  "skip_file e = (\<lambda>(o1, w).
     bindR (shouldQuit (xos e) w) (\<lambda>(quit, w').
       Inr (\<not> quit, o1\<lparr>stats := (stats o1)\<lparr>nSkipped := nSkipped (stats o1) + 1\<rparr>\<rparr>, w')))"

definition visitFinalIndexFiles :: "export_env \<Rightarrow> string \<Rightarrow> export_state \<times> world \<Rightarrow> (bool \<times> export_state \<times> world) result" where
  "visitFinalIndexFiles e path = (\<lambda>(o0, w).
     let o1 = o0\<lparr>stats := (stats o0)\<lparr>nFiles := nFiles (stats o0) + 1\<rparr>\<rparr>
     in if \<not> contains path ''-'' \<or> \<not> endsWith path ''.bloom'' then skip_file e (o1, w)
        else bindR (bnFromPath path) (\<lambda>range.
          let o2 = o1\<lparr>fileRange := range\<rparr>
          in if \<not> rangesIntersect (listRange o2) (fileRange o2) then skip_file e (o2, w)
             else bindR (clear_all (possibles o2) w) (\<lambda>w1.
                  bindR (choose_possibles e (fst range) (allMonitors o2) w1) (\<lambda>mos.
                    let o3 = o2\<lparr>possibles := mos\<rparr>
                    in if mos = [] then skip_file e (o3, w1)
                       else bindR (visitBinaryFile e path (o3, w1)) (\<lambda>(ok, o4, w2).
                              if \<not> ok then Inr (False, o4, w2)
                              else bindR (shouldQuit (xos e) w2) (\<lambda>(quit, w3). Inr (\<not> quit, o4, w3)))))))"

fun promote_all :: "export_env \<Rightarrow> CMonitor list \<Rightarrow> world \<Rightarrow> world result" where
  "promote_all e [] w = Inr w"
| "promote_all e (mo # mos) w =
     bindR (moveToProduction e (isStaging mo) (duplicate mo, w)) (\<lambda>(_, w'). promote_all e mos w')"

text \<open>
  \<^verbatim>\<open>process_freshen\<close> for the finalized part of the index; with \<^verbatim>\<open>--unripe\<close> or
  \<^verbatim>\<open>--staging\<close> it only cleans the stage of the monitors.
\<close>

definition process_freshen :: "export_env \<Rightarrow> bool \<Rightarrow> export_state \<times> world \<Rightarrow> (export_state \<times> world) result" where
  "process_freshen e unripeOrStaging = (\<lambda>(o0, w).
     let w1 = cleanMonitorStage e w
     in if unripeOrStaging then Inr (o0, w1)
        else bindR (forAllFiles (visitFinalIndexFiles e) (sort (listFilesInFolder w1 (xindexFolder_blooms e) True)) (o0, w1))
               (\<lambda>(_, o1, w2). bindR (promote_all e (allMonitors o1) w2) (\<lambda>w3. Inr (o1, w3))))"

end
