(* ===== verification/Export.thy ===== *)
theory Export
  imports Monitor "HOL-Library.Product_Lexorder"
begin

text \<open>
  What \<^verbatim>\<open>acctExport\<close> does with the monitors besides freshening them: querying the stage
  and the unripe blocks (\<^verbatim>\<open>query_flatfile.cpp\<close>, \<^verbatim>\<open>query_staging.cpp\<close>,
  \<^verbatim>\<open>query_unripe.cpp\<close>), loading the appearances to export (\<^verbatim>\<open>query_loadapps.cpp\<close>),
  removing duplicates (\<^verbatim>\<open>process_clean.cpp\<close>), and deleting, restoring and removing
  monitors (\<^verbatim>\<open>process_rm.cpp\<close>).
\<close>

section \<open>The stage\<close>

fun strncmp :: "string \<Rightarrow> string \<Rightarrow> nat \<Rightarrow> int" where
  "strncmp s1 s2 0 = 0"
| "strncmp (a # s1) (b # s2) (Suc n) =
     (if a \<noteq> b then int (of_char a) - int (of_char b) else if a = CHR 0x00 then 0 else strncmp s1 s2 n)"
| "strncmp _ _ (Suc n) = 0"

definition sortByAddress :: "string \<Rightarrow> string \<Rightarrow> int" where
  "sortByAddress v1 v2 = strncmp v1 v2 59"

definition findAppearance2 :: "string \<Rightarrow> string \<Rightarrow> int" where
  "findAppearance2 v1 v2 = (if sortByAddress v1 v2 = 0 then 1 else 0)"

fun flat_records :: "nat \<Rightarrow> string \<Rightarrow> string list" where
  "flat_records 0 raw = []"
| "flat_records (Suc n) raw = take 59 raw # flat_records n (drop 59 raw)"

text \<open>\<^verbatim>\<open>qsort\<close> by \<open>sortByAddress\<close>: records are equal when they are up to a zero byte.\<close>

definition qsort_records :: "string list \<Rightarrow> string list" where
  "qsort_records recs = sort_key (takeWhile (\<lambda>c. c \<noteq> CHR 0x00)) recs"

function flat_bsearch :: "string list \<Rightarrow> string \<Rightarrow> nat \<Rightarrow> nat \<Rightarrow> nat option" where
  "flat_bsearch recs key l u =
     (if l < u then
        (let idx = (l + u) div 2; c = findAppearance2 key (recs ! idx)
         in if c < 0 then flat_bsearch recs key l idx
            else if c > 0 then flat_bsearch recs key (idx + 1) u
            else Some idx)
      else None)"
  by pat_completeness auto
termination by (relation "measure (\<lambda>(recs, key, l, u). u - l)") auto

declare flat_bsearch.simps [simp del]

text \<open>The search buffer: the address over what the 70 bytes held before, \<open>junk\<close>.\<close>

definition search_key :: "string \<Rightarrow> string \<Rightarrow> string result" where
  "search_key junk addr = (if length addr > 70 then Inl OutOfBounds else Inr ((addr @ drop (length addr) junk)[66 := CHR 0x00]))"

definition flat_appearance :: "string \<Rightarrow> CMonitoredAppearance" where
  "flat_appearance found =
     (let s = c_str found; rest = snd (nextTokenClear s TAB True); b = fst (nextTokenClear rest TAB True)
      in \<lparr>mablk = ucast (str_2_Uint b), matxid = ucast (str_2_Uint s)\<rparr>)"

text \<open>The loop over the monitors; \<open>False\<close> is a monitor that could not be opened.\<close>

fun flat_loop :: "export_env \<Rightarrow> string \<Rightarrow> string list \<Rightarrow> CMonitor list \<Rightarrow> CMonitoredAppearance list \<Rightarrow> CScrapeStatistics \<Rightarrow> world \<Rightarrow>
    (bool \<times> CMonitor list \<times> CMonitoredAppearance list \<times> CScrapeStatistics \<times> world) result" where
  "flat_loop e junk recs [] apps st w = Inr (True, [], apps, st, w)"
| "flat_loop e junk recs (mo # mos) apps st w =
     bindR (shouldQuit (xos e) w) (\<lambda>(quit, w1).
       if quit then Inr (True, mo # mos, apps, st, w1)
       else bindR (openForWriting e (isStaging mo) (mo, w1)) (\<lambda>(ok, mo', w2).
         if \<not> ok then Inr (False, mo' # mos, apps, st, w2)
         else bindR (search_key junk (maddress mo')) (\<lambda>search.
           let (recs', apps', st') =
             (case flat_bsearch recs search 0 (length recs) of
                None \<Rightarrow> (recs, apps, st)
              | Some i \<Rightarrow>
                  let found = (recs ! i)[58 := CHR 0x00]
                  in (recs[i := found], apps @ [flat_appearance found], st\<lparr>nStageHits := nStageHits st + 1\<rparr>))
           in bindR (flat_loop e junk recs' mos apps' st' w2) (\<lambda>(ok', mos', apps'', st'', w').
                Inr (ok', mo' # mos', apps'', st'', w')))))"

definition queryFlatFile :: "export_env \<Rightarrow> string \<Rightarrow> string \<Rightarrow> export_state \<times> world \<Rightarrow> (bool \<times> export_state \<times> world) result" where
  "queryFlatFile e junk path = (\<lambda>(o1, w).
     bindR (if \<not> fileExists w path then Inr (o1, w)
            else
              let recs = qsort_records (flat_records (fileSize w path div 59) (contents_of w path))
              in bindR (flat_loop e junk recs (allMonitors o1) (tmp o1) (stats o1) w) (\<lambda>(_, mos, apps, st, w').
                   Inr (o1\<lparr>allMonitors := mos, tmp := apps, stats := st\<rparr>, w'))) (\<lambda>(o2, w1).
       bindR (shouldQuit (xos e) w1) (\<lambda>(quit, w2). Inr (\<not> quit, o2, w2))))"

text \<open>\<open>visitStagingIndexFiles\<close> with ''staging/0'' and \<open>visitUnripeIndexFiles\<close> with ''unripe/0''.\<close>

definition visit_flat :: "export_env \<Rightarrow> string \<Rightarrow> string \<Rightarrow> string \<Rightarrow> export_state \<times> world \<Rightarrow> (bool \<times> export_state \<times> world) result" where
  "visit_flat e junk pattern path = (\<lambda>(o0, w).
     let o1 = o0\<lparr>stats := (stats o0)\<lparr>nFiles := nFiles (stats o0) + 1\<rparr>\<rparr>
     in if \<not> contains path pattern \<or> \<not> endsWith path ''.txt'' \<or> contains path ''-temp'' then skip_file e (o1, w)
        else bindR (bnFromPath path) (\<lambda>range.
          let o2 = o1\<lparr>fileRange := range\<rparr>
          in if \<not> rangesIntersect (listRange o2) (fileRange o2) then skip_file e (o2, w)
             else queryFlatFile e junk path (o2\<lparr>stats := (stats o2)\<lparr>nStageChecked := nStageChecked (stats o2) + 1\<rparr>\<rparr>, w)))"

definition visitStagingIndexFiles :: "export_env \<Rightarrow> string \<Rightarrow> string \<Rightarrow> export_state \<times> world \<Rightarrow> (bool \<times> export_state \<times> world) result" where
  "visitStagingIndexFiles e junk = visit_flat e junk ''staging/0''"

definition visitUnripeIndexFiles :: "export_env \<Rightarrow> string \<Rightarrow> string \<Rightarrow> export_state \<times> world \<Rightarrow> (bool \<times> export_state \<times> world) result" where
  "visitUnripeIndexFiles e junk = visit_flat e junk ''unripe/0''"

section \<open>Loading\<close>

record load_maps =
  prefundAddrMap :: "(32 word \<times> string) list"
  blkRewardMap :: "(32 word \<times> string) list"
  fileRecords :: "64 word"

definition visitOnLoad :: "string \<Rightarrow> CMonitoredAppearance \<Rightarrow> load_maps \<Rightarrow> bool \<times> load_maps" where
  "visitOnLoad curMonitor app d =
     (let d1 = (if mablk app = 0 then d\<lparr>prefundAddrMap := AList.update (matxid app) curMonitor (prefundAddrMap d)\<rparr> else d);
          d2 = (if matxid app = 99997 \<or> matxid app = 99998 \<or> matxid app = 99999
                then d1\<lparr>blkRewardMap := AList.update (mablk app) curMonitor (blkRewardMap d1)\<rparr> else d1)
      in (True, d2\<lparr>fileRecords := fileRecords d2 + 1\<rparr>))"

fun load_monitors :: "export_env \<Rightarrow> CMonitor list \<Rightarrow> world \<Rightarrow> CMonitoredAppearance list \<Rightarrow> load_maps \<Rightarrow>
    bool \<times> CMonitoredAppearance list \<times> load_maps" where
  "load_monitors e [] w apps d = (True, apps, d)"
| "load_monitors e (mo # mos) w apps d =
     (case loadAppsFromPath e mo [] (Some (visitOnLoad (maddress mo))) w apps d of
        (ok, apps', d') \<Rightarrow> if ok then load_monitors e mos w apps' d' else (False, apps', d'))"

abbreviation app_key :: "CMonitoredAppearance \<Rightarrow> 32 word \<times> 32 word" where
  "app_key a \<equiv> (mablk a, matxid a)"

text \<open>
  The selection of the records to export. \<^verbatim>\<open>sortMonitoredAppearanceReverse\<close> is not a
  strict order, and sorting equal records by it is undefined.
\<close>

definition select_records :: "bool \<Rightarrow> 64 word \<Rightarrow> 64 word \<Rightarrow> 64 word \<Rightarrow> CMonitoredAppearance list \<Rightarrow> CMonitoredAppearance list result" where
  "select_records reversed first_record max_records clientBlk tmpIn =
     bindR (if reversed then (if distinct tmpIn then Inr (rev (sort_key app_key tmpIn)) else Inl OutOfBounds) else Inr tmpIn) (\<lambda>l.
       let stop = unat (min (word_of_nat (length l)) (first_record + max_records))
       in Inr (filter (\<lambda>a. \<not> ucast (mablk a) > clientBlk) (drop (unat first_record) (take stop l))))"

section \<open>Cleaning\<close>

fun dedup_loop :: "CMonitoredAppearance \<Rightarrow> CMonitoredAppearance list \<Rightarrow> CMonitoredAppearance list" where
  "dedup_loop prv [] = []"
| "dedup_loop prv (a # apps) =
     (if mablk a \<noteq> mablk prv \<or> matxid a \<noteq> matxid prv then a # dedup_loop a apps else dedup_loop a apps)"

definition cleanMonitorFile :: "export_env \<Rightarrow> string \<Rightarrow> world \<Rightarrow> (bool \<times> world) result" where
  "cleanMonitorFile e path w =
     bindR (if \<not> endsWith path ''acct.bin'' \<or> getRecordCnt w path = 0 then Inr (True, w)
            else
              case loadAppsFromPath e (monitor_new []) path None w [] () of
                (loaded, apps, _) \<Rightarrow>
                  let deduped = dedup_loop \<lparr>mablk = 0, matxid = 0\<rparr> (sort_key app_key apps)
                  in if \<not> loaded then Inr (False, w)
                     else bindR (Lock (xos e) path modeWriteCreate LOCK_WAIT (resource_new, w)) (\<lambda>(ok, r, w1).
                       if \<not> ok then Inl OutOfBounds
                       else bindR (Release (r, append_to path (text_of (concat (map put_monitored deduped))) w1)) (\<lambda>(_, w2). Inr (True, w2)))) (\<lambda>(loaded, w').
       if \<not> loaded then Inr (False, w') else bindR (shouldQuit (xos e) w') (\<lambda>(quit, w''). Inr (\<not> quit, w'')))"

section \<open>Deleting, restoring and removing\<close>

datatype rm_result =
    STR_NOTFOUND string
  | STR_DELETEFIRST string
  | STR_ALREADYDELETED string
  | STR_DELETED string
  | STR_UNDELETED string
  | STR_REMOVED string

text \<open>One command on one address; the last result is logged, which needs one.\<close>

definition rm_step :: "export_env \<Rightarrow> string \<Rightarrow> string \<Rightarrow> string \<Rightarrow> rm_result list \<times> world \<Rightarrow> (rm_result list \<times> world) result" where
  "rm_step e now crudCmd addr = (\<lambda>(results, w).
     let mo = monitor_new addr
     in bindR (monitorExists e mo w) (\<lambda>ex.
       if \<not> ex then Inr (results @ [STR_NOTFOUND addr], w)
       else
         bindR (if crudCmd = ''remove'' then
                  (if isDeleted e mo w then bindR (removeMonitor e mo w) (\<lambda>w'. Inr (results @ [STR_REMOVED addr], w'))
                   else Inr (results @ [STR_DELETEFIRST addr], w))
                else if crudCmd = ''delete'' then
                  (if isDeleted e mo w then Inr (results @ [STR_ALREADYDELETED addr], w)
                   else bindR (deleteMonitor e now mo w) (\<lambda>w'. Inr (results @ [STR_DELETED addr], w')))
                else if crudCmd = ''undelete'' then
                  (if isDeleted e mo w then Inr (results @ [STR_UNDELETED addr], undeleteMonitor e mo w)
                   else Inr (results @ [STR_DELETEFIRST addr], w))
                else Inr (results, w)) (\<lambda>(results', w').
           if results' = [] then Inl OutOfBounds else Inr (results', w'))))"

fun rm_loop :: "export_env \<Rightarrow> string \<Rightarrow> (string \<times> string) list \<Rightarrow> rm_result list \<times> world \<Rightarrow> (rm_result list \<times> world) result" where
  "rm_loop e now [] s = Inr s"
| "rm_loop e now ((crudCmd, addr) # rest) s = bindR (rm_step e now crudCmd addr s) (rm_loop e now rest)"

definition process_rm :: "export_env \<Rightarrow> string \<Rightarrow> string list \<Rightarrow> string list \<Rightarrow> world \<Rightarrow> (rm_result list \<times> world) result" where
  "process_rm e now crudCommands addrs w =
     rm_loop e now (concat (map (\<lambda>c. map (Pair c) addrs) crudCommands)) ([], w)"

end
