(* ===== verification/Files_Correct.thy ===== *)
theory Files_Correct
  imports Files
begin

text \<open>
  What the file layer guarantees: the disk behaves as a map from names to contents (locale
  \<open>file_store\<close>), a write under a lock leaves its contents and no lock file, a lock held by
  someone else keeps a waiting writer out, text files read back what was written, and the
  first and last file of a folder are its least and greatest names.
\<close>

section \<open>The disk\<close>

locale file_store =
  fixes look :: "'w \<Rightarrow> string \<Rightarrow> string option"
    and put :: "string \<Rightarrow> string \<Rightarrow> 'w \<Rightarrow> 'w"
    and del :: "string \<Rightarrow> 'w \<Rightarrow> 'w"
  assumes look_put: "look (put fn s w) = (look w)(fn \<mapsto> s)"
    and look_del: "look (del fn w) = (look w)(fn := None)"
begin

lemma look_del_all: "look (fold del fns w) g = (if g \<in> set fns then None else look w g)"
  by (induction fns arbitrary: w) (auto simp: look_del)

lemma look_move: "look w a = Some s \<Longrightarrow> a \<noteq> b \<Longrightarrow> look (put b s (del a w)) = (look w)(a := None, b \<mapsto> s)"
  by (simp add: look_put look_del)

end

interpretation fs: file_store file_at put_file remove_file
  by unfold_locales
    (auto simp: file_at_def put_file_def remove_file_def AList.update_conv' AList.delete_conv')

lemmas file_at_simps [simp] = fs.look_put fs.look_del fs.look_del_all

text \<open>What a world keeps beside its files.\<close>

definition meta :: "world \<Rightarrow> 32 word \<times> string \<times> nat" where
  "meta w = (sectionLocks w, removeList w, polls w)"

lemma meta_files [simp]:
  "meta (put_file fn s w) = meta w" "meta (remove_file fn w) = meta w" "meta (append_to fn s w) = meta w"
  by (simp_all add: meta_def put_file_def remove_file_def append_to_def)

lemma meta_fields [simp]:
  "removeList (put_file fn s w) = removeList w" "removeList (remove_file fn w) = removeList w"
  "sectionLocks (put_file fn s w) = sectionLocks w" "sectionLocks (remove_file fn w) = sectionLocks w"
  "polls (put_file fn s w) = polls w" "polls (remove_file fn w) = polls w"
  by (simp_all add: put_file_def remove_file_def)

lemma file_at_meta [simp]:
  "file_at (lockSection w) = file_at w" "file_at (unlockSection w) = file_at w"
  "file_at (w\<lparr>removeList := l\<rparr>) = file_at w" "file_at (w\<lparr>polls := n\<rparr>) = file_at w"
  by (simp_all add: fun_eq_iff file_at_def lockSection_def unlockSection_def)

lemma file_at_append [simp]: "file_at (append_to fn s w) = (file_at w)(fn \<mapsto> contents_of w fn @ s)"
  by (simp add: append_to_def)

lemma contents_of_eq: "file_at w fn = Some s \<Longrightarrow> contents_of w fn = s"
  by (simp add: contents_of_def)

lemma unlock_lock:
  "sectionLocks w \<noteq> - 1 \<Longrightarrow> sectionLocks w' = sectionLocks (lockSection w) \<Longrightarrow> sectionLocks (unlockSection w') = sectionLocks w"
  by (auto simp: lockSection_def unlockSection_def word_gt_0 eq_neg_iff_add_eq_0 add.commute)

lemma lock_meta [simp]:
  "removeList (lockSection w) = removeList w" "removeList (unlockSection w) = removeList w"
  "polls (lockSection w) = polls w" "polls (unlockSection w) = polls w"
  by (simp_all add: lockSection_def unlockSection_def)

section \<open>The list of files to remove\<close>

definition clean_name :: "string \<Rightarrow> bool" where
  "clean_name fn \<longleftrightarrow> fn \<noteq> [] \<and> set fn \<inter> {CHR '':'', CHR ''|'', CHR 0x00} = {}"

lemma clean_lck: "clean_name fn \<Longrightarrow> clean_name (lck fn)"
  by (auto simp: clean_name_def lck_def)

lemma clean_absent: "clean_name fn \<Longrightarrow> find_sub ''r:'' fn = None"
  by (rule find_sub_absent [of "CHR '':''"]) (auto simp: clean_name_def)

lemma clean_not_clear: "clean_name fn \<Longrightarrow> lck fn \<noteq> ''clear''"
  by (auto simp: lck_def append_eq_Cons_conv)

lemma not_startsWith_r: "clean_name fn \<Longrightarrow> \<not> startsWith fn ''r:''"
proof
  assume c: "clean_name fn" and "startsWith fn ''r:''"
  then have "take 2 fn = ''r:''"
    using c_str_id [of fn] by (auto simp: startsWith_def extract_q_def clean_name_def Let_def numeral_2_eq_2 split: if_splits)
  then have "CHR '':'' \<in> set (take 2 fn)" by simp
  then show False using c in_set_takeD by (fastforce simp: clean_name_def)
qed

lemma manageRemoveList_add:
  assumes "clean_name fn" "\<not> contains (removeList w) (lck fn @ ''|'')"
  shows "manageRemoveList (lck fn) w = Inr (removeList w @ lck fn @ ''|'', w\<lparr>removeList := removeList w @ lck fn @ ''|''\<rparr>)"
proof -
  note cl = clean_lck [OF assms(1)]
  have "substitute (lck fn) ''r:'' [] = Some (lck fn)"
    by (rule substitute_absent) (simp_all add: clean_absent [OF cl])
  moreover have "lck fn \<noteq> []" by (simp add: lck_def)
  ultimately show ?thesis
    using assms(2) clean_not_clear [OF assms(1)] not_startsWith_r [OF cl] by (simp add: manageRemoveList_def Let_def)
qed

lemma manageRemoveList_del:
  assumes "clean_name fn" "removeList w = L @ lck fn @ ''|''" "\<not> contains L (lck fn @ ''|'')"
  shows "manageRemoveList (''r:'' @ lck fn) w = Inr (L, w\<lparr>removeList := L\<rparr>)"
proof -
  note cl = clean_lck [OF assms(1)]
  have "find_sub ''r:'' (''r:'' @ lck fn) = Some 0" by (rule find_sub_prefix)
  then have "substitute (''r:'' @ lck fn) ''r:'' [] = Some ([] @ [] @ lck fn)"
    using clean_absent [OF cl] by (intro substitute_once) auto
  moreover have "startsWith (''r:'' @ lck fn) ''r:''"
    using c_str_id [of "''r:'' @ lck fn"] cl by (auto simp: startsWith_def extract_q_def clean_name_def Let_def)
  moreover have "find_sub (lck fn @ ''|'') (L @ (lck fn @ ''|'') @ []) = Some (length L)"
    using assms(3) cl by (intro find_sub_unique) (auto simp: contains_def clean_name_def)
  then have "replace_q (L @ lck fn @ ''|'') (lck fn @ ''|'') [] = L"
    by (simp add: replace_q_def extract_q_def extract_from_def c_str_def)
  moreover have "lck fn \<noteq> []" by (simp add: lck_def)
  ultimately show ?thesis using assms(2) by (simp add: manageRemoveList_def Let_def)
qed

section \<open>Writing under a lock\<close>

text \<open>
  A name can be written to when its lock file can be created, no one holds the lock and it
  is not on the list already.
\<close>

definition writable :: "env \<Rightarrow> world \<Rightarrow> string \<Rightarrow> bool" where
  "writable e w fn \<longleftrightarrow> clean_name fn \<and> creatable e fn \<and> creatable e (lck fn) \<and> file_at w (lck fn) = None \<and>
     \<not> contains (removeList w) (lck fn @ ''|'')"

lemma lck_neq [simp]: "lck fn \<noteq> fn" "fn \<noteq> lck fn"
  by (auto simp: lck_def)

lemma Lock_free:
  assumes "writable e w fn" "mode = modeWriteCreate \<or> mode = modeWriteAppend"
  shows "\<exists>w1. Lock e fn mode lt (resource_new, w) =
      Inr (True, \<lparr>m_mode = mode, m_error = 0, m_ownsLock = True, m_lockingUser = [], m_filename = fn, m_isOpen = True\<rparr>, w1) \<and>
    file_at w1 = (file_at w)(lck fn \<mapsto> [CHR 0x0A],
      fn \<mapsto> if mode = modeWriteCreate then [] else contents_of w fn) \<and>
    sectionLocks w1 = sectionLocks w \<and> polls w1 = polls w \<and> removeList w1 = removeList w @ lck fn @ ''|''"
proof -
  let ?w = "(put_file (lck fn) [CHR 0x0A] w)\<lparr>removeList := removeList w @ lck fn @ ''|''\<rparr>"
  have a: "await_lock e maxSecondsLock (lck fn) w = (True, w)"
    using assms(1) by (simp add: maxSecondsLock_def numeral_3_eq_3 fileExists_def writable_def)
  have m: "manageRemoveList (lck fn) (put_file (lck fn) [CHR 0x0A] w) = Inr (removeList w @ lck fn @ ''|'', ?w)"
    using assms(1) manageRemoveList_add [of fn "put_file (lck fn) [CHR 0x0A] w"]
    by (simp add: writable_def put_file_def)
  have c: "createLockFile e (lck fn) (r, w) = Inr (True, r\<lparr>m_ownsLock := True\<rparr>, ?w)" if "m_lockingUser r = []" for r
    using assms(1) m that by (simp add: createLockFile_def writable_def c_str_def)
  show ?thesis
    using assms c
    by (cases "file_at w fn")
      (auto simp: Lock_def createLock_def resource_new_def a open_file_def writable_def modeWriteCreate_def
        modeWriteAppend_def modeReadOnly_def modeReadWrite_def put_file_def contents_of_def fun_eq_iff file_at_def
        AList.update_conv')
qed

lemma Release_owned:
  assumes "clean_name fn" "removeList w = L @ lck fn @ ''|''" "\<not> contains L (lck fn @ ''|'')" "m_ownsLock r" "m_filename r = fn"
  shows "\<exists>r' w'. Release (r, w) = Inr (r', w') \<and> file_at w' = (file_at w)(lck fn := None) \<and>
    sectionLocks w' = sectionLocks w \<and> polls w' = polls w \<and> removeList w' = L"
  using assms manageRemoveList_del [OF assms(1) _ assms(3), of "remove_file (lck fn) w"]
  by (auto simp: Release_def Close_resource_def remove_file_def file_at_def AList.delete_conv' Let_def fun_eq_iff)

text \<open>A whole session: lock, change the file, release. Only the file changes.\<close>

lemma session:
  assumes "writable e w fn" "mode = modeWriteCreate \<or> mode = modeWriteAppend"
  shows "\<exists>r w1. Lock e fn mode lt (resource_new, w) = Inr (True, r, w1) \<and>
    contents_of w1 fn = (if mode = modeWriteCreate then [] else contents_of w fn) \<and>
    (\<forall>w2 s. file_at w2 = (file_at w1)(fn \<mapsto> s) \<longrightarrow> meta w2 = meta w1 \<longrightarrow>
      (\<exists>r' w3. Release (r, w2) = Inr (r', w3) \<and> file_at w3 = (file_at w)(fn \<mapsto> s) \<and> meta w3 = meta w))"
proof -
  obtain w1 where w1: "Lock e fn mode lt (resource_new, w) =
      Inr (True, \<lparr>m_mode = mode, m_error = 0, m_ownsLock = True, m_lockingUser = [], m_filename = fn, m_isOpen = True\<rparr>, w1)"
    "file_at w1 = (file_at w)(lck fn \<mapsto> [CHR 0x0A], fn \<mapsto> if mode = modeWriteCreate then [] else contents_of w fn)"
    "sectionLocks w1 = sectionLocks w" "polls w1 = polls w" "removeList w1 = removeList w @ lck fn @ ''|''"
    using Lock_free [OF assms] by blast
  define r where "r = \<lparr>m_mode = mode, m_error = 0, m_ownsLock = True, m_lockingUser = [], m_filename = fn, m_isOpen = True\<rparr>"
  have r: "m_ownsLock r" "m_filename r = fn" by (simp_all add: r_def)
  have fn: "clean_name fn" "\<not> contains (removeList w) (lck fn @ ''|'')" "file_at w (lck fn) = None"
    using assms(1) by (simp_all add: writable_def)
  have "\<exists>r' w3. Release (r, w2) = Inr (r', w3) \<and> file_at w3 = (file_at w)(fn \<mapsto> s) \<and> meta w3 = meta w"
    if w2: "file_at w2 = (file_at w1)(fn \<mapsto> s)" "meta w2 = meta w1" for w2 s
  proof -
    have "removeList w2 = removeList w @ lck fn @ ''|''" using w2(2) w1(5) by (simp add: meta_def)
    from Release_owned [OF fn(1) this fn(2) r] obtain r' w3 where "Release (r, w2) = Inr (r', w3)"
      "file_at w3 = (file_at w2)(lck fn := None)" "sectionLocks w3 = sectionLocks w2"
      "polls w3 = polls w2" "removeList w3 = removeList w" by blast
    then show ?thesis using w2 w1 fn(3) by (auto simp: meta_def fun_eq_iff)
  qed
  then show ?thesis using w1 unfolding r_def [symmetric] by (auto simp: contents_of_def)
qed

lemma stringToAsciiFile_free:
  assumes "writable e w fn" "CHR 0x00 \<notin> set s"
  shows "\<exists>w'. stringToAsciiFile e fn s w = Inr (True, w') \<and> file_at w' = (file_at w)(fn \<mapsto> s) \<and> meta w' = meta w"
proof -
  obtain r w1 where 1: "Lock e fn modeWriteCreate LOCK_WAIT (resource_new, w) = Inr (True, r, w1)" "contents_of w1 fn = []"
    "\<And>w2 s. file_at w2 = (file_at w1)(fn \<mapsto> s) \<Longrightarrow> meta w2 = meta w1 \<Longrightarrow>
      \<exists>r' w3. Release (r, w2) = Inr (r', w3) \<and> file_at w3 = (file_at w)(fn \<mapsto> s) \<and> meta w3 = meta w"
    using session [OF assms(1), of modeWriteCreate] by fastforce
  from 1(3) [of "append_to fn s w1" s] show ?thesis
    using 1(1,2) c_str_id [OF assms(2)] by (auto simp: stringToAsciiFile_def)
qed

lemma fold_append_to:
  assumes "file_at w fn \<noteq> None"
  shows "file_at (fold (\<lambda>x. append_to fn (f x)) xs w) = (file_at w)(fn \<mapsto> contents_of w fn @ concat (map f xs)) \<and>
    meta (fold (\<lambda>x. append_to fn (f x)) xs w) = meta w"
  using assms
proof (induction xs arbitrary: w)
  case (Cons x xs)
  then show ?case using Cons.IH [of "append_to fn (f x) w"] by (auto simp: contents_of_def)
qed (auto simp: contents_of_def fun_eq_iff)

lemma linesToAsciiFile_free:
  assumes "writable e w fn" "\<forall>l \<in> set lines. CHR 0x00 \<notin> set l" "sep \<noteq> CHR 0x00"
  shows "\<exists>n w'. linesToAsciiFile e fn lines sep w = Inr (n, w') \<and>
    file_at w' = (file_at w)(fn \<mapsto> contents_of w fn @ linesToString lines sep) \<and> meta w' = meta w"
proof -
  have ne: "modeWriteAppend \<noteq> modeWriteCreate" by (simp add: modeWriteAppend_def modeWriteCreate_def)
  obtain r w1 where 1: "Lock e fn modeWriteAppend LOCK_WAIT (resource_new, w) = Inr (True, r, w1)"
    "contents_of w1 fn = contents_of w fn"
    "\<And>w2 s. file_at w2 = (file_at w1)(fn \<mapsto> s) \<Longrightarrow> meta w2 = meta w1 \<Longrightarrow>
      \<exists>r' w3. Release (r, w2) = Inr (r', w3) \<and> file_at w3 = (file_at w)(fn \<mapsto> s) \<and> meta w3 = meta w"
    using session [OF assms(1), of modeWriteAppend] ne by fastforce
  obtain w1' where w1': "Lock e fn modeWriteAppend LOCK_WAIT (resource_new, w) =
      Inr (True, \<lparr>m_mode = modeWriteAppend, m_error = 0, m_ownsLock = True, m_lockingUser = [], m_filename = fn, m_isOpen = True\<rparr>, w1')"
      "file_at w1' fn \<noteq> None"
    using Lock_free [OF assms(1), of modeWriteAppend LOCK_WAIT] by auto
  then have some: "file_at w1 fn \<noteq> None" using 1(1) by simp
  define w2 where "w2 = fold (\<lambda>line. append_to fn (c_str (line @ [sep]))) lines w1"
  have "concat (map (\<lambda>line. c_str (line @ [sep])) lines) = linesToString lines sep"
    using assms(2,3) by (auto simp: linesToString_def c_str_id intro!: arg_cong [where f = concat] map_cong)
  then have "file_at w2 = (file_at w1)(fn \<mapsto> contents_of w fn @ linesToString lines sep)" "meta w2 = meta w1"
    using fold_append_to [OF some, of "\<lambda>line. c_str (line @ [sep])" lines] 1(2) by (simp_all add: w2_def)
  from 1(3) [OF this] show ?thesis using 1(1) assms(3) by (auto simp: linesToAsciiFile_def w2_def Let_def)
qed

text \<open>While someone else holds the lock, a writer that waits gives up and changes nothing.\<close>

lemma await_held:
  assumes "\<And>w. file_at (elapse e w) = file_at w" "fn \<noteq> []"
  shows "file_at w fn \<noteq> None \<Longrightarrow> fst (await_lock e n fn w) = False \<and> file_at (snd (await_lock e n fn w)) = file_at w"
proof (induction n arbitrary: w)
  case (Suc n)
  then show ?case using assms Suc.IH [of "elapse e w"] by (simp add: fileExists_def)
qed simp

lemma stringToAsciiFile_held:
  assumes "\<And>w. file_at (elapse e w) = file_at w" "file_at w (lck fn) \<noteq> None"
  shows "\<exists>w'. stringToAsciiFile e fn s w = Inr (False, w') \<and> file_at w' = file_at w"
proof -
  have "lck fn \<noteq> []" by (simp add: lck_def)
  from await_held [OF assms(1) this, of w maxSecondsLock] assms(2) obtain w1 where
    "await_lock e maxSecondsLock (lck fn) w = (False, w1)" "file_at w1 = file_at w"
    by (cases "await_lock e maxSecondsLock (lck fn) w") auto
  then show ?thesis
    by (auto simp: stringToAsciiFile_def Lock_def createLock_def resource_new_def Release_def Close_resource_def
      modeWriteCreate_def modeReadOnly_def modeWriteAppend_def modeReadWrite_def Let_def)
qed

section \<open>Lines\<close>

definition plain_line :: "char \<Rightarrow> string \<Rightarrow> bool" where
  "plain_line sep l \<longleftrightarrow> sep \<notin> set l \<and> CHR 0x00 \<notin> set l \<and> (l = [] \<or> hd l \<notin> set blanks \<and> last l \<notin> set blanks)"

lemma explode_linesToString:
  "\<forall>l \<in> set lines. plain_line sep l \<Longrightarrow> sep \<noteq> CHR 0x00 \<Longrightarrow> explode_loop True sep [] (linesToString lines sep) = lines"
proof (induction lines)
  case (Cons l lines)
  then have "plain_line sep l" by simp
  then have "explode_loop True sep [] (l @ sep # linesToString lines sep) = l # explode_loop True sep [] (linesToString lines sep)"
    using explode_loop_field [of sep l True "[]"] trimWhitespace_id [of l] by (auto simp: plain_line_def)
  then show ?case using Cons by (simp add: linesToString_def)
qed (simp add: linesToString_def)

lemma asciiFileToString_eq:
  assumes "file_at w fn = Some s" "fn \<noteq> []" "CHR 0x00 \<notin> set s"
  shows "asciiFileToString w fn = s"
proof -
  have "c_str (s @ [CHR 0x00]) = s" using assms(3) by (auto simp: c_str_def takeWhile_append)
  then show ?thesis using assms by (simp add: asciiFileToString_def fileExists_def contents_of_def)
qed

lemma asciiFileToLines_eq:
  assumes "file_at w fn = Some (linesToString lines sep)" "fn \<noteq> []" "\<forall>l \<in> set lines. plain_line sep l" "sep = CHR 0x0A"
  shows "asciiFileToLines w fn = lines"
proof -
  have "CHR 0x00 \<notin> set (linesToString lines sep)"
    using assms(3,4) by (auto simp: linesToString_def plain_line_def)
  from asciiFileToString_eq [OF assms(1,2) this] show ?thesis
    using explode_linesToString [OF assms(3)] assms(4) by (simp add: asciiFileToLines_def explode_into_def)
qed

lemma linesToString_append: "linesToString (a @ b) sep = linesToString a sep @ linesToString b sep"
  by (simp add: linesToString_def)

lemma linesToString_Nil [simp]: "linesToString [] sep = []"
  by (simp add: linesToString_def)

lemma length_linesToString:
  "\<forall>l \<in> set lines. length l = k \<Longrightarrow> sep \<noteq> CHR 0x00 \<Longrightarrow> length (linesToString lines sep) = length lines * (k + 1)"
  by (induction lines) (simp_all add: linesToString_def)

section \<open>Folders\<close>

lemma getLastFileInFolder_Max:
  "getLastFileInFolder w folder r =
    (if listFilesInFolder w folder r = [] then [] else Max (set (listFilesInFolder w folder r)))"
proof -
  let ?l = "listFilesInFolder w folder r"
  have "sort ?l ! (length ?l - 1) = Max (set ?l)" if "?l \<noteq> []"
  proof -
    have ne: "sort ?l \<noteq> []" using that by (metis length_0_conv length_sort)
    have "y \<le> last (sort ?l)" if "y \<in> set (sort ?l)" for y
      using that ne sorted_nth_mono [OF sorted_sort [of ?l]]
      by (auto simp: last_conv_nth in_set_conv_nth simp del: set_sort)
    then have "Max (set (sort ?l)) = last (sort ?l)" using last_in_set [OF ne] by (intro Max_eqI) auto
    then show ?thesis using ne by (simp add: last_conv_nth)
  qed
  moreover have "sort ?l = [] \<longleftrightarrow> ?l = []" by (metis length_0_conv length_sort)
  ultimately show ?thesis by (auto simp: getLastFileInFolder_def Let_def)
qed

lemma cleanFolder_effect:
  "file_at (cleanFolder path w) g =
    (if below path g \<and> \<not> contains (drop (length path) g) ''/.'' then None else file_at w g)"
proof -
  have "file_at w g = None" if "g \<notin> fst ` set (disk w)" using that by (simp add: file_at_def map_of_eq_None_iff)
  then show ?thesis by (auto simp: cleanFolder_def listFilesInFolder_def)
qed

end
