(* ===== verification/IndexChunk_Correct.thy ===== *)
theory IndexChunk_Correct
  imports IndexChunk
begin

text \<open>
  A chunk answers queries exactly: for sorted, well-formed records, looking up an address
  in the file that \<^verbatim>\<open>writeIndexAsBinary\<close> produces gives the appearances of that
  address, all of them and in order, and its bloom filters hold every address of the
  chunk. The proof goes through the table of runs that the loop writes (\<open>emit\<close>).
\<close>

section \<open>Well-formed records\<close>

text \<open>The fixed-width lines of the stage: an address, a block number of nine and a
  transaction number of five decimal digits, separated by tabs.\<close>

definition valid_line :: "string \<Rightarrow> bool" where
  "valid_line l \<longleftrightarrow> length l = 58 \<and> valid_addr (take 42 l) \<and> l ! 42 = TAB \<and>
     list_all isdigit (take 9 (drop 43 l)) \<and> l ! 52 = TAB \<and> list_all isdigit (drop 53 l)"

definition line_addr :: "string \<Rightarrow> string" where
  "line_addr l = take 42 l"

definition line_blk :: "string \<Rightarrow> string" where
  "line_blk l = take 9 (drop 43 l)"

definition line_tx :: "string \<Rightarrow> string" where
  "line_tx l = drop 53 l"

definition line_app :: "string \<Rightarrow> CIndexedAppearance" where
  "line_app l = appearance_of (line_blk l) (line_tx l)"

lemma digit_facts: "isdigit c \<Longrightarrow> c \<noteq> TAB \<and> c \<noteq> CHR 0x00 \<and> c \<notin> set blanks"
  by (auto simp: isdigit_range blanks_def)

lemma hex_facts: "is_hex c \<Longrightarrow> c \<noteq> TAB \<and> c \<noteq> CHR 0x00 \<and> c \<notin> set blanks"
  by (auto simp: is_hex_range blanks_def)

lemma trimWhitespace_plain:
  assumes "\<forall>c \<in> set s. c \<noteq> CHR 0x00 \<and> c \<notin> set blanks"
  shows "trimWhitespace s [] = s"
  using assms by (intro trimWhitespace_id) (auto intro: hd_in_set last_in_set)

lemma line_split:
  assumes "valid_line l"
  shows "l = line_addr l @ TAB # line_blk l @ TAB # line_tx l"
proof -
  have len: "length l = 58" using assms by (simp add: valid_line_def)
  have "l = take 42 l @ l ! 42 # drop 43 l" using len id_take_nth_drop [of 42 l] by simp
  also have "drop 43 l = take 9 (drop 43 l) @ drop 9 (drop 43 l)"
    by (rule append_take_drop_id [symmetric])
  also have "drop 9 (drop 43 l) = l ! 52 # drop 53 l" using len Cons_nth_drop_Suc [of 52 l] by simp
  finally show ?thesis using assms by (simp add: valid_line_def line_addr_def line_blk_def line_tx_def)
qed

lemma explode_line:
  assumes "valid_line l"
  shows "explode_into [] l TAB True = [line_addr l, line_blk l, line_tx l]"
proof -
  have a: "\<forall>c \<in> set (line_addr l). c \<noteq> TAB \<and> c \<noteq> CHR 0x00 \<and> c \<notin> set blanks"
  proof -
    from assms obtain r where r: "line_addr l = ''0x'' @ r" "list_all is_hex r"
      by (auto simp: valid_line_def line_addr_def elim!: valid_addrE)
    then show ?thesis using hex_facts by (auto simp: list_all_iff blanks_def)
  qed
  have b: "\<forall>c \<in> set (line_blk l). c \<noteq> TAB \<and> c \<noteq> CHR 0x00 \<and> c \<notin> set blanks"
    and t: "\<forall>c \<in> set (line_tx l). c \<noteq> TAB"
    using assms digit_facts by (auto simp: valid_line_def line_blk_def line_tx_def list_all_iff)
  have ne: "line_tx l \<noteq> []" using assms by (auto simp: valid_line_def line_tx_def)
  have "explode_loop True TAB [] l = explode_loop True TAB [] (line_addr l @ TAB # line_blk l @ TAB # line_tx l)"
    using line_split [OF assms] by simp
  also have "\<dots> = [line_addr l, line_blk l, line_tx l]"
    using a b t ne
    by (subst explode_loop_field, blast, subst explode_loop_field, blast, subst explode_loop_last, blast)
      (simp add: trimWhitespace_plain)
  finally show ?thesis by (simp add: explode_into_def)
qed

section \<open>The table of runs\<close>

fun emit :: "string \<Rightarrow> nat \<Rightarrow> nat \<Rightarrow> (string \<times> 'r) list \<Rightarrow> (string \<times> nat \<times> nat) list" where
  "emit a off c [] = [(a, off, c)]"
| "emit a off c ((b, r) # rs) = (if b = a then emit a off (c + 1) rs else (a, off, c) # emit b (off + c) 1 rs)"

definition put_entry :: "string \<times> nat \<times> nat \<Rightarrow> bytes" where
  "put_entry = (\<lambda>(a, off, c). addr_2_Bytes a @ put_word (word_of_nat off :: 32 word) @ put_word (word_of_nat c :: 32 word))"

definition line_rec :: "string \<Rightarrow> string \<times> CIndexedAppearance" where
  "line_rec l = (line_addr l, line_app l)"

lemma index_line_valid:
  assumes "valid_line l" "k \<noteq> 0"
  shows "index_line k l st =
    (let st1 = st\<lparr>blockTable := blockTable st @ [line_app l]\<rparr>
     in bindR (if prev st \<noteq> [] \<and> line_addr l \<noteq> prev st
               then bindR (write_address st1) (\<lambda>st2. Inr (st2\<lparr>offset := offset st2 + cnt st2, cnt := 0\<rparr>))
               else Inr st1) (\<lambda>st3. Inr (st3\<lparr>cnt := cnt st3 + 1, prev := line_addr l\<rparr>)))"
  using assms explode_line [OF assms(1)] by (simp add: index_line_def Let_def line_app_def read_at_def)

text \<open>The loop and the record after it, from a state inside a run of \<open>c\<close> records of
  \<open>prev st\<close> that starts at the record \<open>off\<close>.\<close>

lemma index_loop_emit:
  assumes "\<forall>l \<in> set lines. valid_line l" "k \<noteq> 0" "prev st \<noteq> []" "wf_set (blooms st)"
    "offset st = word_of_nat off" "cnt st = word_of_nat c"
  shows "\<exists>st1 st2. index_loop k lines st = Inr st1 \<and> write_address st1 = Inr st2 \<and>
    out st2 = out st @ concat (map put_entry (emit (prev st) off c (map line_rec lines))) \<and>
    blockTable st2 = blockTable st @ map line_app lines \<and>
    nAddrs st2 = nAddrs st + word_of_nat (length (emit (prev st) off c (map line_rec lines))) \<and>
    wf_set (blooms st2) \<and>
    length (blooms st2) \<le> length (blooms st) + 2 * length (emit (prev st) off c (map line_rec lines)) \<and>
    (\<forall>x. covered (blooms st) x \<or> x \<in> fst ` set (emit (prev st) off c (map line_rec lines)) \<longrightarrow> covered (blooms st2) x)"
  using assms(1,3-6)
proof (induction lines arbitrary: st off c)
  case Nil
  obtain bl where "addToSet (blooms st) (prev st) = Inr bl" "wf_set bl" "covered bl (prev st)"
    "\<forall>x. covered (blooms st) x \<longrightarrow> covered bl x" "length bl \<le> length (blooms st) + 2"
    using addToSet_correct [OF Nil.prems(3)] by blast
  then show ?case using Nil.prems by (auto simp: write_address_def put_entry_def)
next
  case (Cons l lines)
  have v: "valid_line l" "\<forall>l \<in> set lines. valid_line l" using Cons.prems by auto
  have ne: "line_addr l \<noteq> []" using v(1) by (auto simp: valid_line_def line_addr_def)
  define st1 where "st1 = st\<lparr>blockTable := blockTable st @ [line_app l]\<rparr>"
  show ?case
  proof (cases "line_addr l = prev st")
    case True
    define st3 where "st3 = st1\<lparr>cnt := cnt st1 + 1, prev := line_addr l\<rparr>"
    have run: "index_loop k (l # lines) st = index_loop k lines st3"
      using True by (simp add: index_line_valid [OF v(1) assms(2)] Let_def st1_def [symmetric] st3_def)
    have "prev st3 = prev st" "prev st3 \<noteq> []" "wf_set (blooms st3)" "offset st3 = word_of_nat off"
      "cnt st3 = word_of_nat (c + 1)"
      using Cons.prems True by (auto simp: st3_def st1_def)
    with Cons.IH [OF v(2), of st3 off "c + 1"] show ?thesis
      unfolding run using True by (simp add: line_rec_def st3_def st1_def)
  next
    case False
    obtain bl where bl: "addToSet (blooms st) (prev st) = Inr bl" "wf_set bl" "covered bl (prev st)"
      "\<forall>x. covered (blooms st) x \<longrightarrow> covered bl x" "length bl \<le> length (blooms st) + 2"
      using addToSet_correct [OF Cons.prems(3)] by blast
    define st3 where "st3 = st1\<lparr>blooms := bl,
      out := out st1 @ addr_2_Bytes (prev st1) @ put_word (offset st1) @ put_word (cnt st1),
      nAddrs := nAddrs st1 + 1, offset := offset st1 + cnt st1, cnt := 1, prev := line_addr l\<rparr>"
    have run: "index_loop k (l # lines) st = index_loop k lines st3"
      using False Cons.prems bl(1)
      by (simp add: index_line_valid [OF v(1) assms(2)] Let_def write_address_def st1_def st3_def)
    have "prev st3 = line_addr l" "prev st3 \<noteq> []" "wf_set (blooms st3)"
      "offset st3 = word_of_nat (off + c)" "cnt st3 = word_of_nat 1"
      using Cons.prems bl ne by (auto simp: st3_def st1_def)
    with Cons.IH [OF v(2), of st3 "off + c" 1] obtain s1 s2 where s:
      "index_loop k lines st3 = Inr s1" "write_address s1 = Inr s2"
      "out s2 = out st3 @ concat (map put_entry (emit (line_addr l) (off + c) 1 (map line_rec lines)))"
      "blockTable s2 = blockTable st3 @ map line_app lines"
      "nAddrs s2 = nAddrs st3 + word_of_nat (length (emit (line_addr l) (off + c) 1 (map line_rec lines)))"
      "wf_set (blooms s2)"
      "length (blooms s2) \<le> length (blooms st3) + 2 * length (emit (line_addr l) (off + c) 1 (map line_rec lines))"
      "\<forall>x. covered (blooms st3) x \<or> x \<in> fst ` set (emit (line_addr l) (off + c) 1 (map line_rec lines)) \<longrightarrow>
         covered (blooms s2) x" by auto
    have e: "emit (prev st) off c (map line_rec (l # lines)) =
        (prev st, off, c) # emit (line_addr l) (off + c) 1 (map line_rec lines)"
      using False by (simp add: line_rec_def)
    have "out st3 = out st @ put_entry (prev st, off, c)" "blockTable st3 = blockTable st @ [line_app l]"
      "nAddrs st3 = nAddrs st + 1" "blooms st3 = bl"
      using Cons.prems by (simp_all add: st3_def st1_def put_entry_def)
    then show ?thesis using s bl(3-5) unfolding run e by auto
  qed
qed

lemma emit_head: "\<exists>c' rest. emit a off c rs = (a, off, c') # rest"
  by (induction a off c rs rule: emit.induct) auto

lemma emit_addrs: "fst ` set (emit a off c rs) = insert a (fst ` set rs)"
  by (induction a off c rs rule: emit.induct) auto

lemma emit_ascending:
  assumes "sorted (a # map fst rs)"
  shows "sorted_wrt (<) (map fst (emit a off c rs))"
  using assms
proof (induction a off c rs rule: emit.induct)
  case (2 a off c b r rs)
  show ?case
  proof (cases "b = a")
    case False
    then have "a < b" using 2(3) by auto
    moreover have "\<forall>x \<in> fst ` set rs. b \<le> x" using 2(3) by auto
    ultimately have "\<forall>x \<in> fst ` set (emit b (off + c) 1 rs). a < x" unfolding emit_addrs by auto
    then show ?thesis using False 2(2) [OF False] 2(3) by auto
  qed (use 2 in auto)
qed simp

text \<open>Every entry of the table names the records of its address: where they start and how
  many there are.\<close>

lemma emit_slices:
  assumes "length done = off" "\<forall>x \<in> set done. fst x < a" "\<forall>x \<in> set cur. fst x = a" "length cur = c"
    "sorted (a # map fst rs)" "(b, o', n) \<in> set (emit a off c rs)"
  shows "o' + n \<le> length (done @ cur @ rs) \<and>
    take n (drop o' (done @ cur @ rs)) = filter (\<lambda>x. fst x = b) (done @ cur @ rs)"
  using assms
proof (induction a off c rs arbitrary: "done" cur rule: emit.induct)
  case (1 a off c)
  then have "filter (\<lambda>x. fst x = a) done = []" "filter (\<lambda>x. fst x = a) cur = cur"
    by (auto simp: filter_empty_conv filter_id_conv)
  with 1 show ?case by auto
next
  case (2 a off c d r rs)
  show ?case
  proof (cases "d = a")
    case True
    from 2(1) [OF True, of "done" "cur @ [(d, r)]"] 2(3-) True show ?thesis by auto
  next
    case False
    then have ad: "a < d" using 2(7) by auto
    show ?thesis
    proof (cases "(b, o', n) = (a, off, c)")
      case True
      have "filter (\<lambda>x. fst x = a) done = []" "filter (\<lambda>x. fst x = a) cur = cur"
        using 2(4,5) by (auto simp: filter_empty_conv filter_id_conv)
      moreover have "filter (\<lambda>x. fst x = a) ((d, r) # rs) = []"
        using ad 2(7) by (auto simp: filter_empty_conv)
      ultimately show ?thesis using True 2(3,6) by auto
    next
      case ne: False
      then have m: "(b, o', n) \<in> set (emit d (off + c) 1 rs)" using 2(8) False by auto
      have "sorted (d # map fst rs)" using 2(7) by simp
      moreover have "\<forall>x \<in> set (done @ cur). fst x < d" using 2(4,5) ad by fastforce
      ultimately show ?thesis
        using 2(2) [OF False, of "done @ cur" "[(d, r)]"] 2(3,6) m by simp
    qed
  qed
qed

section \<open>The order of addresses and of their bytes\<close>

lemma take_mono: "x \<le> y \<Longrightarrow> take n x \<le> take n (y :: 'a::linorder list)"
proof (induction n arbitrary: x y)
  case (Suc n)
  then show ?case by (cases x; cases y) auto
qed simp

lemma sorted_line_addrs: "sorted lines \<Longrightarrow> sorted (map line_addr lines)"
  by (induction lines) (auto simp: line_addr_def take_mono)

lemma nibbles_less: "b < 16 \<Longrightarrow> d < 16 \<Longrightarrow> 16 * a + b < 16 * c + d \<longleftrightarrow> a < c \<or> a = c \<and> b < (d::nat)"
  by (cases a c rule: linorder_cases) auto

lemma nibbles_eq: "b < 16 \<Longrightarrow> d < 16 \<Longrightarrow> 16 * a + b = 16 * c + d \<longleftrightarrow> a = c \<and> b = (d::nat)"
  by (cases a c rule: linorder_cases) auto

lemma hex_pair_less:
  assumes "is_hex c" "is_hex d" "is_hex e" "is_hex f"
  shows "hex_2_Ascii c d < hex_2_Ascii e f \<longleftrightarrow> c < e \<or> c = e \<and> d < f"
    and "hex_2_Ascii c d = hex_2_Ascii e f \<longleftrightarrow> c = e \<and> d = f"
proof -
  have v: "hex_val c < 16" "hex_val d < 16" "hex_val e < 16" "hex_val f < 16"
    using assms hex_val_less by auto
  have "16 * hex_val c + hex_val d < 16 * hex_val e + hex_val f \<longleftrightarrow>
      hex_val c < hex_val e \<or> hex_val c = hex_val e \<and> hex_val d < hex_val f" by (rule nibbles_less [OF v(2,4)])
  then show "hex_2_Ascii c d < hex_2_Ascii e f \<longleftrightarrow> c < e \<or> c = e \<and> d < f"
    using assms by (simp add: word_less_nat_alt hex_2_Ascii_val hex_val_mono hex_val_inj)
  have "16 * hex_val c + hex_val d = 16 * hex_val e + hex_val f \<longleftrightarrow>
      hex_val c = hex_val e \<and> hex_val d = hex_val f" by (rule nibbles_eq [OF v(2,4)])
  then show "hex_2_Ascii c d = hex_2_Ascii e f \<longleftrightarrow> c = e \<and> d = f"
    using assms by (simp add: word_unat_eq_iff hex_2_Ascii_val hex_val_inj)
qed

lemma hex_pairs_less:
  assumes "length r = length s" "even (length r)" "list_all is_hex r" "list_all is_hex s"
  shows "(hex_pairs r < hex_pairs s \<longleftrightarrow> r < s) \<and> (hex_pairs r = hex_pairs s \<longleftrightarrow> r = s)"
  using assms
proof (induction r arbitrary: s rule: hex_pairs.induct)
  case (3 c d r)
  then obtain e f s' where s: "s = e # f # s'" by (cases s; cases "tl s") auto
  have h: "is_hex c" "is_hex d" "is_hex e" "is_hex f" using 3(4,5) s by auto
  have "(hex_pairs r < hex_pairs s' \<longleftrightarrow> r < s') \<and> (hex_pairs r = hex_pairs s' \<longleftrightarrow> r = s')"
    using 3(1) [of s'] 3(2-5) s by simp
  then show ?case using s by (auto simp: hex_pair_less [OF h])
qed auto

lemma addr_bytes_less:
  assumes "valid_addr a" "valid_addr b"
  shows "addr_2_Bytes a < addr_2_Bytes b \<longleftrightarrow> a < b" and "addr_2_Bytes a = addr_2_Bytes b \<longleftrightarrow> a = b"
proof -
  obtain r s where r: "a = ''0x'' @ r" "length r = 40" "list_all is_hex r"
    and s: "b = ''0x'' @ s" "length s = 40" "list_all is_hex s"
    using assms by (elim valid_addrE) blast
  have h: "addr_2_Bytes a = hex_pairs r" "addr_2_Bytes b = hex_pairs s"
    using addr_2_Bytes_hex r(1,3) s(1,3) by auto
  show "addr_2_Bytes a < addr_2_Bytes b \<longleftrightarrow> a < b" "addr_2_Bytes a = addr_2_Bytes b \<longleftrightarrow> a = b"
    using hex_pairs_less [of r s] r s unfolding h by auto
qed

lemma findAddresses_order:
  "length xs = length ys \<Longrightarrow> (findAddresses xs ys < 0 \<longleftrightarrow> xs < ys) \<and> (findAddresses xs ys = 0 \<longleftrightarrow> xs = ys)"
proof (induction xs ys rule: list_induct2)
  case (Cons x xs y ys)
  have l: "int (unat x) - int (unat y) < 0 \<longleftrightarrow> x < y" unfolding word_less_nat_alt by linarith
  have e: "int (unat x) - int (unat y) = 0 \<longleftrightarrow> x = y" unfolding word_unat_eq_iff by linarith
  have "findAddresses (x # xs) (y # ys) = (if x = y then findAddresses xs ys else int (unat x) - int (unat y))"
    unfolding findAddresses.simps Let_def e [symmetric] by (cases "int (unat x) - int (unat y) = 0") simp_all
  then show ?case using Cons.IH l e by (cases "x = y") simp_all
qed simp

section \<open>The layout of a chunk\<close>

lemma slice_concat:
  assumes "\<forall>x \<in> set xs. length (f x) = k" "i < length xs"
  shows "take k (drop (i * k) (concat (map f xs) @ rest)) = f (xs ! i)"
  using assms
proof (induction xs arbitrary: i)
  case (Cons x xs)
  then show ?case by (cases i) auto
qed simp

lemma length_concat_fixed: "\<forall>x \<in> set xs. length (f x) = k \<Longrightarrow> length (concat (map f xs)) = length xs * k"
  by (induction xs) auto

lemma length_put_word: "length (put_word (w :: 'a::len word)) = LENGTH('a) div 8"
  by (simp add: put_word_def)

lemma le_word_put32: "le_word (put_word (w :: 32 word)) = w"
  using w32.get_put [of w "[]"] by (simp add: get_word_def read_raw_def length_put_word le_word_def)

lemma length_hash_bytes: "length (hash_2_Bytes versionHash) = 32"
proof -
  have h: "list_all is_hex (replicate 64 (CHR ''0''))" by (simp add: list_all_iff is_hex_def)
  have "hash_2_Bytes versionHash = hex_pairs (replicate 64 (CHR ''0''))"
    by (simp only: hash_2_Bytes_def versionHash_def padLeft_def list.size diff_zero zero_less_numeral
        if_True append_Nil2 substitute_0x [OF hex_no_x [OF h]] option.sel)
  then show ?thesis by (simp only: length_hex_pairs length_replicate) (simp add: length_hex_pairs)
qed

lemma length_index_header: "length (put_index_header n r) = 44"
  by (simp add: put_index_header_def length_hash_bytes length_put_word)

lemma length_put_appearance: "length (put_appearance r) = 8"
  by (simp add: put_appearance_def length_put_word)

lemma length_put_entry: "valid_addr a \<Longrightarrow> length (put_entry (a, e)) = 28"
  by (cases e) (simp add: put_entry_def length_addr_2_Bytes length_put_word)

text \<open>A chunk with the address table \<open>T\<close> and the appearances \<open>A\<close>.\<close>

definition chunk_layout :: "(string \<times> nat \<times> nat) list \<Rightarrow> CIndexedAppearance list \<Rightarrow> bytes" where
  "chunk_layout T A = put_index_header (word_of_nat (length T)) (word_of_nat (length A)) @
     concat (map put_entry T) @ concat (map put_appearance A)"

definition entry_rec :: "string \<times> nat \<times> nat \<Rightarrow> CIndexedAddress" where
  "entry_rec = (\<lambda>(a, off, c). \<lparr>abytes = addr_2_Bytes a, aoffset = word_of_nat off, acnt = word_of_nat c\<rparr>)"

lemma header_of_layout: "header_of (load_chunk (chunk_layout T A)) =
    Inr \<lparr>magic = MAGIC_NUMBER, hhash = hash_2_Bytes versionHash, hnAddrs = word_of_nat (length T), hnRows = word_of_nat (length A)\<rparr>"
proof -
  have "slice 0 44 (load_chunk (chunk_layout T A)) = Inr (put_index_header (word_of_nat (length T)) (word_of_nat (length A)))"
    by (simp add: slice_def load_chunk_def chunk_layout_def length_index_header)
  then show ?thesis
    by (simp add: header_of_def sizeof_header_def put_index_header_def length_hash_bytes length_put_word le_word_put32)
qed

lemma address_at_layout:
  assumes "\<forall>e \<in> set T. valid_addr (fst e)" "i < length T"
  shows "address_at (load_chunk (chunk_layout T A)) i = Inr (entry_rec (T ! i))"
proof -
  have l: "\<forall>e \<in> set T. length (put_entry e) = 28" using assms(1) length_put_entry by (metis prod.collapse)
  have "length (concat (map put_entry T)) = length T * 28" using length_concat_fixed [OF l] .
  moreover have "i * 28 + 28 \<le> length T * 28" using assms(2) by linarith
  ultimately have len: "44 + i * 28 + 28 \<le> length (load_chunk (chunk_layout T A))"
    by (simp add: load_chunk_def chunk_layout_def length_index_header)
  have "drop (44 + i * 28) (load_chunk (chunk_layout T A)) =
      drop (i * 28) (concat (map put_entry T) @ concat (map put_appearance A) @ replicate (2 * 59) 0)"
    by (simp add: load_chunk_def chunk_layout_def length_index_header)
  then have "take 28 (drop (44 + i * 28) (load_chunk (chunk_layout T A))) = put_entry (T ! i)"
    by (simp only: slice_concat [OF l assms(2)])
  then have "slice (44 + i * 28) 28 (load_chunk (chunk_layout T A)) = Inr (put_entry (T ! i))"
    using len by (simp add: slice_def)
  moreover obtain a off c where e: "T ! i = (a, off, c)" by (cases "T ! i") auto
  moreover have "valid_addr a" using assms e by (metis fst_conv nth_mem)
  ultimately show ?thesis
    by (simp add: address_at_def sizeof_header_def sizeof_address_def put_entry_def entry_rec_def
        length_addr_2_Bytes length_put_word le_word_put32)
qed

lemma appearance_at_layout:
  assumes "\<forall>e \<in> set T. valid_addr (fst e)" "i < length A"
  shows "appearance_at (load_chunk (chunk_layout T A)) (length T) i = Inr (A ! i)"
proof -
  have l: "\<forall>e \<in> set T. length (put_entry e) = 28" using assms(1) length_put_entry by (metis prod.collapse)
  have lT: "length (concat (map put_entry T)) = length T * 28" using length_concat_fixed [OF l] .
  have lA: "\<forall>r \<in> set A. length (put_appearance r) = 8" by (simp add: length_put_appearance)
  have "length (concat (map put_appearance A)) = length A * 8" using length_concat_fixed [OF lA] .
  moreover have "i * 8 + 8 \<le> length A * 8" using assms(2) by linarith
  ultimately have len: "44 + length T * 28 + i * 8 + 8 \<le> length (load_chunk (chunk_layout T A))"
    using lT by (simp add: load_chunk_def chunk_layout_def length_index_header)
  have "drop (44 + length T * 28 + i * 8) (load_chunk (chunk_layout T A)) =
      drop (i * 8) (concat (map put_appearance A) @ replicate (2 * 59) 0)"
    by (simp add: load_chunk_def chunk_layout_def length_index_header lT)
  then have "take 8 (drop (44 + length T * 28 + i * 8) (load_chunk (chunk_layout T A))) = put_appearance (A ! i)"
    by (simp only: slice_concat [OF lA assms(2)])
  then have "slice (44 + length T * 28 + i * 8) 8 (load_chunk (chunk_layout T A)) = Inr (put_appearance (A ! i))"
    using len by (simp add: slice_def)
  then show ?thesis
    by (simp add: appearance_at_def sizeof_header_def sizeof_address_def sizeof_appearance_def put_appearance_def
        length_put_word le_word_put32)
qed

lemma copy_appearances_layout:
  assumes "\<forall>e \<in> set T. valid_addr (fst e)" "i + k \<le> length A"
  shows "copy_appearances (load_chunk (chunk_layout T A)) (length T) i k = Inr (take k (drop i A))"
  using assms(2)
proof (induction k arbitrary: i)
  case (Suc k)
  then have "i < length A" by simp
  then show ?case using Suc.IH [of "Suc i"] Suc.prems appearance_at_layout [OF assms(1)]
    by (simp add: Cons_nth_drop_Suc [symmetric])
qed simp

section \<open>Binary search\<close>

lemma bsearch_layout:
  assumes "\<forall>e \<in> set T. valid_addr (fst e)" "sorted_wrt (<) (map fst T)" "valid_addr a"
  shows "u \<le> length T \<Longrightarrow> \<forall>i < l. fst (T ! i) < a \<Longrightarrow> \<forall>i < length T. u \<le> i \<longrightarrow> a < fst (T ! i) \<Longrightarrow> l \<le> u \<Longrightarrow>
    bsearch (load_chunk (chunk_layout T A)) (addr_2_Bytes a) l u =
      Inr (if a \<in> fst ` set T then Some (entry_rec (T ! (LEAST i. i < length T \<and> fst (T ! i) = a))) else None)"
proof (induction "load_chunk (chunk_layout T A)" "addr_2_Bytes a" l u rule: bsearch.induct)
  case (1 l u)
  show ?case
  proof (cases "l < u")
    case False
    have "fst (T ! i) \<noteq> a" if "i < length T" for i using 1(4,5,6) False that by (cases "i < l") auto
    then have "a \<notin> fst ` set T" by (metis imageE in_set_conv_nth)
    then show ?thesis using False by (subst bsearch.simps) simp
  next
    case True
    define m where "m = (l + u) div 2"
    have m: "l \<le> m" "m < u" "m < length T" using True 1(3) by (auto simp: m_def)
    have at: "address_at (load_chunk (chunk_layout T A)) m = Inr (entry_rec (T ! m))"
      by (rule address_at_layout [OF assms(1) m(3)])
    have vm: "valid_addr (fst (T ! m))" using assms(1) m(3) by simp
    have len: "length (addr_2_Bytes a) = length (addr_2_Bytes (fst (T ! m)))"
      using assms(3) vm by (simp add: length_addr_2_Bytes)
    define c where "c = findAddresses (addr_2_Bytes a) (abytes (entry_rec (T ! m)))"
    have ab: "abytes (entry_rec (T ! m)) = addr_2_Bytes (fst (T ! m))" by (cases "T ! m") (simp add: entry_rec_def)
    have lt: "c < 0 \<longleftrightarrow> a < fst (T ! m)" and eq: "c = 0 \<longleftrightarrow> a = fst (T ! m)"
      using findAddresses_order [OF len] addr_bytes_less [OF assms(3) vm] by (simp_all add: c_def ab)
    have mono: "fst (T ! i) < fst (T ! j)" if "i < j" "j < length T" for i j
      using sorted_wrt_nth_less [OF assms(2), of i j] that by simp
    have run: "bsearch (load_chunk (chunk_layout T A)) (addr_2_Bytes a) l u =
        (if c < 0 then bsearch (load_chunk (chunk_layout T A)) (addr_2_Bytes a) l m
         else if c > 0 then bsearch (load_chunk (chunk_layout T A)) (addr_2_Bytes a) (m + 1) u
         else Inr (Some (entry_rec (T ! m))))"
      using True at by (subst bsearch.simps) (simp add: Let_def m_def [symmetric] c_def)
    consider "c < 0" | "c > 0" | "c = 0" by linarith
    then show ?thesis
    proof cases
      case 1
      then have am: "a < fst (T ! m)" using lt by simp
      have "\<forall>i < length T. m \<le> i \<longrightarrow> a < fst (T ! i)" using am mono by (metis le_neq_implies_less order.strict_trans)
      then show ?thesis
        using "1.hyps"(1) [OF True m_def at c_def [unfolded ab [symmetric]]] 1 m "1.prems" unfolding run by simp
    next
      case 2
      then have am: "fst (T ! m) < a" using lt eq by auto
      have "\<forall>i < m + 1. fst (T ! i) < a"
        using am mono m(3) by (metis Suc_eq_plus1 less_Suc_eq order.strict_trans)
      then show ?thesis
        using "1.hyps"(2) [OF True m_def at c_def [unfolded ab [symmetric]]] 2 m "1.prems" unfolding run by simp
    next
      case 3
      then have am: "a = fst (T ! m)" using eq by simp
      then have "a \<in> fst ` set T" using m(3) by simp
      moreover have "(LEAST i. i < length T \<and> fst (T ! i) = a) = m"
        using am m(3) mono by (intro Least_equality) (auto, metis less_irrefl not_le)
      ultimately show ?thesis using 3 unfolding run by simp
    qed
  qed
qed

section \<open>Queries\<close>

lemma length_emit: "length (emit a off c rs) \<le> length rs + 1"
  by (induction a off c rs rule: emit.induct) auto

lemma chunk_query_layout:
  assumes "\<forall>e \<in> set T. valid_addr (fst e)" "sorted_wrt (<) (map fst T)" "length T < 2 ^ 32" "length A < 2 ^ 32"
    "valid_addr a" "\<forall>(b, off, n) \<in> set T. off + n \<le> length A"
  shows "chunk_query (chunk_layout T A) a =
    Inr (if a \<in> fst ` set T
         then (case T ! (LEAST i. i < length T \<and> fst (T ! i) = a) of (_, off, n) \<Rightarrow> Some (take n (drop off A)))
         else None)"
proof -
  have n: "unat (word_of_nat (length T) :: 32 word) = length T" using assms(3) by (simp add: unat_of_nat)
  have key: "take 20 (addr_2_Bytes a) = addr_2_Bytes a" using assms(5) by (simp add: length_addr_2_Bytes)
  have bs: "bsearch (load_chunk (chunk_layout T A)) (addr_2_Bytes a) 0 (length T) =
      Inr (if a \<in> fst ` set T then Some (entry_rec (T ! (LEAST i. i < length T \<and> fst (T ! i) = a))) else None)"
    by (rule bsearch_layout [OF assms(1,2,5)]) auto
  show ?thesis
  proof (cases "a \<in> fst ` set T")
    case False
    then show ?thesis by (simp add: chunk_query_def Let_def header_of_layout n key bs)
  next
    case True
    define i where "i = (LEAST i. i < length T \<and> fst (T ! i) = a)"
    from True obtain j where "j < length T \<and> fst (T ! j) = a" by (metis imageE in_set_conv_nth)
    then have i: "i < length T" unfolding i_def by (metis (mono_tags, lifting) LeastI)
    obtain b off k where e: "T ! i = (b, off, k)" by (cases "T ! i") auto
    then have le: "off + k \<le> length A" using assms(6) i nth_mem by fastforce
    then have "off < 2 ^ 32" "off + k < 2 ^ 32" using assms(4) by auto
    then have o: "unat (word_of_nat off :: 32 word) = off"
      "unat (word_of_nat off + word_of_nat k :: 32 word) = off + k"
      by (simp_all add: unat_of_nat flip: of_nat_add)
    show ?thesis using True bs copy_appearances_layout [OF assms(1) le] unfolding i_def [symmetric]
      by (simp add: chunk_query_def Let_def header_of_layout n key e entry_rec_def o)
  qed
qed

lemma writeIndexAsBinary_small: "lines \<noteq> [] \<Longrightarrow> length lines < 12 \<Longrightarrow> writeIndexAsBinary lines = Inl ArithTrap"
  by (cases lines) (simp_all add: writeIndexAsBinary_def index_line_def)

lemma writeIndexAsBinary_layout:
  assumes "\<forall>l \<in> set lines. valid_line l" "12 \<le> length lines"
  shows "\<exists>bl. writeIndexAsBinary lines =
      Inr (chunk_layout (emit (line_addr (hd lines)) 0 1 (map line_rec (tl lines))) (map line_app lines),
           writeBloomToBinary bl) \<and>
    wf_set bl \<and> (\<forall>l \<in> set lines. covered bl (line_addr l)) \<and> length bl \<le> 2 * length lines"
proof -
  obtain l ls where ls: "lines = l # ls" using assms(2) by (cases lines) auto
  define k where "k = length lines div 12"
  have k: "k \<noteq> 0" using assms(2) by (simp add: k_def div_eq_0_iff)
  have v: "valid_line l" "\<forall>l \<in> set ls. valid_line l" using assms(1) ls by auto
  define st where "st = index_init\<lparr>blockTable := [line_app l], cnt := 1, prev := line_addr l\<rparr>"
  have run: "index_loop k lines index_init = index_loop k ls st"
    unfolding ls by (simp add: index_line_valid [OF v(1) k] Let_def st_def index_init_def)
  have "prev st = line_addr l" "prev st \<noteq> []" "wf_set (blooms st)" "offset st = word_of_nat 0" "cnt st = word_of_nat 1"
    using v(1) by (auto simp: st_def index_init_def wf_set_def valid_line_def line_addr_def)
  from index_loop_emit [OF v(2) k this(2-5)] this(1) obtain st1 st2 where s:
    "index_loop k ls st = Inr st1" "write_address st1 = Inr st2"
    "out st2 = out st @ concat (map put_entry (emit (line_addr l) 0 1 (map line_rec ls)))"
    "blockTable st2 = blockTable st @ map line_app ls"
    "nAddrs st2 = nAddrs st + word_of_nat (length (emit (line_addr l) 0 1 (map line_rec ls)))"
    "wf_set (blooms st2)"
    "length (blooms st2) \<le> length (blooms st) + 2 * length (emit (line_addr l) 0 1 (map line_rec ls))"
    "\<forall>x. covered (blooms st) x \<or> x \<in> fst ` set (emit (line_addr l) 0 1 (map line_rec ls)) \<longrightarrow> covered (blooms st2) x"
    by auto
  have st: "out st = put_index_header 0 0" "blockTable st = [line_app l]" "nAddrs st = 0" "blooms st = []"
    by (simp_all add: st_def index_init_def)
  have "fst ` set (emit (line_addr l) 0 1 (map line_rec ls)) = insert (line_addr l) (line_addr ` set ls)"
    unfolding emit_addrs by (auto simp: line_rec_def image_image)
  then have cov: "\<forall>x \<in> set lines. covered (blooms st2) (line_addr x)" using s(8) ls by auto
  have "writeIndexAsBinary lines =
      Inr (chunk_layout (emit (line_addr l) 0 1 (map line_rec ls)) (map line_app lines), writeBloomToBinary (blooms st2))"
  proof -
    have "index_loop (length lines div 12) lines index_init = Inr st1" using run s(1) k_def by simp
    then show ?thesis
      unfolding writeIndexAsBinary_def Let_def
      using s(2-5) st by (simp add: chunk_layout_def overwrite_def length_index_header ls)
  qed
  moreover have "length (blooms st2) \<le> 2 * length lines"
    using s(7) st(4) length_emit [of "line_addr l" 0 1 "map line_rec ls"] ls by simp
  ultimately show ?thesis using s(6) cov ls by auto
qed

lemma table_facts:
  assumes "\<forall>l \<in> set lines. valid_line l" "sorted lines" "lines = l # ls" "T = emit (line_addr l) 0 1 (map line_rec ls)"
  shows "sorted (line_addr l # map fst (map line_rec ls))" "fst ` set T = line_addr ` set lines"
    "\<forall>e \<in> set T. valid_addr (fst e)" "sorted_wrt (<) (map fst T)" "length T \<le> length lines"
proof -
  show so: "sorted (line_addr l # map fst (map line_rec ls))"
    using sorted_line_addrs [OF assms(2)] assms(3) by (simp add: comp_def line_rec_def)
  show addrs: "fst ` set T = line_addr ` set lines"
    unfolding assms(4) emit_addrs using assms(3) by (auto simp: line_rec_def image_image)
  show "\<forall>e \<in> set T. valid_addr (fst e)"
  proof
    fix e assume "e \<in> set T"
    then have "fst e \<in> line_addr ` set lines" using addrs by blast
    then show "valid_addr (fst e)" using assms(1) by (auto simp: valid_line_def line_addr_def)
  qed
  show "sorted_wrt (<) (map fst T)" unfolding assms(4) by (rule emit_ascending [OF so])
  show "length T \<le> length lines"
    using length_emit [of "line_addr l" 0 1 "map line_rec ls"] assms(3,4) by simp
qed

lemma chunk_query_lines:
  assumes "\<forall>l \<in> set lines. valid_line l" "sorted lines" "12 \<le> length lines" "length lines < 2 ^ 31" "valid_addr a"
  shows "chunk_query (chunk_layout (emit (line_addr (hd lines)) 0 1 (map line_rec (tl lines))) (map line_app lines)) a =
    Inr (if a \<in> line_addr ` set lines then Some (map line_app (filter (\<lambda>l. line_addr l = a) lines)) else None)"
proof -
  obtain l ls where ls: "lines = l # ls" using assms(3) by (cases lines) auto
  define T where "T = emit (line_addr l) 0 1 (map line_rec ls)"
  note tf = table_facts [OF assms(1,2) ls T_def]
  note so = tf(1) and addrs = tf(2) and v = tf(3) and asc = tf(4)
  have R: "map line_rec lines = [] @ [line_rec l] @ map line_rec ls" using ls by simp
  have sl: "off + n \<le> length lines \<and> take n (drop off (map line_rec lines)) = filter (\<lambda>x. fst x = b) (map line_rec lines)"
    if "(b, off, n) \<in> set T" for b off n
    unfolding R using emit_slices [of "[]" 0 "line_addr l" "[line_rec l]" 1 "map line_rec ls" b off n] that so
    by (simp add: T_def line_rec_def ls)
  have lT: "length T < 2 ^ 32" "length (map line_app lines) < 2 ^ 32"
    using length_emit [of "line_addr l" 0 1 "map line_rec ls"] ls assms(4) by (simp_all add: T_def)
  have q: "chunk_query (chunk_layout T (map line_app lines)) a =
    Inr (if a \<in> fst ` set T
         then (case T ! (LEAST i. i < length T \<and> fst (T ! i) = a) of (_, off, n) \<Rightarrow> Some (take n (drop off (map line_app lines))))
         else None)"
    using sl by (intro chunk_query_layout [OF v asc lT assms(5)]) auto
  show ?thesis
  proof (cases "a \<in> line_addr ` set lines")
    case False
    then show ?thesis using q addrs ls by (simp add: T_def)
  next
    case True
    define i where "i = (LEAST i. i < length T \<and> fst (T ! i) = a)"
    from True addrs have "a \<in> fst ` set T" by simp
    then obtain j where "j < length T \<and> fst (T ! j) = a" by (metis imageE in_set_conv_nth)
    then have i: "i < length T \<and> fst (T ! i) = a" unfolding i_def by (rule LeastI)
    then obtain off n where e: "T ! i = (a, off, n)" by (cases "T ! i") auto
    then have "(a, off, n) \<in> set T" using i by (metis nth_mem)
    then have "map snd (take n (drop off (map line_rec lines))) = map snd (filter (\<lambda>x. fst x = a) (map line_rec lines))"
      using sl by simp
    then have "take n (drop off (map line_app lines)) = map line_app (filter (\<lambda>l. line_addr l = a) lines)"
      by (simp add: take_map drop_map filter_map comp_def line_rec_def)
    then show ?thesis using q addrs True e ls unfolding i_def [symmetric] by (simp add: T_def)
  qed
qed

section \<open>Visiting the addresses\<close>

lemma visit_loop_layout:
  assumes "\<forall>e \<in> set T. valid_addr (fst e)" "i + n = length T"
  shows "visit_loop (\<lambda>a as. (True, as @ [a])) (load_chunk (chunk_layout T A)) i n as =
    Inr (True, as @ map fst (drop i T))"
  using assms(2)
proof (induction n arbitrary: i as)
  case (Suc n)
  then have i: "i < length T" by simp
  then have "bytes_2_Addr (abytes (entry_rec (T ! i))) = Inr (fst (T ! i))"
    using bytes_2_Addr_bytes [of "fst (T ! i)"] assms(1) nth_mem [OF i]
    by (auto simp: entry_rec_def split: prod.split)
  then show ?case
    using Suc.IH [of "Suc i" "as @ [fst (T ! i)]"] Suc.prems i address_at_layout [OF assms(1) i]
    by (simp add: Cons_nth_drop_Suc [symmetric])
qed simp

lemma sorted_distinct_addrs:
  assumes "sorted_wrt (<) (map fst T)" "fst ` set T = S"
  shows "map fst T = sorted_list_of_set S"
proof -
  have "distinct (map fst T)" "sorted (map fst T)" using assms(1) strict_sorted_iff by blast+
  then show ?thesis using assms(2) by (metis sorted_list_of_set.idem_if_sorted_distinct set_map)
qed

lemma addressVisit_lines:
  assumes "\<forall>l \<in> set lines. valid_line l" "sorted lines" "12 \<le> length lines" "length lines < 2 ^ 31"
  shows "addressVisit (Some (\<lambda>a as. (True, as @ [a])))
      (chunk_layout (emit (line_addr (hd lines)) 0 1 (map line_rec (tl lines))) (map line_app lines)) [] =
    Inr (True, sorted_list_of_set (line_addr ` set lines))"
proof -
  obtain l ls where ls: "lines = l # ls" using assms(3) by (cases lines) auto
  define T where "T = emit (line_addr l) 0 1 (map line_rec ls)"
  note tf = table_facts [OF assms(1,2) ls T_def]
  have m: "map fst T = sorted_list_of_set (line_addr ` set lines)"
    by (rule sorted_distinct_addrs [OF tf(4,2)])
  have "length T < 2 ^ 32" using tf(5) assms(4) by simp
  then have "unat (word_of_nat (length T) :: 32 word) = length T" by (simp add: unat_of_nat)
  then show ?thesis using visit_loop_layout [OF tf(3), of 0 "length T" "map line_app lines" "[]"] m
    by (simp add: addressVisit_def Let_def header_of_layout ls T_def)
qed

section \<open>The text form\<close>

definition ascii_entry :: "string \<times> nat \<times> nat \<Rightarrow> string" where
  "ascii_entry = (\<lambda>(a, off, c). a @ [TAB] @ padNum 6 (word_of_nat off) @ [TAB] @ padNum 6 (word_of_nat c) @ [NL])"

definition ascii_appearance :: "CIndexedAppearance \<Rightarrow> string" where
  "ascii_appearance r = padNum 9 (appblk r) @ [TAB] @ padNum 5 (txid r) @ [NL]"

definition ascii_layout :: "(string \<times> nat \<times> nat) list \<Rightarrow> CIndexedAppearance list \<Rightarrow> string" where
  "ascii_layout T A = padNum 7 MAGIC_NUMBER @ [TAB] @ versionHash @ [TAB] @ padNum 7 (word_of_nat (length T)) @ [TAB] @
     padNum 7 (word_of_nat (length A)) @ [NL] @ concat (map ascii_entry T) @ concat (map ascii_appearance A)"

lemma ascii_line_valid:
  assumes "valid_line l" "k \<noteq> 0"
  shows "ascii_line k l st =
    (let st1 = st\<lparr>ablocks := ablocks st @ [line_app l]\<rparr>;
         st3 = (if aprev st \<noteq> [] \<and> line_addr l \<noteq> aprev st
                then (let st2 = ascii_address st1 in st2\<lparr>aoff := aoff st2 + ancnt st2, ancnt := 0\<rparr>)
                else st1)
     in Inr (st3\<lparr>ancnt := ancnt st3 + 1, aprev := line_addr l\<rparr>))"
  using assms explode_line [OF assms(1)] by (simp add: ascii_line_def Let_def line_app_def read_at_def)

lemma ascii_loop_emit:
  assumes "\<forall>l \<in> set lines. valid_line l" "k \<noteq> 0" "aprev st \<noteq> []" "aoff st = word_of_nat off" "ancnt st = word_of_nat c"
  shows "\<exists>st1. ascii_loop k lines st = Inr st1 \<and>
    addrStream (ascii_address st1) = addrStream st @ concat (map ascii_entry (emit (aprev st) off c (map line_rec lines))) \<and>
    ablocks (ascii_address st1) = ablocks st @ map line_app lines \<and>
    annum (ascii_address st1) = annum st + word_of_nat (length (emit (aprev st) off c (map line_rec lines)))"
  using assms(1,3-5)
proof (induction lines arbitrary: st off c)
  case Nil
  then show ?case by (simp add: ascii_address_def ascii_entry_def)
next
  case (Cons l lines)
  have v: "valid_line l" "\<forall>l \<in> set lines. valid_line l" using Cons.prems by auto
  have ne: "line_addr l \<noteq> []" using v(1) by (auto simp: valid_line_def line_addr_def)
  define st1 where "st1 = st\<lparr>ablocks := ablocks st @ [line_app l]\<rparr>"
  show ?case
  proof (cases "line_addr l = aprev st")
    case True
    define st3 where "st3 = st1\<lparr>ancnt := ancnt st1 + 1, aprev := line_addr l\<rparr>"
    have run: "ascii_loop k (l # lines) st = ascii_loop k lines st3"
      using True by (simp add: ascii_line_valid [OF v(1) assms(2)] Let_def st1_def [symmetric] st3_def)
    have "aprev st3 = aprev st" "aprev st3 \<noteq> []" "aoff st3 = word_of_nat off" "ancnt st3 = word_of_nat (c + 1)"
      using Cons.prems True by (auto simp: st3_def st1_def)
    with Cons.IH [OF v(2), of st3 off "c + 1"] show ?thesis
      unfolding run using True by (simp add: line_rec_def st3_def st1_def)
  next
    case False
    define st3 where "st3 = (ascii_address st1)\<lparr>aoff := aoff st1 + ancnt st1, ancnt := 1, aprev := line_addr l\<rparr>"
    have run: "ascii_loop k (l # lines) st = ascii_loop k lines st3"
      using False Cons.prems
      by (simp add: ascii_line_valid [OF v(1) assms(2)] Let_def st1_def st3_def ascii_address_def)
    have st3: "aprev st3 = line_addr l" "aprev st3 \<noteq> []" "aoff st3 = word_of_nat (off + c)" "ancnt st3 = word_of_nat 1"
      "addrStream st3 = addrStream st @ ascii_entry (aprev st, off, c)" "ablocks st3 = ablocks st @ [line_app l]"
      "annum st3 = annum st + 1"
      using Cons.prems ne by (auto simp: st3_def st1_def ascii_address_def ascii_entry_def)
    have e: "emit (aprev st) off c (map line_rec (l # lines)) =
        (aprev st, off, c) # emit (line_addr l) (off + c) 1 (map line_rec lines)"
      using False by (simp add: line_rec_def)
    show ?thesis using Cons.IH [OF v(2) st3(2-4)] st3(1,5-7) unfolding run e by auto
  qed
qed

lemma writeIndexAsAscii_layout:
  assumes "\<forall>l \<in> set lines. valid_line l" "12 \<le> length lines"
  shows "writeIndexAsAscii lines =
    Inr (ascii_layout (emit (line_addr (hd lines)) 0 1 (map line_rec (tl lines))) (map line_app lines))"
proof -
  obtain l ls where ls: "lines = l # ls" using assms(2) by (cases lines) auto
  define k where "k = length lines div 12"
  have k: "k \<noteq> 0" using assms(2) by (simp add: k_def div_eq_0_iff)
  have v: "valid_line l" "\<forall>l \<in> set ls. valid_line l" using assms(1) ls by auto
  define st where "st = \<lparr>aprev = line_addr l, aoff = 0, annum = 0, ancnt = 1, ablocks = [line_app l], addrStream = []\<rparr>"
  have run: "ascii_loop k lines \<lparr>aprev = [], aoff = 0, annum = 0, ancnt = 0, ablocks = [], addrStream = []\<rparr> =
      ascii_loop k ls st"
    unfolding ls by (simp add: ascii_line_valid [OF v(1) k] Let_def st_def)
  have "aprev st \<noteq> []" "aoff st = word_of_nat 0" "ancnt st = word_of_nat 1"
    using v(1) by (auto simp: st_def valid_line_def line_addr_def)
  from ascii_loop_emit [OF v(2) k this] obtain st1 where s: "ascii_loop k ls st = Inr st1"
    "addrStream (ascii_address st1) = concat (map ascii_entry (emit (line_addr l) 0 1 (map line_rec ls)))"
    "ablocks (ascii_address st1) = map line_app lines"
    "annum (ascii_address st1) = word_of_nat (length (emit (line_addr l) 0 1 (map line_rec ls)))"
    by (auto simp: st_def ls)
  then show ?thesis unfolding writeIndexAsAscii_def k_def [symmetric] run
    by (simp add: Let_def ascii_layout_def ascii_appearance_def comp_def ls)
qed

end
