(* ===== verification/Consolidator_Correct.thy ===== *)
theory Consolidator_Correct
  imports Consolidator Files_Correct IndexChunk_Correct
begin

text \<open>
  Cutting the stage into chunks loses nothing: every pass writes a chunk that ends where a
  block ends, and puts the rest of the records back; the loop ends, and its chunks and what
  remains on the stage are the records of the stage in their order.
\<close>

section \<open>Names\<close>

definition plain_chars :: "string \<Rightarrow> bool" where
  "plain_chars p \<longleftrightarrow>
     set p \<inter> {CHR '':'', CHR ''|'', CHR 0x00, CHR ''&'', CHR ''('', CHR '')'', CHR 0x27, CHR 0x60} = {}"

text \<open>An index folder whose name the functions on path names do not trip over.\<close>

definition good_path :: "string \<Rightarrow> bool" where
  "good_path p \<longleftrightarrow> plain_chars p \<and> p \<noteq> [] \<and> last p = CHR ''/'' \<and>
     find_sub ''.bin'' (p @ ''finalized/'') = None \<and> find_sub ''.bin'' (p @ ''blooms/'') = None \<and>
     find_sub ''/finalized/'' (p @ ''finalized/'') = Some (length p - 1) \<and>
     find_sub ''/finalized/'' (p @ ''blooms/'') = None"

definition chunk_name :: "string \<Rightarrow> string \<Rightarrow> string \<Rightarrow> string" where
  "chunk_name p a b = p @ ''finalized/'' @ (a @ ''-'' @ b) @ ''.bin''"

definition temp_name :: "string \<Rightarrow> string \<Rightarrow> string \<Rightarrow> string" where
  "temp_name p a b = p @ ''finalized/'' @ (a @ ''-'' @ b) @ ''.tmp''"

definition bloom_name :: "string \<Rightarrow> string \<Rightarrow> string \<Rightarrow> string" where
  "bloom_name p a b = p @ ''blooms/'' @ (a @ ''-'' @ b) @ ''.bloom''"

lemma digits_plain: "list_all isdigit a \<Longrightarrow> c \<in> set a \<Longrightarrow> 48 \<le> (of_char c :: nat) \<and> (of_char c :: nat) \<le> 57"
  by (auto simp: list_all_iff isdigit_range)

lemma not_in_digits: "list_all isdigit a \<Longrightarrow> \<not> isdigit c \<Longrightarrow> c \<notin> set a"
  by (auto simp: list_all_iff)

lemma temp_of_chunk:
  assumes "good_path p" "list_all isdigit a" "list_all isdigit b"
  shows "substitute (chunk_name p a b) ''.bin'' ''.tmp'' = Some (temp_name p a b)"
proof -
  let ?pre = "(p @ ''finalized/'') @ (a @ ''-'' @ b)"
  have n: "find_sub ''.bin'' ?pre = None"
    by (rule find_sub_extend_None)
      (use assms not_in_digits [of _ "CHR ''n''"] in \<open>auto simp: good_path_def isdigit_def less_eq_char_def\<close>)
  have "find_sub ''.bin'' (?pre @ ''.bin'' @ []) = Some (length ?pre)"
    using n by (intro find_sub_unique) auto
  moreover have "find_sub ''.bin'' (?pre @ CHR ''.'' # ''tmp'') = None"
    using n by (intro find_sub_append_None) auto
  ultimately have "substitute (?pre @ ''.bin'' @ []) ''.bin'' ''.tmp'' = Some (?pre @ ''.tmp'' @ [])"
    by (intro substitute_once [of _ _ "length ?pre"]) auto
  then show ?thesis by (simp add: chunk_name_def temp_name_def)
qed

lemma bloom_of_chunk:
  assumes "good_path p" "list_all isdigit a" "list_all isdigit b"
  shows "\<exists>b1. substitute (chunk_name p a b) ''/finalized/'' ''/blooms/'' = Some b1 \<and>
    substitute b1 ''.bin'' ''.bloom'' = Some (bloom_name p a b)"
proof -
  obtain q where q: "p = q @ ''/''" using assms(1) by (metis append_butlast_last_id good_path_def)
  let ?id = "a @ ''-'' @ b" and ?pre = "(p @ ''blooms/'') @ (a @ ''-'' @ b)"
  have slash: "CHR ''/'' \<notin> set ?id" "CHR ''n'' \<notin> set ?id"
    using assms(2,3) not_in_digits by (auto simp: isdigit_def less_eq_char_def)
  have "find_sub ''/finalized/'' ((p @ ''finalized/'') @ ?id @ ''.bin'') = Some (length q)"
    by (rule find_sub_extend) (use assms(1) q in \<open>simp add: good_path_def\<close>)
  moreover have "find_sub ''/finalized/'' ((p @ ''blooms/'') @ ?id @ ''.bin'') = None"
    by (rule find_sub_extend_None) (use assms(1) slash in \<open>auto simp: good_path_def\<close>)
  ultimately have "substitute (q @ ''/finalized/'' @ ?id @ ''.bin'') ''/finalized/'' ''/blooms/'' =
      Some (q @ ''/blooms/'' @ ?id @ ''.bin'')"
    using q by (intro substitute_once [of _ _ "length q"]) auto
  then have 1: "substitute (chunk_name p a b) ''/finalized/'' ''/blooms/'' = Some (?pre @ ''.bin'')"
    using q by (simp add: chunk_name_def)
  have n: "find_sub ''.bin'' ?pre = None"
    by (rule find_sub_extend_None) (use assms(1) slash in \<open>auto simp: good_path_def\<close>)
  have "find_sub ''.bin'' (?pre @ ''.bin'' @ []) = Some (length ?pre)"
    using n by (intro find_sub_unique) auto
  moreover have "find_sub ''.bin'' (?pre @ CHR ''.'' # ''bloom'') = None"
    using n by (intro find_sub_append_None) auto
  ultimately have "substitute (?pre @ ''.bin'' @ []) ''.bin'' ''.bloom'' = Some (?pre @ ''.bloom'' @ [])"
    by (intro substitute_once [of _ _ "length ?pre"]) auto
  with 1 show ?thesis by (simp add: bloom_name_def)
qed

lemma escapePath_plain: "plain_chars p \<Longrightarrow> escapePath p = Inr p"
proof -
  assume p: "plain_chars p"
  have "replaceAll p [c] [CHR 0x5C, c] = Some p" if "c \<in> {CHR ''&'', CHR ''('', CHR '')'', CHR 0x27}" for c
  proof -
    have a: "find_sub [c] p = None" using p that by (auto simp: find_sub_char plain_chars_def)
    have m: "find_sub marker p = None"
      using p by (intro find_sub_absent [of "CHR 0x60"]) (auto simp: plain_chars_def marker_def)
    have "find_sub [c] marker = None" using that by (auto simp: find_sub_char marker_def)
    then have "replaceAll p [c] marker = Some p"
      using a by (subst replaceAll.simps) (simp add: replaceAll_loop.simps)
    moreover have "find_sub marker [CHR 0x5C, c] = None"
      by (intro find_sub_absent [of "CHR ''*''"]) (use that in \<open>auto simp: marker_def\<close>)
    then have "replaceAll p marker [CHR 0x5C, c] = Some p"
      using m by (subst replaceAll.simps) (simp add: replaceAll_loop.simps marker_def)
    moreover have "find_sub [c] [CHR 0x5C, c] \<noteq> None" by (simp add: find_sub_char)
    ultimately show ?thesis by (subst replaceAll.simps) simp
  qed
  then show ?thesis by (simp add: escapePath_def)
qed

section \<open>Writing a chunk to disk\<close>

text \<open>No lock file exists or is on the list of files to remove, and files can be created.\<close>

definition quiet :: "scrape_env \<Rightarrow> world \<Rightarrow> bool" where
  "quiet e w \<longleftrightarrow> (\<forall>fn. creatable (os e) fn) \<and> (\<forall>fn. file_at w (lck fn) = None) \<and>
     find_sub ''.lck|'' (removeList w) = None"

lemma quiet_writable: "quiet e w \<Longrightarrow> clean_name fn \<Longrightarrow> writable (os e) w fn"
proof -
  assume q: "quiet e w" and c: "clean_name fn"
  have "\<not> contains (removeList w) (lck fn @ ''|'')"
  proof
    assume "contains (removeList w) (lck fn @ ''|'')"
    then obtain a b where "removeList w = (a @ fn) @ ''.lck|'' @ b"
      unfolding contains_def find_sub_None by (auto simp: lck_def)
    then show False using q unfolding quiet_def find_sub_None by blast
  qed
  then show ?thesis using q c by (simp add: quiet_def writable_def)
qed

lemma quiet_files:
  assumes "quiet e w" "removeList w' = removeList w" "\<And>fn. file_at w' (lck fn) = file_at w (lck fn)"
  shows "quiet e w'"
  using assms by (simp add: quiet_def)

lemma lck_endings [simp]:
  "lck fn \<noteq> chunk_name p a b" "lck fn \<noteq> temp_name p a b" "lck fn \<noteq> bloom_name p a b"
  "chunk_name p a b \<noteq> lck fn" "temp_name p a b \<noteq> lck fn" "bloom_name p a b \<noteq> lck fn"
proof -
  have l: "last (lck fn) = CHR ''k''" by (simp add: lck_def)
  have "last (chunk_name p a b) = CHR ''n''" "last (temp_name p a b) = CHR ''p''" "last (bloom_name p a b) = CHR ''m''"
    by (simp_all add: chunk_name_def temp_name_def bloom_name_def)
  with l show "lck fn \<noteq> chunk_name p a b" "lck fn \<noteq> temp_name p a b" "lck fn \<noteq> bloom_name p a b"
    "chunk_name p a b \<noteq> lck fn" "temp_name p a b \<noteq> lck fn" "bloom_name p a b \<noteq> lck fn"
    by (auto dest!: arg_cong [where f = last])
qed

lemma name_neq [simp]:
  "chunk_name p a b \<noteq> temp_name p c d" "temp_name p c d \<noteq> chunk_name p a b"
  "bloom_name p a b \<noteq> temp_name p c d" "temp_name p c d \<noteq> bloom_name p a b"
  "bloom_name p a b \<noteq> chunk_name p c d" "chunk_name p c d \<noteq> bloom_name p a b"
proof -
  have "last (chunk_name p a b) = CHR ''n''" "last (temp_name p c d) = CHR ''p''" by (simp_all add: chunk_name_def temp_name_def)
  then show "chunk_name p a b \<noteq> temp_name p c d" "temp_name p c d \<noteq> chunk_name p a b" by auto
qed (auto simp: chunk_name_def temp_name_def bloom_name_def)

lemma clean_names:
  assumes "good_path p" "list_all isdigit a" "list_all isdigit b"
  shows "clean_name (temp_name p a b)" "clean_name (bloom_name p a b)"
    "plain_chars (temp_name p a b)" "plain_chars (chunk_name p a b)"
proof -
  have nd: "c \<notin> set a" "c \<notin> set b" if "\<not> isdigit c" for c using assms(2,3) that not_in_digits by auto
  have n: "\<not> isdigit (CHR '':'')" "\<not> isdigit (CHR ''|'')" "\<not> isdigit (CHR 0x00)" "\<not> isdigit (CHR ''&'')" "\<not> isdigit (CHR ''('')"
    "\<not> isdigit (CHR '')'')" "\<not> isdigit (CHR 0x27)" "\<not> isdigit (CHR 0x60)"
    by (simp_all add: isdigit_def less_eq_char_def)
  have p: "plain_chars p" using assms(1) by (simp add: good_path_def)
  show "plain_chars (temp_name p a b)" "plain_chars (chunk_name p a b)"
    "clean_name (temp_name p a b)" "clean_name (bloom_name p a b)"
    using p nd [OF n(1)] nd [OF n(2)] nd [OF n(3)] nd [OF n(4)] nd [OF n(5)] nd [OF n(6)] nd [OF n(7)] nd [OF n(8)]
    by (auto simp: plain_chars_def clean_name_def temp_name_def chunk_name_def bloom_name_def)
qed

lemma writeBloomFile_effect:
  assumes "writable (os e) (lockSection w) fn" "sectionLocks w \<noteq> - 1"
  shows "\<exists>w'. writeBloomFile e fn b w = Inr (True, w') \<and> file_at w' = (file_at w)(fn \<mapsto> text_of b) \<and> meta w' = meta w"
proof -
  obtain r w1 where 1: "Lock (os e) fn modeWriteCreate LOCK_NOWAIT (resource_new, lockSection w) = Inr (True, r, w1)"
    "contents_of w1 fn = []"
    "\<And>w2 s. file_at w2 = (file_at w1)(fn \<mapsto> s) \<Longrightarrow> meta w2 = meta w1 \<Longrightarrow>
      \<exists>r' w3. Release (r, w2) = Inr (r', w3) \<and> file_at w3 = (file_at (lockSection w))(fn \<mapsto> s) \<and> meta w3 = meta (lockSection w)"
    using session [OF assms(1), of modeWriteCreate] by fastforce
  from 1(3) [of "append_to fn (text_of b) w1" "text_of b"] 1(2) obtain r' w3 where
    "Release (r, append_to fn (text_of b) w1) = Inr (r', w3)" "file_at w3 = (file_at w)(fn \<mapsto> text_of b)"
    "meta w3 = meta (lockSection w)" by auto
  then show ?thesis using 1(1) unlock_lock [OF assms(2), of w3] by (auto simp: writeBloomFile_def meta_def)
qed

lemma writeIndexFile_effect:
  assumes "good_path (indexPath e)" "list_all isdigit a" "list_all isdigit b" "quiet e w" "sectionLocks w < 16"
    "writeIndexAsBinary lines = Inr (chunk, bl)"
  shows "\<exists>w'. writeIndexFile e (chunk_name (indexPath e) a b) lines False w = Inr (True, w') \<and>
    file_at w' = (file_at w)(bloom_name (indexPath e) a b \<mapsto> text_of bl, chunk_name (indexPath e) a b \<mapsto> text_of chunk,
      temp_name (indexPath e) a b := None) \<and> meta w' = meta w"
proof -
  let ?t = "temp_name (indexPath e) a b" and ?c = "chunk_name (indexPath e) a b" and ?b = "bloom_name (indexPath e) a b"
  note cl = clean_names [OF assms(1-3)]
  obtain r w1 where 1: "Lock (os e) ?t modeWriteCreate LOCK_NOWAIT (resource_new, w) = Inr (True, r, w1)" "contents_of w1 ?t = []"
    "\<And>w2 s. file_at w2 = (file_at w1)(?t \<mapsto> s) \<Longrightarrow> meta w2 = meta w1 \<Longrightarrow>
      \<exists>r' w3. Release (r, w2) = Inr (r', w3) \<and> file_at w3 = (file_at w)(?t \<mapsto> s) \<and> meta w3 = meta w"
    using session [OF quiet_writable [OF assms(4) cl(1)], of modeWriteCreate LOCK_NOWAIT] by fastforce
  from 1(3) [of "append_to ?t (text_of chunk) w1" "text_of chunk"] 1(2) obtain r' w2 where
    2: "Release (r, append_to ?t (text_of chunk) w1) = Inr (r', w2)" "file_at w2 = (file_at w)(?t \<mapsto> text_of chunk)"
    "meta w2 = meta w" by auto
  obtain b1 where b1: "substitute ?c ''/finalized/'' ''/blooms/'' = Some b1" "substitute b1 ''.bin'' ''.bloom'' = Some ?b"
    using bloom_of_chunk [OF assms(1-3)] by blast
  have locks: "sectionLocks w2 = sectionLocks w" "removeList w2 = removeList w" "polls w2 = polls w"
    using 2(3) by (auto simp: meta_def)
  have small: "sectionLocks w2 \<noteq> - 1" "sectionLocks (lockSection w2) \<noteq> - 1"
  proof -
    have n: "sectionLocks w \<noteq> - 1" "sectionLocks w \<noteq> - 2" using assms(5) by auto
    show "sectionLocks w2 \<noteq> - 1" using n(1) locks(1) by simp
    show "sectionLocks (lockSection w2) \<noteq> - 1"
    proof
      assume "sectionLocks (lockSection w2) = - 1"
      then have "sectionLocks w + 1 = - 1" using locks(1) by (simp only: lockSection_def) simp
      from arg_cong [OF this, of "\<lambda>x. x - 1"] have "sectionLocks w = - 2" by simp
      then show False using n(2) by simp
    qed
  qed
  have "quiet e (lockSection (lockSection w2))"
    using assms(4) locks(2) 2(2) by (intro quiet_files [OF assms(4)]) auto
  from writeBloomFile_effect [OF quiet_writable [OF this cl(2)] small(2), of bl] obtain w3 where
    3: "writeBloomFile e ?b bl (lockSection w2) = Inr (True, w3)" "file_at w3 = (file_at w2)(?b \<mapsto> text_of bl)"
    "meta w3 = meta (lockSection w2)" by auto
  define w4 where "w4 = put_file ?c (text_of chunk) w3"
  have "contents_of w3 ?t = text_of chunk" using 3(2) 2(2) by (simp add: contents_of_def)
  then have 4: "copyFile ?t ?c w3 = Inr (fileExists w4 ?c, w4)"
    using cl(3,4) by (simp add: copyFile_def escapePath_plain w4_def Let_def)
  define w5 where "w5 = unlockSection (remove_file ?t w4)"
  have "sectionLocks (remove_file ?t w4) = sectionLocks (lockSection w2)"
    using 3(3) by (simp add: w4_def meta_def remove_file_def put_file_def)
  from unlock_lock [OF small(1) this] have "meta w5 = meta w"
    using locks 3(3) by (simp add: meta_def w5_def w4_def remove_file_def put_file_def)
  moreover have "writeIndexFile e ?c lines False w = Inr (True, w5)"
    using 1(1) 2(1) 3(1) 4 b1 assms(6) temp_of_chunk [OF assms(1-3)] by (simp add: writeIndexFile_def w5_def Let_def)
  moreover have "file_at w5 = (file_at w)(?b \<mapsto> text_of bl, ?c \<mapsto> text_of chunk, ?t := None)"
    using 3(2) 2(2) by (auto simp: w5_def w4_def fun_eq_iff)
  ultimately show ?thesis by blast
qed

section \<open>Where a chunk ends\<close>

text \<open>The end of the block that the record \<open>c - 1\<close> belongs to.\<close>

definition cut_at :: "nat \<Rightarrow> string list \<Rightarrow> nat" where
  "cut_at c lines = c - 1 + length (takeWhile (\<lambda>l. line_blk l = line_blk (lines ! (c - 1))) (drop (c - 1) lines))"

lemma line_blk_ne: "valid_line l \<Longrightarrow> line_blk l \<noteq> []"
  by (auto simp: valid_line_def line_blk_def)

lemma break_loop_spec:
  assumes "\<forall>l \<in> set ls. valid_line l" "b \<noteq> []"
  shows "break_loop ls r b = Inr (if \<forall>l \<in> set ls. line_blk l = b then None
    else Some (r + length (takeWhile (\<lambda>l. line_blk l = b) ls) - 1))"
  using assms
proof (induction ls arbitrary: r)
  case (Cons l ls)
  have e: "read_at (explode_into [] l TAB True) 1 = Inr (line_blk l)"
    using explode_line [of l] Cons.prems by (simp add: read_at_def)
  then show ?case using Cons.IH [of "Suc r"] Cons.prems by auto
qed simp

lemma cut_bounds:
  assumes "0 < c" "c \<le> length lines"
  shows "c \<le> cut_at c lines" "cut_at c lines \<le> length lines"
proof -
  obtain x xs where d: "drop (c - 1) lines = x # xs" using assms by (cases "drop (c - 1) lines") auto
  have "x = lines ! (c - 1)" using d assms by (metis One_nat_def Suc_pred diff_less hd_drop_conv_nth lessI less_le_trans list.sel(1) zero_less_one)
  then show "c \<le> cut_at c lines" using d assms(1) by (simp add: cut_at_def)
  have "length (takeWhile (\<lambda>l. line_blk l = line_blk (lines ! (c - 1))) (drop (c - 1) lines)) \<le> length lines - (c - 1)"
    using length_takeWhile_le [of _ "drop (c - 1) lines"] by simp
  then show "cut_at c lines \<le> length lines" using assms by (simp add: cut_at_def)
qed

lemma break_loop_cut:
  assumes "\<forall>l \<in> set lines. valid_line l" "0 < c" "c \<le> length lines"
  shows "\<exists>found. break_loop (drop (c - 1) lines) (c - 1) [] = Inr found \<and>
    (case found of Some i \<Rightarrow> i | None \<Rightarrow> if length lines \<noteq> 0 then length lines - 1 else 0) = cut_at c lines - 1"
proof -
  let ?b = "line_blk (lines ! (c - 1))"
  have c1: "c - 1 < length lines" using assms(2,3) by simp
  then have d: "drop (c - 1) lines = lines ! (c - 1) # drop c lines"
    using assms(2) Cons_nth_drop_Suc [OF c1] by simp
  have v: "valid_line (lines ! (c - 1))" "\<forall>l \<in> set (drop c lines). valid_line l"
    using assms(1) c1 by (auto dest: in_set_dropD)
  have "read_at (explode_into [] (lines ! (c - 1)) TAB True) 1 = Inr ?b"
    using explode_line [OF v(1)] by (simp add: read_at_def)
  then have run: "break_loop (drop (c - 1) lines) (c - 1) [] =
      Inr (if \<forall>l \<in> set (drop c lines). line_blk l = ?b then None
        else Some (c + length (takeWhile (\<lambda>l. line_blk l = ?b) (drop c lines)) - 1))"
    unfolding d using break_loop_spec [OF v(2) line_blk_ne [OF v(1)], of c] assms(2) by simp
  have cut: "cut_at c lines = c + length (takeWhile (\<lambda>l. line_blk l = ?b) (drop c lines))"
    unfolding cut_at_def d using assms(2) by simp
  show ?thesis
  proof (cases "\<forall>l \<in> set (drop c lines). line_blk l = ?b")
    case True
    then have tw: "takeWhile (\<lambda>l. line_blk l = ?b) (drop c lines) = drop c lines" by (simp add: takeWhile_eq_all_conv)
    have "cut_at c lines = length lines" unfolding cut tw using assms(3) by simp
    then show ?thesis using run True assms by auto
  next
    case False
    then have "break_loop (drop (c - 1) lines) (c - 1) [] =
        Inr (Some (c + length (takeWhile (\<lambda>l. line_blk l = ?b) (drop c lines)) - 1))"
      using run by (simp only: if_False)
    then show ?thesis using cut by auto
  qed
qed

text \<open>For records in the order of their blocks, a cut separates the blocks.\<close>

lemma cut_separates:
  assumes "sorted (map line_blk lines)" "0 < c" "c \<le> length lines" "x \<in> set (take (cut_at c lines) lines)"
    "y \<in> set (drop (cut_at c lines) lines)"
  shows "line_blk x < line_blk y"
proof -
  let ?k = "cut_at c lines" and ?b = "line_blk (lines ! (c - 1))"
  have k: "c \<le> ?k" "?k \<le> length lines" using cut_bounds assms(2,3) by auto
  have ne: "?k < length lines" using assms(5) by (metis drop_all empty_iff empty_set linorder_not_less)
  have "\<not> line_blk (lines ! ?k) = ?b"
    using nth_length_takeWhile [of "\<lambda>l. line_blk l = ?b" "drop (c - 1) lines"] ne
    by (simp add: cut_at_def)
  moreover have "?b \<le> line_blk (lines ! ?k)"
    using sorted_nth_mono [OF assms(1), of "c - 1" ?k] k ne by simp
  ultimately have lt: "?b < line_blk (lines ! ?k)" by simp
  obtain j where j: "j < length lines - ?k" "y = lines ! (?k + j)"
    using assms(5) by (auto simp: in_set_conv_nth)
  obtain i where i: "i < ?k" "x = lines ! i" using assms(4) k(2) by (auto simp: in_set_conv_nth)
  have "line_blk (lines ! ?k) \<le> line_blk y"
    using sorted_nth_mono [OF assms(1), of ?k "?k + j"] j by simp
  moreover have "line_blk x \<le> ?b"
  proof (cases "i \<le> c - 1")
    case True
    then show ?thesis using sorted_nth_mono [OF assms(1) True] i assms(2,3) by simp
  next
    case False
    then have "i - (c - 1) < length (takeWhile (\<lambda>l. line_blk l = ?b) (drop (c - 1) lines))"
      using i by (auto simp: cut_at_def)
    from nth_mem [OF this] have "line_blk (takeWhile (\<lambda>l. line_blk l = ?b) (drop (c - 1) lines) ! (i - (c - 1))) = ?b"
      using set_takeWhileD by fastforce
    then show ?thesis
      using i(2) False \<open>i - (c - 1) < _\<close> assms(3) by (simp add: takeWhile_nth)
  qed
  ultimately show ?thesis using lt by simp
qed

section \<open>One pass\<close>

lemma valid_line_chars:
  assumes "valid_line l"
  shows "plain_line NL l" "countOf l TAB = 2" "length l = 58"
proof -
  obtain r where r: "line_addr l = ''0x'' @ r" "list_all is_hex r"
    using assms by (auto simp: valid_line_def line_addr_def elim!: valid_addrE)
  have d: "list_all isdigit (line_blk l)" "list_all isdigit (line_tx l)"
    using assms by (simp_all add: valid_line_def line_blk_def line_tx_def)
  note s = line_split [OF assms]
  have h: "c \<noteq> TAB \<and> c \<noteq> NL \<and> c \<noteq> CHR 0x00" if "is_hex c \<or> isdigit c" for c
    using that by (auto simp: is_hex_range isdigit_range)
  have no: "x \<notin> set (line_addr l)" "x \<notin> set (line_blk l)" "x \<notin> set (line_tx l)"
    if "x = TAB \<or> x = NL \<or> x = CHR 0x00" for x
    using that r d h by (auto simp: list_all_iff)
  have ne: "line_tx l \<noteq> []" using assms by (auto simp: valid_line_def line_tx_def)
  have "last l = last (line_tx l)" using arg_cong [OF s, of last] ne by simp
  then have "last l \<notin> set blanks" using d(2) ne digit_facts by (metis last_in_set list_all_iff)
  moreover have "hd l = CHR ''0''" using arg_cong [OF s, of hd] r by simp
  moreover have sl: "set l = set (line_addr l) \<union> {TAB} \<union> set (line_blk l) \<union> set (line_tx l)"
    using arg_cong [OF s, of set] by auto
  then have z: "NL \<notin> set l" "CHR 0x00 \<notin> set l" using no [of NL] no [of "CHR 0x00"] by auto
  ultimately show "plain_line NL l" by (auto simp: plain_line_def blanks_def)
  have cs: "c_str l = l" by (rule c_str_id [OF z(2)])
  have f: "filter (\<lambda>c. c = TAB) (line_addr l) = []" "filter (\<lambda>c. c = TAB) (line_blk l) = []" "filter (\<lambda>c. c = TAB) (line_tx l) = []"
    using no [of TAB] by (auto simp: filter_empty_conv)
  have "filter (\<lambda>c. c = TAB) l = [TAB, TAB]"
    using arg_cong [OF s, of "filter (\<lambda>c. c = TAB)"] by (simp add: f)
  then show "countOf l TAB = 2" by (simp add: countOf_def cs)
  show "length l = 58" using assms by (simp add: valid_line_def)
qed

definition stage_name :: "scrape_env \<Rightarrow> string \<Rightarrow> string" where
  "stage_name e n = indexFolder_staging e @ n @ ''.txt''"

lemma stage_name_neq [simp]:
  "stage_name e n \<noteq> chunk_name (indexPath e) a b" "stage_name e n \<noteq> bloom_name (indexPath e) a b"
  "stage_name e n \<noteq> temp_name (indexPath e) a b" "stage_name e n \<noteq> lck fn" "stage_name e n \<noteq> []"
  "lck fn \<noteq> stage_name e n" "chunk_name (indexPath e) a b \<noteq> stage_name e n"
  "bloom_name (indexPath e) a b \<noteq> stage_name e n" "temp_name (indexPath e) a b \<noteq> stage_name e n"
proof -
  have "last (stage_name e n) = CHR ''t''" "last (lck fn) = CHR ''k''" by (simp_all add: stage_name_def lck_def)
  then show "stage_name e n \<noteq> lck fn" "lck fn \<noteq> stage_name e n" by auto
qed (simp_all add: stage_name_def chunk_name_def bloom_name_def temp_name_def)

lemma clean_stage:
  assumes "good_path (indexPath e)" "list_all isdigit n"
  shows "clean_name (stage_name e n)"
proof -
  have "c \<notin> set n" if "\<not> isdigit c" for c using assms(2) that not_in_digits by auto
  then have "CHR '':'' \<notin> set n" "CHR ''|'' \<notin> set n" "CHR 0x00 \<notin> set n" by (simp_all add: isdigit_def less_eq_char_def)
  then show ?thesis using assms(1) by (auto simp: clean_name_def stage_name_def good_path_def plain_chars_def)
qed

definition stage_text :: "string list \<Rightarrow> string option" where
  "stage_text lines = (if lines = [] then None else Some (linesToString lines NL))"

text \<open>The chunk and the bloom file of the records \<open>g\<close> are in their places.\<close>

definition chunked :: "scrape_env \<Rightarrow> world \<Rightarrow> string list \<Rightarrow> bool" where
  "chunked e w g \<longleftrightarrow> (\<exists>chunk bl. writeIndexAsBinary (sort g) = Inr (chunk, bl) \<and>
     file_at w (chunk_name (indexPath e) (line_blk (hd g)) (line_blk (last g))) = Some (text_of chunk) \<and>
     file_at w (bloom_name (indexPath e) (line_blk (hd g)) (line_blk (last g))) = Some (text_of bl))"

lemma line_ids:
  assumes "valid_line l"
  shows "read_at (explode_into [] l TAB True) 1 = Inr (line_blk l)" "list_all isdigit (line_blk l)"
  using explode_line [OF assms] assms by (auto simp: read_at_def valid_line_def line_blk_def)

text \<open>What a pass does once it has read the records of the stage.\<close>

lemma write_pass_eq:
  assumes "newStage con = stage_name e n" "\<forall>l \<in> set lines. valid_line l" "0 < c" "c \<le> length lines" "2 \<le> length lines"
    "file_at w (stage_name e n) = stage_text lines"
  defines "g \<equiv> take (cut_at c lines) lines" and "rest \<equiv> drop (cut_at c lines) lines"
  shows "write_pass e con c w =
    bindR (writeIndexFile e (chunk_name (indexPath e) (line_blk (hd g)) (line_blk (last g))) (sort g) (pin con) (lockSection w)) (\<lambda>(_, w2).
      bindR (if rest \<noteq> [] then linesToAsciiFile (os e) (stage_name e n) rest NL (remove_file (stage_name e n) w2)
             else Inr (0, remove_file (stage_name e n) w2)) (\<lambda>(_, w4). Inr (True, unlockSection w4)))"
proof -
  let ?k = "cut_at c lines"
  have k: "c \<le> ?k" "?k \<le> length lines" using cut_bounds [OF assms(3,4)] by auto
  have ne: "lines \<noteq> []" using assms(5) by auto
  define w1 where "w1 = lockSection w"
  have st: "file_at w1 (stage_name e n) = Some (linesToString lines NL)"
    using assms(6) ne by (simp add: w1_def stage_text_def)
  have pl: "\<forall>l \<in> set lines. plain_line NL l" using assms(2) valid_line_chars by blast
  have rd: "asciiFileToLines w1 (stage_name e n) = lines"
    by (rule asciiFileToLines_eq [OF st _ pl]) simp_all
  obtain found where br: "break_loop (drop (c - 1) lines) (c - 1) [] = Inr found"
    "(case found of Some i \<Rightarrow> i | None \<Rightarrow> if length lines \<noteq> 0 then length lines - 1 else 0) = ?k - 1"
    using break_loop_cut [OF assms(2-4)] by blast
  have gne: "g \<noteq> []" using k assms(3) by (auto simp: g_def)
  have vg: "\<forall>l \<in> set g. valid_line l" using assms(2) by (auto simp: g_def dest: in_set_takeD)
  then have ids: "read_at (explode_into [] (hd g) TAB True) 1 = Inr (line_blk (hd g))"
    "read_at (explode_into [] (last g) TAB True) 1 = Inr (line_blk (last g))"
    using line_ids(1) gne by auto
  have tk: "?k - 1 + 1 = ?k" using k assms(3) by simp
  have reads: "read_at lines (c - 1) = Inr (lines ! (c - 1))" "read_at lines 0 = Inr (lines ! 0)"
    "read_at lines 1 = Inr (lines ! 1)" "read_at lines (?k - 1) = Inr (lines ! (?k - 1))"
    using assms(3-5) k ne by (auto simp: read_at_def)
  have tabs: "\<not> list_ex (\<lambda>l. countOf l TAB \<noteq> 2) g" using vg valid_line_chars(2) by (auto simp: list_ex_iff)
  have cz: "(c = 0) = False" using assms(3) by simp
  have name: "indexFolder_finalized e @ (line_blk (hd g) @ ''-'' @ line_blk (last g)) @ ''.bin'' =
      chunk_name (indexPath e) (line_blk (hd g)) (line_blk (last g))" by (simp add: chunk_name_def)
  show ?thesis
    unfolding write_pass_def Let_def w1_def [symmetric] assms(1) rd
    by (simp only: cz if_False reads(1) bindR.simps br(1))
      (simp only: br(2) reads bindR.simps tk g_def [symmetric] rest_def [symmetric] tabs if_False ids name)
qed

lemma write_pass_effect:
  assumes "good_path (indexPath e)" "quiet e w" "sectionLocks w = 0" "\<not> pin con" "newStage con = stage_name e n" "list_all isdigit n"
    "\<forall>l \<in> set lines. valid_line l" "12 \<le> c" "c \<le> length lines" "file_at w (stage_name e n) = stage_text lines"
  defines "g \<equiv> take (cut_at c lines) lines" and "rest \<equiv> drop (cut_at c lines) lines"
  shows "\<exists>w'. write_pass e con c w = Inr (True, w') \<and> chunked e w' g \<and> file_at w' (stage_name e n) = stage_text rest \<and>
    meta w' = meta w \<and>
    (\<forall>fn. fn \<notin> {stage_name e n, temp_name (indexPath e) (line_blk (hd g)) (line_blk (last g)),
         chunk_name (indexPath e) (line_blk (hd g)) (line_blk (last g)),
         bloom_name (indexPath e) (line_blk (hd g)) (line_blk (last g))} \<longrightarrow> file_at w' fn = file_at w fn)"
proof -
  let ?a = "line_blk (hd g)" and ?b = "line_blk (last g)"
  have c0: "0 < c" and l2: "2 \<le> length lines" using assms(8,9) by auto
  have k: "c \<le> cut_at c lines" "cut_at c lines \<le> length lines" using cut_bounds [OF c0 assms(9)] by auto
  have lg: "12 \<le> length g" using k assms(8) by (simp add: g_def)
  have gne: "g \<noteq> []" using lg by auto
  have vg: "\<forall>l \<in> set g. valid_line l" using assms(7) by (auto simp: g_def dest: in_set_takeD)
  have ids: "list_all isdigit ?a" "list_all isdigit ?b" using vg gne line_ids(2) by auto
  obtain chunk bl where wi: "writeIndexAsBinary (sort g) = Inr (chunk, bl)"
    using writeIndexAsBinary_layout [of "sort g"] vg lg by auto
  define w1 where "w1 = lockSection w"
  have q1: "quiet e w1" using assms(2) by (intro quiet_files [OF assms(2)]) (simp_all add: w1_def)
  have sl: "sectionLocks w1 < 16" using assms(3) by (simp add: w1_def lockSection_def)
  obtain w2 where w2: "writeIndexFile e (chunk_name (indexPath e) ?a ?b) (sort g) False w1 = Inr (True, w2)"
    "file_at w2 = (file_at w1)(bloom_name (indexPath e) ?a ?b \<mapsto> text_of bl, chunk_name (indexPath e) ?a ?b \<mapsto> text_of chunk,
       temp_name (indexPath e) ?a ?b := None)" "meta w2 = meta w1"
    using writeIndexFile_effect [OF assms(1) ids q1 sl wi] by auto
  define w3 where "w3 = remove_file (stage_name e n) w2"
  have q3: "quiet e w3"
    using w2 by (intro quiet_files [OF q1]) (auto simp: w3_def meta_def)
  have c3: "contents_of w3 (stage_name e n) = []" by (simp add: w3_def contents_of_def)
  obtain m w4 where w4: "(if rest \<noteq> [] then linesToAsciiFile (os e) (stage_name e n) rest NL w3 else Inr (0, w3)) = Inr (m, w4)"
    "file_at w4 = (file_at w3)(stage_name e n := stage_text rest)" "meta w4 = meta w3"
  proof (cases "rest = []")
    case True
    then show ?thesis using that [of 0 w3] by (auto simp: stage_text_def w3_def)
  next
    case False
    have "\<forall>l \<in> set rest. CHR 0x00 \<notin> set l"
      using assms(7) valid_line_chars(1) by (auto simp: rest_def plain_line_def dest: in_set_dropD)
    from linesToAsciiFile_free [OF quiet_writable [OF q3 clean_stage [OF assms(1,6)]] this, of NL] c3 False
    show ?thesis using that by (auto simp: stage_text_def)
  qed
  define w5 where "w5 = unlockSection w4"
  have "sectionLocks w4 = sectionLocks (lockSection w)"
    using w4(3) w2(3) by (simp add: meta_def w3_def w1_def)
  from unlock_lock [OF _ this] have m5: "meta w5 = meta w"
    using w4(3) w2(3) assms(3) by (simp add: meta_def w5_def w3_def w1_def)
  have p: "pin con = False" using assms(4) by simp
  note eq = write_pass_eq [OF assms(5,7) c0 assms(9) l2 assms(10), folded g_def rest_def w1_def]
  have run: "write_pass e con c w = Inr (True, w5)"
    unfolding eq by (simp only: p w2(1) bindR.simps prod.case w3_def [symmetric] w4(1) w5_def)
  have "chunked e w5 g" using w2(2) w4(2) wi by (auto simp: chunked_def w5_def w3_def)
  then show ?thesis using run m5 w4(2) w2(2) by (auto simp: w5_def w3_def w1_def)
qed

section \<open>The loop\<close>

lemma nRecords_stage:
  assumes "newStage con = stage_name e n" "file_at w (stage_name e n) = stage_text lines" "\<forall>l \<in> set lines. valid_line l"
  shows "nRecords con w = length lines"
proof (cases "lines = []")
  case True
  then show ?thesis using assms by (simp add: nRecords_def fileSize_def fileExists_def stage_text_def)
next
  case False
  have "length (linesToString lines NL) = length lines * (58 + 1)"
    using assms(3) valid_line_chars(3) by (intro length_linesToString) auto
  then show ?thesis using False assms by (simp add: nRecords_def fileSize_def fileExists_def stage_text_def)
qed

definition before :: "string list \<Rightarrow> string list \<Rightarrow> bool" where
  "before g h \<longleftrightarrow> (\<forall>x \<in> set g. \<forall>y \<in> set h. line_blk x < line_blk y)"

definition names_of :: "scrape_env \<Rightarrow> string list \<Rightarrow> string set" where
  "names_of e g = {temp_name (indexPath e) (line_blk (hd g)) (line_blk (last g)),
     chunk_name (indexPath e) (line_blk (hd g)) (line_blk (last g)),
     bloom_name (indexPath e) (line_blk (hd g)) (line_blk (last g))}"

lemma names_disjoint:
  assumes "before g h" "\<forall>l \<in> set (g @ h). valid_line l" "g \<noteq> []" "h \<noteq> []"
  shows "names_of e g \<inter> names_of e h = {}"
proof -
  have ne: "line_blk (hd g) \<noteq> line_blk (hd h)" 
    using assms(1) hd_in_set [OF assms(3)] hd_in_set [OF assms(4)] by (fastforce simp: before_def)
  have len: "length (line_blk (hd g)) = 9" "length (line_blk (hd h)) = 9"
    using assms(2-4) by (auto simp: valid_line_def line_blk_def)
  have "chunk_name p (line_blk (hd g)) b \<noteq> chunk_name p (line_blk (hd h)) d"
    "temp_name p (line_blk (hd g)) b \<noteq> temp_name p (line_blk (hd h)) d"
    "bloom_name p (line_blk (hd g)) b \<noteq> bloom_name p (line_blk (hd h)) d" for p b d
    using ne len by (simp_all add: chunk_name_def temp_name_def bloom_name_def append_eq_append_conv)
  then show ?thesis by (auto simp: names_of_def)
qed

lemma chunked_frame:
  assumes "chunked e w g" "\<And>fn. fn \<in> names_of e g \<Longrightarrow> file_at w' fn = file_at w fn"
  shows "chunked e w' g"
  using assms by (auto simp: chunked_def names_of_def)

lemma write_chunks_loop_effect:
  assumes "good_path (indexPath e)" "\<not> pin con" "newStage con = stage_name e n" "list_all isdigit n" "\<forall>i. \<not> quitAsked (os e) i"
    "quiet e w" "sectionLocks w = 0" "\<forall>l \<in> set lines. valid_line l" "sorted (map line_blk lines)"
    "file_at w (stage_name e n) = stage_text lines"
  shows "\<exists>groups rest w'.
    write_chunks_loop e con (min (MAX_ROWS e) (length lines)) False (length lines) w = Some (Inr (True, w')) \<and>
    concat groups @ rest = lines \<and> length rest \<le> MAX_ROWS e \<and> sorted_wrt before (groups @ [rest]) \<and>
    (\<forall>g \<in> set groups. MAX_ROWS e \<le> length g \<and> chunked e w' g) \<and> file_at w' (stage_name e n) = stage_text rest \<and>
    sectionLocks w' = 0 \<and>
    (\<forall>fn. fn \<noteq> stage_name e n \<and> (\<forall>g \<in> set groups. fn \<notin> names_of e g) \<longrightarrow> file_at w' fn = file_at w fn)"
  using assms(6-10)
proof (induction "length lines" arbitrary: lines w rule: less_induct)
  case less
  show ?case
  proof (cases "MAX_ROWS e < length lines")
    case False
    then have "write_chunks_loop e con (min (MAX_ROWS e) (length lines)) False (length lines) w = Some (Inr (True, w))"
      by (subst write_chunks_loop.simps) simp
    then show ?thesis using False less.prems by (intro exI [of _ "[]"] exI [of _ lines] exI [of _ w]) simp
  next
    case True
    define c where "c = MAX_ROWS e"
    have c: "12 \<le> c" "c \<le> length lines" "0 < c" using True by (auto simp: c_def MAX_ROWS_def)
    define w1 where "w1 = w\<lparr>polls := Suc (polls w)\<rparr>"
    have quit: "shouldQuit (os e) w = Inr (False, w1)" using assms(5) by (simp add: shouldQuit_def w1_def)
    have 1: "quiet e w1" "sectionLocks w1 = 0" "file_at w1 (stage_name e n) = stage_text lines"
      using less.prems quiet_files [OF less.prems(1), of w1] by (simp_all add: w1_def)
    define g where "g = take (cut_at c lines) lines"
    define rest where "rest = drop (cut_at c lines) lines"
    from write_pass_effect [OF assms(1) 1(1,2) assms(2-4) less.prems(3) c(1,2) 1(3), folded g_def rest_def]
    obtain w2 where w2: "write_pass e con c w1 = Inr (True, w2)" "chunked e w2 g" "file_at w2 (stage_name e n) = stage_text rest"
      "meta w2 = meta w1" "\<And>fn. fn \<noteq> stage_name e n \<Longrightarrow> fn \<notin> names_of e g \<Longrightarrow> file_at w2 fn = file_at w1 fn"
      by (auto simp: names_of_def)
    have k: "c \<le> cut_at c lines" "cut_at c lines \<le> length lines" using cut_bounds [OF c(3,2)] by auto
    have small: "length rest < length lines" using k c by (simp add: rest_def)
    have v: "\<forall>l \<in> set g. valid_line l" "\<forall>l \<in> set rest. valid_line l"
      using less.prems(3) by (auto simp: g_def rest_def dest: in_set_takeD in_set_dropD)
    have so: "sorted (map line_blk rest)" using less.prems(4) by (simp add: rest_def drop_map [symmetric] sorted_wrt_drop)
    have q2: "quiet e w2"
      using w2(4,5) by (intro quiet_files [OF 1(1)]) (auto simp: meta_def names_of_def)
    have l2: "sectionLocks w2 = 0" using w2(4) 1(2) by (simp add: meta_def)
    have gne: "g \<noteq> []" using k c by (auto simp: g_def)
    have sep: "before g rest" using cut_separates [OF less.prems(4) c(3,2)] by (auto simp: before_def g_def rest_def)
    from less.hyps [OF small q2 l2 v(2) so w2(3)] obtain gs r w' where ih:
      "write_chunks_loop e con (min (MAX_ROWS e) (length rest)) False (length rest) w2 = Some (Inr (True, w'))"
      "concat gs @ r = rest" "length r \<le> MAX_ROWS e" "sorted_wrt before (gs @ [r])"
      "\<forall>g \<in> set gs. MAX_ROWS e \<le> length g \<and> chunked e w' g" "file_at w' (stage_name e n) = stage_text r"
      "sectionLocks w' = 0"
      "\<And>fn. fn \<noteq> stage_name e n \<Longrightarrow> (\<forall>g \<in> set gs. fn \<notin> names_of e g) \<Longrightarrow> file_at w' fn = file_at w2 fn" by blast
    have run: "write_chunks_loop e con (min (MAX_ROWS e) (length lines)) False (length lines) w = Some (Inr (True, w'))"
      using True quit w2(1) ih(1) nRecords_stage [OF assms(3) w2(3) v(2)]
      by (subst write_chunks_loop.simps) (simp add: c_def)
    have sub: "set h \<subseteq> set rest" if "h \<in> set (gs @ [r])" for h using that ih(2) by auto
    have sepall: "before g h" if "h \<in> set (gs @ [r])" for h using sep sub [OF that] by (auto simp: before_def)
    have hne: "h \<noteq> []" if "h \<in> set gs" for h using ih(5) that c by (auto simp: c_def)
    have dj: "names_of e g \<inter> names_of e h = {}" if "h \<in> set gs" for h
      using that sepall [of h] sub [of h] v gne hne by (intro names_disjoint) auto
    have "chunked e w' g"
    proof (rule chunked_frame [OF w2(2)])
      fix fn assume fn: "fn \<in> names_of e g"
      then have "fn \<noteq> stage_name e n" by (auto simp: names_of_def)
      moreover have "\<forall>h \<in> set gs. fn \<notin> names_of e h" using fn dj by blast
      ultimately show "file_at w' fn = file_at w2 fn" by (rule ih(8))
    qed
    moreover have "g @ rest = lines" by (simp add: g_def rest_def)
    moreover have "MAX_ROWS e \<le> length g" using k by (simp add: g_def c_def)
    moreover have "file_at w' fn = file_at w fn" if "fn \<noteq> stage_name e n" "\<forall>g \<in> set (g # gs). fn \<notin> names_of e g" for fn
      using that ih(8) w2(5) by (simp add: w1_def)
    ultimately show ?thesis using run ih(2-7) sepall
      by (intro exI [of _ "g # gs"] exI [of _ r] exI [of _ w'] conjI) simp_all
  qed
qed

lemma consolidate_effect:
  assumes "good_path (indexPath e)" "\<not> pin con" "newStage con = stage_name e n" "list_all isdigit n" "\<forall>i. \<not> quitAsked (os e) i"
    "quiet e w" "sectionLocks w = 0" "\<forall>l \<in> set lines. valid_line l" "sorted (map line_blk lines)"
    "file_at w (stage_name e n) = stage_text lines"
  shows "\<exists>groups rest w'. consolidate_chunks e con w = Some (Inr (True, w')) \<and>
    concat groups @ rest = lines \<and> length rest \<le> MAX_ROWS e \<and> sorted_wrt before (groups @ [rest]) \<and>
    (\<forall>g \<in> set groups. MAX_ROWS e \<le> length g \<and> chunked e w' g) \<and> file_at w' (stage_name e n) = stage_text rest \<and>
    sectionLocks w' = 0 \<and>
    (\<forall>fn. fn \<noteq> stage_name e n \<and> (\<forall>g \<in> set groups. fn \<notin> names_of e g) \<longrightarrow> file_at w' fn = file_at w fn)"
proof -
  note nr = nRecords_stage [OF assms(3,10,8)]
  have "consolidate_chunks e con w = write_chunks_loop e con (min (MAX_ROWS e) (length lines)) False (length lines) w"
    by (cases "length lines \<le> MAX_ROWS e")
      (simp_all add: consolidate_chunks_def write_chunks_def nr write_chunks_loop.simps [of e con "length lines"])
  then show ?thesis using write_chunks_loop_effect [OF assms] by (simp only:)
qed

section \<open>Staging\<close>

lemma padNum9_digits: "list_all isdigit (padNum9 n)"
  using dec_str_digits [of "unat n"] by (auto simp: padNum9_def uint_2_Str_def padLeft_def list_all_iff isdigit_def)

lemma lastFile_in_folder:
  assumes "getLastFileInFolder w folder False \<noteq> []"
  shows "\<exists>r. getLastFileInFolder w folder False = folder @ r"
proof -
  let ?l = "listFilesInFolder w folder False"
  have ne: "?l \<noteq> []" using assms by (auto simp: getLastFileInFolder_Max)
  then have "Max (set ?l) \<in> set ?l" by (intro Max_in) auto
  then show ?thesis using ne by (auto simp: getLastFileInFolder_Max listFilesInFolder_def dir_entry_def Let_def)
qed

lemma appendFile_effect:
  assumes "\<forall>fn. creatable (os e) fn" "file_at w from = Some s" "to \<noteq> from"
  shows "\<exists>w'. appendFile e to from w = (True, w') \<and> file_at w' = (file_at w)(to \<mapsto> contents_of w to @ s) \<and> meta w' = meta w"
  using assms by (auto simp: appendFile_def Let_def contents_of_def fun_eq_iff)

lemma stage_chunks_effect:
  fixes e con w
  defines "old \<equiv> getLastFileInFolder w (indexFolder_staging e) False"
    and "new \<equiv> stage_name e (padNum9 (prevBlock con))" and "temp \<equiv> indexPath e @ ''temp.txt''"
  assumes "\<forall>fn. creatable (os e) fn" "tmp_fn con = indexFolder_staging e @ ''000000000-temp.txt''" "old \<noteq> new" "old \<noteq> tmp_fn con"
    "file_at w old = Some s" "file_at w (tmp_fn con) = Some t" "old \<noteq> []" "sectionLocks w \<noteq> - 1"
  shows "\<exists>con' w'. stage_chunks e con w = (True, con', w') \<and> newStage con' = new \<and> prevBlock con' = prevBlock con \<and>
    tmp_fn con' = tmp_fn con \<and> meta w' = meta w \<and>
    file_at w' = (file_at w)(temp := None, old := None, tmp_fn con := None, new \<mapsto> contents_of w temp @ s @ t)"
proof -
  obtain r where r: "old = indexFolder_staging e @ r"
    using lastFile_in_folder [of w "indexFolder_staging e"] assms(10) by (auto simp: old_def)
  have "CHR ''-'' \<notin> set (padNum9 (prevBlock con))"
    using padNum9_digits [of "prevBlock con"] by (intro not_in_digits) (simp_all add: isdigit_def less_eq_char_def)
  then have nt: "new \<noteq> tmp_fn con"
    by (auto simp: new_def stage_name_def assms(5) dest!: arg_cong [where f = set])
  have tn: "temp \<noteq> old" "temp \<noteq> new" "temp \<noteq> tmp_fn con"
    by (auto simp: temp_def r new_def stage_name_def assms(5))
  define con1 where "con1 = con\<lparr>oldStage := old, newStage := new, tmpFile := temp\<rparr>"
  obtain w1 where w1: "appendFile e temp old w = (True, w1)" "file_at w1 = (file_at w)(temp \<mapsto> contents_of w temp @ s)" "meta w1 = meta w"
    using appendFile_effect [OF assms(4,8) tn(1)] by blast
  have "file_at w1 (tmp_fn con) = Some t" using w1(2) tn(3) assms(9) by simp
  from appendFile_effect [OF assms(4) this tn(3)] obtain w2 where
    w2: "appendFile e temp (tmp_fn con) w1 = (True, w2)" "file_at w2 = (file_at w1)(temp \<mapsto> contents_of w1 temp @ t)" "meta w2 = meta w1"
    by blast
  have c1: "contents_of w1 temp = contents_of w temp @ s" using w1(2) by (simp add: contents_of_def)
  define w3 where "w3 = rename_file temp new (lockSection w2)"
  have f3: "file_at w3 = (file_at w)(temp := None, new \<mapsto> contents_of w temp @ s @ t)"
    using w2(2) w1(2) tn(2) c1 by (auto simp: w3_def rename_file_def fun_eq_iff)
  have m3: "meta w3 = meta (lockSection w2)"
    using w2(2) by (auto simp: w3_def rename_file_def)
  define w5 where "w5 = unlockSection (remove_file (tmp_fn con) (remove_file old w3))"
  have "sectionLocks w2 = sectionLocks w" using w2(3) w1(3) by (simp add: meta_def)
  then have "sectionLocks (remove_file (tmp_fn con) (remove_file old w3)) = sectionLocks (lockSection w)"
    using m3 by (simp add: meta_def lockSection_def)
  from unlock_lock [OF assms(11) this] have "meta w5 = meta w"
    using m3 w2(3) w1(3) by (simp add: meta_def w5_def)
  moreover have "file_at w5 = (file_at w)(temp := None, old := None, tmp_fn con := None, new \<mapsto> contents_of w temp @ s @ t)"
    using f3 nt assms(6) by (auto simp: w5_def fun_eq_iff)
  moreover have "stage_chunks e con w = (True, con1, w5)"
    using assms(6,7) w1(1) w2(1)
    by (simp add: stage_chunks_def Let_def old_def [symmetric] new_def [unfolded stage_name_def, symmetric] temp_def [symmetric]
        con1_def w5_def w3_def new_def stage_name_def)
  ultimately show ?thesis by (intro exI [of _ con1] exI [of _ w5]) (simp add: con1_def)
qed

lemma stage_chunks_prevBlock: "stage_chunks e con w = (ok, con', w') \<Longrightarrow> prevBlock con' = prevBlock con"
  by (auto simp: stage_chunks_def Let_def split: if_splits prod.splits bool.splits)

lemma copyRipeToStage_prevBlock:
  assumes "copyRipeToStage e path con w = Some (Inr (True, con', w'))" "bnFromPath path = Inr (bn, l)"
  shows "prevBlock con' = bn"
  using assms stage_chunks_prevBlock
  by (fastforce simp: copyRipeToStage_def snap_to_grid_def Let_def
      split: if_splits option.splits sum.splits prod.splits bool.splits)

end
