(* ===== verification/Monitor_Correct.thy ===== *)
theory Monitor_Correct
  imports Monitor Consolidator_Correct
begin

text \<open>
  Monitors against the index: freshening a new monitor collects exactly the appearances
  the chunks hold. First the names of the files, then what each step does to them, then the
  visit of one chunk and of the folder.
\<close>

section \<open>Names of index files\<close>

lemma explode_last_part:
  "c \<notin> set f \<Longrightarrow> f \<noteq> [] \<Longrightarrow> explode_loop t c buf (x @ c # f) \<noteq> [] \<and> last (explode_loop t c buf (x @ c # f)) = f"
  by (induction x arbitrary: buf) (auto simp: explode_loop_last)

lemma endsWith_append:
  assumes "CHR 0x00 \<notin> set (a @ b)" "b \<noteq> []"
  shows "endsWith (a @ b) b"
  using c_str_id [OF assms(1)] assms(2) by (simp add: endsWith_def Let_def extract_q_def)

text \<open>
  An index folder whose chunk names \<^verbatim>\<open>visitFinalIndexFiles\<close> and
  \<^verbatim>\<open>visitBinaryFile\<close> take apart the intended way.
\<close>

definition good_index :: "string \<Rightarrow> bool" where
  "good_index p \<longleftrightarrow> good_path p \<and> find_sub ''_ts'' (p @ ''blooms/'') = None \<and>
     find_sub (p @ ''blooms/'') (p @ ''finalized/'') = None \<and> find_sub ''.bloom'' (p @ ''finalized/'') = None"

lemma digits_absent:
  assumes "list_all isdigit a" "list_all isdigit b" "\<not> isdigit c" "c \<noteq> CHR ''-''"
  shows "c \<notin> set (a @ ''-'' @ b)"
  using assms not_in_digits by auto

lemma bloom_name_parts:
  assumes "good_index p" "list_all isdigit a" "list_all isdigit b" "a \<noteq> []" "b \<noteq> []"
  shows "contains (bloom_name p a b) ''-''" "endsWith (bloom_name p a b) ''.bloom''"
    "bnFromPath (bloom_name p a b) = Inr (str_2_Uint a, str_2_Uint b)"
proof -
  have gp: "good_path p" using assms(1) by (simp add: good_index_def)
  show "contains (bloom_name p a b) ''-''"
    unfolding contains_def bloom_name_def by (simp add: find_sub_char)
  have cl: "clean_name (bloom_name p a b)" by (rule clean_names [OF gp assms(2,3)])
  have eq: "bloom_name p a b = (p @ ''blooms/'' @ a @ ''-'' @ b) @ ''.bloom''" by (simp add: bloom_name_def)
  show "endsWith (bloom_name p a b) ''.bloom''"
    unfolding eq by (rule endsWith_append) (use cl in \<open>auto simp: clean_name_def eq\<close>)
  let ?f = "(a @ ''-'' @ b) @ ''.bloom''"
  have nd: "\<not> isdigit (CHR ''/'')" "\<not> isdigit (CHR ''s'')" "\<not> isdigit (CHR ''-'')" "\<not> isdigit (CHR ''.'')"
    by (simp_all add: isdigit_def less_eq_char_def)
  have "CHR ''/'' \<notin> set ?f" using digits_absent [OF assms(2,3) nd(1)] by auto
  from explode_last_part [OF this, of True "[]" "p @ ''blooms''"]
  have ex: "explode_into [] (bloom_name p a b) (CHR ''/'') True \<noteq> []"
    "last (explode_into [] (bloom_name p a b) (CHR ''/'') True) = ?f"
    by (simp_all add: explode_into_def bloom_name_def)
  have "find_sub ''_ts'' ((p @ ''blooms/'') @ ?f) = None"
    by (rule find_sub_extend_None) (use assms(1) digits_absent [OF assms(2,3) nd(2)] in \<open>auto simp: good_index_def\<close>)
  then have ts: "\<not> contains (bloom_name p a b) ''_ts''" by (simp add: contains_def bloom_name_def)
  have t1: "nextTokenClear ?f (CHR ''.'') True = (a @ ''-'' @ b, ''bloom'')"
    using nextTokenClear_at [of "CHR ''.''" "a @ ''-'' @ b" "''bloom''"] digits_absent [OF assms(2,3) nd(4)] by simp
  have t2: "nextTokenClear (a @ ''-'' @ b) (CHR ''-'') True = (a, b)"
    using nextTokenClear_at [of "CHR ''-''" a b] not_in_digits [OF assms(2) nd(3)] assms(5) by simp
  show "bnFromPath (bloom_name p a b) = Inr (str_2_Uint a, str_2_Uint b)"
    using ex ts assms(2-5) t1 t2 by (simp add: bnFromPath_def Let_def isNumeral_def)
qed

lemma chunk_of_bloom:
  assumes "good_index p" "list_all isdigit a" "list_all isdigit b"
  shows "\<exists>q. substitute (bloom_name p a b) (p @ ''blooms/'') (p @ ''finalized/'') = Some q \<and>
    substitute q ''.bloom'' ''.bin'' = Some (chunk_name p a b)"
proof -
  let ?f = "(a @ ''-'' @ b) @ ''.bloom''" and ?q = "(p @ ''finalized/'') @ ((a @ ''-'' @ b) @ ''.bloom'')"
  have gi: "plain_chars p" "find_sub (p @ ''blooms/'') (p @ ''finalized/'') = None" "find_sub ''.bloom'' (p @ ''finalized/'') = None"
    using assms(1) by (auto simp: good_index_def good_path_def)
  have nd: "\<not> isdigit (CHR ''/'')" "\<not> isdigit (CHR ''m'')" by (simp_all add: isdigit_def less_eq_char_def)
  have "find_sub (p @ ''blooms/'') ((p @ ''blooms/'') @ ?f) = Some 0" by (rule find_sub_prefix)
  moreover have "find_sub (p @ ''blooms/'') ?q = None"
    by (rule find_sub_extend_None [OF gi(2)]) (use digits_absent [OF assms(2,3) nd(1)] in auto)
  ultimately have 1: "substitute ((p @ ''blooms/'') @ ?f) (p @ ''blooms/'') (p @ ''finalized/'') = Some ([] @ ?q)"
    using gi by (intro substitute_once) (auto simp: plain_chars_def)
  have pre: "find_sub ''.bloom'' ((p @ ''finalized/'') @ (a @ ''-'' @ b)) = None"
    by (rule find_sub_extend_None [OF gi(3)]) (use digits_absent [OF assms(2,3) nd(2)] in auto)
  then have "find_sub ''.bloom'' (((p @ ''finalized/'') @ (a @ ''-'' @ b)) @ ''.bloom'' @ []) = Some (length ((p @ ''finalized/'') @ (a @ ''-'' @ b)))"
    by (rule find_sub_unique) simp_all
  moreover have "find_sub ''.bloom'' (((p @ ''finalized/'') @ (a @ ''-'' @ b)) @ ''.bin'') = None"
    by (rule find_sub_extend_None [OF pre]) simp_all
  ultimately have "substitute ?q ''.bloom'' ''.bin'' = Some (((p @ ''finalized/'') @ (a @ ''-'' @ b)) @ ''.bin'' @ [])"
    by (intro substitute_once) auto
  then show ?thesis using 1 by (simp add: bloom_name_def chunk_name_def)
qed

section \<open>Names of monitor files\<close>

definition mon_dir :: "export_env \<Rightarrow> bool \<Rightarrow> string" where
  "mon_dir e onStage = (cachePath e @ ''monitors/'') @ (if onStage then ''staging/'' else [])"

definition acct_name :: "export_env \<Rightarrow> string \<Rightarrow> bool \<Rightarrow> string" where
  "acct_name e a onStage = (mon_dir e onStage @ a) @ ''.acct.bin''"

definition last_name :: "export_env \<Rightarrow> string \<Rightarrow> bool \<Rightarrow> string" where
  "last_name e a onStage = (mon_dir e onStage @ a) @ ''.last.txt''"

definition good_cache :: "export_env \<Rightarrow> bool" where
  "good_cache e \<longleftrightarrow> plain_chars (cachePath e) \<and>
     (\<forall>b. find_sub ''.acct.bin'' (mon_dir e b) = None)"

lemma valid_addr_chars:
  assumes "valid_addr a" "c \<in> set a"
  shows "c = CHR ''x'' \<or> is_hex c"
  using assms by (elim valid_addrE) (auto simp: list_all_iff is_hex_def)

lemma not_in_addr: "valid_addr a \<Longrightarrow> \<not> is_hex c \<Longrightarrow> c \<noteq> CHR ''x'' \<Longrightarrow> c \<notin> set a"
  using valid_addr_chars by blast

lemma getMonitorPath_addr [simp]: "valid_addr a \<Longrightarrow> getMonitorPath e a b = acct_name e a b"
  by (simp add: getMonitorPath_def isAddress_valid acct_name_def mon_dir_def)

lemma getMonitorPathLast_addr:
  assumes "valid_addr a" "good_cache e"
  shows "getMonitorPathLast e a b = Inr (last_name e a b)"
proof -
  let ?d = "mon_dir e b @ a"
  have pre: "find_sub ''.acct.bin'' ?d = None"
    by (rule find_sub_extend_None) (use assms not_in_addr [OF assms(1), of "CHR ''n''"] in
      \<open>auto simp: good_cache_def is_hex_def less_eq_char_def\<close>)
  have "find_sub ''.acct.bin'' (?d @ ''.acct.bin'' @ []) = Some (length ?d)"
    by (rule find_sub_unique [OF pre]) simp_all
  moreover have "find_sub ''.acct.bin'' (?d @ ''.last.txt'') = None"
    by (rule find_sub_extend_None [OF pre]) simp_all
  ultimately have "substitute (?d @ ''.acct.bin'') ''.acct.bin'' ''.last.txt'' = Some (?d @ ''.last.txt'' @ [])"
    by (intro substitute_once) auto
  then show ?thesis using assms(1) by (simp add: getMonitorPathLast_def acct_name_def last_name_def)
qed

lemma monitor_names_plain:
  assumes "valid_addr a" "good_cache e"
  shows "plain_chars (acct_name e a b)" "plain_chars (last_name e a b)"
    "clean_name (acct_name e a b)" "clean_name (last_name e a b)"
proof -
  have "set a \<inter> {CHR '':'', CHR ''|'', CHR 0x00, CHR ''&'', CHR ''('', CHR '')'', CHR 0x27, CHR 0x60} = {}"
    by (auto dest!: valid_addr_chars [OF assms(1)] simp: is_hex_def less_eq_char_def)
  then show "plain_chars (acct_name e a b)" "plain_chars (last_name e a b)"
    using assms(2) by (auto simp: plain_chars_def good_cache_def acct_name_def last_name_def mon_dir_def)
  then show "clean_name (acct_name e a b)" "clean_name (last_name e a b)"
    by (auto simp: plain_chars_def clean_name_def acct_name_def last_name_def)
qed

lemma monitor_names_neq [simp]:
  "acct_name e a b \<noteq> last_name e c d" "last_name e c d \<noteq> acct_name e a b"
  "acct_name e a b \<noteq> lck fn" "last_name e a b \<noteq> lck fn" "lck fn \<noteq> acct_name e a b" "lck fn \<noteq> last_name e a b"
  "acct_name e a b \<noteq> []" "last_name e a b \<noteq> []"
  "acct_name e a b \<noteq> bloom_name p x y" "last_name e a b \<noteq> bloom_name p x y" "last_name e a b \<noteq> chunk_name p x y"
  "bloom_name p x y \<noteq> acct_name e a b" "bloom_name p x y \<noteq> last_name e a b" "chunk_name p x y \<noteq> last_name e a b"
proof -
  have "last (acct_name e a b) = CHR ''n''" "last (last_name e c d) = CHR ''t''" "last (lck fn) = CHR ''k''"
    "last (bloom_name p x y) = CHR ''m''" "last (chunk_name p x y) = CHR ''n''" for a b c d
    by (simp_all add: acct_name_def last_name_def lck_def bloom_name_def chunk_name_def)
  then show "acct_name e a b \<noteq> last_name e c d" "last_name e c d \<noteq> acct_name e a b"
    "acct_name e a b \<noteq> lck fn" "last_name e a b \<noteq> lck fn" "lck fn \<noteq> acct_name e a b" "lck fn \<noteq> last_name e a b"
    "acct_name e a b \<noteq> bloom_name p x y" "last_name e a b \<noteq> bloom_name p x y" "last_name e a b \<noteq> chunk_name p x y"
    "bloom_name p x y \<noteq> acct_name e a b" "bloom_name p x y \<noteq> last_name e a b" "chunk_name p x y \<noteq> last_name e a b"
    by (auto dest!: arg_cong [where f = last])
qed (simp_all add: acct_name_def last_name_def)

lemma acct_not_chunk:
  assumes "list_all isdigit y" "y \<noteq> []"
  shows "acct_name e a b \<noteq> chunk_name p x y"
proof
  assume "acct_name e a b = chunk_name p x y"
  then have eq: "(mon_dir e b @ a) @ ''.acct'' = p @ ''finalized/'' @ x @ ''-'' @ y"
    by (simp add: acct_name_def chunk_name_def)
  from arg_cong [OF eq, of last] have "last y = CHR ''t''" using assms(2) by simp
  then show False using assms last_in_set [of y] by (auto simp: list_all_iff isdigit_def less_eq_char_def)
qed

lemma last_not_in_remove_list: "\<not> contains (lck (acct_name e a b) @ ''|'') (lck (last_name e a b) @ ''|'')"
proof
  assume "contains (lck (acct_name e a b) @ ''|'') (lck (last_name e a b) @ ''|'')"
  then obtain x y where eq: "lck (acct_name e a b) @ ''|'' = x @ (lck (last_name e a b) @ ''|'') @ y"
    unfolding contains_def find_sub_None by blast
  from arg_cong [OF eq, of length] have "x = []" "y = []"
    by (simp_all add: lck_def acct_name_def last_name_def)
  with eq show False by (simp add: lck_def acct_name_def last_name_def)
qed

section \<open>The files of a new monitor\<close>

text \<open>
  A new monitor collects on the stage of the monitors. \<open>collected\<close> says which appearances
  its file holds and up to which block it has been scanned, everything else being as in
  the world \<open>w0\<close>; the file may be open and locked or not.
\<close>

definition ready :: "export_env \<Rightarrow> string \<Rightarrow> world \<Rightarrow> bool" where
  "ready e a w0 \<longleftrightarrow> (\<forall>fn. creatable (xos e) fn) \<and> (\<forall>i. \<not> quitAsked (xos e) i) \<and> good_cache e \<and> valid_addr a \<and>
     file_at w0 (lck (last_name e a True)) = None"

abbreviation app_bytes :: "CMonitoredAppearance list \<Rightarrow> string" where
  "app_bytes apps \<equiv> text_of (concat (map put_monitored apps))"

definition collected :: "export_env \<Rightarrow> string \<Rightarrow> world \<Rightarrow> world \<Rightarrow> CMonitoredAppearance list \<Rightarrow> 64 word option \<Rightarrow> bool" where
  "collected e a w0 w acc bn \<longleftrightarrow> contents_of w (acct_name e a True) = app_bytes acc \<and>
     file_at w (last_name e a True) = map_option (\<lambda>b. uint_2_Str b @ [NL]) bn \<and>
     (\<forall>fn. fn \<noteq> acct_name e a True \<longrightarrow> fn \<noteq> last_name e a True \<longrightarrow> fn \<noteq> lck (acct_name e a True) \<longrightarrow> file_at w fn = file_at w0 fn) \<and>
     sectionLocks w = 0"

definition released :: "export_env \<Rightarrow> string \<Rightarrow> world \<Rightarrow> bool" where
  "released e a w \<longleftrightarrow> removeList w = [] \<and> file_at w (lck (acct_name e a True)) = None"

definition held :: "export_env \<Rightarrow> string \<Rightarrow> world \<Rightarrow> CMonitor \<Rightarrow> bool" where
  "held e a w mo \<longleftrightarrow> removeList w = lck (acct_name e a True) @ ''|'' \<and>
     (\<exists>r. tx_cache mo = Some r \<and> m_ownsLock r \<and> m_filename r = acct_name e a True)"

definition settled :: "export_env \<Rightarrow> string \<Rightarrow> world \<Rightarrow> CMonitor list \<Rightarrow> bool" where
  "settled e a w mos \<longleftrightarrow> (\<forall>mo \<in> set mos. tx_cache mo = None) \<and> released e a w \<or> (\<exists>mo. mos = [mo] \<and> held e a w mo)"

lemma contains_Nil [simp]: "\<not> contains [] (x @ [c])"
  by (auto simp: contains_def find_sub_None)

lemma collected_polls [simp]: "collected e a w0 (w\<lparr>polls := n\<rparr>) acc bn = collected e a w0 w acc bn"
  "released e a (w\<lparr>polls := n\<rparr>) = released e a w" "held e a (w\<lparr>polls := n\<rparr>) mo = held e a w mo"
  "settled e a (w\<lparr>polls := n\<rparr>) mos = settled e a w mos"
  by (simp_all add: collected_def released_def held_def settled_def contents_of_def)

lemma clear_all_unopened: "\<forall>mo \<in> set mos. tx_cache mo = None \<Longrightarrow> clear_all mos w = Inr w"
  by (induction mos) (auto simp: clear_monitor_def)

lemma clear_all_effect:
  assumes "ready e a w0" "collected e a w0 w acc bn" "settled e a w mos"
  shows "\<exists>w'. clear_all mos w = Inr w' \<and> collected e a w0 w' acc bn \<and> released e a w'"
proof (cases "\<forall>mo \<in> set mos. tx_cache mo = None")
  case True
  then have "released e a w" using assms(3) by (auto simp: settled_def held_def)
  then show ?thesis using True clear_all_unopened assms(2) by blast
next
  case False
  then obtain mo r where mo: "mos = [mo]" "tx_cache mo = Some r" "m_ownsLock r" "m_filename r = acct_name e a True"
    "removeList w = [] @ lck (acct_name e a True) @ ''|''"
    using assms(3) by (auto simp: settled_def held_def)
  have c: "clean_name (acct_name e a True)" using assms(1) monitor_names_plain by (simp add: ready_def)
  from Release_owned [OF c mo(5) _ mo(3,4)] obtain r' w' where "Release (r, w) = Inr (r', w')"
    "file_at w' = (file_at w)(lck (acct_name e a True) := None)" "sectionLocks w' = sectionLocks w" "removeList w' = []"
    by auto
  then show ?thesis using mo(1,2) assms(2)
    by (auto simp: clear_monitor_def collected_def released_def contents_of_def)
qed

lemma openForWriting_effect:
  assumes "ready e a w0" "collected e a w0 w acc bn" "released e a w" "maddress mo = a" "tx_cache mo = None"
  shows "\<exists>r w'. openForWriting e True (mo, w) = Inr (True, mo\<lparr>tx_cache := Some r\<rparr>, w') \<and>
    collected e a w0 w' acc bn \<and> held e a w' (mo\<lparr>tx_cache := Some r\<rparr>)"
proof -
  have v: "valid_addr a" "good_cache e" using assms(1) by (auto simp: ready_def)
  have "writable (xos e) w (acct_name e a True)"
    using assms(1,3) monitor_names_plain [OF v] by (simp add: writable_def ready_def released_def)
  from Lock_free [OF this, of modeWriteAppend LOCK_WAIT] obtain r w1 where
    "Lock (xos e) (acct_name e a True) modeWriteAppend LOCK_WAIT (resource_new, w) = Inr (True, r, w1)"
    "m_ownsLock r" "m_filename r = acct_name e a True" "sectionLocks w1 = sectionLocks w"
    "removeList w1 = removeList w @ lck (acct_name e a True) @ ''|''"
    "file_at w1 = (file_at w)(lck (acct_name e a True) \<mapsto> [CHR 0x0A], acct_name e a True \<mapsto> contents_of w (acct_name e a True))"
    by (fastforce simp: modeWriteCreate_def modeWriteAppend_def)
  then show ?thesis using assms(2-5) v
    by (auto simp: openForWriting_def collected_def held_def released_def contents_of_def)
qed

lemma writeMonitorArray_effect:
  assumes "collected e a w0 w acc bn" "held e a w mo"
  shows "collected e a w0 (unlockSection (writeMonitorArray mo items (lockSection w))) (acc @ items) bn \<and>
    held e a (unlockSection (writeMonitorArray mo items (lockSection w))) mo"
proof -
  from assms(2) obtain r where r: "tx_cache mo = Some r" "m_filename r = acct_name e a True" by (auto simp: held_def)
  have "text_of (x @ y) = text_of x @ text_of y" for x y by (simp add: text_of_def)
  then show ?thesis using assms r
    by (auto simp: writeMonitorArray_def collected_def held_def contents_of_def lockSection_def unlockSection_def
        append_to_def put_file_def file_at_def AList.update_conv' split: option.splits)
qed

lemma write_last_effect:
  assumes "ready e a w0" "collected e a w0 w acc bn" "maddress mo = a" "isStaging mo"
    "removeList w = [] \<or> removeList w = lck (acct_name e a True) @ ''|''"
  shows "\<exists>w'. write_last_all e n [mo] w = Inr w' \<and> collected e a w0 w' acc (Some n) \<and>
    removeList w' = removeList w \<and> file_at w' (lck (acct_name e a True)) = file_at w (lck (acct_name e a True))"
proof -
  have v: "valid_addr a" "good_cache e" "file_at w0 (lck (last_name e a True)) = None" "\<forall>fn. creatable (xos e) fn"
    using assms(1) by (auto simp: ready_def)
  have neq: "lck (last_name e a True) \<noteq> lck (acct_name e a True)" by (simp add: lck_def acct_name_def last_name_def)
  have "file_at w (lck (last_name e a True)) = None" using assms(2) v(3) neq by (simp add: collected_def)
  then have "writable (xos e) w (last_name e a True)"
    using v monitor_names_plain [OF v(1,2)] assms(5) last_not_in_remove_list by (auto simp: writable_def)
  moreover have "CHR 0x00 \<notin> set (uint_2_Str n @ [NL])"
    using dec_str_digits [of "unat n"] not_in_digits [of "dec_str (unat n)" "CHR 0x00"] by (auto simp: uint_2_Str_def isdigit_def less_eq_char_def)
  ultimately obtain w' where "stringToAsciiFile (xos e) (last_name e a True) (uint_2_Str n @ [NL]) w = Inr (True, w')"
    "file_at w' = (file_at w)(last_name e a True \<mapsto> uint_2_Str n @ [NL])" "meta w' = meta w"
    using stringToAsciiFile_free by blast
  then show ?thesis using assms(2-4) getMonitorPathLast_addr [OF v(1,2)]
    by (auto simp: writeMonitorLastBlock_def duplicate_def collected_def contents_of_def meta_def)
qed

section \<open>One chunk\<close>

definition apps_in :: "string \<Rightarrow> string list \<Rightarrow> CIndexedAppearance list" where
  "apps_in a g = map line_app (filter (\<lambda>l. line_addr l = a) (sort g))"

definition chunk_ok :: "string list \<Rightarrow> bool" where
  "chunk_ok g \<longleftrightarrow> (\<forall>l \<in> set g. valid_line l) \<and> 12 \<le> length g \<and> length g < 2 ^ 31"

lemma byte_char_byte [simp]: "byte_of (char_of_byte b) = b"
proof -
  have "unat b < 256" using unsigned_less [of b, where 'a = nat] by simp
  then show ?thesis by (simp add: byte_of_def char_of_byte_def)
qed

lemma bytes_of_text [simp]: "map byte_of (text_of b) = b"
  by (simp add: text_of_def comp_def)

lemma bindR_Inr: "bindR r f = Inr y \<longleftrightarrow> (\<exists>x. r = Inr x \<and> f x = Inr y)"
  by (cases r) auto

lemma chunk_found_query:
  "chunk_query c a = Inr None \<Longrightarrow> chunk_found c a = Inr None"
  "chunk_query c a = Inr (Some l) \<Longrightarrow> \<exists>rec. chunk_found c a = Inr (Some rec)"
  by (auto simp: chunk_query_def chunk_found_def Let_def bindR_Inr split: option.splits)

text \<open>
  What a client of a guarded store relies on: a miss of the guard may skip a lookup only
  because it would find nothing.
\<close>

locale guarded_lookup =
  fixes lookup :: "'c \<Rightarrow> 'a \<Rightarrow> 'v list" and guard :: "'c \<Rightarrow> 'a \<Rightarrow> bool"
  assumes no_false_negatives: "lookup c a \<noteq> [] \<Longrightarrow> guard c a"
begin

lemma skipped: "\<not> guard c a \<Longrightarrow> lookup c a = []"
  using no_false_negatives by blast

lemma skip_loses_nothing: "concat (map (\<lambda>c. if guard c a then lookup c a else []) cs) = concat (map (\<lambda>c. lookup c a) cs)"
  by (induction cs) (auto simp: skipped)

end

text \<open>The store is the chunks with the bloom filters written beside them.\<close>

definition chunk_apps :: "string list \<Rightarrow> string \<Rightarrow> CIndexedAppearance list" where
  "chunk_apps g a = (if chunk_ok g then apps_in a g else [])"

definition bloom_guard :: "string list \<Rightarrow> string \<Rightarrow> bool" where
  "bloom_guard g a \<longleftrightarrow>
     (\<forall>chunk b bl. writeIndexAsBinary (sort g) = Inr (chunk, b) \<longrightarrow> readBloomFromBinary b = Inr bl \<longrightarrow> covered bl a)"

lemma written_chunk:
  assumes "chunk_ok g"
  shows "\<exists>bl. writeIndexAsBinary (sort g) =
      Inr (chunk_layout (emit (line_addr (hd (sort g))) 0 1 (map line_rec (tl (sort g)))) (map line_app (sort g)), writeBloomToBinary bl) \<and>
    readBloomFromBinary (writeBloomToBinary bl) = Inr bl \<and> (\<forall>b \<in> set bl. wf_bloom b) \<and> (\<forall>l \<in> set g. covered bl (line_addr l))"
proof -
  have ok: "\<forall>l \<in> set (sort g). valid_line l" "12 \<le> length (sort g)" "length (sort g) < 2 ^ 31"
    using assms by (auto simp: chunk_ok_def)
  from writeIndexAsBinary_layout [OF ok(1,2)] obtain bl where bl: "writeIndexAsBinary (sort g) =
      Inr (chunk_layout (emit (line_addr (hd (sort g))) 0 1 (map line_rec (tl (sort g)))) (map line_app (sort g)), writeBloomToBinary bl)"
    "wf_set bl" "\<forall>l \<in> set (sort g). covered bl (line_addr l)" "length bl \<le> 2 * length (sort g)" by blast
  have wf: "\<forall>b \<in> set bl. wf_bloom b" using bl(2) by (simp add: wf_set_def)
  have "readBloomFromBinary (writeBloomToBinary bl) = Inr bl"
    using bl(4) ok(3) by (intro readBloom_writeBloom [OF wf]) simp
  then show ?thesis using bl wf by auto
qed

interpretation chunks: guarded_lookup chunk_apps bloom_guard
proof
  fix g a
  assume "chunk_apps g a \<noteq> []"
  then have ok: "chunk_ok g" and a: "a \<in> line_addr ` set g"
    by (auto simp: chunk_apps_def apps_in_def filter_empty_conv split: if_splits)
  from written_chunk [OF ok] a show "bloom_guard g a" by (auto simp: bloom_guard_def)
qed

lemma chunked_answers:
  assumes "chunked se w g" "chunk_ok g" "valid_addr a"
  obtains chunk bl where "file_at w (chunk_name (indexPath se) (line_blk (hd g)) (line_blk (last g))) = Some (text_of chunk)"
    "file_at w (bloom_name (indexPath se) (line_blk (hd g)) (line_blk (last g))) = Some (text_of (writeBloomToBinary bl))"
    "readBloomFromBinary (writeBloomToBinary bl) = Inr bl" "\<forall>b \<in> set bl. wf_bloom b" "covered bl a = bloom_guard g a"
    "chunk_query chunk a = Inr (if chunk_apps g a \<noteq> [] then Some (chunk_apps g a) else None)"
proof -
  have ok: "\<forall>l \<in> set (sort g). valid_line l" "12 \<le> length (sort g)" "length (sort g) < 2 ^ 31"
    using assms(2) by (auto simp: chunk_ok_def)
  from written_chunk [OF assms(2)] obtain bl where bl: "writeIndexAsBinary (sort g) =
      Inr (chunk_layout (emit (line_addr (hd (sort g))) 0 1 (map line_rec (tl (sort g)))) (map line_app (sort g)), writeBloomToBinary bl)"
    "readBloomFromBinary (writeBloomToBinary bl) = Inr bl" "\<forall>b \<in> set bl. wf_bloom b" by blast
  have "covered bl a = bloom_guard g a" using bl by (simp add: bloom_guard_def)
  moreover have "a \<in> line_addr ` set g \<longleftrightarrow> chunk_apps g a \<noteq> []"
    using assms(2) by (auto simp: chunk_apps_def apps_in_def filter_empty_conv)
  moreover note chunk_query_lines [OF ok(1) sorted_sort ok(2,3) assms(3)]
  ultimately show thesis
    using that assms(1,2) bl unfolding chunked_def by (auto simp: chunk_apps_def apps_in_def)
qed

lemma bloom_hits_single:
  assumes "\<forall>b \<in> set bl. wf_bloom b" "mbloom mo = bloom_init"
  shows "\<exists>b. bloom_hits bl [mo] = Inr (if covered bl (maddress mo) then [maddress mo] else [], [mo\<lparr>mbloom := b\<rparr>])"
proof -
  obtain t l where t: "addr_2_Bloom (maddress mo) [] = Inr (t, l)" using addr_2_Bloom_correct [of "maddress mo" "[]"] by blast
  have "bloom_eq bloom_init bloom_init" by (simp add: bloom_eq_def list.rel_refl)
  then have "bloom_hits bl [mo] = Inr (if covered bl (maddress mo) then [maddress mo] else [], [mo\<lparr>mbloom := t\<rparr>])"
    using t isMember_covered [OF assms(1) t] assms(2) by (simp add: getBloom_def)
  then show ?thesis by blast
qed

lemma scan_monitor_effect:
  assumes "ready e a w0" "collected e a w0 w acc bn" "released e a w" "maddress mo = a" "isStaging mo" "tx_cache mo = None"
    "file_at w chunkPath = Some (text_of chunk)" "chunkPath \<noteq> []" "chunkPath \<noteq> acct_name e a True" "\<And>fn. chunkPath \<noteq> lck fn"
    "chunkPath \<noteq> last_name e a True" "chunk_query chunk a = Inr (if present then Some apps else None)"
  shows "\<exists>mo' st' w' ch. scan_monitor e chunkPath None mo st w = Inr (True, ch, mo', st', w') \<and>
    collected e a w0 w' (acc @ (if present then map monitored apps else [])) bn \<and> held e a w' mo' \<and> maddress mo' = a \<and> isStaging mo'"
proof -
  from openForWriting_effect [OF assms(1-4,6)] obtain r w1 where 1: "openForWriting e True (mo, w) = Inr (True, mo\<lparr>tx_cache := Some r\<rparr>, w1)"
    "collected e a w0 w1 acc bn" "held e a w1 (mo\<lparr>tx_cache := Some r\<rparr>)" by blast
  have f: "file_at w1 chunkPath = Some (text_of chunk)"
    using assms(2,7,9-11) 1(2) by (simp add: collected_def)
  then have ex: "fileExists w1 chunkPath" "contents_of w1 chunkPath = text_of chunk"
    using assms(8) by (simp_all add: fileExists_def contents_of_def)
  show ?thesis
  proof (cases present)
    case False
    then have "chunk_found chunk a = Inr None" using chunk_found_query(1) assms(12) by simp
    then show ?thesis using 1 ex False assms(4,5) by (simp add: scan_monitor_def)
  next
    case True
    then obtain rec where "chunk_found chunk a = Inr (Some rec)" using chunk_found_query(2) assms(12) by force
    then show ?thesis using 1 ex True assms(4,5,12) writeMonitorArray_effect [OF 1(2,3), of "map monitored apps"]
      by (cases "apps = []") (simp_all add: scan_monitor_def Let_def)
  qed
qed

lemma shouldQuit_never: "\<forall>i. \<not> quitAsked o1 i \<Longrightarrow> shouldQuit o1 w = Inr (False, w\<lparr>polls := Suc (polls w)\<rparr>)"
  by (simp add: shouldQuit_def)

lemma collected_frame:
  "collected e a w0 w acc bn \<Longrightarrow> fn \<noteq> acct_name e a True \<Longrightarrow> fn \<noteq> last_name e a True \<Longrightarrow> fn \<noteq> lck (acct_name e a True) \<Longrightarrow>
    file_at w fn = file_at w0 fn"
  by (simp add: collected_def)

abbreviation chunk_first :: "string list \<Rightarrow> string" where
  "chunk_first g \<equiv> line_blk (hd g)"

abbreviation chunk_last :: "string list \<Rightarrow> string" where
  "chunk_last g \<equiv> line_blk (last g)"

lemma chunk_ids:
  assumes "chunk_ok g"
  shows "list_all isdigit (chunk_first g)" "list_all isdigit (chunk_last g)" "chunk_first g \<noteq> []" "chunk_last g \<noteq> []"
    "length (chunk_first g) = 9" "length (chunk_last g) = 9"
proof -
  have g: "g \<noteq> []" using assms by (auto simp: chunk_ok_def)
  then have v: "valid_line (hd g)" "valid_line (last g)" using assms by (auto simp: chunk_ok_def)
  show "list_all isdigit (chunk_first g)" "list_all isdigit (chunk_last g)" "chunk_first g \<noteq> []" "chunk_last g \<noteq> []"
    using line_ids(2) line_blk_ne v by auto
  show "length (chunk_first g) = 9" "length (chunk_last g) = 9" using v by (auto simp: valid_line_def line_blk_def)
qed

lemma visitBinaryFile_effect:
  assumes "ready e a w0" "collected e a w0 w acc bn" "released e a w" "possibles ob = [mo]" "maddress mo = a" "isStaging mo"
    "tx_cache mo = None" "mbloom mo = bloom_init" "good_index (xindexPath e)" "indexPath se = xindexPath e"
    "chunked se w0 g" "chunk_ok g"
  shows "\<exists>ob' w'. visitBinaryFile e (bloom_name (xindexPath e) (chunk_first g) (chunk_last g)) (ob, w) = Inr (True, ob', w') \<and>
    collected e a w0 w' (acc @ map monitored (chunk_apps g a)) (Some (snd (fileRange ob) + 1)) \<and> settled e a w' (possibles ob') \<and>
    allMonitors ob' = allMonitors ob \<and> listRange ob' = listRange ob"
proof -
  let ?path = "bloom_name (xindexPath e) (chunk_first g) (chunk_last g)"
    and ?chunkPath = "chunk_name (xindexPath e) (chunk_first g) (chunk_last g)"
  note ids = chunk_ids [OF assms(12)]
  have v: "valid_addr a" and nq: "\<forall>i. \<not> quitAsked (xos e) i" using assms(1) by (auto simp: ready_def)
  obtain q where q: "substitute ?path (xindexFolder_blooms e) (xindexFolder_finalized e) = Some q"
    "substitute q ''.bloom'' ''.bin'' = Some ?chunkPath" using chunk_of_bloom [OF assms(9) ids(1,2)] by blast
  obtain chunk bl where c: "file_at w0 ?chunkPath = Some (text_of chunk)" "file_at w0 ?path = Some (text_of (writeBloomToBinary bl))"
    "readBloomFromBinary (writeBloomToBinary bl) = Inr bl" "\<forall>b \<in> set bl. wf_bloom b" "covered bl a = bloom_guard g a"
    "chunk_query chunk a = Inr (if chunk_apps g a \<noteq> [] then Some (chunk_apps g a) else None)"
    using chunked_answers [OF assms(11,12) v] assms(10) by metis
  have ne: "?chunkPath \<noteq> []" "?path \<noteq> []" "?chunkPath \<noteq> acct_name e a True"
    using acct_not_chunk [OF ids(2,4), of e a True "xindexPath e" "chunk_first g"]
    by (simp_all add: chunk_name_def bloom_name_def not_sym)
  have fp: "file_at w ?path = Some (text_of (writeBloomToBinary bl))" "file_at w ?chunkPath = Some (text_of chunk)"
    using collected_frame [OF assms(2)] c(1,2) ne(3) by simp_all
  then have ex: "fileExists w ?path" "contents_of w ?path = text_of (writeBloomToBinary bl)" "fileExists w ?chunkPath"
    using ne by (simp_all add: fileExists_def contents_of_def)
  obtain b where hits: "bloom_hits bl [mo] = Inr (if covered bl a then [a] else [], [mo\<lparr>mbloom := b\<rparr>])"
    using bloom_hits_single [OF c(4) assms(8)] assms(5) by auto
  let ?mo = "mo\<lparr>mbloom := b\<rparr>"
  note rl = released_def [of e a w]
  show ?thesis
  proof (cases "covered bl a")
    case False
    then have none: "chunk_apps g a = []" using c(5) chunks.skipped by simp
    have "removeList w = []" using assms(3) by (simp add: released_def)
    with write_last_effect [OF assms(1,2), of ?mo "snd (fileRange ob) + 1"] assms(3,5,6) obtain w1 where
      "write_last_all e (snd (fileRange ob) + 1) [?mo] w = Inr w1" "collected e a w0 w1 acc (Some (snd (fileRange ob) + 1))"
      "released e a w1" by (auto simp: released_def)
    then show ?thesis using q ex c(3) hits False assms(4,7) none
      by (simp add: visitBinaryFile_def settled_def del: write_last_all.simps)
  next
    case True
    let ?w = "w\<lparr>polls := Suc (polls w)\<rparr>"
    let ?acc = "acc @ (if chunk_apps g a \<noteq> [] then map monitored (chunk_apps g a) else [])"
    have "\<exists>mo' st' w' ch. scan_monitor e ?chunkPath None ?mo st ?w = Inr (True, ch, mo', st', w') \<and>
        collected e a w0 w' ?acc bn \<and> held e a w' mo' \<and> maddress mo' = a \<and> isStaging mo'" for st
      by (rule scan_monitor_effect [where present = "chunk_apps g a \<noteq> []" and apps = "chunk_apps g a" and chunk = chunk])
        (use assms fp ne c(6) in \<open>auto simp: released_def\<close>)
    then obtain mo' st' w1 ch where sc: "scan_monitor e ?chunkPath None ?mo
        ((stats ob)\<lparr>nChecked := nChecked (stats ob) + 1, nBloomHits := nBloomHits (stats ob) + 1\<rparr>) ?w = Inr (True, ch, mo', st', w1)"
      "collected e a w0 w1 ?acc bn" "held e a w1 mo'" "maddress mo' = a" "isStaging mo'" by blast
    have rl1: "removeList w1 = lck (acct_name e a True) @ ''|''" using sc(3) by (simp add: held_def)
    with write_last_effect [OF assms(1) sc(2,4,5), of "snd (fileRange ob) + 1"] obtain w2 where
      w2: "write_last_all e (snd (fileRange ob) + 1) [mo'] w1 = Inr w2" "collected e a w0 w2 ?acc (Some (snd (fileRange ob) + 1))"
      "removeList w2 = removeList w1" by auto
    have "held e a w2 mo'" using sc(3) w2(3) by (simp add: held_def)
    moreover have "?acc = acc @ map monitored (chunk_apps g a)" by simp
    ultimately show ?thesis using q ex c(3) hits True assms(4,5) sc(1) w2 nq
      by (simp add: visitBinaryFile_def settled_def establishIndexChunk_def shouldQuit_never del: write_last_all.simps)
  qed
qed

definition new_monitor :: "string \<Rightarrow> CMonitor" where
  "new_monitor a = (monitor_new a)\<lparr>isStaging := True\<rparr>"

lemma new_monitor_fields [simp]:
  "maddress (new_monitor a) = a" "isStaging (new_monitor a)" "tx_cache (new_monitor a) = None" "mbloom (new_monitor a) = bloom_init"
  "duplicate (new_monitor a) = new_monitor a"
  by (simp_all add: new_monitor_def monitor_new_def duplicate_def)

lemma last_name_stages [simp]: "last_name e a False \<noteq> last_name e a True" "last_name e a True \<noteq> last_name e a False"
  "acct_name e a False \<noteq> acct_name e a True" "acct_name e a True \<noteq> acct_name e a False"
  by (simp_all add: last_name_def acct_name_def mon_dir_def)

lemma visitFinal_effect:
  assumes "ready e a w0" "collected e a w0 w acc bn" "settled e a w (possibles ob)" "allMonitors ob = [new_monitor a]"
    "file_at w0 (last_name e a False) = None" "good_index (xindexPath e)" "indexPath se = xindexPath e" "chunked se w0 g" "chunk_ok g"
    "rangesIntersect (listRange ob) (str_2_Uint (chunk_first g), str_2_Uint (chunk_last g))"
  shows "\<exists>ob' w'. visitFinalIndexFiles e (bloom_name (xindexPath e) (chunk_first g) (chunk_last g)) (ob, w) = Inr (True, ob', w') \<and>
    collected e a w0 w' (acc @ map monitored (chunk_apps g a)) (Some (str_2_Uint (chunk_last g) + 1)) \<and> settled e a w' (possibles ob') \<and>
    allMonitors ob' = allMonitors ob \<and> listRange ob' = listRange ob"
proof -
  note ids = chunk_ids [OF assms(9)]
  note parts = bloom_name_parts [OF assms(6) ids(1-4)]
  have v: "valid_addr a" "good_cache e" and nq: "\<forall>i. \<not> quitAsked (xos e) i" using assms(1) by (auto simp: ready_def)
  obtain w1 where w1: "clear_all (possibles ob) w = Inr w1" "collected e a w0 w1 acc bn" "released e a w1"
    using clear_all_effect [OF assms(1-3)] by blast
  have "file_at w1 (last_name e a False) = None" using w1(2) assms(5) by (simp add: collected_def)
  then have "asciiFileToString w1 (last_name e a False) = []" by (simp add: asciiFileToString_def fileExists_def)
  moreover have "str_2_Uint [] = 0" using str_2_Uint_digits [of "[]"] by (simp add: dec_value_def)
  ultimately have cp: "choose_possibles e n [new_monitor a] w1 = Inr [new_monitor a]" for n
    using getMonitorPathLast_addr [OF v] by (simp add: getLastBlockInMonitor_def)
  define ob1 where "ob1 = ob\<lparr>stats := (stats ob)\<lparr>nFiles := nFiles (stats ob) + 1\<rparr>,
    fileRange := (str_2_Uint (chunk_first g), str_2_Uint (chunk_last g)), possibles := [new_monitor a]\<rparr>"
  have "possibles ob1 = [new_monitor a]" by (simp add: ob1_def)
  from visitBinaryFile_effect [OF assms(1) w1(2,3) this _ _ _ _ assms(6-9)] obtain ob2 w2 where
    "visitBinaryFile e (bloom_name (xindexPath e) (chunk_first g) (chunk_last g)) (ob1, w1) = Inr (True, ob2, w2)"
    "collected e a w0 w2 (acc @ map monitored (chunk_apps g a)) (Some (snd (fileRange ob1) + 1))" "settled e a w2 (possibles ob2)"
    "allMonitors ob2 = allMonitors ob1" "listRange ob2 = listRange ob1" by auto
  then show ?thesis
    using parts w1(1) cp assms(4,10) nq by (simp add: visitFinalIndexFiles_def ob1_def shouldQuit_never)
qed

section \<open>The folder\<close>

abbreviation bloom_of :: "export_env \<Rightarrow> string list \<Rightarrow> string" where
  "bloom_of e g \<equiv> bloom_name (xindexPath e) (chunk_first g) (chunk_last g)"

definition index_of :: "export_env \<Rightarrow> scrape_env \<Rightarrow> world \<Rightarrow> string list list \<Rightarrow> bool" where
  "index_of e se w groups \<longleftrightarrow> good_index (xindexPath e) \<and> indexPath se = xindexPath e \<and>
     (\<forall>g \<in> set groups. chunked se w g \<and> chunk_ok g)"

lemma visit_folder_effect:
  assumes "ready e a w0" "collected e a w0 w acc bn" "settled e a w (possibles ob)" "allMonitors ob = [new_monitor a]"
    "file_at w0 (last_name e a False) = None" "index_of e se w0 groups"
    "\<forall>g \<in> set groups. rangesIntersect (listRange ob) (str_2_Uint (chunk_first g), str_2_Uint (chunk_last g))"
  shows "\<exists>ob' w'. forAllFiles (visitFinalIndexFiles e) (map (bloom_of e) groups) (ob, w) = Inr (True, ob', w') \<and>
    collected e a w0 w' (acc @ map monitored (concat (map (\<lambda>g. chunk_apps g a) groups)))
      (if groups = [] then bn else Some (str_2_Uint (chunk_last (last groups)) + 1)) \<and>
    allMonitors ob' = [new_monitor a]"
  using assms(2-4,6,7)
proof (induction groups arbitrary: w acc bn ob)
  case (Cons g groups)
  have g: "good_index (xindexPath e)" "indexPath se = xindexPath e" "chunked se w0 g" "chunk_ok g"
    using Cons.prems(4) by (auto simp: index_of_def)
  have "rangesIntersect (listRange ob) (str_2_Uint (chunk_first g), str_2_Uint (chunk_last g))" using Cons.prems(5) by simp
  from visitFinal_effect [OF assms(1) Cons.prems(1-3) assms(5) g this] obtain ob1 w1 where
    1: "visitFinalIndexFiles e (bloom_of e g) (ob, w) = Inr (True, ob1, w1)"
    "collected e a w0 w1 (acc @ map monitored (chunk_apps g a)) (Some (str_2_Uint (chunk_last g) + 1))" "settled e a w1 (possibles ob1)"
    "allMonitors ob1 = allMonitors ob" "listRange ob1 = listRange ob" by blast
  have "allMonitors ob1 = [new_monitor a]" "index_of e se w0 groups"
    "\<forall>g \<in> set groups. rangesIntersect (listRange ob1) (str_2_Uint (chunk_first g), str_2_Uint (chunk_last g))"
    using 1(4,5) Cons.prems(3-5) by (auto simp: index_of_def)
  from Cons.IH [OF 1(2,3) this] obtain ob2 w2 where
    "forAllFiles (visitFinalIndexFiles e) (map (bloom_of e) groups) (ob1, w1) = Inr (True, ob2, w2)"
    "collected e a w0 w2 ((acc @ map monitored (chunk_apps g a)) @ map monitored (concat (map (\<lambda>g. chunk_apps g a) groups)))
      (if groups = [] then Some (str_2_Uint (chunk_last g) + 1) else Some (str_2_Uint (chunk_last (last groups)) + 1))"
    "allMonitors ob2 = [new_monitor a]" by blast
  then show ?case using 1(1) by (cases "groups = []") (simp_all add: split_beta)
qed simp

section \<open>Promotion\<close>

lemma tolower_0: "tolower c = CHR 0x00 \<Longrightarrow> c = CHR 0x00"
proof (rule ccontr)
  assume z: "tolower c = CHR 0x00" and n: "c \<noteq> CHR 0x00"
  then have u: "65 \<le> (of_char c :: nat)" "(of_char c :: nat) \<le> 90"
    and e: "char_of (of_char c + (32 :: nat)) = CHR 0x00" by (auto simp: tolower_def less_eq_char_def split: if_splits)
  have "(of_char (char_of (of_char c + (32 :: nat))) :: nat) = 0" unfolding e by simp
  then have "(of_char c + 32 :: nat) mod 256 = 0" by (simp only: of_char_of)
  then show False using u by simp
qed

lemma length_toLower: "CHR 0x00 \<notin> set s \<Longrightarrow> length (toLower s) = length s"
proof -
  assume z: "CHR 0x00 \<notin> set s"
  then have "CHR 0x00 \<notin> set (map tolower s)" using tolower_0 by force
  then show ?thesis using z by (simp add: toLower_def c_str_id)
qed

lemma moveFile_effect:
  assumes "plain_chars f" "plain_chars t" "length f \<noteq> length t" "t \<noteq> []" "file_at w f = Some s"
  shows "\<exists>w'. moveFile f t w = Inr (True, w') \<and> file_at w' = (file_at w)(t \<mapsto> s, f := None) \<and> meta w' = meta w"
proof -
  have "toLower f \<noteq> toLower t" using length_toLower [of f] length_toLower [of t] assms(1-3) by (auto simp: plain_chars_def)
  then show ?thesis using assms escapePath_plain
    by (auto simp: moveFile_def copyFile_def Let_def fileExists_def contents_of_eq)
qed

lemma moveToProduction_effect:
  assumes "ready e a w0" "collected e a w0 w acc (Some b)" "file_at w0 (acct_name e a False) = None"
  shows "\<exists>mo' w'. moveToProduction e True (new_monitor a, w) = Inr (mo', w') \<and>
    contents_of w' (acct_name e a False) = app_bytes acc \<and> file_at w' (last_name e a False) = Some (uint_2_Str b @ [NL]) \<and>
    file_at w' (acct_name e a True) = None \<and> file_at w' (last_name e a True) = None \<and> sectionLocks w' = 0"
proof -
  have v: "valid_addr a" "good_cache e" using assms(1) by (auto simp: ready_def)
  note pl = monitor_names_plain [OF v] and lst = getMonitorPathLast_addr [OF v]
  have len: "length (acct_name e a True) \<noteq> length (acct_name e a False)" "length (last_name e a True) \<noteq> length (last_name e a False)"
    by (simp_all add: acct_name_def last_name_def mon_dir_def)
  have w: "contents_of w (acct_name e a True) = app_bytes acc" "file_at w (last_name e a True) = Some (uint_2_Str b @ [NL])"
    "file_at w (acct_name e a False) = None" "sectionLocks w = 0"
    using assms(2,3) by (auto simp: collected_def)
  have m1: "\<exists>w1. doMoveFile (acct_name e a True) (acct_name e a False) (lockSection w) = Inr w1 \<and>
      contents_of w1 (acct_name e a False) = app_bytes acc \<and> file_at w1 (acct_name e a True) = None \<and>
      file_at w1 (last_name e a True) = Some (uint_2_Str b @ [NL]) \<and> sectionLocks w1 = 1"
  proof (cases "file_at w (acct_name e a True)")
    case None
    then show ?thesis using w by (simp add: doMoveFile_def fileExists_def contents_of_def lockSection_def file_at_def)
  next
    case (Some s)
    have "file_at (lockSection w) (acct_name e a True) = Some s" using Some by simp
    from moveFile_effect [OF pl(1) pl(1) len(1) _ this] obtain w1 where
      "moveFile (acct_name e a True) (acct_name e a False) (lockSection w) = Inr (True, w1)"
      "file_at w1 = (file_at (lockSection w))(acct_name e a False \<mapsto> s, acct_name e a True := None)" "meta w1 = meta (lockSection w)"
      by auto
    moreover have "sectionLocks (lockSection w) = 1" using w(4) by (simp add: lockSection_def)
    ultimately show ?thesis using w Some by (simp add: doMoveFile_def fileExists_def contents_of_def meta_def)
  qed
  then obtain w1 where w1: "doMoveFile (acct_name e a True) (acct_name e a False) (lockSection w) = Inr w1"
    "contents_of w1 (acct_name e a False) = app_bytes acc" "file_at w1 (acct_name e a True) = None"
    "file_at w1 (last_name e a True) = Some (uint_2_Str b @ [NL])" "sectionLocks w1 = 1" by blast
  from moveFile_effect [OF pl(2) pl(2) len(2) _ w1(4)] obtain w2 where
    w2: "moveFile (last_name e a True) (last_name e a False) w1 = Inr (True, w2)"
    "file_at w2 = (file_at w1)(last_name e a False \<mapsto> uint_2_Str b @ [NL], last_name e a True := None)" "meta w2 = meta w1" by auto
  have "fileExists w1 (last_name e a True)" and ex: "fileExists w (last_name e a True)" using w1(4) w(2) by (simp_all add: fileExists_def)
  then have d: "doMoveFile (last_name e a True) (last_name e a False) w1 = Inr w2" using w2(1) by (simp add: doMoveFile_def)
  have "sectionLocks (unlockSection w2) = 0" using w1(5) w2(3) by (simp add: meta_def unlockSection_def)
  then show ?thesis using v lst w1(1-3) w2(2) d ex
    by (simp add: moveToProduction_def clear_monitor_def Let_def contents_of_def)
qed

section \<open>The order of the folder\<close>

lemma less_append_same: "length x = length y \<Longrightarrow> x < y \<Longrightarrow> x @ r < y @ (s :: string)"
  by (induction x y rule: list_induct2) (auto simp: less_list_code)

lemma prefix_less: "p @ x < p @ y \<longleftrightarrow> x < (y :: string)"
  by (induction p) auto

lemma blooms_sorted:
  assumes "sorted_wrt before groups" "\<forall>g \<in> set groups. chunk_ok g"
  shows "sorted_wrt (<) (map (bloom_of e) groups)"
  using assms
proof (induction groups)
  case (Cons g groups)
  have "bloom_of e g < bloom_of e h" if "h \<in> set groups" for h
  proof -
    have "chunk_ok g" "chunk_ok h" "before g h" using Cons.prems that by auto
    moreover from this have "g \<noteq> []" "h \<noteq> []" by (auto simp: chunk_ok_def)
    ultimately show ?thesis using chunk_ids(5)
      by (auto simp: bloom_name_def prefix_less before_def less_append_same)
  qed
  then show ?case using Cons by auto
qed simp

lemma folder_listing:
  assumes "sorted_wrt (<) names"
    "\<And>fn. file_at w fn \<noteq> None \<and> below folder fn \<and> \<not> contains (drop (length folder) fn) ''/.'' \<longleftrightarrow> fn \<in> set names"
  shows "sort (listFilesInFolder w folder True) = names"
proof (rule sorted_distinct_set_unique)
  show "distinct (sort (listFilesInFolder w folder True))" by (simp add: listFilesInFolder_def)
  show "sorted names" "distinct names" using assms(1) by (simp_all add: strict_sorted_iff)
  show "set (sort (listFilesInFolder w folder True)) = set names"
    using assms(2) by (auto simp: listFilesInFolder_def file_at_def map_of_eq_None_iff)
qed simp

lemma fold_remove: "meta (fold remove_file fns w) = meta w"
  by (induction fns arbitrary: w) (auto simp: remove_file_def meta_def)

section \<open>Reading a monitor\<close>

lemma get_put_monitored: "get_monitored (length apps) (concat (map put_monitored apps)) = apps"
  by (induction apps) (simp_all add: put_monitored_def length_put_word le_word_put32)

lemma length_put_monitored: "length (concat (map put_monitored apps)) = 8 * length apps"
  by (induction apps) (simp_all add: put_monitored_def length_put_word)

lemma load_loop_all: "load_loop None buffer apps d = (True, apps @ buffer, d)"
  by (induction buffer arbitrary: apps) simp_all

lemma loadApps_effect:
  assumes "contents_of w (acct_name e a False) = app_bytes apps" "valid_addr a" "maddress mo = a"
  shows "loadAppsFromPath e mo [] None w [] d = (apps \<noteq> [], apps, d)"
proof -
  have "fileSize w (acct_name e a False) = length (contents_of w (acct_name e a False))"
    by (auto simp: fileSize_def fileExists_def contents_of_def)
  then have "fileSize w (acct_name e a False) = 8 * length apps"
    using assms(1) length_put_monitored [of apps] by (simp only: text_of_def length_map)
  then have n: "getRecordCnt w (acct_name e a False) = length apps" by (simp add: getRecordCnt_def sizeof_monitored_def)
  show ?thesis using assms n get_put_monitored [of apps]
    by (simp add: loadAppsFromPath_def load_loop_all)
qed

text \<open>A number and a line end read back as the number.\<close>

lemma str_2_Uint_line: "str_2_Uint (uint_2_Str n @ [NL]) = n"
proof -
  define ds where "ds = dec_str (unat n)"
  have d: "isdigit c" if "c \<in> set ds" for c using dec_str_digits [of "unat n"] that by (simp add: ds_def list_all_iff)
  have ne: "ds \<noteq> []" using dec_str_digits by (simp add: ds_def)
  have nl: "\<not> isdigit NL" "NL \<noteq> CHR 0x00" by (simp_all add: isdigit_def)
  have "CHR 0x00 \<notin> set (ds @ [NL])" using nl(2) by (auto dest!: d simp: isdigit_range)
  then have cs: "c_str (ds @ [NL]) = ds @ [NL]" by (rule c_str_id)
  have "CHR ''x'' \<notin> set (ds @ [NL])" by (auto dest!: d simp: isdigit_range)
  then have "take 2 (ds @ [NL]) \<noteq> ''0x''" by (metis in_set_takeD list.set_intros)
  then have hex: "\<not> isHexStr (ds @ [NL])" by (simp add: isHexStr_def startsWith_def extract_q_def cs numeral_2_eq_2)
  have "isdigit (hd ds)" using d [of "hd ds"] ne by simp
  then have hd: "\<not> isspace (hd ds)" "hd ds \<noteq> CHR ''-''" "hd ds \<noteq> CHR ''+''"
    by (auto simp: isspace_def isdigit_range less_eq_char_def)
  have sp: "dropWhile isspace (ds @ [NL]) = ds @ [NL]" using hd(1) ne by (cases ds) auto
  have tw: "takeWhile isdigit (ds @ [NL]) = ds" using d nl(1) by (simp add: takeWhile_tail)
  have v: "dec_value ds = unat n" by (simp add: ds_def dec_value_dec_str)
  have "unat n < 2 ^ 64" using unsigned_less [of n, where 'a = nat] by simp
  then have "str_2_Uint (ds @ [NL]) = n"
    using hex hd ne unfolding str_2_Uint_def strtoul_def Let_def cs sp by (simp add: tw v)
  then show ?thesis by (simp add: ds_def uint_2_Str_def)
qed

lemma last_block_read:
  assumes "file_at w (last_name e a False) = Some (uint_2_Str n @ [NL])" "valid_addr a" "good_cache e" "maddress mo = a"
  shows "getLastBlockInMonitor e mo w = Inr n"
proof -
  have "CHR 0x00 \<notin> set (uint_2_Str n @ [NL])"
    using dec_str_digits [of "unat n"] not_in_digits [of "dec_str (unat n)" "CHR 0x00"]
    by (auto simp: uint_2_Str_def isdigit_def less_eq_char_def)
  from asciiFileToString_eq [OF assms(1) _ this] show ?thesis
    using getMonitorPathLast_addr [OF assms(2,3)] assms(4) by (simp add: getLastBlockInMonitor_def str_2_Uint_line)
qed

section \<open>Freshening\<close>

text \<open>The folder of the index and the stage of the monitors are apart.\<close>

definition apart :: "export_env \<Rightarrow> bool" where
  "apart e \<longleftrightarrow> (\<forall>fn. \<not> below (mon_dir e True) (xindexPath e @ fn))"

lemma stage_cleaned:
  assumes "valid_addr a" "CHR ''/'' \<notin> set s" "s \<noteq> []"
  shows "file_at (cleanMonitorStage e w) ((mon_dir e True @ a) @ s) = None"
proof -
  have "\<not> isAddress []" by (simp add: isAddress_def)
  then have p: "getMonitorPath e [] True = mon_dir e True" by (simp add: getMonitorPath_def mon_dir_def)
  from assms(1) obtain r where r: "a = ''0x'' @ r" by (rule valid_addrE)
  have "CHR ''/'' \<notin> set (a @ s)" using not_in_addr [OF assms(1), of "CHR ''/''"] assms(2) by (auto simp: is_hex_def less_eq_char_def)
  then have "find_sub ''/.'' (a @ s) = None" by (intro find_sub_absent [of "CHR ''/''"]) auto
  then show ?thesis using r by (simp add: cleanMonitorStage_def p cleanFolder_effect below_def contains_def)
qed

definition sees :: "export_env \<Rightarrow> world \<Rightarrow> string \<Rightarrow> bool" where
  "sees e w fn \<longleftrightarrow> file_at w fn \<noteq> None \<and> below (xindexFolder_blooms e) fn \<and>
     \<not> contains (drop (length (xindexFolder_blooms e)) fn) ''/.''"

lemma freshen_effect:
  assumes "\<forall>fn. creatable (xos e) fn" "\<forall>i. \<not> quitAsked (xos e) i" "good_cache e" "apart e" "valid_addr a"
    "removeList w = []" "sectionLocks w = 0"
    "file_at w (acct_name e a False) = None" "file_at w (last_name e a False) = None"
    "index_of e se w groups" "sorted_wrt before groups" "groups \<noteq> []" "\<And>fn. sees e w fn \<longleftrightarrow> fn \<in> set (map (bloom_of e) groups)"
    "allMonitors ob = [new_monitor a]" "possibles ob = []"
    "\<forall>g \<in> set groups. rangesIntersect (listRange ob) (str_2_Uint (chunk_first g), str_2_Uint (chunk_last g))"
  shows "\<exists>ob' w'. process_freshen e False (ob, w) = Inr (ob', w') \<and>
    contents_of w' (acct_name e a False) = app_bytes (map monitored (concat (map (\<lambda>g. chunk_apps g a) groups))) \<and>
    file_at w' (last_name e a False) = Some (uint_2_Str (str_2_Uint (chunk_last (last groups)) + 1) @ [NL]) \<and> sectionLocks w' = 0"
proof -
  define w0 where "w0 = cleanMonitorStage e w"
  have "\<not> isAddress []" by (simp add: isAddress_def)
  then have p: "getMonitorPath e [] True = mon_dir e True" by (simp add: getMonitorPath_def mon_dir_def)
  have meta: "meta w0 = meta w" using fold_remove by (simp add: w0_def cleanMonitorStage_def cleanFolder_def)
  have same: "file_at w0 (xindexPath e @ fn) = file_at w (xindexPath e @ fn)" for fn
    using assms(4) by (simp add: w0_def cleanMonitorStage_def p cleanFolder_effect apart_def)
  have gone: "file_at w0 (acct_name e a True) = None" "file_at w0 (last_name e a True) = None"
    "file_at w0 (lck (acct_name e a True)) = None" "file_at w0 (lck (last_name e a True)) = None"
    using stage_cleaned [OF assms(5), of "''.acct.bin''" e w] stage_cleaned [OF assms(5), of "''.last.txt''" e w]
      stage_cleaned [OF assms(5), of "''.acct.bin.lck''" e w] stage_cleaned [OF assms(5), of "''.last.txt.lck''" e w]
    by (simp_all add: w0_def acct_name_def last_name_def lck_def)
  have prod: "file_at w0 (acct_name e a False) = None" "file_at w0 (last_name e a False) = None"
    using assms(8,9) by (simp_all add: w0_def cleanMonitorStage_def cleanFolder_effect)
  have rd: "ready e a w0" using assms(1-3,5) gone(4) by (simp add: ready_def)
  have col: "collected e a w0 w0 [] None" using gone meta assms(7) by (simp add: collected_def contents_of_def text_of_def meta_def)
  have st: "settled e a w0 (possibles ob)" using assms(6,15) gone(3) meta by (simp add: settled_def released_def meta_def)
  have idx: "index_of e se w0 groups"
    using assms(10) same chunked_frame [of se w _ w0]
    by (auto simp: index_of_def names_of_def chunk_name_def temp_name_def bloom_name_def)
  have list: "sort (listFilesInFolder w0 (xindexFolder_blooms e) True) = map (bloom_of e) groups"
  proof (rule folder_listing)
    show "sorted_wrt (<) (map (bloom_of e) groups)"
      using assms(10,11) by (intro blooms_sorted) (simp_all add: index_of_def)
    fix fn
    have "file_at w0 fn = file_at w fn" if "below (xindexFolder_blooms e) fn"
      using that same [of "drop (length (xindexPath e)) fn"]
      by (metis append_eq_conv_conj append.assoc append_take_drop_id below_def same)
    then show "file_at w0 fn \<noteq> None \<and> below (xindexFolder_blooms e) fn \<and>
        \<not> contains (drop (length (xindexFolder_blooms e)) fn) ''/.'' \<longleftrightarrow> fn \<in> set (map (bloom_of e) groups)"
      using assms(13) [of fn] by (auto simp: sees_def)
  qed
  from visit_folder_effect [OF rd col st assms(14) prod(2) idx assms(16)] assms(12) obtain ob1 w1 where
    1: "forAllFiles (visitFinalIndexFiles e) (map (bloom_of e) groups) (ob, w0) = Inr (True, ob1, w1)"
    "collected e a w0 w1 (map monitored (concat (map (\<lambda>g. chunk_apps g a) groups))) (Some (str_2_Uint (chunk_last (last groups)) + 1))"
    "allMonitors ob1 = [new_monitor a]" by auto
  from moveToProduction_effect [OF rd 1(2) prod(1)] show ?thesis
    using 1(1,3) list by (auto simp: process_freshen_def w0_def)
qed

end
