(* ===== verification/Export_Correct.thy ===== *)
theory Export_Correct
  imports Export Monitor_Correct "HOL-Library.Sublist"
begin

text \<open>
  Lemmas on the stage query, on cleaning and on the life of a monitor.
\<close>

section \<open>Cleaning\<close>

lemma app_key_inj: "app_key a = app_key b \<longleftrightarrow> a = (b :: CMonitoredAppearance)"
  by (cases a; cases b) auto

lemma dedup_loop_spec:
  "sorted (map app_key (p # l)) \<Longrightarrow>
    sorted_wrt (<) (map app_key (p # dedup_loop p l)) \<and> set (dedup_loop p l) = set l - {p}"
proof (induction l arbitrary: p)
  case (Cons a l)
  then have ih: "sorted_wrt (<) (map app_key (a # dedup_loop a l))" "set (dedup_loop a l) = set l - {a}"
    and le: "app_key p \<le> app_key a" "\<forall>x \<in> set l. app_key a \<le> app_key x" by auto
  show ?case
  proof (cases "a = p")
    case True
    then show ?thesis using ih by auto
  next
    case False
    then have lt: "app_key p < app_key a" using le(1) app_key_inj [of p a] by (metis order_le_less)
    have "p \<notin> set l"
    proof
      assume "p \<in> set l"
      with le(2) have "app_key a \<le> app_key p" by blast
      with lt show False by (rule leD [THEN notE, rotated])
    qed
    moreover have "mablk a \<noteq> mablk p \<or> matxid a \<noteq> matxid p" using False app_key_inj [of a p] by auto
    moreover have "app_key p < app_key x" if "x \<in> set (dedup_loop a l)" for x
    proof -
      have "app_key a \<le> app_key x" using that ih(2) le(2) by blast
      with lt show ?thesis by (rule order_less_le_trans)
    qed
    ultimately show ?thesis using ih lt False by auto
  qed
qed simp

lemma load_path:
  assumes "contents_of w path = app_bytes apps" "path \<noteq> []"
  shows "getRecordCnt w path = length apps" "loadAppsFromPath e mo path None w [] d = (apps \<noteq> [], apps, d)"
proof -
  have "fileSize w path = length (contents_of w path)"
    using assms(2) by (auto simp: fileSize_def fileExists_def contents_of_def)
  then have "fileSize w path = 8 * length apps"
    using assms(1) length_put_monitored [of apps] by (simp only: text_of_def length_map)
  then show n: "getRecordCnt w path = length apps" by (simp add: getRecordCnt_def sizeof_monitored_def)
  show "loadAppsFromPath e mo path None w [] d = (apps \<noteq> [], apps, d)"
    using assms n get_put_monitored [of apps] by (simp add: loadAppsFromPath_def load_loop_all)
qed

section \<open>The stage\<close>

lemma strncmp_eq_0:
  "n \<le> length a \<Longrightarrow> n \<le> length b \<Longrightarrow> CHR 0x00 \<notin> set (take n b) \<Longrightarrow> strncmp a b n = 0 \<longleftrightarrow> take n a = take n b"
proof (induction a b n rule: strncmp.induct)
  case (2 a s1 b s2 n)
  then show ?case by (cases "a = b") auto
qed auto

lemma flat_records_lines:
  "\<forall>l \<in> set lines. length l = 58 \<Longrightarrow> flat_records (length lines) (linesToString lines NL) = map (\<lambda>l. l @ [NL]) lines"
  by (induction lines) (auto simp: linesToString_def)

lemma insort_key_agree:
  "f x = g x \<Longrightarrow> \<forall>y \<in> set ys. f y = g y \<Longrightarrow> insort_key f x ys = insort_key g x ys"
  by (induction ys) auto

lemma sort_key_agree: "\<forall>x \<in> set xs. f x = g x \<Longrightarrow> sort_key f xs = sort_key g xs"
  by (induction xs) (auto intro!: insort_key_agree)

lemma qsort_records_plain:
  assumes "\<forall>r \<in> set recs. CHR 0x00 \<notin> set r"
  shows "qsort_records recs = sort recs"
  unfolding qsort_records_def using assms by (intro sort_key_agree) (auto simp: takeWhile_eq_all_conv)

lemma valid_line_split:
  assumes "valid_line l"
  shows "l = line_addr l @ TAB # line_blk l @ TAB # line_tx l"
proof -
  have len: "length l = 58" and t: "l ! 42 = TAB" "l ! 52 = TAB" using assms by (auto simp: valid_line_def)
  have "l = take 42 l @ l ! 42 # drop 43 l" using len id_take_nth_drop [of 42 l] by simp
  moreover have "drop 43 l = take 9 (drop 43 l) @ drop 43 l ! 9 # drop 53 l"
    using len id_take_nth_drop [of 9 "drop 43 l"] by simp
  moreover have "drop 43 l ! 9 = l ! 52" using len by simp
  ultimately show ?thesis using t by (metis line_addr_def line_blk_def line_tx_def)
qed

lemma valid_line_facts:
  assumes "valid_line l"
  shows "CHR 0x00 \<notin> set l" "TAB \<notin> set (line_addr l)" "TAB \<notin> set (line_blk l)" "length l = 58" "line_tx l \<noteq> []"
    "list_all isdigit (line_blk l)" "list_all isdigit (line_tx l)" "valid_addr (line_addr l)"
proof -
  show v: "valid_addr (line_addr l)" "list_all isdigit (line_blk l)" "list_all isdigit (line_tx l)" "length l = 58"
    using assms by (auto simp: valid_line_def line_addr_def line_blk_def line_tx_def)
  show "line_tx l \<noteq> []" using v(4) by (simp add: line_tx_def)
  have "\<not> is_hex TAB" "\<not> is_hex (CHR 0x00)" "\<not> isdigit TAB" "\<not> isdigit (CHR 0x00)"
    by (simp_all add: is_hex_def isdigit_def less_eq_char_def)
  then have n: "TAB \<notin> set (line_addr l)" "CHR 0x00 \<notin> set (line_addr l)" "TAB \<notin> set (line_blk l)"
    "CHR 0x00 \<notin> set (line_blk l)" "CHR 0x00 \<notin> set (line_tx l)"
    using not_in_addr [OF v(1)] not_in_digits [OF v(2)] not_in_digits [OF v(3)] by auto
  then show "TAB \<notin> set (line_addr l)" "TAB \<notin> set (line_blk l)" by auto
  have "set l = set (line_addr l @ TAB # line_blk l @ TAB # line_tx l)" using valid_line_split [OF assms] by simp
  then show "CHR 0x00 \<notin> set l" using n by auto
qed

lemma str_2_Uint_record:
  assumes "valid_line l"
  shows "str_2_Uint l = 0"
proof -
  from valid_line_facts(8) [OF assms] obtain r where r: "line_addr l = ''0x'' @ r" by (rule valid_addrE)
  have l: "l = ''0x'' @ r @ TAB # line_blk l @ TAB # line_tx l" using valid_line_split [OF assms] r by simp
  have cs: "c_str l = l" using valid_line_facts(1) [OF assms] by (rule c_str_id)
  have "TAB \<in> set (drop 2 l)" by (subst l) simp
  moreover have "\<not> isxdigit TAB" by (simp add: isxdigit_def isdigit_def less_eq_char_def)
  ultimately have "\<not> isHexStr l" by (auto simp: isHexStr_def extract_from_def list_all_iff)
  moreover have "strtoul l = 0"
    by (subst l) (simp add: strtoul_def isspace_def isdigit_def less_eq_char_def dec_value_def)
  ultimately show ?thesis by (simp add: str_2_Uint_def cs)
qed

lemma flat_appearance_line:
  assumes "valid_line l"
  shows "flat_appearance ((l @ [NL])[58 := CHR 0x00]) = \<lparr>mablk = appblk (line_app l), matxid = 0\<rparr>"
proof -
  note f = valid_line_facts [OF assms]
  have "(l @ [NL])[58 := CHR 0x00] = l @ [CHR 0x00]" using f(4) by (simp add: list_update_append)
  moreover have "c_str (l @ [CHR 0x00]) = l" using f(1) by (auto simp: c_str_def takeWhile_append)
  moreover have "nextTokenClear l TAB True = (line_addr l, line_blk l @ TAB # line_tx l)"
    using nextTokenClear_at [OF f(2), of "line_blk l @ TAB # line_tx l"] valid_line_split [OF assms] by simp
  moreover have "nextTokenClear (line_blk l @ TAB # line_tx l) TAB True = (line_blk l, line_tx l)"
    using nextTokenClear_at [OF f(3,5)] .
  ultimately show ?thesis
    using str_2_Uint_record [OF assms] by (simp add: flat_appearance_def Let_def line_app_def appearance_of_def)
qed

lemma flat_bsearch_first:
  assumes "recs \<noteq> []" "findAppearance2 key (recs ! (length recs div 2)) = 0"
  shows "flat_bsearch recs key 0 (length recs) = Some (length recs div 2)"
  using assms by (subst flat_bsearch.simps) simp

section \<open>The life of a monitor\<close>

text \<open>
  A monitor seen from outside: whether it has data, and whether it is marked as deleted; and
  what a command may do to it.
\<close>

type_synonym life = "bool \<times> bool"

inductive life_step :: "life \<Rightarrow> string \<Rightarrow> life \<Rightarrow> bool" where
  remove: "life_step (d, True) ''remove'' (False, False)"
| delete: "life_step (True, False) ''delete'' (True, True)"
| undelete: "life_step (d, True) ''undelete'' (d, False)"
| not_found: "life_step (False, False) c (False, False)"
| delete_first: "c \<noteq> ''delete'' \<Longrightarrow> life_step (True, False) c (True, False)"
| already: "c \<noteq> ''remove'' \<Longrightarrow> c \<noteq> ''undelete'' \<Longrightarrow> life_step (d, True) c (d, True)"

inductive life_run :: "life \<Rightarrow> string list \<Rightarrow> life \<Rightarrow> bool" where
  stop: "life_run s [] s"
| step: "life_step s c s' \<Longrightarrow> life_run s' cs s'' \<Longrightarrow> life_run s (c # cs) s''"

inductive_cases life_stepE: "life_step s c s'"

text \<open>The commands determine what becomes of a monitor.\<close>

lemma life_step_unique: "life_step s c s' \<Longrightarrow> life_step s c s'' \<Longrightarrow> s' = s''"
  by (auto elim!: life_stepE)

lemma life_run_unique: "life_run s cs s' \<Longrightarrow> life_run s cs s'' \<Longrightarrow> s' = s''"
proof (induction arbitrary: s'' rule: life_run.induct)
  case (step s c s1 cs s2)
  from step.prems obtain s3 where "life_step s c s3" "life_run s3 cs s''" by (auto elim: life_run.cases)
  then show ?case using step life_step_unique by blast
qed (auto elim: life_run.cases)

text \<open>Data goes away only by a removal of a monitor that was deleted before.\<close>

lemma life_run_removed: "life_run s cs s' \<Longrightarrow> fst s \<Longrightarrow> \<not> fst s' \<Longrightarrow> ''remove'' \<in> set cs"
proof (induction rule: life_run.induct)
  case (step s c s' cs s'')
  from step.hyps(1) step.prems(1) show ?case
    by (cases rule: life_step.cases) (use step in auto)
qed simp

lemma life_run_two_steps:
  "life_run s cs s' \<Longrightarrow> s = (True, False) \<Longrightarrow> \<not> fst s' \<Longrightarrow> subseq [''delete'', ''remove''] cs"
proof (induction rule: life_run.induct)
  case (step s c s' cs s'')
  from step.hyps(1) step.prems(1) show ?case
  proof (cases rule: life_step.cases)
    case delete
    then have "''remove'' \<in> set cs" using life_run_removed [OF step.hyps(2)] step.prems(2) by simp
    then show ?thesis using delete by (simp add: subseq_singleton_left)
  qed (use step in auto)
qed simp

text \<open>Each command is given once for every occurrence of the address.\<close>

definition given :: "string list \<Rightarrow> string list \<Rightarrow> string \<Rightarrow> string list" where
  "given cmds addrs b = concat (map (replicate (count_list addrs b)) cmds)"

lemma given_pairs:
  "map fst (filter (\<lambda>x. snd x = b) (concat (map (\<lambda>c. map (Pair c) addrs) cmds))) = given cmds addrs b"
proof -
  have "map fst (filter (\<lambda>x. snd x = b) (map (Pair c) addrs)) = replicate (count_list addrs b) c" for c :: string
    by (induction addrs) auto
  then show ?thesis by (induction cmds) (simp_all add: given_def)
qed

lemma subseq_replicate:
  "subseq (x # xs) (replicate n c @ ys) \<Longrightarrow> x \<noteq> c \<Longrightarrow> subseq (x # xs) ys"
  by (induction n) auto

lemma subseq_member: "subseq [x, y] zs \<Longrightarrow> y \<in> set zs"
  by (drule subseq_Cons') (simp only: subseq_singleton_left)

lemma subseq_given:
  assumes "subseq [x, y] (given cmds addrs b)" "x \<noteq> y"
  shows "subseq [x, y] cmds \<and> b \<in> set addrs"
proof
  show "b \<in> set addrs"
  proof (rule ccontr)
    assume "b \<notin> set addrs"
    then have "given cmds addrs b = []" by (simp add: given_def)
    then show False using assms(1) by simp
  qed
  show "subseq [x, y] cmds"
    using assms(1)
  proof (induction cmds)
    case (Cons c cmds)
    let ?n = "count_list addrs b"
    have g: "given (c # cmds) addrs b = replicate ?n c @ given cmds addrs b" by (simp add: given_def)
    show ?case
    proof (cases "x = c")
      case True
      have "y \<in> set (given (c # cmds) addrs b)" by (rule subseq_member [OF Cons.prems])
      then have "y \<in> set (given cmds addrs b)" using assms(2) True unfolding g by auto
      then have "y \<in> set cmds" by (auto simp: given_def)
      then show ?thesis using True by (simp add: subseq_singleton_left)
    next
      case False
      then show ?thesis using Cons.IH subseq_replicate [of x "[y]" ?n c "given cmds addrs b"] Cons.prems unfolding g by auto
    qed
  qed (simp add: given_def)
qed

lemma life_step_total: "\<exists>s'. life_step s c s'"
  by (cases s; cases "fst s"; cases "snd s"; cases "c = ''remove''"; cases "c = ''delete''"; cases "c = ''undelete''")
    (auto intro: life_step.intros)

definition life :: "export_env \<Rightarrow> string \<Rightarrow> world \<Rightarrow> life" where
  "life e a w = (file_at w (acct_name e a False) \<noteq> None \<or> file_at w (last_name e a False) \<noteq> None,
     file_at w (acct_name e a False @ ''.deleted'') \<noteq> None)"

definition unlocked :: "export_env \<Rightarrow> world \<Rightarrow> bool" where
  "unlocked e w \<longleftrightarrow> (\<forall>fn. creatable (xos e) fn) \<and> (\<forall>fn. file_at w (lck fn) = None) \<and> removeList w = [] \<and> good_cache e"

lemma acct_name_inj: "valid_addr a \<Longrightarrow> valid_addr b \<Longrightarrow> acct_name e a c = acct_name e b c \<longleftrightarrow> a = b"
  "valid_addr a \<Longrightarrow> valid_addr b \<Longrightarrow> last_name e a c = last_name e b c \<longleftrightarrow> a = b"
  by (auto simp: acct_name_def last_name_def valid_addr_def)

lemma deleted_neq [simp]:
  "acct_name e a c @ ''.deleted'' \<noteq> acct_name e b d" "acct_name e b d \<noteq> acct_name e a c @ ''.deleted''"
  "acct_name e a c @ ''.deleted'' \<noteq> last_name e b d" "last_name e b d \<noteq> acct_name e a c @ ''.deleted''"
  "acct_name e a c @ ''.deleted'' \<noteq> lck fn" "lck fn \<noteq> acct_name e a c @ ''.deleted''"
proof -
  have "last (acct_name e a c @ ''.deleted'') = CHR ''d''" "last (acct_name e b d) = CHR ''n''" "last (last_name e b d) = CHR ''t''"
    "last (lck fn) = CHR ''k''" by (simp_all add: acct_name_def last_name_def lck_def)
  then show "acct_name e a c @ ''.deleted'' \<noteq> acct_name e b d" "acct_name e b d \<noteq> acct_name e a c @ ''.deleted''"
    "acct_name e a c @ ''.deleted'' \<noteq> last_name e b d" "last_name e b d \<noteq> acct_name e a c @ ''.deleted''"
    "acct_name e a c @ ''.deleted'' \<noteq> lck fn" "lck fn \<noteq> acct_name e a c @ ''.deleted''"
    by (auto dest!: arg_cong [where f = last])
qed

lemma rm_step_effect:
  assumes "unlocked e w" "valid_addr a" "CHR 0x00 \<notin> set now" "c \<in> {''remove'', ''delete'', ''undelete''}"
  shows "\<exists>res' w'. rm_step e now c a (res, w) = Inr (res', w') \<and> unlocked e w' \<and> life_step (life e a w) c (life e a w') \<and>
    (\<forall>b. valid_addr b \<longrightarrow> b \<noteq> a \<longrightarrow> life e b w' = life e b w)"
proof -
  let ?mo = "monitor_new a" and ?del = "acct_name e a False @ ''.deleted''"
  have gc: "good_cache e" using assms(1) by (simp add: unlocked_def)
  note names = getMonitorPathLast_addr [OF assms(2) gc]
  have del: "getMonitorPathDels e a = ?del" using assms(2) by (simp add: getMonitorPathDels_def)
  have mo: "maddress ?mo = a" by (simp add: monitor_new_def)
  have ex: "monitorExists e ?mo w = Inr (fst (life e a w) \<or> snd (life e a w))" "isDeleted e ?mo w = snd (life e a w)"
    using assms(2) names by (simp_all add: monitorExists_def isDeleted_def mo del life_def fileExists_def)
  have wr: "writable (xos e) w ?del"
    using assms(1) monitor_names_plain(3) [OF assms(2) gc, of False] by (auto simp: writable_def unlocked_def clean_name_def)
  obtain wd where wd: "deleteMonitor e now ?mo w = Inr wd" "file_at wd = (file_at w)(?del \<mapsto> now)" "meta wd = meta w"
    using stringToAsciiFile_free [OF wr assms(3)] by (auto simp: deleteMonitor_def mo del)
  obtain wr where wr: "removeMonitor e ?mo w = Inr wr" "meta wr = meta w"
    "file_at wr fn = (if fn \<in> {acct_name e a False, last_name e a False, ?del} then None else file_at w fn)" for fn
    using assms(1,2) names by (auto simp: removeMonitor_def removeFile_def mo del unlocked_def)
  have un: "meta (undeleteMonitor e ?mo w) = meta w" "file_at (undeleteMonitor e ?mo w) = (file_at w)(?del := None)"
    by (auto simp: undeleteMonitor_def mo del)
  have other: "acct_name e b False @ ''.deleted'' \<noteq> ?del" "acct_name e b False \<noteq> acct_name e a False"
    "last_name e b False \<noteq> last_name e a False" if "valid_addr b" "b \<noteq> a" for b
    using that assms(2) acct_name_inj by auto
  obtain d x where st: "life e a w = (d, x)" by (cases "life e a w")
  have cmd: "c = ''remove'' \<or> c = ''delete'' \<or> c = ''undelete''" using assms(4) by simp
  show ?thesis
  proof (cases x)
    case True
    have "life e a wr = (False, False)" using wr(3) by (simp add: life_def)
    moreover have "life e a (undeleteMonitor e ?mo w) = (d, False)" using un(2) st True by (simp add: life_def)
    moreover have "unlocked e wr" "unlocked e (undeleteMonitor e ?mo w)"
      using assms(1) wr(2,3) un by (auto simp: unlocked_def meta_def)
    moreover have "life e b wr = life e b w" "life e b (undeleteMonitor e ?mo w) = life e b w" if "valid_addr b" "b \<noteq> a" for b
      using wr(3) un(2) other [OF that] by (simp_all add: life_def)
    ultimately show ?thesis using cmd True st ex wr(1) assms(1)
      by (auto simp: rm_step_def intro: life_step.intros)
  next
    case False
    have "life e a wd = (d, True)" using wd(2) st by (simp add: life_def)
    moreover have "unlocked e wd" using assms(1) wd(2,3) by (auto simp: unlocked_def meta_def)
    moreover have "life e b wd = life e b w" if "valid_addr b" "b \<noteq> a" for b
      using wd(2) other [OF that] by (simp add: life_def)
    ultimately show ?thesis using cmd False st ex wd(1) assms(1)
      by (cases d) (auto simp: rm_step_def intro: life_step.intros)
  qed
qed

lemma rm_loop_effect:
  assumes "unlocked e w" "\<forall>(c, a) \<in> set cmds. valid_addr a \<and> c \<in> {''remove'', ''delete'', ''undelete''}" "CHR 0x00 \<notin> set now"
  shows "\<exists>res' w'. rm_loop e now cmds (res, w) = Inr (res', w') \<and>
    (\<forall>b. valid_addr b \<longrightarrow> life_run (life e b w) (map fst (filter (\<lambda>x. snd x = b) cmds)) (life e b w'))"
  using assms(1,2)
proof (induction cmds arbitrary: res w)
  case (Cons ca cmds)
  obtain c a where ca: "ca = (c, a)" by force
  have ok: "valid_addr a" "c \<in> {''remove'', ''delete'', ''undelete''}" using Cons.prems(2) ca by auto
  from rm_step_effect [OF Cons.prems(1) ok(1) assms(3) ok(2)] obtain res1 w1 where 1: "rm_step e now c a (res, w) = Inr (res1, w1)"
    "unlocked e w1" "life_step (life e a w) c (life e a w1)" "\<And>b. valid_addr b \<Longrightarrow> b \<noteq> a \<Longrightarrow> life e b w1 = life e b w" by blast
  from Cons.IH [OF 1(2), of res1] Cons.prems(2) obtain res' w' where 2: "rm_loop e now cmds (res1, w1) = Inr (res', w')"
    "\<And>b. valid_addr b \<Longrightarrow> life_run (life e b w1) (map fst (filter (\<lambda>x. snd x = b) cmds)) (life e b w')" by auto
  have "life_run (life e b w) (map fst (filter (\<lambda>x. snd x = b) (ca # cmds))) (life e b w')" if "valid_addr b" for b
    using 1(3) 1(4) [OF that] 2(2) [OF that] ca by (cases "b = a") (auto intro: life_run.step)
  then show ?case using 1(1) 2(1) ca by auto
qed (auto intro: life_run.stop)

end
