(* ===== verification/Index_Properties.thy ===== *)
theory Index_Properties
  imports IndexChunk_Correct
begin

text \<open>
  The properties of the index: a chunk answers queries exactly, its bloom filters have no
  false negatives, the text form shows the same tables, and what happens for fewer than
  twelve records.
\<close>

section \<open>Chunks\<close>

definition line_a :: string where
  "line_a = ''0x'' @ replicate 40 (CHR ''1'') @ TAB # ''000000007'' @ TAB # ''00003''"

definition line_b :: string where
  "line_b = ''0x'' @ replicate 40 (CHR ''2'') @ TAB # ''000000008'' @ TAB # ''00000''"

definition sample :: "string list" where
  "sample = replicate 6 line_a @ replicate 6 line_b"

lemma sample_valid: "\<forall>l \<in> set sample. valid_line l"
proof -
  have "valid_line line_a" by code_simp
  moreover have "valid_line line_b" by code_simp
  ultimately show ?thesis by (simp add: sample_def)
qed

lemma sample_facts:
  "sorted sample" "length sample = 12" "line_addr line_a \<noteq> line_addr line_b" "valid_addr (line_addr line_a)"
  "line_app line_a = \<lparr>appblk = 7, txid = 3\<rparr>" "line_app line_b = \<lparr>appblk = 8, txid = 0\<rparr>"
proof -
  have "line_a \<le> line_b" by code_simp
  then show "sorted sample" by (auto simp: sample_def sorted_append)
  show "length sample = 12" by (simp add: sample_def)
  show "line_addr line_a \<noteq> line_addr line_b" by code_simp
  show "valid_addr (line_addr line_a)" by code_simp
  have f: "line_blk line_a = ''000000007''" "line_tx line_a = ''00003''"
    "line_blk line_b = ''000000008''" "line_tx line_b = ''00000''"
    by (simp_all add: line_blk_def line_tx_def line_a_def line_b_def)
  show "line_app line_a = \<lparr>appblk = 7, txid = 3\<rparr>" "line_app line_b = \<lparr>appblk = 8, txid = 0\<rparr>"
    by (simp_all add: line_app_def appearance_of_def f str_2_Uint_digits isdigit_def dec_value_def)
qed

text \<open>
  C2: The index answers queries exactly. For twelve or more sorted, well-formed appearance
  records, \<^verbatim>\<open>writeIndexAsBinary\<close> succeeds, and the search that
  \<^verbatim>\<open>visitFinalIndexFiles\<close> makes in the chunk it wrote returns the appearances of
  an address, all of them and in the order of the records, and nothing for an address
  that does not appear; no record outside of the file is read.
\<close>

theorem index_query_exact:
  assumes "\<forall>l \<in> set lines. valid_line l" "sorted lines" "12 \<le> length lines" "length lines < 2 ^ 31" "valid_addr a"
  shows "\<exists>chunk bloom. writeIndexAsBinary lines = Inr (chunk, bloom) \<and>
    chunk_query chunk a =
      Inr (if a \<in> line_addr ` set lines then Some (map line_app (filter (\<lambda>l. line_addr l = a) lines)) else None)"
  using writeIndexAsBinary_layout [OF assms(1,3)] chunk_query_lines [OF assms] by auto

theorem index_query_exact_witness:
  "\<exists>chunk bloom. writeIndexAsBinary sample = Inr (chunk, bloom) \<and>
    chunk_query chunk (line_addr line_a) = Inr (Some (replicate 6 \<lparr>appblk = 7, txid = 3\<rparr>))"
  using index_query_exact [OF sample_valid, of "line_addr line_a"] sample_facts
  by (simp add: sample_def)

text \<open>
  C5: The bloom filters of a chunk have no false negatives. The file written beside the
  chunk is read back, and every address of the chunk is a member of the filters in it, so
  that a search that consults them first never skips a chunk it should open.
\<close>

theorem index_bloom_complete:
  assumes "\<forall>l \<in> set lines. valid_line l" "12 \<le> length lines" "length lines < 2 ^ 31"
  shows "\<exists>chunk bloom bl. writeIndexAsBinary lines = Inr (chunk, bloom) \<and> readBloomFromBinary bloom = Inr bl \<and>
    (\<forall>l \<in> set lines. \<exists>t bits. addr_2_Bloom (line_addr l) [] = Inr (t, bits) \<and> isMember bl t = Inr True)"
proof -
  from writeIndexAsBinary_layout [OF assms(1,2)] obtain chunk bl where w:
    "writeIndexAsBinary lines = Inr (chunk, writeBloomToBinary bl)" "wf_set bl"
    "\<forall>l \<in> set lines. covered bl (line_addr l)" "length bl \<le> 2 * length lines" by blast
  have wf: "\<forall>b \<in> set bl. wf_bloom b" using w(2) by (simp add: wf_set_def)
  have "readBloomFromBinary (writeBloomToBinary bl) = Inr bl"
    using w(4) assms(3) by (intro readBloom_writeBloom [OF wf]) simp
  moreover have "\<exists>t bits. addr_2_Bloom (line_addr l) [] = Inr (t, bits) \<and> isMember bl t = Inr True"
    if "l \<in> set lines" for l
    using addr_2_Bloom_correct [of "line_addr l" "[]"] isMember_covered [OF wf] w(3) that by auto
  ultimately show ?thesis using w(1) by blast
qed

theorem index_bloom_complete_witness:
  "\<exists>chunk bloom bl. writeIndexAsBinary sample = Inr (chunk, bloom) \<and> readBloomFromBinary bloom = Inr bl \<and>
    (\<exists>t bits. addr_2_Bloom (line_addr line_b) [] = Inr (t, bits) \<and> isMember bl t = Inr True)"
proof -
  have "line_b \<in> set sample" by (simp add: sample_def)
  then show ?thesis using index_bloom_complete [OF sample_valid] sample_facts(2) by fastforce
qed

text \<open>
  With one to eleven records, both writers divide by zero: \<^verbatim>\<open>notifyCnt\<close> is
  \<open>lines.size() / 12\<close>, and the loop takes the remainder of its progress by it.
\<close>

theorem index_small_traps:
  assumes "lines \<noteq> []" "length lines < 12"
  shows "writeIndexAsBinary lines = Inl ArithTrap \<and> writeIndexAsAscii lines = Inl ArithTrap"
  using assms by (cases lines)
    (simp_all add: writeIndexAsBinary_def writeIndexAsAscii_def index_line_def ascii_line_def)

theorem index_small_traps_witness:
  "writeIndexAsBinary [line_a] = Inl ArithTrap \<and> writeIndexAsAscii [line_a] = Inl ArithTrap"
  using index_small_traps [of "[line_a]"] by simp

text \<open>
  Visiting a chunk (\<^verbatim>\<open>addressVisitFunc\<close>) with a callback that collects what it
  is given yields the addresses of the records, each once and in ascending order.
\<close>

theorem index_visit_addresses:
  assumes "\<forall>l \<in> set lines. valid_line l" "sorted lines" "12 \<le> length lines" "length lines < 2 ^ 31"
  shows "\<exists>chunk bloom. writeIndexAsBinary lines = Inr (chunk, bloom) \<and>
    addressVisit (Some (\<lambda>a as. (True, as @ [a]))) chunk [] =
      Inr (True, sorted_list_of_set (line_addr ` set lines))"
  using writeIndexAsBinary_layout [OF assms(1,3)] addressVisit_lines [OF assms] by auto

theorem index_visit_addresses_witness:
  "\<exists>chunk bloom. writeIndexAsBinary sample = Inr (chunk, bloom) \<and>
    addressVisit (Some (\<lambda>a as. (True, as @ [a]))) chunk [] = Inr (True, sorted_list_of_set {line_addr line_a, line_addr line_b})"
  using index_visit_addresses [OF sample_valid] sample_facts by (simp add: sample_def insert_commute)

text \<open>
  C37: The binary and the text writer show the same tables: for the same records there is
  one table of addresses, with offsets and counts, that the binary file lays out in fixed
  width and the text file prints, followed in both by the appearances in order.
\<close>

theorem index_forms_agree:
  assumes "\<forall>l \<in> set lines. valid_line l" "12 \<le> length lines"
  shows "\<exists>T bloom. writeIndexAsBinary lines = Inr (chunk_layout T (map line_app lines), bloom) \<and>
    writeIndexAsAscii lines = Inr (ascii_layout T (map line_app lines))"
  using writeIndexAsBinary_layout [OF assms] writeIndexAsAscii_layout [OF assms] by auto

theorem index_forms_agree_witness:
  "\<exists>T bloom. writeIndexAsBinary sample = Inr (chunk_layout T (map line_app sample), bloom) \<and>
    writeIndexAsAscii sample = Inr (ascii_layout T (map line_app sample))"
  using index_forms_agree [OF sample_valid] sample_facts(2) by simp

section \<open>Bloom filters\<close>

text \<open>
  C40: A set of bloom filters has no false negatives: after adding any addresses to an
  empty set with \<^verbatim>\<open>addToSet\<close>, however many filters that takes, \<^verbatim>\<open>isMember\<close>
  answers true for each of them. Every filter but the last holds 50001 addresses and the
  last at most 50000 (\<open>wf_set\<close>).
\<close>

theorem bloom_no_false_negatives:
  "\<exists>bl. addAll as [] = Inr bl \<and> wf_set bl \<and>
    (\<forall>a \<in> set as. \<exists>t bits. addr_2_Bloom a [] = Inr (t, bits) \<and> isMember bl t = Inr True)"
proof -
  obtain bl where bl: "addAll as [] = Inr bl" "wf_set bl" "\<forall>a \<in> set as. covered bl a"
    using addAll_correct [of "[]" as] by (auto simp: wf_set_def)
  then have "\<forall>b \<in> set bl. wf_bloom b" by (simp add: wf_set_def)
  then have "\<exists>t bits. addr_2_Bloom a [] = Inr (t, bits) \<and> isMember bl t = Inr True" if "a \<in> set as" for a
    using addr_2_Bloom_correct [of a "[]"] isMember_covered bl(3) that by fastforce
  then show ?thesis using bl by blast
qed

theorem bloom_no_false_negatives_witness:
  "\<exists>bl t bits. addAll [line_addr line_a] [] = Inr bl \<and>
    addr_2_Bloom (line_addr line_a) [] = Inr (t, bits) \<and> isMember bl t = Inr True"
  using bloom_no_false_negatives [of "[line_addr line_a]"] by fastforce

text \<open>
  \<^verbatim>\<open>lightBit\<close>, \<^verbatim>\<open>unlightBit\<close> and \<^verbatim>\<open>toggleBit\<close> change exactly the
  bit they are given and keep the width of the filter; a bit number past the width leaves
  the array.
\<close>

theorem bloom_bit_operations:
  assumes "wf_bloom s"
  shows "if b < BLOOM_WIDTH_IN_BITS
    then \<exists>on off tog. lightBit b s = Inr on \<and> unlightBit b s = Inr off \<and> toggleBit b s = Inr tog \<and>
      wf_bloom on \<and> wf_bloom off \<and> wf_bloom tog \<and>
      (\<forall>c < BLOOM_WIDTH_IN_BITS. isBitLit c on = (if c = b then Inr True else isBitLit c s) \<and>
         isBitLit c off = (if c = b then Inr False else isBitLit c s) \<and>
         isBitLit c tog = Inr (lit s c \<noteq> (c = b)))
    else lightBit b s = Inl OutOfBounds \<and> unlightBit b s = Inl OutOfBounds \<and> toggleBit b s = Inl OutOfBounds"
proof (cases "b < BLOOM_WIDTH_IN_BITS")
  case b: True
  obtain on where on: "lightBit b s = Inr on" "wf_bloom on"
    "\<forall>c < BLOOM_WIDTH_IN_BITS. lit on c = (c = b \<or> lit s c)" using lightBit_correct [OF assms b] by blast
  obtain off where off: "unlightBit b s = Inr off" "wf_bloom off"
    "\<forall>c < BLOOM_WIDTH_IN_BITS. lit off c = (c \<noteq> b \<and> lit s c)" using unlightBit_correct [OF assms b] by blast
  show ?thesis
    using on off isBitLit_lit [OF on(2)] isBitLit_lit [OF off(2)] isBitLit_lit [OF assms] b
    by (cases "lit s b") (auto simp: toggleBit_def)
next
  case False
  then have "\<not> b div 8 < BLOOM_WIDTH_IN_BYTES" by (simp add: BLOOM_WIDTH_IN_BITS_def less_eq_div_iff_mult_less_eq not_less)
  then show ?thesis using False
    by (simp add: lightBit_def unlightBit_def toggleBit_def isBitLit_def byte_index_def Let_def)
qed

theorem bloom_bit_operations_witness:
  "\<exists>on. lightBit 9 bloom_init = Inr on \<and> isBitLit 9 on = Inr True"
proof -
  have "9 < BLOOM_WIDTH_IN_BITS" by (simp add: BLOOM_WIDTH_IN_BITS_def BLOOM_WIDTH_IN_BYTES_def)
  then show ?thesis using bloom_bit_operations [OF bloom_init_correct(1), of 9] by fastforce
qed

section \<open>Addresses\<close>

text \<open>
  The bytes of an address print back as the address, and compare the way the addresses
  do as texts, which is what makes the search in a chunk sorted by text correct.
\<close>

theorem address_bytes_roundtrip:
  assumes "valid_addr a" "valid_addr b"
  shows "isAddress a \<and> length (addr_2_Bytes a) = 20 \<and> bytes_2_Addr (addr_2_Bytes a) = Inr a \<and>
    (findAddresses (addr_2_Bytes a) (addr_2_Bytes b) < 0 \<longleftrightarrow> a < b) \<and>
    (findAddresses (addr_2_Bytes a) (addr_2_Bytes b) = 0 \<longleftrightarrow> a = b)"
  using assms isAddress_valid length_addr_2_Bytes bytes_2_Addr_bytes
    findAddresses_order [of "addr_2_Bytes a" "addr_2_Bytes b"] addr_bytes_less [OF assms] by simp

theorem address_bytes_roundtrip_witness:
  "bytes_2_Addr (addr_2_Bytes (line_addr line_a)) = Inr (line_addr line_a) \<and>
    findAddresses (addr_2_Bytes (line_addr line_a)) (addr_2_Bytes (line_addr line_a)) = 0"
  using address_bytes_roundtrip [OF sample_facts(4,4)] by simp

end
