(* ===== verification/Scraper_Properties.thy ===== *)
theory Scraper_Properties
  imports Consolidator_Correct
begin

text \<open>
  The properties of the files and of the block scraper.
\<close>

section \<open>Samples\<close>

definition os0 :: env where
  "os0 = \<lparr>creatable = (\<lambda>_. True), elapse = id, quitAsked = (\<lambda>_. False)\<rparr>"

definition env0 :: scrape_env where
  "env0 = \<lparr>os = os0, indexPath = ''/tb/'', liveTest = True, docker = False, pinChunk = (\<lambda>_ w. Inr (True, w))\<rparr>"

definition con0 :: consolidator where
  "con0 = \<lparr>unripe = 0, ripe = 0, staging = 0, finalized = 0, client = 0, pin = False, distFromHead = 0, prevBlock = 7,
     blazeStart = 0, blazeRipe = 0, blazeCnt = 0, oldStage = [], newStage = stage_name env0 ''000000007'', tmpFile = [],
     tmp_fn = ''/tb/staging/000000000-temp.txt'', tmp_fails = False\<rparr>"

definition world0 :: "(string \<times> string) list \<Rightarrow> world" where
  "world0 d = \<lparr>disk = d, sectionLocks = 0, removeList = [], polls = 0\<rparr>"

definition line0 :: string where
  "line0 = ''0x'' @ replicate 40 (CHR ''1'') @ TAB # ''000000007'' @ TAB # ''00003''"

lemma line0_valid: "valid_line line0"
  by code_simp

lemma env0_good: "good_path (indexPath env0)" "\<forall>i. \<not> quitAsked (os env0) i" "\<not> pin con0"
  "newStage con0 = stage_name env0 ''000000007''" "list_all isdigit ''000000007''"
  by (simp_all add: good_path_def env0_def plain_chars_def os0_def con0_def isdigit_def)

lemma quiet0: "\<forall>fn \<in> fst ` set d. last fn \<noteq> CHR ''k'' \<Longrightarrow> quiet env0 (world0 d)"
  by (fastforce simp: quiet_def env0_def os0_def world0_def file_at_def map_of_eq_None_iff lck_def)

section \<open>Chunks\<close>

text \<open>
  C3: Consolidation neither loses nor duplicates a record and ends. From a stage of
  well-formed records in the order of their blocks, \<^verbatim>\<open>consolidate_chunks\<close> returns true
  and leaves the records cut, in their order, into groups of at least \<^verbatim>\<open>MAX_ROWS\<close> records,
  each of which ends where a block ends and is written, sorted, as the chunk named after its
  first and last block together with its bloom filters; at most \<^verbatim>\<open>MAX_ROWS\<close> records
  remain on the stage, and the section lock is released.
\<close>

theorem consolidate_partition:
  assumes "good_path (indexPath e)" "\<not> pin con" "newStage con = stage_name e n" "list_all isdigit n"
    "\<forall>i. \<not> quitAsked (os e) i" "quiet e w" "sectionLocks w = 0" "\<forall>l \<in> set lines. valid_line l"
    "sorted (map line_blk lines)" "file_at w (stage_name e n) = stage_text lines"
  shows "\<exists>groups rest w'. consolidate_chunks e con w = Some (Inr (True, w')) \<and> concat groups @ rest = lines \<and>
    length rest \<le> MAX_ROWS e \<and> sorted_wrt before (groups @ [rest]) \<and>
    (\<forall>g \<in> set groups. MAX_ROWS e \<le> length g \<and> chunked e w' g) \<and>
    file_at w' (stage_name e n) = stage_text rest \<and> sectionLocks w' = 0"
  using consolidate_effect [OF assms] by blast

theorem consolidate_partition_witness:
  "\<exists>groups rest w'. consolidate_chunks env0 con0
      (world0 [(stage_name env0 ''000000007'', linesToString (replicate 7000 line0) NL)]) = Some (Inr (True, w')) \<and>
    concat groups @ rest = replicate 7000 line0 \<and> length rest \<le> 6000 \<and> (\<forall>g \<in> set groups. chunked env0 w' g)"
proof -
  let ?d = "[(stage_name env0 ''000000007'', linesToString (replicate 7000 line0) NL)]"
  have q: "quiet env0 (world0 ?d)" by (rule quiet0) (simp add: stage_name_def)
  have "file_at (world0 ?d) (stage_name env0 ''000000007'') = stage_text (replicate 7000 line0)"
    by (simp add: file_at_def world0_def stage_text_def)
  from consolidate_partition [OF env0_good(1,3,4,5,2) q _ _ _ this] obtain groups rest w' where
    "consolidate_chunks env0 con0 (world0 ?d) = Some (Inr (True, w'))" "concat groups @ rest = replicate 7000 line0"
    "length rest \<le> MAX_ROWS env0" "\<forall>g \<in> set groups. MAX_ROWS env0 \<le> length g \<and> chunked env0 w' g"
    using line0_valid by (auto simp: world0_def)
  then show ?thesis by (auto simp: MAX_ROWS_def env0_def)
qed

text \<open>
  When a pass meets a record without two tabs, \<^verbatim>\<open>write_chunks\<close> returns from the
  middle of its locked section: the files are as before, but the section stays locked, so
  that from then on \<^verbatim>\<open>shouldQuit\<close> answers false whatever the user asks.
\<close>

theorem write_pass_leaks_lock:
  assumes "write_pass e con c w = Inr (False, w')"
  shows "file_at w' = file_at w \<and> sectionLocks w' = sectionLocks w + 1 \<and>
    (sectionLocks w = 0 \<longrightarrow> shouldQuit o1 w' = Inr (False, w'\<lparr>polls := Suc (polls w')\<rparr>))"
proof -
  have b: "bindR r f = Inr (False, w') \<Longrightarrow> (\<And>x. r = Inr x \<Longrightarrow> f x = Inr (False, w') \<Longrightarrow> P) \<Longrightarrow> P" for r f P
    by (cases r) auto
  have "w' = lockSection w"
    using assms unfolding write_pass_def Let_def by (auto elim!: b split: if_splits prod.splits)
  then show ?thesis by (auto simp: lockSection_def shouldQuit_def isSectionLocked_def file_at_def)
qed

definition bad_line :: string where
  "bad_line = ''a'' @ TAB # ''b''"

theorem write_pass_leaks_lock_witness:
  "\<exists>w'. write_pass env0 con0 1 (world0 [(stage_name env0 ''000000007'', bad_line @ NL # bad_line @ [NL])]) = Inr (False, w') \<and>
    sectionLocks w' = 1 \<and> shouldQuit (os0\<lparr>quitAsked := \<lambda>_. True\<rparr>) w' = Inr (False, w'\<lparr>polls := Suc (polls w')\<rparr>)"
proof -
  let ?w = "world0 [(stage_name env0 ''000000007'', bad_line @ NL # bad_line @ [NL])]"
  have "asciiFileToLines (lockSection ?w) (stage_name env0 ''000000007'') = [bad_line, bad_line]"
    by (rule asciiFileToLines_eq [where sep = NL])
      (simp_all add: file_at_def lockSection_def world0_def linesToString_def plain_line_def bad_line_def blanks_def)
  moreover have "explode_into [] bad_line TAB True = [''a'', ''b'']" "countOf bad_line TAB = 1" by code_simp+
  ultimately have "\<exists>w'. write_pass env0 con0 1 ?w = Inr (False, w')"
    by (simp add: write_pass_def Let_def env0_good(4) read_at_def)
  then obtain w' where w': "write_pass env0 con0 1 ?w = Inr (False, w')" by blast
  from write_pass_leaks_lock [OF w', of "os0\<lparr>quitAsked := \<lambda>_. True\<rparr>"] w' show ?thesis by (auto simp: world0_def)
qed

text \<open>
  Snapping to the grid with too few records crashes. Asked for one chunk of all the
  records on the stage, \<^verbatim>\<open>write_chunks\<close> indexes outside of its vector of lines when
  there are none or one, and divides by zero when there are two to eleven.
\<close>

theorem short_snap_faults:
  assumes "good_path (indexPath e)" "newStage con = stage_name e n" "list_all isdigit n" "\<not> quitAsked (os e) (polls w)"
    "quiet e w" "sectionLocks w = 0" "\<forall>l \<in> set lines. valid_line l" "length lines < 12"
    "file_at w (stage_name e n) = stage_text lines"
  shows "write_chunks e con (length lines) True w =
    Some (Inl (if length lines < 2 then OutOfBounds else ArithTrap))"
proof -
  define w1 where "w1 = w\<lparr>polls := Suc (polls w)\<rparr>"
  have quit: "shouldQuit (os e) w = Inr (False, w1)" using assms(4) by (simp add: shouldQuit_def w1_def)
  have f1: "file_at w1 (stage_name e n) = stage_text lines" using assms(9) by (simp add: w1_def)
  have "write_pass e con (length lines) w1 = Inl (if length lines < 2 then OutOfBounds else ArithTrap)"
  proof (cases "length lines < 2")
    case True
    then consider "lines = []" | l where "lines = [l]" by (cases lines) (auto simp: length_Suc_conv)
    then show ?thesis
    proof cases
      case (2 l)
      have "asciiFileToLines (lockSection w1) (stage_name e n) = [l]"
        using f1 2 assms(7) valid_line_chars(1)
        by (intro asciiFileToLines_eq [where sep = NL]) (auto simp: stage_text_def)
      then show ?thesis using 2 assms(2,7) line_ids(1) [of l] by (simp add: write_pass_def Let_def read_at_def)
    qed (simp add: write_pass_def Let_def)
  next
    case False
    then have l: "2 \<le> length lines" "0 < length lines" "lines \<noteq> []" by auto
    have cut: "cut_at (length lines) lines = length lines" using cut_bounds [OF l(2)] by (simp add: antisym)
    have ids: "list_all isdigit (line_blk (hd lines))" "list_all isdigit (line_blk (last lines))"
      using assms(7) l(3) line_ids(2) by auto
    have "sort lines \<noteq> []" using l(3) by (metis length_0_conv length_sort)
    then have trap: "writeIndexAsBinary (sort lines) = Inl ArithTrap"
      using assms(8) by (intro writeIndexAsBinary_small) simp_all
    have "quiet e (lockSection w1)" using assms(5) by (intro quiet_files [OF assms(5)]) (simp_all add: w1_def)
    from session [OF quiet_writable [OF this clean_names(1) [OF assms(1) ids]], of modeWriteCreate LOCK_NOWAIT]
    have "writeIndexFile e (chunk_name (indexPath e) (line_blk (hd lines)) (line_blk (last lines))) (sort lines) (pin con) (lockSection w1) =
        Inl ArithTrap"
      using trap temp_of_chunk [OF assms(1) ids] by (auto simp: writeIndexFile_def)
    then show ?thesis using write_pass_eq [OF assms(2,7) l(2) _ l(1) f1] False cut by simp
  qed
  then show ?thesis unfolding write_chunks_def by (subst write_chunks_loop.simps) (simp add: quit)
qed

theorem short_snap_faults_witness:
  "write_chunks env0 con0 0 True (world0 []) = Some (Inl OutOfBounds) \<and>
   write_chunks env0 con0 2 True (world0 [(stage_name env0 ''000000007'', linesToString [line0, line0] NL)]) = Some (Inl ArithTrap)"
proof -
  let ?d = "[(stage_name env0 ''000000007'', linesToString [line0, line0] NL)]"
  have q: "quiet env0 (world0 ?d)" "quiet env0 (world0 [])" by (rule quiet0; simp add: stage_name_def)+
  have "file_at (world0 ?d) (stage_name env0 ''000000007'') = stage_text [line0, line0]"
    "file_at (world0 []) (stage_name env0 ''000000007'') = stage_text []"
    by (simp_all add: file_at_def world0_def stage_text_def)
  with short_snap_faults [OF env0_good(1,4,5) _ q(1), of "[line0, line0]"] short_snap_faults [OF env0_good(1,4,5) _ q(2), of "[]"]
  show ?thesis using env0_good(2) line0_valid by (simp add: world0_def numeral_2_eq_2)
qed

section \<open>Staging\<close>

text \<open>
  C36: \<^verbatim>\<open>stage_chunks\<close> replaces the old stage by a new one, named after the last copied
  block, that holds the records of the old stage followed by the newly copied ones; the old
  stage and both temporary files are gone and the section is unlocked. What an interrupted
  run left in \<^verbatim>\<open>temp.txt\<close>, which is only ever appended to, comes first.
\<close>

theorem stage_appends:
  assumes "\<forall>fn. creatable (os e) fn" "tmp_fn con = indexFolder_staging e @ ''000000000-temp.txt''"
    "old = getLastFileInFolder w (indexFolder_staging e) False" "old \<noteq> []" "old \<noteq> tmp_fn con"
    "old \<noteq> stage_name e (padNum9 (prevBlock con))"
    "file_at w old = Some s" "file_at w (tmp_fn con) = Some t" "sectionLocks w \<noteq> - 1"
  shows "\<exists>con' w'. stage_chunks e con w = (True, con', w') \<and> newStage con' = stage_name e (padNum9 (prevBlock con)) \<and>
    sectionLocks w' = sectionLocks w \<and>
    file_at w' = (file_at w)(indexPath e @ ''temp.txt'' := None, old := None, tmp_fn con := None,
      stage_name e (padNum9 (prevBlock con)) \<mapsto> contents_of w (indexPath e @ ''temp.txt'') @ s @ t)"
  using stage_chunks_effect [of e con w s t] assms by (auto simp: meta_def)

theorem stage_appends_witness:
  "\<exists>con' w'. stage_chunks env0 con0 (world0 [(''/tb/staging/000000006.txt'', ''old''),
      (''/tb/staging/000000000-temp.txt'', ''new'')]) = (True, con', w') \<and>
    file_at w' (stage_name env0 (padNum9 7)) = Some ''oldnew'' \<and> file_at w' ''/tb/staging/000000006.txt'' = None"
proof -
  let ?w = "world0 [(''/tb/staging/000000006.txt'', ''old''), (''/tb/staging/000000000-temp.txt'', ''new'')]"
  have old: "''/tb/staging/000000006.txt'' = getLastFileInFolder ?w (indexFolder_staging env0) False" by code_simp
  have new: "stage_name env0 (padNum9 7) = ''/tb/staging/000000007.txt''" by code_simp
  have f: "file_at ?w = [''/tb/staging/000000006.txt'' \<mapsto> ''old'', ''/tb/staging/000000000-temp.txt'' \<mapsto> ''new'']"
    by (auto simp: file_at_def world0_def fun_eq_iff)
  have env: "\<forall>fn. creatable (os env0) fn" "indexPath env0 = ''/tb/''" "tmp_fn con0 = ''/tb/staging/000000000-temp.txt''"
    "prevBlock con0 = 7" "sectionLocks ?w \<noteq> - 1"
    by (simp_all add: env0_def os0_def con0_def world0_def)
  have "contents_of ?w ''/tb/temp.txt'' = []" by (simp add: contents_of_def f)
  with stage_appends [of env0 con0 "''/tb/staging/000000006.txt''" ?w "''old''" "''new''", OF _ _ old]
  obtain con' w' where "stage_chunks env0 con0 ?w = (True, con', w')"
    "file_at w' = (file_at ?w)(''/tb/temp.txt'' := None, ''/tb/staging/000000006.txt'' := None,
      ''/tb/staging/000000000-temp.txt'' := None, ''/tb/staging/000000007.txt'' \<mapsto> ''oldnew'')"
    by (auto simp: env new f)
  then show ?thesis by (simp add: new)
qed

text \<open>
  C39: The stage receives blocks in sequence. If the visit of the ripe folder goes through
  all of its files, their names are those of the blocks right after the last staged one, in
  order and without a gap, and the consolidator ends at the last of them.
\<close>

theorem ripe_blocks_sequential:
  assumes "visit_ripe e paths con w = Some (Inr (True, con', w'))"
  shows "prevBlock con' = prevBlock con + word_of_nat (length paths) \<and>
    (\<forall>i < length paths. \<exists>last. bnFromPath (paths ! i) = Inr (prevBlock con + word_of_nat (Suc i), last))"
  using assms
proof (induction paths arbitrary: con w)
  case (Cons path paths)
  then obtain con1 w1 where 1: "copyRipeToStage e path con w = Some (Inr (True, con1, w1))"
    "visit_ripe e paths con1 w1 = Some (Inr (True, con', w'))"
    by (auto split: option.splits sum.splits if_splits)
  obtain l where l: "bnFromPath path = Inr (prevBlock con + 1, l)"
    using 1(1) by (auto simp: copyRipeToStage_def split: sum.splits if_splits)
  have "prevBlock con1 = prevBlock con + 1"
    using copyRipeToStage_prevBlock [OF 1(1) l] .
  with Cons.IH [OF 1(2)] have ih: "prevBlock con' = prevBlock con + 1 + word_of_nat (length paths)"
    "\<And>i. i < length paths \<Longrightarrow> \<exists>last. bnFromPath (paths ! i) = Inr (prevBlock con + 1 + word_of_nat (Suc i), last)" by auto
  have "\<exists>last. bnFromPath ((path # paths) ! i) = Inr (prevBlock con + word_of_nat (Suc i), last)" if "i < length (path # paths)" for i
    using that l ih(2) [of "i - 1"] by (cases i) (auto simp: algebra_simps)
  then show ?case using ih(1) by (simp add: algebra_simps)
qed simp

lemma bnFromPath_sample: "bnFromPath ''/tb/ripe/000000008.txt'' = Inr (8, NOPOS)"
proof -
  have "explode_into [] ''/tb/ripe/000000008.txt'' (CHR ''/'') True = [[], ''tb'', ''ripe'', ''000000008.txt'']"
    "contains ''/tb/ripe/000000008.txt'' ''_ts'' = False"
    "nextTokenClear ''000000008.txt'' (CHR ''.'') True = (''000000008'', ''txt'')"
    "nextTokenClear ''000000008'' (CHR ''-'') True = (''000000008'', [])" "isNumeral ''000000008''" by code_simp+
  moreover have "str_2_Uint ''000000008'' = 8" by (simp add: str_2_Uint_digits isdigit_def dec_value_def)
  ultimately show ?thesis by (simp add: bnFromPath_def)
qed

theorem ripe_blocks_sequential_witness:
  "\<exists>con' w'. visit_ripe env0 [''/tb/ripe/000000008.txt''] con0 (world0 [(''/tb/ripe/000000008.txt'', ''x'')]) =
      Some (Inr (True, con', w')) \<and> prevBlock con' = 8"
proof -
  have "\<exists>con' w'. visit_ripe env0 [''/tb/ripe/000000008.txt''] con0 (world0 [(''/tb/ripe/000000008.txt'', ''x'')]) =
      Some (Inr (True, con', w'))"
    by (simp add: copyRipeToStage_def bnFromPath_sample con0_def world0_def file_at_def shouldQuit_def env0_def os0_def
        SNAP_TO_GRID_BLKS_def FIRST_SNAP_TO_GRID_def Let_def)
  then obtain con' w' where v: "visit_ripe env0 [''/tb/ripe/000000008.txt''] con0 (world0 [(''/tb/ripe/000000008.txt'', ''x'')]) =
      Some (Inr (True, con', w'))" by blast
  then show ?thesis using ripe_blocks_sequential [OF v] by (simp add: con0_def)
qed

section \<open>Planning\<close>

text \<open>
  The plan of a scrape starts one block after everything that is indexed and, unless
  the index is ahead of the node, asks for no block beyond the node's latest one; blocks
  become ripe twenty-eight blocks behind it.
\<close>

theorem scrape_plan_bounds:
  assumes con'_def: "con' = scrape_plan e n f con" and m_def: "m = max (ripe con) (max (staging con) (finalized con))"
    and "m \<noteq> NOPOS" "unat n < 2 ^ 63" "unat f < 2 ^ 63" "unat (client con) < 2 ^ 63" "blazeStart con' \<le> client con"
  shows "unat (blazeStart con') = unat m + 1 \<and> unat (blazeStart con') + unat (blazeCnt con') \<le> unat (client con) \<and>
    unat (blazeRipe con') = unat (client con) - 28 \<and> unat (distFromHead con') = unat (client con) - unat (blazeStart con')"
proof -
  define start where "start = m + 1"
  define cnt where "cnt = (if \<not> docker e then (if start < 450000 then max 4000 n else if ddosRange start then f else n) else n)"
  have s: "blazeStart con' = start" by (simp add: con'_def scrape_plan_def Let_def start_def m_def)
  have c: "blazeCnt con' = (if start + cnt > client con then client con - start else cnt)"
    by (simp add: con'_def scrape_plan_def Let_def start_def m_def cnt_def)
  have r: "blazeRipe con' = (if client con < 28 then 0 else client con - 28)"
    and d: "distFromHead con' = (if client con > start then client con - start else 0)"
    by (simp_all add: con'_def scrape_plan_def Let_def start_def m_def)
  have le: "start \<le> client con" using assms(7) s by simp
  have u1: "unat start = unat m + 1"
  proof -
    have "1 + m \<noteq> 0" using assms(3) by (metis add.commute eq_neg_iff_add_eq_0)
    then show ?thesis using unatSuc [of m] by (simp add: start_def add.commute)
  qed
  have cnt: "unat cnt < 2 ^ 63" using assms(4,5) by (auto simp: cnt_def max_def)
  have "unat start + unat cnt < 2 ^ 64" using le assms(6) cnt by (auto simp: word_le_nat_alt)
  then have sum: "unat (start + cnt) = unat start + unat cnt" by (simp add: unat_word_ariths)
  have sub: "unat (client con - start) = unat (client con) - unat start" using le by (rule unat_sub)
  have "unat start + unat (blazeCnt con') \<le> unat (client con)"
    using c sum sub le by (auto simp: word_le_nat_alt word_less_nat_alt not_less)
  moreover have "unat (blazeRipe con') = unat (client con) - 28"
    using r unat_sub [of 28 "client con"] by (auto simp: word_le_nat_alt word_less_nat_alt not_less)
  moreover have "unat (distFromHead con') = unat (client con) - unat start"
    using d sub le by (auto simp: word_le_nat_alt word_less_nat_alt not_less)
  ultimately show ?thesis using s u1 by simp
qed

theorem scrape_plan_bounds_witness:
  "unat (blazeStart (scrape_plan env0 2000 500 (con0\<lparr>staging := 100, client := 1000\<rparr>))) +
   unat (blazeCnt (scrape_plan env0 2000 500 (con0\<lparr>staging := 100, client := 1000\<rparr>))) \<le> 1000"
  using scrape_plan_bounds [of "scrape_plan env0 2000 500 (con0\<lparr>staging := 100, client := 1000\<rparr>)" env0 2000 500
      "con0\<lparr>staging := 100, client := 1000\<rparr>" 100]
  by (simp add: scrape_plan_def con0_def env0_def Let_def)

section \<open>The run state\<close>

text \<open>The commands as a machine on the states alone.\<close>

fun next_state :: "ScrapeState \<Rightarrow> string \<Rightarrow> ScrapeState" where
  "next_state STATE_STOPPED mode = (if mode = ''run'' \<or> mode = [] then STATE_RUNNING else STATE_STOPPED)"
| "next_state STATE_RUNNING mode =
     (if mode = ''pause'' then STATE_PAUSED else if mode = ''quit'' then STATE_STOPPED else STATE_RUNNING)"
| "next_state STATE_PAUSED mode =
     (if mode = ''restart'' \<or> mode = ''run'' then STATE_RUNNING else if mode = ''quit'' then STATE_STOPPED else STATE_PAUSED)"

fun run_commands :: "env \<Rightarrow> string \<Rightarrow> string list \<Rightarrow> world \<Rightarrow> world result" where
  "run_commands e cf [] w = Inr w"
| "run_commands e cf (mode # modes) w = bindR (changeState e cf mode w) (\<lambda>(_, _, _, w'). run_commands e cf modes w')"

definition control_ok :: "env \<Rightarrow> string \<Rightarrow> world \<Rightarrow> bool" where
  "control_ok e cf w \<longleftrightarrow> clean_name cf \<and> last cf \<noteq> CHR ''k'' \<and> creatable e cf \<and> creatable e (lck cf) \<and>
     file_at w (lck cf) = None \<and> find_sub ''.lck|'' (removeList w) = None \<and> cf \<noteq> ''clear''"

lemma control_writable: "control_ok e cf w \<Longrightarrow> writable e w cf"
proof -
  assume c: "control_ok e cf w"
  have "\<not> contains (removeList w) (lck cf @ ''|'')"
  proof
    assume "contains (removeList w) (lck cf @ ''|'')"
    then obtain a b where "removeList w = (a @ cf) @ ''.lck|'' @ b"
      unfolding contains_def find_sub_None by (auto simp: lck_def)
    then show False using c unfolding control_ok_def find_sub_None by blast
  qed
  then show ?thesis using c by (simp add: control_ok_def writable_def)
qed

lemma remove_list_ok:
  assumes "find_sub ''.lck|'' L = None" "clean_name cf" "last cf \<noteq> CHR ''k''"
  shows "find_sub ''.lck|'' (L @ cf @ ''|'') = None"
proof (rule ccontr)
  assume "find_sub ''.lck|'' (L @ cf @ ''|'') \<noteq> None"
  then obtain a b where ab: "(L @ cf) @ ''|'' = a @ ''.lck|'' @ b" unfolding find_sub_None by auto
  have no: "find_sub ''.lck|'' (L @ cf) = None"
    by (rule find_sub_extend_None [OF assms(1)]) (use assms(2) in \<open>auto simp: clean_name_def\<close>)
  show False
  proof (cases b rule: rev_cases)
    case Nil
    then have "L @ cf = a @ ''.lck''" using ab by simp
    then have "last cf = CHR ''k''" using assms(2) by (metis clean_name_def last_appendR last.simps list.distinct(1))
    then show False using assms(3) by simp
  next
    case (snoc b' c)
    then have "L @ cf = a @ ''.lck|'' @ b'" using ab by simp
    then show False using no unfolding find_sub_None by blast
  qed
qed

lemma manageRemoveList_any:
  assumes "control_ok e cf w"
  shows "\<exists>l w'. manageRemoveList cf w = Inr (l, w') \<and> file_at w' = file_at w \<and> control_ok e cf w'"
proof -
  have c: "clean_name cf" "cf \<noteq> ''clear''" using assms by (auto simp: control_ok_def)
  have "substitute cf ''r:'' [] = Some cf" by (rule substitute_absent) (simp_all add: clean_absent [OF c(1)])
  then have "\<exists>l. manageRemoveList cf w = Inr (l, w\<lparr>removeList := l\<rparr>) \<and> (l = removeList w \<or> l = removeList w @ cf @ ''|'')"
    using c not_startsWith_r [OF c(1)] by (auto simp: manageRemoveList_def Let_def clean_name_def)
  then show ?thesis using assms remove_list_ok [of "removeList w" cf] by (auto simp: control_ok_def)
qed

lemma state_of_file:
  assumes "cf \<noteq> []"
  shows "file_at w cf = Some ''running'' \<Longrightarrow> fst (getCurrentState cf w) = STATE_RUNNING"
    "file_at w cf = Some ''paused'' \<Longrightarrow> fst (getCurrentState cf w) = STATE_PAUSED"
    "file_at w cf = None \<Longrightarrow> fst (getCurrentState cf w) = STATE_STOPPED"
  using asciiFileToString_eq [of w cf "''running''"] asciiFileToString_eq [of w cf "''paused''"] assms
  by (simp_all add: getCurrentState_def Let_def asciiFileToString_def fileExists_def)

lemma control_ok_files:
  "control_ok e cf w \<Longrightarrow> file_at w' (lck cf) = file_at w (lck cf) \<Longrightarrow> removeList w' = removeList w \<Longrightarrow> control_ok e cf w'"
  by (simp add: control_ok_def)

lemma changeState_refines:
  assumes "control_ok e cf w"
  shows "\<exists>ret str w'. changeState e cf mode w = Inr (ret, next_state (fst (getCurrentState cf w)) mode, str, w') \<and>
    control_ok e cf w' \<and> fst (getCurrentState cf w') = next_state (fst (getCurrentState cf w)) mode \<and>
    (ret = False \<longleftrightarrow> fst (getCurrentState cf w) = STATE_STOPPED \<and> next_state (fst (getCurrentState cf w)) mode = STATE_RUNNING)"
proof -
  have ne: "cf \<noteq> []" using assms by (auto simp: control_ok_def clean_name_def)
  have wr: "\<exists>w'. stringToAsciiFile e cf s v = Inr (True, w') \<and> control_ok e cf w' \<and> file_at w' cf = Some s"
    if "control_ok e cf v" "CHR 0x00 \<notin> set s" for s v
    using stringToAsciiFile_free [OF control_writable [OF that(1)] that(2)] control_ok_files [OF that(1)]
    by (fastforce simp: meta_def)
  have rm: "control_ok e cf (remove_file cf w)" using control_ok_files [OF assms, of "remove_file cf w"] by simp
  obtain st str where st: "getCurrentState cf w = (st, str)" by force
  show ?thesis
  proof (cases st)
    case STATE_STOPPED
    obtain l w1 where w1: "manageRemoveList cf w = Inr (l, w1)" "control_ok e cf w1"
      using manageRemoveList_any [OF assms] by blast
    from wr [OF w1(2), of "''running''"] obtain w2 where "stringToAsciiFile e cf ''running'' w1 = Inr (True, w2)"
      "control_ok e cf w2" "file_at w2 cf = Some ''running''" by auto
    then show ?thesis using st STATE_STOPPED w1(1) assms state_of_file [OF ne] by (auto simp: changeState_def)
  next
    case STATE_RUNNING
    from wr [OF assms, of "''paused''"] obtain w2 where "stringToAsciiFile e cf ''paused'' w = Inr (True, w2)"
      "control_ok e cf w2" "file_at w2 cf = Some ''paused''" by auto
    then show ?thesis using st STATE_RUNNING assms rm state_of_file [OF ne] by (auto simp: changeState_def)
  next
    case STATE_PAUSED
    from wr [OF assms, of "''running''"] obtain w2 where "stringToAsciiFile e cf ''running'' w = Inr (True, w2)"
      "control_ok e cf w2" "file_at w2 cf = Some ''running''" by auto
    then show ?thesis using st STATE_PAUSED assms rm state_of_file [OF ne] by (auto simp: changeState_def)
  qed
qed

text \<open>
  C38: The control file implements the run states. Whatever commands are given one after
  the other (run, pause, restart, quit or others), each finds in the control file the state
  that the machine \<open>next_state\<close> reaches, no lock is left behind and none of the commands
  faults.
\<close>

theorem scraper_state_refines:
  assumes "control_ok e cf w"
  shows "\<exists>w'. run_commands e cf modes w = Inr w' \<and>
    fst (getCurrentState cf w') = fold (\<lambda>mode st. next_state st mode) modes (fst (getCurrentState cf w)) \<and>
    file_at w' (lck cf) = None"
  using assms
proof (induction modes arbitrary: w)
  case Nil
  then show ?case by (simp add: control_ok_def)
next
  case (Cons mode modes)
  from changeState_refines [OF Cons.prems, of mode] obtain ret str w1 where
    "changeState e cf mode w = Inr (ret, next_state (fst (getCurrentState cf w)) mode, str, w1)" "control_ok e cf w1"
    "fst (getCurrentState cf w1) = next_state (fst (getCurrentState cf w)) mode" by blast
  with Cons.IH [of w1] show ?case by simp
qed

theorem scraper_state_refines_witness:
  "\<exists>w'. run_commands os0 ''/tmp/state.txt'' [''run'', ''pause'', ''restart'', ''quit''] (world0 []) = Inr w' \<and>
    fst (getCurrentState ''/tmp/state.txt'' w') = STATE_STOPPED"
proof -
  have "control_ok os0 ''/tmp/state.txt'' (world0 [])"
    by (simp add: control_ok_def clean_name_def os0_def world0_def file_at_def)
  from scraper_state_refines [OF this, of "[''run'', ''pause'', ''restart'', ''quit'']"]
  show ?thesis using state_of_file(3) [of "''/tmp/state.txt''" "world0 []"] by (auto simp: world0_def file_at_def)
qed

section \<open>Files\<close>

text \<open>
  A text written with \<^verbatim>\<open>stringToAsciiFile\<close> is read back by
  \<^verbatim>\<open>asciiFileToString\<close>, every other file is untouched and no lock file remains; but
  while another process holds the lock the write is refused and nothing changes.
\<close>

theorem text_file_roundtrip:
  assumes "writable e w fn" "CHR 0x00 \<notin> set s" "\<And>v. file_at (elapse e v) = file_at v"
  shows "(\<exists>w'. stringToAsciiFile e fn s w = Inr (True, w') \<and> asciiFileToString w' fn = s \<and>
      (\<forall>g. g \<noteq> fn \<longrightarrow> file_at w' g = file_at w g)) \<and>
    (\<exists>w'. stringToAsciiFile e fn s (put_file (lck fn) u w) = Inr (False, w') \<and>
      file_at w' = file_at (put_file (lck fn) u w))"
proof -
  have ne: "fn \<noteq> []" using assms(1) by (auto simp: writable_def clean_name_def)
  from stringToAsciiFile_free [OF assms(1,2)] obtain w' where "stringToAsciiFile e fn s w = Inr (True, w')"
    "file_at w' = (file_at w)(fn \<mapsto> s)" by blast
  moreover from this(2) have "asciiFileToString w' fn = s" using ne assms(2) by (intro asciiFileToString_eq) auto
  ultimately show ?thesis using stringToAsciiFile_held [OF assms(3), of "put_file (lck fn) u w" fn s] by auto
qed

theorem text_file_roundtrip_witness:
  "\<exists>w'. stringToAsciiFile os0 ''/tmp/a'' ''hello'' (world0 []) = Inr (True, w') \<and> asciiFileToString w' ''/tmp/a'' = ''hello''"
proof -
  have "writable os0 (world0 []) ''/tmp/a''"
    by (simp add: writable_def clean_name_def os0_def world0_def file_at_def contains_def lck_def)
  from text_file_roundtrip [OF this, of "''hello''"] show ?thesis by (auto simp: os0_def)
qed

end
