(* ===== verification/Monitor_Properties.thy ===== *)
theory Monitor_Properties
  imports Monitor_Correct Export Index_Properties Scraper_Properties
begin

text \<open>
  The properties of the monitors: freshening collects what the index holds, the chunk that
  follows the last one is skipped for a monitor that exists, the stage is searched with the
  wrong comparison, cleaning removes duplicates, and the life of a monitor.
\<close>

section \<open>Freshening\<close>

text \<open>
  C4: Freshening a monitor that does not exist yet collects the appearances of its address
  from all chunks of the index, in the order of the chunks, each chunk's in the order of its
  records, neither more nor less: chunks the bloom filters rule out are skipped, false
  positives add nothing, the files are moved to their place, and the monitor is marked as
  scanned up to the block after the last chunk.
\<close>

theorem freshen_new_monitor:
  assumes "\<forall>fn. creatable (xos e) fn" "\<forall>i. \<not> quitAsked (xos e) i" "good_cache e" "apart e" "valid_addr a"
    "removeList w = []" "sectionLocks w = 0"
    "file_at w (acct_name e a False) = None" "file_at w (last_name e a False) = None"
    "index_of e se w groups" "sorted_wrt before groups" "groups \<noteq> []" "\<And>fn. sees e w fn \<longleftrightarrow> fn \<in> set (map (bloom_of e) groups)"
    "allMonitors ob = [new_monitor a]" "possibles ob = []"
    "\<forall>g \<in> set groups. rangesIntersect (listRange ob) (str_2_Uint (chunk_first g), str_2_Uint (chunk_last g))"
    "apps = map monitored (concat (map (apps_in a) groups))"
  shows "\<exists>ob' w'. process_freshen e False (ob, w) = Inr (ob', w') \<and>
    loadAppsFromPath e (new_monitor a) [] None w' [] () = (apps \<noteq> [], apps, ()) \<and>
    getLastBlockInMonitor e (new_monitor a) w' = Inr (str_2_Uint (chunk_last (last groups)) + 1) \<and> sectionLocks w' = 0"
proof -
  have "map (\<lambda>g. chunk_apps g a) groups = map (apps_in a) groups"
    using assms(10) by (auto simp: index_of_def chunk_apps_def)
  with freshen_effect [OF assms(1-16)] obtain ob' w' where "process_freshen e False (ob, w) = Inr (ob', w')"
    "contents_of w' (acct_name e a False) = app_bytes apps" "sectionLocks w' = 0"
    "file_at w' (last_name e a False) = Some (uint_2_Str (str_2_Uint (chunk_last (last groups)) + 1) @ [NL])"
    using assms(17) by auto
  then show ?thesis
    using loadApps_effect [OF _ assms(5), of w' e apps "new_monitor a" "()"] last_block_read [OF _ assms(5,3)] by simp
qed

definition xenv0 :: export_env where
  "xenv0 = \<lparr>xos = os0, xindexPath = ''/tb/'', cachePath = ''/cache/'', fetchChunk = (\<lambda>_ w. w)\<rparr>"

definition stats0 :: CScrapeStatistics where
  "stats0 = \<lparr>nFiles = 0, nSkipped = 0, nChecked = 0, nBloomMisses = 0, nBloomHits = 0, nFalsePositive = 0, nPositive = 0,
     nStageChecked = 0, nStageHits = 0, nTotalHits = 0, nFileRecords = 0\<rparr>"

definition xstate0 :: "CMonitor list \<Rightarrow> export_state" where
  "xstate0 mos = \<lparr>allMonitors = mos, possibles = [], fileRange = (0, 0), listRange = (0, 100), stats = stats0, tmp = []\<rparr>"

definition chunk_disk :: "(string \<times> string) list" where
  "chunk_disk = (case writeIndexAsBinary sample of
     Inr (c, b) \<Rightarrow> [(chunk_name ''/tb/'' ''000000007'' ''000000008'', text_of c), (bloom_name ''/tb/'' ''000000007'' ''000000008'', text_of b)]
   | Inl _ \<Rightarrow> [])"

lemma xenv0_good: "good_index (xindexPath xenv0)" "good_cache xenv0" "apart xenv0" "\<forall>fn. creatable (xos xenv0) fn"
  "\<forall>i. \<not> quitAsked (xos xenv0) i"
proof -
  show "good_index (xindexPath xenv0)"
    using env0_good(1) by (simp add: good_index_def xenv0_def env0_def)
  show "good_cache xenv0" unfolding good_cache_def
  proof (intro conjI allI)
    show "plain_chars (cachePath xenv0)" by (simp add: plain_chars_def xenv0_def)
    show "find_sub ''.acct.bin'' (mon_dir xenv0 b) = None" for b by (cases b) (simp_all add: mon_dir_def xenv0_def)
  qed
qed (simp_all add: apart_def below_def mon_dir_def xenv0_def os0_def)

lemma sample_blocks: "chunk_first sample = ''000000007''" "chunk_last sample = ''000000008''"
  by (simp_all add: sample_def line_blk_def line_a_def line_b_def)

lemma sample_chunk: "chunk_ok sample" "sort sample = sample"
  using sample_valid sample_facts(1,2) by (simp_all add: chunk_ok_def sorted_sort_id)

lemma sample_index:
  "index_of xenv0 env0 (world0 chunk_disk) [sample]" "sees xenv0 (world0 chunk_disk) fn \<longleftrightarrow> fn \<in> set (map (bloom_of xenv0) [sample])"
proof -
  obtain c b where w: "writeIndexAsBinary sample = Inr (c, b)" using written_chunk [OF sample_chunk(1)] sample_chunk(2) by auto
  then have d: "chunk_disk = [(chunk_name ''/tb/'' ''000000007'' ''000000008'', text_of c),
      (bloom_name ''/tb/'' ''000000007'' ''000000008'', text_of b)]" by (simp add: chunk_disk_def)
  show "index_of xenv0 env0 (world0 chunk_disk) [sample]"
    using xenv0_good(1) w sample_chunk sample_blocks
    by (simp add: index_of_def chunked_def d world0_def file_at_def xenv0_def env0_def)
  show "sees xenv0 (world0 chunk_disk) fn \<longleftrightarrow> fn \<in> set (map (bloom_of xenv0) [sample])"
    unfolding sees_def d using sample_blocks
    by (auto simp: world0_def file_at_def xenv0_def below_def chunk_name_def bloom_name_def contains_def)
qed

theorem freshen_new_monitor_witness:
  "\<exists>ob' w'. process_freshen xenv0 False (xstate0 [new_monitor (line_addr line_a)], world0 chunk_disk) = Inr (ob', w') \<and>
    loadAppsFromPath xenv0 (new_monitor (line_addr line_a)) [] None w' [] () = (True, replicate 6 \<lparr>mablk = 7, matxid = 3\<rparr>, ())"
proof -
  let ?a = "line_addr line_a" and ?w = "world0 chunk_disk"
  obtain c b where w: "writeIndexAsBinary sample = Inr (c, b)" using written_chunk [OF sample_chunk(1)] sample_chunk(2) by auto
  have fr: "file_at ?w (acct_name xenv0 ?a False) = None" "file_at ?w (last_name xenv0 ?a False) = None"
    using w acct_not_chunk [of "''000000008''" xenv0 ?a False "''/tb/''" "''000000007''"]
    by (auto simp: chunk_disk_def world0_def file_at_def isdigit_def)
  have rg: "str_2_Uint ''000000007'' = 7" "str_2_Uint ''000000008'' = 8"
    by (simp_all add: str_2_Uint_digits isdigit_def dec_value_def)
  have apps: "map monitored (concat (map (apps_in ?a) [sample])) = replicate 6 \<lparr>mablk = 7, matxid = 3\<rparr>"
    unfolding apps_in_def using sample_chunk(2) sample_facts by (simp add: sample_def monitored_def)
  show ?thesis
    using freshen_new_monitor [of xenv0 ?a ?w env0 "[sample]" "xstate0 [new_monitor ?a]" "replicate 6 \<lparr>mablk = 7, matxid = 3\<rparr>",
        OF xenv0_good(4,5,2,3) sample_facts(4) _ _ fr sample_index(1) _ _ sample_index(2)] apps sample_blocks rg
    by (auto simp: world0_def xstate0_def rangesIntersect_def)
qed

text \<open>
  C17: For a monitor that exists already the next chunk is skipped. After a chunk that ends
  with block \<open>s\<close>, the monitor is marked with \<open>s + 1\<close>; a chunk that begins there is then
  taken for scanned, because the mark is not less than its first block, and nothing of it is
  collected.
\<close>

theorem freshen_skips_next:
  assumes "valid_addr a" "good_cache e" "writable (xos e) w (last_name e a False)" "maddress mo = a" "\<forall>i. \<not> quitAsked (xos e) i"
    "allMonitors ob = [mo]" "possibles ob = []" "s + 1 \<noteq> 0" "bnFromPath path = Inr (s + 1, t)"
  shows "\<exists>mo' w1 ob' w2. writeMonitorLastBlock e (s + 1) False (mo, w) = Inr (mo', w1) \<and>
    visitFinalIndexFiles e path (ob, w1) = Inr (True, ob', w2) \<and> file_at w2 = file_at w1 \<and> possibles ob' = []"
proof -
  have "CHR 0x00 \<notin> set (uint_2_Str (s + 1) @ [NL])"
    using dec_str_digits [of "unat (s + 1)"] not_in_digits [of "dec_str (unat (s + 1))" "CHR 0x00"]
    by (auto simp: uint_2_Str_def isdigit_def less_eq_char_def)
  from stringToAsciiFile_free [OF assms(3) this] obtain w1 where
    w1: "stringToAsciiFile (xos e) (last_name e a False) (uint_2_Str (s + 1) @ [NL]) w = Inr (True, w1)"
    "file_at w1 (last_name e a False) = Some (uint_2_Str (s + 1) @ [NL])" by fastforce
  have "writeMonitorLastBlock e (s + 1) False (mo, w) = Inr (mo\<lparr>lastVisitedBlock := s + 1\<rparr>, w1)"
    using w1(1) getMonitorPathLast_addr [OF assms(1,2)] assms(4) by (simp add: writeMonitorLastBlock_def)
  moreover have "getLastBlockInMonitor e mo w1 = Inr (s + 1)" using last_block_read [OF w1(2) assms(1,2,4)] .
  then have "\<exists>ob' w2. visitFinalIndexFiles e path (ob, w1) = Inr (True, ob', w2) \<and> file_at w2 = file_at w1 \<and> possibles ob' = []"
    using assms(5-9) by (auto simp: visitFinalIndexFiles_def skip_file_def shouldQuit_never Let_def)
  ultimately show ?thesis by blast
qed

theorem freshen_skips_next_witness:
  "\<exists>mo' w1 ob' w2. writeMonitorLastBlock xenv0 8 False (monitor_new (line_addr line_a), world0 []) = Inr (mo', w1) \<and>
    visitFinalIndexFiles xenv0 (bloom_name ''/tb/'' ''000000008'' ''000000009'') (xstate0 [monitor_new (line_addr line_a)], w1) = Inr (True, ob', w2) \<and>
    file_at w2 = file_at w1"
proof -
  have v: "valid_addr (line_addr line_a)" by (rule sample_facts(4))
  have "writable (xos xenv0) (world0 []) (last_name xenv0 (line_addr line_a) False)"
    using monitor_names_plain(4) [OF v xenv0_good(2)] by (simp add: writable_def xenv0_def os0_def world0_def file_at_def)
  moreover have bn: "bnFromPath (bloom_name ''/tb/'' ''000000008'' ''000000009'') = Inr (8, 9)"
    using bloom_name_parts(3) [OF xenv0_good(1), of "''000000008''" "''000000009''"]
    by (simp add: xenv0_def isdigit_def str_2_Uint_digits dec_value_def)
  ultimately show ?thesis
    using freshen_skips_next [OF v xenv0_good(2) _ _ xenv0_good(5), of "world0 []" "monitor_new (line_addr line_a)"
      "xstate0 [monitor_new (line_addr line_a)]" 7 "bloom_name ''/tb/'' ''000000008'' ''000000009''" 9] bn
    by (auto simp: monitor_new_def xstate0_def)
qed

end
