(* ===== verification/Export_Properties.thy ===== *)
theory Export_Properties
  imports Export_Correct Monitor_Properties
begin

text \<open>
  The properties of the stage query, of cleaning and of the life of a monitor.
\<close>

section \<open>The stage\<close>

text \<open>
  C18: Querying the stage does not look for the address. \<^verbatim>\<open>findAppearance2\<close> tells
  \<^verbatim>\<open>bsearch\<close> that the searched record is equal exactly when it is not, so the first
  record probed, in the middle of the sorted stage, is taken as the one that was found
  whatever the address (unless the search buffer happens to agree with it in all 59 bytes);
  and the transaction number is read from the beginning of the record and is always zero.
\<close>

theorem stage_query_ignores_address:
  assumes "file_at w path = Some (linesToString lines NL)" "path \<noteq> []" "lines \<noteq> []" "\<forall>l \<in> set lines. valid_line l"
    "length junk = 70" "valid_addr a" "allMonitors ob = [mo]" "maddress mo = a" "tx_cache mo = None"
    "writable (xos e) w (acct_name e a (isStaging mo))" "\<forall>i. \<not> quitAsked (xos e) i"
    "r = sort (map (\<lambda>l. l @ [NL]) lines) ! (length lines div 2)" "a @ take 17 (drop 42 junk) \<noteq> r"
  shows "\<exists>ob' w'. queryFlatFile e junk path (ob, w) = Inr (True, ob', w') \<and>
    tmp ob' = tmp ob @ [\<lparr>mablk = appblk (line_app (butlast r)), matxid = 0\<rparr>]"
proof -
  let ?recs = "sort (map (\<lambda>l. l @ [NL]) lines)" and ?n = "length lines div 2"
  let ?key = "(a @ drop 42 junk)[66 := CHR 0x00]"
  have len58: "\<forall>l \<in> set lines. length l = 58" using assms(4) valid_line_facts(4) by blast
  have la: "length a = 42" using assms(6) by (simp add: valid_addr_def)
  have sz: "fileSize w path div 59 = length lines"
    using assms(1,2) length_linesToString [OF len58] by (simp add: fileSize_def fileExists_def)
  have no0: "\<forall>x \<in> set (map (\<lambda>l. l @ [NL]) lines). CHR 0x00 \<notin> set x"
    using assms(4) valid_line_facts(1) by auto
  have recs: "qsort_records (flat_records (length lines) (linesToString lines NL)) = ?recs"
    using flat_records_lines [OF len58] qsort_records_plain [OF no0] by simp
  have "?n < length lines" using assms(3) by simp
  then have "r \<in> set ?recs" unfolding assms(12) by (intro nth_mem) simp
  then obtain l where l: "r = l @ [NL]" "l \<in> set lines" by auto
  have v: "valid_line l" and rl: "length r = 59" "CHR 0x00 \<notin> set r"
    using l assms(4) valid_line_facts(1,4) by auto
  have "take 59 ?key = a @ take 17 (drop 42 junk)" using la assms(5) by (simp add: take_update_cancel)
  then have "strncmp ?key r 59 \<noteq> 0" using assms(5,13) rl la by (subst strncmp_eq_0) auto
  then have "findAppearance2 ?key r = 0" by (simp add: findAppearance2_def sortByAddress_def)
  moreover have "?recs \<noteq> []" using assms(3) by (metis length_0_conv length_map length_sort)
  ultimately have bs: "flat_bsearch ?recs ?key 0 (length lines) = Some ?n"
    using flat_bsearch_first [of ?recs ?key] assms(12) by simp
  have k: "search_key junk a = Inr ?key" using la by (simp add: search_key_def)
  let ?w = "w\<lparr>polls := Suc (polls w)\<rparr>"
  have "writable (xos e) ?w (acct_name e a (isStaging mo))" using assms(10) by (simp add: writable_def)
  from Lock_free [OF this, of modeWriteAppend LOCK_WAIT] obtain r1 w1 where
    "Lock (xos e) (acct_name e a (isStaging mo)) modeWriteAppend LOCK_WAIT (resource_new, ?w) = Inr (True, r1, w1)" by blast
  then have op: "openForWriting e (isStaging mo) (mo, ?w) = Inr (True, mo\<lparr>tx_cache := Some r1\<rparr>, w1)"
    using assms(6,8,9) by (simp add: openForWriting_def)
  have "flat_appearance ((?recs ! ?n)[58 := CHR 0x00]) = \<lparr>mablk = appblk (line_app (butlast r)), matxid = 0\<rparr>"
    using flat_appearance_line [OF v] l(1) assms(12) by simp
  then show ?thesis
    using assms(1,2,7,8,11) recs sz op k bs
    by (auto simp: queryFlatFile_def fileExists_def contents_of_def shouldQuit_never Let_def)
qed

text \<open>An address that is not on the stage finds the record of another one.\<close>

theorem stage_query_ignores_address_witness:
  "\<exists>ob' w'. queryFlatFile xenv0 (replicate 70 (CHR ''?'')) ''/tb/staging/000000007.txt''
      (xstate0 [monitor_new (line_addr line_b)], world0 [(''/tb/staging/000000007.txt'', linesToString [line_a] NL)]) = Inr (True, ob', w') \<and>
    tmp ob' = [\<lparr>mablk = 7, matxid = 0\<rparr>]"
proof -
  let ?w = "world0 [(''/tb/staging/000000007.txt'', linesToString [line_a] NL)]" and ?b = "line_addr line_b"
  have v: "valid_addr ?b" by code_simp
  have va: "\<forall>l \<in> set [line_a]. valid_line l" using sample_valid by (simp add: sample_def)
  have nl: "''/tb/staging/000000007.txt'' \<noteq> lck fn" for fn
    using arg_cong [of "''/tb/staging/000000007.txt''" "lck fn" last] by (auto simp: lck_def)
  have wr: "writable (xos xenv0) ?w (acct_name xenv0 ?b False)"
    using monitor_names_plain(3) [OF v xenv0_good(2), of False] xenv0_good(4) nl [THEN not_sym]
    by (auto simp: writable_def world0_def file_at_def)
  have ne: "?b @ take 17 (drop 42 (replicate 70 (CHR ''?''))) \<noteq> line_a @ [NL]" by code_simp
  show ?thesis
    using stage_query_ignores_address [of ?w "''/tb/staging/000000007.txt''" "[line_a]" "replicate 70 (CHR ''?'')" ?b
        "xstate0 [monitor_new ?b]" "monitor_new ?b" xenv0 "line_a @ [NL]"] va v wr ne xenv0_good(5) sample_facts(5)
    by (auto simp: world0_def file_at_def xstate0_def monitor_new_def)
qed

section \<open>Cleaning\<close>

text \<open>
  C20: Cleaning a monitor file leaves its appearances in ascending order without
  duplicates, and no other file changes; but the appearance of transaction zero in block
  zero, which is what the loop compares the first record with, is always lost.
\<close>

theorem clean_dedups:
  assumes "contents_of w path = app_bytes apps" "apps \<noteq> []" "endsWith path ''acct.bin''" "writable (xos e) w path"
    "\<forall>i. \<not> quitAsked (xos e) i"
  shows "\<exists>w' l. cleanMonitorFile e path w = Inr (True, w') \<and> contents_of w' path = app_bytes l \<and>
    sorted_wrt (<) (map app_key l) \<and> set l = set apps - {\<lparr>mablk = 0, matxid = 0\<rparr>} \<and>
    (\<forall>fn. fn \<noteq> path \<longrightarrow> file_at w' fn = file_at w fn)"
proof -
  have ne: "path \<noteq> []" using assms(4) by (simp add: writable_def clean_name_def)
  define l where "l = dedup_loop \<lparr>mablk = 0, matxid = 0\<rparr> (sort_key app_key apps)"
  have "sorted (map app_key (\<lparr>mablk = 0, matxid = 0\<rparr> # sort_key app_key apps))" by (simp add: less_eq_prod_def)
  from dedup_loop_spec [OF this] have l: "sorted_wrt (<) (map app_key l)" "set l = set apps - {\<lparr>mablk = 0, matxid = 0\<rparr>}"
    by (auto simp: l_def)
  obtain r w1 where 1: "Lock (xos e) path modeWriteCreate LOCK_WAIT (resource_new, w) = Inr (True, r, w1)" "contents_of w1 path = []"
    "\<And>w2 s. file_at w2 = (file_at w1)(path \<mapsto> s) \<Longrightarrow> meta w2 = meta w1 \<Longrightarrow>
      \<exists>r' w3. Release (r, w2) = Inr (r', w3) \<and> file_at w3 = (file_at w)(path \<mapsto> s) \<and> meta w3 = meta w"
    using session [OF assms(4), of modeWriteCreate] by fastforce
  obtain r' w3 where "Release (r, append_to path (app_bytes l) w1) = Inr (r', w3)" "file_at w3 = (file_at w)(path \<mapsto> app_bytes l)"
    using 1(3) [of "append_to path (app_bytes l) w1" "app_bytes l"] 1(2) by auto
  then show ?thesis using l 1(1) assms(2,3,5) load_path(1) [OF assms(1) ne] load_path(2) [OF assms(1) ne, of e "monitor_new []" "()"]
    by (intro exI [of _ "w3\<lparr>polls := Suc (polls w3)\<rparr>"] exI [of _ l])
      (auto simp: cleanMonitorFile_def shouldQuit_never l_def [symmetric] contents_of_def)
qed

theorem clean_dedups_witness:
  "\<exists>w' l. cleanMonitorFile xenv0 ''/cache/monitors/0x1.acct.bin''
      (world0 [(''/cache/monitors/0x1.acct.bin'', app_bytes [\<lparr>mablk = 7, matxid = 1\<rparr>, \<lparr>mablk = 0, matxid = 0\<rparr>, \<lparr>mablk = 7, matxid = 1\<rparr>])]) =
      Inr (True, w') \<and> contents_of w' ''/cache/monitors/0x1.acct.bin'' = app_bytes l \<and> set l = {\<lparr>mablk = 7, matxid = 1\<rparr>}"
proof -
  let ?p = "''/cache/monitors/0x1.acct.bin''"
    and ?apps = "[\<lparr>mablk = 7, matxid = 1\<rparr>, \<lparr>mablk = 0, matxid = 0\<rparr>, \<lparr>mablk = 7, matxid = 1\<rparr>] :: CMonitoredAppearance list"
  have c: "contents_of (world0 [(?p, app_bytes ?apps)]) ?p = app_bytes ?apps" by (simp add: contents_of_def file_at_def world0_def)
  have e: "endsWith ?p ''acct.bin''" by code_simp
  have w: "writable (xos xenv0) (world0 [(?p, app_bytes ?apps)]) ?p"
    by (simp add: writable_def clean_name_def xenv0_def os0_def world0_def file_at_def lck_def contains_def)
  have s: "set ?apps - {\<lparr>mablk = 0, matxid = 0\<rparr>} = {\<lparr>mablk = 7, matxid = 1\<rparr>}" by auto
  from clean_dedups [OF c _ e w xenv0_good(5)] show ?thesis unfolding s by fast
qed

section \<open>The life of a monitor\<close>

text \<open>
  C19: Removing a monitor takes two steps. Whatever commands (remove, delete, undelete) are
  given for whatever addresses, all of them succeed, and each monitor goes through the
  states of the relation \<open>life_run\<close>, which the commands determine, with exactly the commands
  given for its address, in their order (\<open>given\<close>: each once for every occurrence of the
  address). The data of a monitor that was not deleted disappears only if, among the
  commands, a deletion comes before a removal.
\<close>

theorem rm_takes_two_steps:
  assumes "unlocked e w" "\<forall>a \<in> set addrs. valid_addr a" "\<forall>c \<in> set cmds. c \<in> {''remove'', ''delete'', ''undelete''}"
    "CHR 0x00 \<notin> set now"
  shows "\<exists>res w'. process_rm e now cmds addrs w = Inr (res, w') \<and>
    (\<forall>b. valid_addr b \<longrightarrow> (\<forall>s. life_run (life e b w) (given cmds addrs b) s \<longleftrightarrow> s = life e b w') \<and>
      (life e b w = (True, False) \<longrightarrow> \<not> fst (life e b w') \<longrightarrow> subseq [''delete'', ''remove''] cmds \<and> b \<in> set addrs))"
proof -
  let ?pairs = "concat (map (\<lambda>c. map (Pair c) addrs) cmds)"
  have "\<forall>(c, a) \<in> set ?pairs. valid_addr a \<and> c \<in> {''remove'', ''delete'', ''undelete''}" using assms(2,3) by fastforce
  from rm_loop_effect [OF assms(1) this assms(4), of "[]"] obtain res w' where
    w': "rm_loop e now ?pairs ([], w) = Inr (res, w')"
    "\<And>b. valid_addr b \<Longrightarrow> life_run (life e b w) (given cmds addrs b) (life e b w')" unfolding given_pairs by blast
  have "subseq [''delete'', ''remove''] cmds \<and> b \<in> set addrs"
    if "valid_addr b" "life e b w = (True, False)" "\<not> fst (life e b w')" for b
    using life_run_two_steps [OF w'(2) [OF that(1)] that(2,3)] by (rule subseq_given) simp
  then show ?thesis using w' life_run_unique unfolding process_rm_def by blast
qed

theorem rm_takes_two_steps_witness:
  "\<exists>res w'. process_rm xenv0 ''now'' [''delete'', ''undelete'', ''remove''] [line_addr line_a]
      (world0 [(acct_name xenv0 (line_addr line_a) False, ''x'')]) = Inr (res, w') \<and> life xenv0 (line_addr line_a) w' = (True, False)"
proof -
  let ?a = "line_addr line_a" and ?cmds = "[''delete'', ''undelete'', ''remove'']"
  let ?w = "world0 [(acct_name xenv0 ?a False, ''x'')]"
  have u: "unlocked xenv0 ?w" using xenv0_good(2,4) by (auto simp: unlocked_def world0_def file_at_def)
  have l: "life xenv0 ?a ?w = (True, False)" by (simp add: life_def world0_def file_at_def)
  have "life_run (True, False) (given ?cmds [?a] ?a) (True, False)"
    by (auto simp: given_def intro!: life_run.intros life_step.intros)
  with rm_takes_two_steps [OF u, of "[?a]" ?cmds "''now''"] show ?thesis
    using sample_facts(4) l by auto
qed

end
