(* ===== verification/Pipeline.thy ===== *)
theory Pipeline
  imports Monitor_Correct "HOL-Library.Multiset"
begin

text \<open>
  The scraper and the monitors together: what the index folder looks like to
  \<^verbatim>\<open>acctExport\<close> after \<^verbatim>\<open>blockScrape\<close> has consolidated a stage into an empty
  index. The two are different processes that share the disk.
\<close>

definition new_process :: "world \<Rightarrow> world" where
  "new_process w = w\<lparr>sectionLocks := 0, removeList := [], polls := 0\<rparr>"

lemma file_at_new_process [simp]: "file_at (new_process w) = file_at w"
  by (simp add: new_process_def file_at_def fun_eq_iff)

lemma last_not_stage:
  assumes "list_all isdigit n"
  shows "last_name e a b \<noteq> stage_name se n"
proof
  assume "last_name e a b = stage_name se n"
  then have "(mon_dir e b @ a) @ ''.last'' = (indexPath se @ ''staging/'') @ n"
    by (simp add: last_name_def stage_name_def)
  from arg_cong [OF this, of last] have "last ((indexPath se @ ''staging/'') @ n) = CHR ''t''" by simp
  then have "n \<noteq> [] \<and> last n = CHR ''t''" by (cases "n = []") auto
  then show False using assms last_in_set [of n] by (auto simp: list_all_iff isdigit_def less_eq_char_def)
qed

lemma acct_not_index:
  assumes "chunk_ok g" "list_all isdigit n"
  shows "acct_name e a b \<noteq> stage_name se n" "acct_name e a b \<notin> names_of se g" "last_name e a b \<notin> names_of se g"
proof -
  note ids = chunk_ids [OF assms(1)]
  have l: "last (acct_name e a b) = CHR ''n''" "last (last_name e a b) = CHR ''t''" "last (stage_name se n) = CHR ''t''"
    "last (temp_name p x y) = CHR ''p''" for p x y
    by (simp_all add: acct_name_def last_name_def stage_name_def temp_name_def)
  then show "acct_name e a b \<noteq> stage_name se n" using arg_cong [of "acct_name e a b" "stage_name se n" last] by auto
  have t: "acct_name e a b \<noteq> temp_name p x y" "last_name e a b \<noteq> temp_name p x y" for p x y
    using l(1,2) l(4) [of p x y] by (auto dest!: arg_cong [where f = last])
  show "acct_name e a b \<notin> names_of se g" "last_name e a b \<notin> names_of se g"
    using acct_not_chunk [OF ids(2,4)] t by (auto simp: names_of_def)
qed

text \<open>After a consolidation into an empty folder, the bloom files are those of the groups.\<close>

lemma sees_groups:
  assumes "good_index (xindexPath e)" "indexPath se = xindexPath e" "\<forall>g \<in> set groups. chunked se w' g \<and> chunk_ok g"
    "\<forall>fn. below (xindexFolder_blooms e) fn \<longrightarrow> file_at w fn = None"
    "\<And>fn. fn \<noteq> stage_name se n \<Longrightarrow> \<forall>g \<in> set groups. fn \<notin> names_of se g \<Longrightarrow> file_at w' fn = file_at w fn"
  shows "sees e w' fn \<longleftrightarrow> fn \<in> set (map (bloom_of e) groups)"
proof
  assume s: "sees e w' fn"
  then have b: "below (xindexFolder_blooms e) fn" "file_at w' fn \<noteq> None" by (auto simp: sees_def)
  have "fn \<noteq> stage_name se n" using b(1) assms(2) by (auto simp: below_def stage_name_def)
  with assms(4,5) b obtain g where g: "g \<in> set groups" "fn \<in> names_of se g" by metis
  then have "fn = bloom_of e g" using b(1) assms(2)
    by (auto simp: names_of_def below_def temp_name_def chunk_name_def)
  then show "fn \<in> set (map (bloom_of e) groups)" using g(1) by auto
next
  assume "fn \<in> set (map (bloom_of e) groups)"
  then obtain g where g: "g \<in> set groups" "fn = bloom_of e g" by auto
  then have ok: "chunked se w' g" "chunk_ok g" using assms(3) by auto
  note ids = chunk_ids [OF ok(2)]
  have ex: "file_at w' fn \<noteq> None" using ok(1) g(2) assms(2) by (auto simp: chunked_def)
  have nd: "\<not> isdigit (CHR ''/'')" "\<not> isdigit (CHR ''.'')" by (simp_all add: isdigit_def less_eq_char_def)
  let ?r = "(chunk_first g @ ''-'' @ chunk_last g) @ ''.bloom''"
  have "CHR ''/'' \<notin> set ?r" using digits_absent [OF ids(1,2) nd(1)] by auto
  then have "find_sub ''/.'' ?r = None" by (intro find_sub_absent [of "CHR ''/''"]) auto
  moreover have "hd (chunk_first g) \<noteq> CHR ''.''" using ids(1,3) nd(2) by (cases "chunk_first g") auto
  moreover have "fn = (xindexPath e @ ''blooms/'') @ ?r" using g(2) by (simp add: bloom_name_def)
  ultimately show "sees e w' fn" using ex ids(3)
    by (auto simp: sees_def below_def contains_def nth_append hd_conv_nth)
qed

lemma mset_apps:
  "mset (concat (map (apps_in a) groups)) = mset (map line_app (filter (\<lambda>l. line_addr l = a) (concat groups)))"
  by (induction groups) (simp_all add: apps_in_def)

lemma MAX_ROWS_12: "12 \<le> MAX_ROWS e"
  by (simp add: MAX_ROWS_def)

lemma consolidate_then_freshen:
  assumes "good_index (indexPath se)" "\<not> pin con" "newStage con = stage_name se n" "list_all isdigit n" "\<forall>i. \<not> quitAsked (os se) i"
    "quiet se w" "sectionLocks w = 0" "\<forall>l \<in> set lines. valid_line l" "sorted (map line_blk lines)"
    "file_at w (stage_name se n) = stage_text lines" "MAX_ROWS se < length lines" "length lines < 2 ^ 31"
    "\<forall>fn. below (xindexFolder_blooms e) fn \<longrightarrow> file_at w fn = None"
    "indexPath se = xindexPath e" "\<forall>fn. creatable (xos e) fn" "\<forall>i. \<not> quitAsked (xos e) i" "good_cache e" "apart e" "valid_addr a"
    "file_at w (acct_name e a False) = None" "file_at w (last_name e a False) = None"
    "allMonitors ob = [new_monitor a]" "possibles ob = []" "listRange ob = (0, newest)" "\<forall>l \<in> set lines. str_2_Uint (line_blk l) \<le> newest"
  shows "\<exists>groups rest w1. consolidate_chunks se con w = Some (Inr (True, w1)) \<and> concat groups @ rest = lines \<and>
    length rest \<le> MAX_ROWS se \<and> file_at w1 (stage_name se n) = stage_text rest \<and>
    (\<exists>ob' w2. process_freshen e False (ob, new_process w1) = Inr (ob', w2) \<and>
      contents_of w2 (acct_name e a False) = app_bytes (map monitored (concat (map (apps_in a) groups))))"
proof -
  have gp: "good_path (indexPath se)" using assms(1) by (simp add: good_index_def)
  from consolidate_effect [OF gp assms(2-10)] obtain groups rest w1 where c: "consolidate_chunks se con w = Some (Inr (True, w1))"
    "concat groups @ rest = lines" "length rest \<le> MAX_ROWS se" "sorted_wrt before (groups @ [rest])"
    "\<forall>g \<in> set groups. MAX_ROWS se \<le> length g \<and> chunked se w1 g" "file_at w1 (stage_name se n) = stage_text rest"
    "\<And>fn. fn \<noteq> stage_name se n \<Longrightarrow> \<forall>g \<in> set groups. fn \<notin> names_of se g \<Longrightarrow> file_at w1 fn = file_at w fn" by metis
  have ok: "chunk_ok g" if "g \<in> set groups" for g
  proof -
    have "g \<noteq> [] \<Longrightarrow> length g \<le> length (concat groups)" using that by (induction groups) auto
    then have "length g \<le> length lines" using c(2) by (cases "g = []") auto
    moreover have "set g \<subseteq> set lines" using c(2) that by auto
    moreover have "12 \<le> length g" using c(5) that MAX_ROWS_12 [of se] order_trans by blast
    ultimately show ?thesis using assms(8,12) by (auto simp: chunk_ok_def)
  qed
  have ne: "groups \<noteq> []" using c(2,3) assms(11) by auto
  have ch: "\<forall>g \<in> set groups. chunked se (new_process w1) g \<and> chunk_ok g"
    using c(5) ok chunked_frame [of se w1 _ "new_process w1"] by simp
  have idx: "index_of e se (new_process w1) groups" using ch assms(1,14) by (simp add: index_of_def)
  have gi: "good_index (xindexPath e)" using assms(1,14) by simp
  have sees: "sees e (new_process w1) fn \<longleftrightarrow> fn \<in> set (map (bloom_of e) groups)" for fn
    by (rule sees_groups [OF gi assms(14) ch assms(13), of n]) (use c(7) in simp)
  obtain g0 where g0: "g0 \<in> set groups" using ne by (cases groups) auto
  have fr: "file_at (new_process w1) (acct_name e a False) = None" "file_at (new_process w1) (last_name e a False) = None"
    using c(7) [of "acct_name e a False"] c(7) [of "last_name e a False"] acct_not_index [OF ok assms(4)]
      acct_not_index(1) [OF ok [OF g0] assms(4)] last_not_stage [OF assms(4)] assms(20,21) by auto
  have rg: "\<forall>g \<in> set groups. rangesIntersect (listRange ob) (str_2_Uint (chunk_first g), str_2_Uint (chunk_last g))"
  proof
    fix g assume "g \<in> set groups"
    moreover from this have "g \<noteq> []" using ok [of g] by (auto simp: chunk_ok_def)
    ultimately have "hd g \<in> set (concat groups)" by (auto intro!: bexI [of _ g])
    then have "hd g \<in> set lines" using c(2) by auto
    then show "rangesIntersect (listRange ob) (str_2_Uint (chunk_first g), str_2_Uint (chunk_last g))"
      using assms(24,25) by (auto simp: rangesIntersect_def not_less)
  qed
  have srt: "sorted_wrt before groups" using c(4) by (simp add: sorted_wrt_append)
  have "map (\<lambda>g. chunk_apps g a) groups = map (apps_in a) groups" using ok by (auto simp: chunk_apps_def)
  moreover have "removeList (new_process w1) = []" "sectionLocks (new_process w1) = 0" by (simp_all add: new_process_def)
  ultimately show ?thesis
    using freshen_effect [OF assms(15-19) _ _ fr idx srt ne sees assms(22,23) rg] c(1-3,6) by (metis (no_types, lifting))
qed

end
