(* ===== verification/Spec2Isabelle.thy ===== *)
theory Spec2Isabelle
  imports Abi_Properties AcctTree_Properties BigNum_Properties Calendar_Properties Export_Properties Pipeline
begin

text \<open>
  TrueBlocks, the C++ part: an index of address appearances on the Ethereum chain, and
  monitors that collect the appearances of single addresses from it. Paths are relative
  to \<^verbatim>\<open>src/src\<close>.

  \<^bold>\<open>The program.\<close> \<^verbatim>\<open>apps/blockScrape\<close> runs the scanner \<^verbatim>\<open>blaze\<close>, which leaves one
  text file per block, with lines of address, block and transaction number. The scraper
  moves the consecutive ripe blocks to a stage, a text file of records, and cuts
  the stage into chunks of about \<^verbatim>\<open>MAX_ROWS\<close> records that end where a block ends. A chunk
  is a binary file with a sorted table of addresses and a table of appearances
  (\<^verbatim>\<open>libs/acctlib/indexing.cpp\<close>), beside it stands a file of bloom filters
  (\<^verbatim>\<open>libs/etherlib/bloom.cpp\<close>). \<^verbatim>\<open>apps/acctExport\<close> freshens a monitor: it visits the
  chunks behind the last block the monitor has seen, skips those whose filters exclude
  the address, and appends what the binary search in the others finds to the file of the
  monitor. \<^verbatim>\<open>libs/utillib\<close> provides files and locks, strings, conversions, dates and big
  integers. The data of the transactions behind the appearances is decoded by the types of
  the parameters (\<^verbatim>\<open>libs/etherlib/abi_decoderlp.cpp\<close>); \<^verbatim>\<open>libs/acctlib/treeroot.cpp\<close> keeps
  accounts in a tree.

  \<^bold>\<open>Theories.\<close>
  \<^item> \<open>Prelude\<close>: faults as values (\<open>fault\<close>, \<open>bindR\<close>), positional numbers, lists and words.
  \<^item> \<open>BigUint\<close>: \<^verbatim>\<open>libs/utillib/biguint.h\<close> and \<^verbatim>\<open>.cpp\<close>, a store is a capacity and a list of
    64-bit blocks. \<open>BigUint_Arith\<close>, \<open>BigUint_MulDiv\<close> and \<open>BigUint_Bits\<close>: every operation
    computes its function on the natural number that the store stands for.
  \<^item> \<open>BigInt\<close>, \<open>BigInt_Arith\<close>: \<^verbatim>\<open>bigint.h\<close> and \<^verbatim>\<open>.cpp\<close>, sign and magnitude, over the interface
    of unsigned arithmetic in \<open>UnsignedArith\<close> (locale \<open>unsigned_arith\<close>).
  \<^item> \<open>BigLib\<close>, \<open>BigLib_Correct\<close>: \<^verbatim>\<open>biglib.cpp\<close>, numbers in a base, texts, gcd, modular power and
    inverse. \<open>BigNum_Properties\<close>: the properties of the big numbers.
  \<^item> \<open>Archive\<close>: the typed reads and writes of \<^verbatim>\<open>sfarchive.cpp\<close> and \<^verbatim>\<open>database.cpp\<close> on bytes (locale \<open>codec\<close>).
    \<open>Strings\<close>, \<open>Strings_Correct\<close>: \<^verbatim>\<open>sfstring.cpp\<close>. \<open>Conversions\<close>: \<^verbatim>\<open>conversions.cpp\<close>.
  \<^item> \<open>Bloom\<close>: \<^verbatim>\<open>libs/etherlib/bloom.cpp\<close>. \<open>IndexChunk\<close>, \<open>IndexChunk_Correct\<close>: writing, reading
    and searching chunks, \<^verbatim>\<open>libs/acctlib/indexing.cpp\<close> and the search of
    \<^verbatim>\<open>apps/acctExport/query_final.cpp\<close>. \<open>Index_Properties\<close>: their properties.
  \<^item> \<open>Files\<close>, \<open>Files_Correct\<close>: text files, lock files, folders, copying and moving, locked
    sections and control+C (\<^verbatim>\<open>sfarchive.cpp\<close>, \<^verbatim>\<open>database.cpp\<close>, \<^verbatim>\<open>sfos.cpp\<close>). The state is the
    record \<open>world\<close>: the disk as an association list, the lock count, the lists of files.
    The disk is a map (locale \<open>file_store\<close>).
  \<^item> \<open>Consolidator\<close>, \<open>Consolidator_Correct\<close>: \<^verbatim>\<open>apps/blockScrape\<close>, from the plan of a scrape to
    the written chunks, and the run states. \<open>Scraper_Properties\<close>: their properties.
  \<^item> \<open>Monitor\<close>, \<open>Monitor_Correct\<close>, \<open>Monitor_Properties\<close>: \<^verbatim>\<open>libs/acctlib/monitor.cpp\<close> and freshening
    (\<^verbatim>\<open>query_final.cpp\<close>, \<^verbatim>\<open>query_freshen.cpp\<close>); a filter without false negatives before a lookup
    loses nothing (locale \<open>guarded_lookup\<close>). \<open>Export\<close>, \<open>Export_Correct\<close>,
    \<open>Export_Properties\<close>: the query of the stage, loading, cleaning, deleting and removing
    monitors; the life of a monitor is the step relation \<open>life_step\<close>.
  \<^item> \<open>Pipeline\<close> and this theory: the scraper and the monitors together.
  \<^item> \<open>Decimal\<close>: decimal digits and the cutting of texts. \<open>Calendar\<close>, \<open>Calendar_Correct\<close>: days and times
    of \<^verbatim>\<open>sftime.cpp\<close>, which are those of the Gregorian calendar (\<open>day_number\<close>). \<open>Periods\<close>,
    \<open>Periods_Correct\<close>: steps and lists of periods (locale \<open>periods\<close>, with hours, days, weeks, months,
    quarters and years as instances). \<open>DateText\<close>, \<open>DateText_Correct\<close>: formats, parsing, Unix times.
    \<open>Calendar_Properties\<close>: their properties.
  \<^item> \<open>AcctTree\<close>: the tree of accounts of \<^verbatim>\<open>libs/acctlib\<close> (\<^verbatim>\<open>leaf.cpp\<close>, \<^verbatim>\<open>infix.cpp\<close>, \<^verbatim>\<open>branch.cpp\<close>,
    \<^verbatim>\<open>treenode.cpp\<close>, \<^verbatim>\<open>treeroot.cpp\<close>). \<open>AcctTree_Correct\<close>: its shape over keys of one length and the set
    of keys it answers for. \<open>AcctTree_Count\<close>: its counters, as a function of the history of insertions,
    and what is left after a removal. \<open>AcctTree_Properties\<close>: its properties.
  \<^item> \<open>AbiNumbers\<close>, \<open>AbiNumbers_Correct\<close>: reading numbers of a width (\<^verbatim>\<open>conversions.cpp\<close>). \<open>AbiParse\<close>,
    \<open>AbiDecode\<close>: the decoder of \<^verbatim>\<open>libs/etherlib/abi_decoderlp.cpp\<close>, its fast functions, the step for one
    parameter and the loop, which ends because the types get smaller. \<open>AbiWords\<close>,
    \<open>AbiDecode_Correct\<close>, \<open>AbiFast_Correct\<close>: values of one word (\<open>abival\<close>) in both decoders.
    \<open>AbiDynamic_Correct\<close>, \<open>AbiEncode\<close>: strings and arrays, the encoding of lists of parameters
    (\<open>abi_encode\<close>) and its inversion. \<open>Abi_Properties\<close>: their properties.

  \<^bold>\<open>How code is modelled.\<close> A function that may throw, divide by zero or leave an array returns
  a \<open>result\<close>, whose left side is the fault. State is passed and returned; machine integers
  are words where their width matters; block counts, sizes and indices of containers are
  natural numbers (but the space for the digits of a number is computed in 32 bits, as the code does). A loop without a bound in the code is a partial function into option,
  where \<open>None\<close> is a run that never ends, and that it ends is part of the theorems. There is
  no fuel.

  \<^bold>\<open>Parameters.\<close> What is not in the repository's C++ code or depends on other processes is an
  argument of the definitions: \<open>env\<close> (which files can be created or moved, which locks
  others hold and when, requests to quit), \<open>scrape_env\<close> and \<open>export_env\<close> (configuration,
  folders, what \<^verbatim>\<open>blaze\<close>, the node and pinning return, whether a chunk can be fetched).
  The theorems state as hypotheses what they need of it, such as that nobody asks to quit.

  \<^bold>\<open>Not modelled.\<close> The node, JSON, RPC and curl (I/O or vendored code), the run-time classes and
  the display of data by field names, the data classes generated from field lists, the
  terminal output of the tools, floating point numbers, the parsing of command lines
  outside the parts named above, the services for pins, and stdio buffering. Within the
  modelled files: progress messages, time stamps of blocks, the main loop of the scraper
  with its sleep, and the visitors of the index that call the node. Of the ABI: loading it, and
  choosing the function or event for the data that is decoded.
\<close>

section \<open>From the stage to the monitors\<close>

text \<open>
  C1: No appearance is lost on the way from the scraper to a monitor. From a stage with
  more than \<^verbatim>\<open>MAX_ROWS\<close> well-formed records in the order of their blocks and an index
  without chunks, \<^verbatim>\<open>consolidate_chunks\<close> writes the records into chunks except for a
  rest of at most \<^verbatim>\<open>MAX_ROWS\<close> that stays on the stage; freshening a new monitor in
  another process (\<^verbatim>\<open>process_freshen\<close>) and loading it (\<^verbatim>\<open>loadAppsFromPath\<close>)
  then gives exactly the appearances of its address in the chunked records, with their
  multiplicities.
\<close>

theorem appearances_reach_monitor:
  assumes "good_index (indexPath se)" "\<not> pin con" "newStage con = stage_name se n" "list_all isdigit n" "\<forall>i. \<not> quitAsked (os se) i"
    "quiet se w" "sectionLocks w = 0" "\<forall>l \<in> set lines. valid_line l" "sorted (map line_blk lines)"
    "file_at w (stage_name se n) = stage_text lines" "MAX_ROWS se < length lines" "length lines < 2 ^ 31"
    "\<forall>fn. below (xindexFolder_blooms e) fn \<longrightarrow> file_at w fn = None"
    "indexPath se = xindexPath e" "\<forall>fn. creatable (xos e) fn" "\<forall>i. \<not> quitAsked (xos e) i" "good_cache e" "apart e" "valid_addr a"
    "file_at w (acct_name e a False) = None" "file_at w (last_name e a False) = None"
    "allMonitors ob = [new_monitor a]" "possibles ob = []" "listRange ob = (0, newest)" "\<forall>l \<in> set lines. str_2_Uint (line_blk l) \<le> newest"
  shows "\<exists>groups rest w1 ob' w2 apps. consolidate_chunks se con w = Some (Inr (True, w1)) \<and> concat groups @ rest = lines \<and>
    length rest \<le> MAX_ROWS se \<and> file_at w1 (stage_name se n) = stage_text rest \<and>
    process_freshen e False (ob, new_process w1) = Inr (ob', w2) \<and>
    loadAppsFromPath e (new_monitor a) [] None w2 [] () = (apps \<noteq> [], apps, ()) \<and>
    mset apps = mset (map (monitored \<circ> line_app) (filter (\<lambda>l. line_addr l = a) (concat groups)))"
proof -
  from consolidate_then_freshen [OF assms] obtain groups rest w1 ob' w2 where
    1: "consolidate_chunks se con w = Some (Inr (True, w1))" "concat groups @ rest = lines" "length rest \<le> MAX_ROWS se"
    "file_at w1 (stage_name se n) = stage_text rest" "process_freshen e False (ob, new_process w1) = Inr (ob', w2)"
    "contents_of w2 (acct_name e a False) = app_bytes (map monitored (concat (map (apps_in a) groups)))" by blast
  have "mset (map monitored (concat (map (apps_in a) groups))) =
      mset (map (monitored \<circ> line_app) (filter (\<lambda>l. line_addr l = a) (concat groups)))"
    using mset_apps [of a groups] by (simp only: mset_map image_mset.compositionality flip: map_map)
  then show ?thesis
    using 1 loadApps_effect [OF 1(6) assms(19), of "new_monitor a" "()"] by (metis new_monitor_fields(1))
qed

theorem appearances_reach_monitor_witness:
  "\<exists>groups rest w1 ob' w2 apps. consolidate_chunks env0 con0
      (world0 [(stage_name env0 ''000000007'', linesToString (replicate 7000 line0) NL)]) = Some (Inr (True, w1)) \<and>
    concat groups @ rest = replicate 7000 line0 \<and>
    process_freshen xenv0 False (xstate0 [new_monitor (line_addr line0)], new_process w1) = Inr (ob', w2) \<and>
    loadAppsFromPath xenv0 (new_monitor (line_addr line0)) [] None w2 [] () = (apps \<noteq> [], apps, ()) \<and> length apps = length (concat groups)"
proof -
  let ?lines = "replicate 7000 line0" and ?a = "line_addr line0"
  let ?w = "world0 [(stage_name env0 ''000000007'', linesToString ?lines NL)]"
  have q: "quiet env0 ?w" by (rule quiet0) (simp add: stage_name_def)
  have st: "file_at ?w (stage_name env0 ''000000007'') = stage_text ?lines"
    by (simp add: file_at_def world0_def stage_text_def)
  have gi: "good_index (indexPath env0)" using xenv0_good(1) by (simp add: xenv0_def env0_def)
  have idx: "indexPath env0 = xindexPath xenv0" by (simp add: env0_def xenv0_def)
  have va: "valid_addr ?a" using line0_valid by (simp add: valid_line_def line_addr_def)
  have dg: "list_all isdigit ''000000007''" by (rule env0_good(5))
  have no: "\<forall>fn. below (xindexFolder_blooms xenv0) fn \<longrightarrow> file_at ?w fn = None"
    by (auto simp: below_def world0_def file_at_def stage_name_def env0_def xenv0_def)
  have fr: "file_at ?w (acct_name xenv0 ?a False) = None" "file_at ?w (last_name xenv0 ?a False) = None"
    using acct_not_index(1) [OF sample_chunk(1) dg, of xenv0 ?a False env0] last_not_stage [OF dg, of xenv0 ?a False env0]
    by (auto simp: world0_def file_at_def)
  have blk: "str_2_Uint (line_blk line0) \<le> 100"
    by (simp add: line_blk_def line0_def str_2_Uint_digits isdigit_def dec_value_def)
  have all: "length (filter (\<lambda>l. line_addr l = ?a) g) = length g" if "set g \<subseteq> {line0}" for g
    using that by (induction g) auto
  obtain groups rest w1 ob' w2 apps where r: "consolidate_chunks env0 con0 ?w = Some (Inr (True, w1))" "concat groups @ rest = ?lines"
    "process_freshen xenv0 False (xstate0 [new_monitor ?a], new_process w1) = Inr (ob', w2)"
    "loadAppsFromPath xenv0 (new_monitor ?a) [] None w2 [] () = (apps \<noteq> [], apps, ())"
    "mset apps = mset (map (monitored \<circ> line_app) (filter (\<lambda>l. line_addr l = ?a) (concat groups)))"
    using appearances_reach_monitor [OF gi env0_good(3,4,5,2) q _ _ _ st _ _ no idx xenv0_good(4,5,2,3) va fr,
        of "xstate0 [new_monitor ?a]" 100] line0_valid blk
    by (fastforce simp: world0_def xstate0_def MAX_ROWS_def env0_def)
  have "set (concat groups) \<subseteq> set ?lines" unfolding r(2) [symmetric] by auto
  then have "length (filter (\<lambda>l. line_addr l = ?a) (concat groups)) = length (concat groups)" by (intro all) simp
  moreover from r(5) have "length apps = length (map (monitored \<circ> line_app) (filter (\<lambda>l. line_addr l = ?a) (concat groups)))"
    by (rule mset_eq_length)
  ultimately have "length apps = length (concat groups)" by simp
  then show ?thesis using r(1-4) by blast
qed

end
